(* ===== verification/Prelude.thy ===== *)
theory Prelude
  imports Main "HOL-Library.Word"
begin

section \<open>Shared vocabulary of the development\<close>

text \<open>
  The types every component uses, Go's error values, and the generic lemmas on lists, sums and
  maps that the component proofs share.

  \<^item> A Go string and a Go byte slice are both sequences of bytes, and the conversions
    \<^verbatim>\<open>string(b)\<close> and \<^verbatim>\<open>[]byte(s)\<close> copy the bytes unchanged; both are the
    HOL type \<^typ>\<open>string\<close>, whose characters are bytes.  Where the source tells a nil slice from
    an empty one, the model uses \<^typ>\<open>string option\<close>.
  \<^item> \<^verbatim>\<open>uint64\<close> and \<^verbatim>\<open>uint\<close> (64 bits on the supported platforms) are
    \<^typ>\<open>64 word\<close>, so that addition, multiplication and shifts wrap around as in Go.
  \<^item> An operation that can fail returns \<^typ>\<open>'e + 'a\<close>, the error on the left.
\<close>

type_synonym bytes = string
type_synonym u64 = "64 word"
type_synonym u32 = "32 word"

text \<open>Facts that rewrite a Go library call to its mathematical content.\<close>

named_theorems go_simps
named_theorems unat_simps

subsection \<open>Go errors\<close>

text \<open>
  An error value is one of the sentinels of the \<^verbatim>\<open>os\<close> package (which the file operations
  return inside a \<^verbatim>\<open>*PathError\<close> or \<^verbatim>\<open>*LinkError\<close>), a sentinel variable of the
  repository, a gRPC status, a plain message, or another error wrapped by
  \<^verbatim>\<open>fmt.Errorf\<close> with \<^verbatim>\<open>%w\<close>.  A message made with \<^verbatim>\<open>%v\<close> keeps no
  link to its argument and is an \<open>Errorf\<close>.  Only the constant part of a message is kept.
\<close>

datatype code =
    OK | Unknown | InvalidArgument | NotFound | AlreadyExists | FailedPrecondition | Internal

datatype go_error =
    ErrNotExist                     \<comment> \<open>os.ErrNotExist in a PathError\<close>
  | ErrExist                        \<comment> \<open>os.ErrExist in a PathError or LinkError\<close>
  | ErrIO                           \<comment> \<open>any other file-system or transport failure\<close>
  | Sentinel string                 \<comment> \<open>errors.New variable of a package\<close>
  | Status code string              \<comment> \<open>status.Errorf\<close>
  | Errorf string                   \<comment> \<open>errors.New, fmt.Errorf without %w\<close>
  | Wrapf string go_error           \<comment> \<open>fmt.Errorf with %w\<close>
  | Panic string                    \<comment> \<open>a run-time panic: no error value, it unwinds the caller\<close>

text \<open>\<^verbatim>\<open>errors.Is\<close> follows the chain of wrapped errors; \<^verbatim>\<open>os.IsNotExist\<close>
  looks at the error itself only.\<close>

fun errors_Is :: "go_error \<Rightarrow> go_error \<Rightarrow> bool" where
  "errors_Is (Wrapf m e) t = (Wrapf m e = t \<or> errors_Is e t)"
| "errors_Is e t = (e = t)"

definition os_IsNotExist :: "go_error \<Rightarrow> bool" where
  "os_IsNotExist e = (e = ErrNotExist)"

fun status_Code :: "go_error \<Rightarrow> code" where
  "status_Code (Status c m) = c"
| "status_Code e = Unknown"

text \<open>A caller that wraps an error value does not see a panic: it passes through unchanged.\<close>

fun is_panic :: "go_error \<Rightarrow> bool" where
  "is_panic (Panic m) = True"
| "is_panic e = False"

definition wrapf :: "string \<Rightarrow> go_error \<Rightarrow> go_error" where
  "wrapf m e = (if is_panic e then e else Wrapf m e)"

definition errorf :: "string \<Rightarrow> go_error \<Rightarrow> go_error" where
  "errorf m e = (if is_panic e then e else Errorf m)"

definition statusf :: "code \<Rightarrow> string \<Rightarrow> go_error \<Rightarrow> go_error" where
  "statusf c m e = (if is_panic e then e else Status c m)"

type_synonym 'a res = "go_error + 'a"

definition is_ok :: "'e + 'a \<Rightarrow> bool" where
  "is_ok r = (case r of Inl _ \<Rightarrow> False | Inr _ \<Rightarrow> True)"

lemma is_ok_simps [simp]: "is_ok (Inr a)" "\<not> is_ok (Inl e)"
  by (simp_all add: is_ok_def)

lemma is_ok_iff: "is_ok r \<longleftrightarrow> (\<exists>a. r = Inr a)"
  by (cases r) auto

lemma errors_Is_refl [simp]: "errors_Is e e"
  by (cases e) auto

lemma os_IsNotExist_simps [simp]:
  "os_IsNotExist ErrNotExist" "\<not> os_IsNotExist ErrExist" "\<not> os_IsNotExist ErrIO"
  "\<not> os_IsNotExist (Wrapf m e)" "\<not> os_IsNotExist (Errorf m)"
  "\<not> os_IsNotExist (Sentinel m)" "\<not> os_IsNotExist (Status c m)"
  by (simp_all add: os_IsNotExist_def)

lemma is_panic_wrap [simp]:
  "is_panic (wrapf m e) = is_panic e" "is_panic (errorf m e) = is_panic e"
  "is_panic (statusf c m e) = is_panic e"
  by (auto simp: wrapf_def errorf_def statusf_def)

subsection \<open>Running a fallible operation over a list\<close>

text \<open>The shape of a Go loop that appends results and returns at the first error.\<close>

fun mapE :: "('a \<Rightarrow> 'e + 'b) \<Rightarrow> 'a list \<Rightarrow> 'e + 'b list" where
  "mapE f [] = Inr []"
| "mapE f (x # xs) =
     (case f x of Inl e \<Rightarrow> Inl e
      | Inr y \<Rightarrow> (case mapE f xs of Inl e \<Rightarrow> Inl e | Inr ys \<Rightarrow> Inr (y # ys)))"

lemma mapE_Inr_iff:
  "mapE f xs = Inr ys \<longleftrightarrow> list_all2 (\<lambda>x y. f x = Inr y) xs ys"
proof (induction xs arbitrary: ys)
  case (Cons x xs)
  show ?case
    by (cases "f x"; cases "mapE f xs") (auto simp: list_all2_Cons1 Cons.IH [symmetric])
qed auto

lemma mapE_all_Inr: "(\<And>x. x \<in> set xs \<Longrightarrow> f x = Inr (g x)) \<Longrightarrow> mapE f xs = Inr (map g xs)"
  by (induction xs) auto

lemma mapE_length: "mapE f xs = Inr ys \<Longrightarrow> length ys = length xs"
  by (auto simp: mapE_Inr_iff dest: list_all2_lengthD)

subsection \<open>Lists\<close>

lemma nth_eq_take_drop: "i < length xs \<Longrightarrow> xs = take i xs @ xs ! i # drop (Suc i) xs"
  by (rule id_take_nth_drop)

lemma filter_all_id: "(\<And>x. x \<in> set xs \<Longrightarrow> P x) \<Longrightarrow> filter P xs = xs"
  by (induction xs) auto

subsection \<open>Words\<close>

lemma unat_lt_u64 [simp]: "unat (x :: u64) < 2 ^ 64"
  using unsigned_less [of x] by simp

lemma unat_lt_u64_num [simp]: "unat (x :: u64) < 18446744073709551616"
  using unat_lt_u64 [of x] by simp

lemma unat_add_u64 [unat_simps]:
  "unat (x :: u64) + unat y < 2 ^ 64 \<Longrightarrow> unat (x + y) = unat x + unat y"
  by (simp add: unat_word_ariths)

lemma unat_Suc_u64 [unat_simps]:
  "unat (x :: u64) + 1 < 2 ^ 64 \<Longrightarrow> unat (x + 1) = unat x + 1"
  by (simp add: unat_word_ariths)

lemma unat_mult_u64 [unat_simps]:
  "unat (x :: u64) * unat y < 2 ^ 64 \<Longrightarrow> unat (x * y) = unat x * unat y"
  by (simp add: unat_word_ariths)

lemma unat_of_nat_u64 [unat_simps]: "n < 2 ^ 64 \<Longrightarrow> unat (of_nat n :: u64) = n"
  by (simp add: unat_of_nat)

lemma of_nat_u64_eq_iff:
  "m < 2 ^ 64 \<Longrightarrow> n < 2 ^ 64 \<Longrightarrow> (of_nat m :: u64) = of_nat n \<longleftrightarrow> m = n"
  by (metis unat_of_nat_u64)

lemma unat_drop_bit_u64 [unat_simps]: "unat (drop_bit n (x :: u64)) = unat x div 2 ^ n"
  by (simp only: unat_drop_bit_eq) (simp add: drop_bit_eq_div)

lemma unat_push_bit_1 [unat_simps]: "n < 64 \<Longrightarrow> unat (push_bit n 1 :: u64) = 2 ^ n"
  using power_strict_increasing [of n 64 "2 :: nat"]
  by (simp only: unsigned_push_bit_eq) (simp add: push_bit_eq_mult take_bit_eq_mod)

lemma unat_pow2_u64 [unat_simps]: "n < 64 \<Longrightarrow> unat (2 ^ n :: u64) = 2 ^ n"
  using unat_push_bit_1 [of n] by (simp only: push_bit_of_1)

end
