(* ===== verification/GoStrings.thy ===== *)
theory GoStrings
  imports Prelude
begin

section \<open>The Go standard library on strings\<close>

text \<open>
  What the sources use of \<^verbatim>\<open>strings\<close>, \<^verbatim>\<open>strconv\<close>, \<^verbatim>\<open>fmt\<close> and
  \<^verbatim>\<open>encoding/base64\<close>, as executable functions on byte strings, and the round trips
  between the printing and the parsing functions.
\<close>

subsection \<open>Numbers: fmt and strconv\<close>

definition digit_char :: "nat \<Rightarrow> char" where
  "digit_char d = char_of (if d < 10 then 48 + d else 87 + d)"

text \<open>The digit of a character, letters in either case, as \<^verbatim>\<open>strconv.ParseUint\<close>
  reads it.\<close>

definition char_digit :: "char \<Rightarrow> nat option" where
  "char_digit c = (let n = of_char c :: nat in
     if 48 \<le> n \<and> n \<le> 57 then Some (n - 48)
     else if 97 \<le> n \<and> n \<le> 122 then Some (n - 87)
     else if 65 \<le> n \<and> n \<le> 90 then Some (n - 55)
     else None)"

text \<open>\<^verbatim>\<open>strconv.FormatUint(n, base)\<close>; \<^verbatim>\<open>%x\<close> is base 16 and \<^verbatim>\<open>%d\<close>
  base 10.\<close>

fun format_uint :: "nat \<Rightarrow> nat \<Rightarrow> string" where
  "format_uint b n =
     (if b < 2 \<or> n < b then [digit_char n] else format_uint b (n div b) @ [digit_char (n mod b)])"

declare format_uint.simps [simp del]

definition pad0 :: "nat \<Rightarrow> string \<Rightarrow> string" where
  "pad0 w s = replicate (w - length s) (CHR ''0'') @ s"

text \<open>\<^verbatim>\<open>%02x\<close> and \<^verbatim>\<open>%04x\<close> on an integer, \<^verbatim>\<open>%0x\<close> on a byte slice.\<close>

definition sprintf_0x :: "nat \<Rightarrow> nat \<Rightarrow> string" where
  "sprintf_0x w n = pad0 w (format_uint 16 n)"

definition hex_bytes :: "bytes \<Rightarrow> string" where
  "hex_bytes bs = concat (map (\<lambda>c. sprintf_0x 2 (of_char c)) bs)"

text \<open>The digit loop of \<^verbatim>\<open>strconv.ParseUint\<close>: a syntax error at the first character
  that is no digit of the base, a range error as soon as the value passes the maximum.\<close>

fun parse_digits :: "nat \<Rightarrow> nat \<Rightarrow> nat \<Rightarrow> string \<Rightarrow> nat res" where
  "parse_digits b mx n [] = Inr n"
| "parse_digits b mx n (c # cs) =
     (case char_digit c of
        None \<Rightarrow> Inl (Sentinel ''strconv.ErrSyntax'')
      | Some d \<Rightarrow>
          if b \<le> d then Inl (Sentinel ''strconv.ErrSyntax'')
          else if mx < n * b + d then Inl (Sentinel ''strconv.ErrRange'')
          else parse_digits b mx (n * b + d) cs)"

definition parse_uint :: "string \<Rightarrow> nat \<Rightarrow> nat \<Rightarrow> nat res" where
  "parse_uint s b bits =
     (if s = [] then Inl (Sentinel ''strconv.ErrSyntax'') else parse_digits b (2 ^ bits - 1) 0 s)"

lemma of_char_digit_char:
  "d < 36 \<Longrightarrow> of_char (digit_char d) = (if d < 10 then 48 + d else 87 + d)"
  by (simp add: digit_char_def)

lemma char_digit_char [simp]: "d < 36 \<Longrightarrow> char_digit (digit_char d) = Some d"
  by (simp add: char_digit_def of_char_digit_char Let_def)

lemma digit_char_0 [simp]: "digit_char 0 = CHR ''0''"
  by (simp add: digit_char_def) (simp add: char_of_def bit_iff_odd)

lemma parse_digits_append:
  "parse_digits b mx n (xs @ ys) =
     (case parse_digits b mx n xs of Inl e \<Rightarrow> Inl e | Inr m \<Rightarrow> parse_digits b mx m ys)"
  by (induction xs arbitrary: n) (auto split: option.splits)

lemma parse_digits_format:
  "\<lbrakk>2 \<le> b; b \<le> 36; n \<le> mx\<rbrakk> \<Longrightarrow> parse_digits b mx 0 (format_uint b n) = Inr n"
proof (induction b n rule: format_uint.induct)
  case (1 b n)
  show ?case
  proof (cases "b < 2 \<or> n < b")
    case True
    with "1.prems" have "n < b" by linarith
    with "1.prems" have "char_digit (digit_char n) = Some n" by simp
    with 1 \<open>n < b\<close> show ?thesis by (simp add: format_uint.simps)
  next
    case False
    then have "n div b < n" by simp
    then have "n div b \<le> mx" using "1.prems" by simp
    with 1 False have "parse_digits b mx 0 (format_uint b (n div b)) = Inr (n div b)" by simp
    moreover have "n mod b < b" using "1.prems" by simp
    moreover have "char_digit (digit_char (n mod b)) = Some (n mod b)"
      using \<open>n mod b < b\<close> "1.prems" by (intro char_digit_char) linarith
    ultimately show ?thesis using False "1.prems"
      by (subst format_uint.simps) (simp add: parse_digits_append not_le)
  qed
qed

lemma format_uint_not_Nil [simp]: "format_uint b n \<noteq> []"
  by (subst format_uint.simps) simp

lemma parse_digits_zeros:
  "2 \<le> b \<Longrightarrow> parse_digits b mx 0 (replicate k (CHR ''0'') @ s) = parse_digits b mx 0 s"
  by (induction k) (simp_all add: char_digit_def)

lemma parse_uint_format [go_simps]:
  "\<lbrakk>2 \<le> b; b \<le> 36; n < 2 ^ bits\<rbrakk> \<Longrightarrow> parse_uint (format_uint b n) b bits = Inr n"
  by (simp add: parse_uint_def parse_digits_format)

lemma parse_uint_pad0 [go_simps]:
  "\<lbrakk>2 \<le> b; b \<le> 36; n < 2 ^ bits\<rbrakk> \<Longrightarrow> parse_uint (pad0 w (format_uint b n)) b bits = Inr n"
  by (simp add: parse_uint_def parse_digits_format parse_digits_zeros pad0_def)

lemma parse_digits_format_range:
  "\<lbrakk>2 \<le> b; b \<le> 36; mx < n\<rbrakk> \<Longrightarrow>
     parse_digits b mx 0 (format_uint b n) = Inl (Sentinel ''strconv.ErrRange'')"
proof (induction b n rule: format_uint.induct)
  case (1 b n)
  have m: "n mod b < b" using "1.prems" by simp
  then have d: "n mod b < b" "char_digit (digit_char (n mod b)) = Some (n mod b)"
    using "1.prems" less_le_trans [OF m] by (auto intro!: char_digit_char)
  show ?case
  proof (cases "n < b")
    case True
    with "1.prems" d show ?thesis by (simp add: format_uint.simps)
  next
    case False
    show ?thesis
    proof (cases "mx < n div b")
      case True
      with False 1 show ?thesis by (subst format_uint.simps) (simp add: parse_digits_append)
    next
      case le: False
      with "1.prems" have "parse_digits b mx 0 (format_uint b (n div b)) = Inr (n div b)"
        by (intro parse_digits_format) auto
      with False "1.prems" d show ?thesis
        by (subst format_uint.simps) (simp add: parse_digits_append not_le)
    qed
  qed
qed

lemma parse_uint_format_range:
  "\<lbrakk>2 \<le> b; b \<le> 36; \<not> n < 2 ^ bits\<rbrakk> \<Longrightarrow>
     parse_uint (format_uint b n) b bits = Inl (Sentinel ''strconv.ErrRange'')"
proof -
  assume "2 \<le> b" "b \<le> 36" "\<not> n < 2 ^ bits"
  moreover from this have "2 ^ bits - 1 < n"
    using zero_less_power [of "2 :: nat" bits] by linarith
  ultimately show ?thesis by (simp add: parse_uint_def parse_digits_format_range del: One_nat_def)
qed

lemma format_uint_inj:
  assumes "2 \<le> b" "b \<le> 36" "format_uint b m = format_uint b n"
  shows "m = n"
proof -
  have "parse_digits b (m + n) 0 (format_uint b m) = Inr m"
    using assms(1,2) by (rule parse_digits_format) simp
  moreover have "parse_digits b (m + n) 0 (format_uint b n) = Inr n"
    using assms(1,2) by (rule parse_digits_format) simp
  ultimately show ?thesis unfolding assms(3) by simp
qed

lemma pad0_format_inj:
  assumes "2 \<le> b" "b \<le> 36" "pad0 w (format_uint b m) = pad0 w' (format_uint b n)"
  shows "m = n"
proof -
  have *: "parse_digits b (m + n) 0 (pad0 w (format_uint b k)) = Inr k" if "k \<le> m + n" for k w
    using assms(1,2) that by (simp add: pad0_def parse_digits_zeros parse_digits_format)
  have "parse_digits b (m + n) 0 (pad0 w (format_uint b m)) = Inr m" by (rule *) simp
  moreover have "parse_digits b (m + n) 0 (pad0 w' (format_uint b n)) = Inr n" by (rule *) simp
  ultimately show ?thesis unfolding assms(3) by simp
qed

lemma length_format_uint:
  assumes "2 \<le> b"
  shows "n < b ^ k \<Longrightarrow> 0 < k \<Longrightarrow> length (format_uint b n) \<le> k"
  using assms
proof (induction b n arbitrary: k rule: format_uint.induct)
  case (1 b n)
  show ?case
  proof (cases "n < b")
    case True
    with 1 show ?thesis by (simp add: format_uint.simps)
  next
    case False
    with 1 have "k \<noteq> 1" by (cases "k = 1") auto
    with 1 obtain j where k: "k = Suc j" "0 < j" by (cases k) auto
    with 1 have "n div b < b ^ j" by (simp add: less_mult_imp_div_less mult.commute)
    with 1 False k have "length (format_uint b (n div b)) \<le> j" by auto
    with False k 1 show ?thesis by (subst format_uint.simps) simp
  qed
qed

lemma length_sprintf_0x:
  "\<lbrakk>n < 16 ^ w; 0 < w\<rbrakk> \<Longrightarrow> length (sprintf_0x w n) = w"
  using length_format_uint [of 16 n w] by (simp add: sprintf_0x_def pad0_def)

text \<open>Numbers consist of digits, so no separator occurs in one.\<close>

lemma set_format_uint:
  assumes "2 \<le> b" "b \<le> 36"
  shows "set (format_uint b n) \<subseteq> digit_char ` {..<b}"
  using assms
proof (induction b n rule: format_uint.induct)
  case (1 b n)
  then show ?case by (subst format_uint.simps) auto
qed

lemma format_uint_digits:
  "\<lbrakk>2 \<le> b; b \<le> 36; c \<in> set (format_uint b n)\<rbrakk> \<Longrightarrow> char_digit c \<noteq> None"
  using set_format_uint [of b n] by force

lemma pad0_digits:
  "\<lbrakk>2 \<le> b; b \<le> 36; c \<in> set (pad0 w (format_uint b n))\<rbrakk> \<Longrightarrow> char_digit c \<noteq> None"
  by (auto simp: pad0_def char_digit_def dest: format_uint_digits [unfolded char_digit_def])

lemma sprintf_0x_digits: "c \<in> set (sprintf_0x w n) \<Longrightarrow> char_digit c \<noteq> None"
  using pad0_digits [of 16 c w n] by (simp add: sprintf_0x_def)

lemma hex_bytes_digits: "c \<in> set (hex_bytes bs) \<Longrightarrow> char_digit c \<noteq> None"
  by (auto simp: hex_bytes_def dest: sprintf_0x_digits)

lemma char_digit_separators [simp]:
  "char_digit (CHR ''/'') = None" "char_digit (CHR ''.'') = None"
  "char_digit (CHR ''+'') = None" "char_digit (CHR 0x0A) = None"
  by (simp_all add: char_digit_def)

subsection \<open>Splitting and trimming: strings\<close>

text \<open>\<^verbatim>\<open>strings.Split(s, sep)\<close> for a separator of one byte.\<close>

fun split_on :: "char \<Rightarrow> string \<Rightarrow> string list" where
  "split_on c [] = [[]]"
| "split_on c (x # xs) =
     (if x = c then [] # split_on c xs
      else (case split_on c xs of [] \<Rightarrow> [[x]] | y # ys \<Rightarrow> (x # y) # ys))"

text \<open>\<^verbatim>\<open>strings.SplitN(s, sep, n)\<close>: at most \<open>n\<close> pieces, the last one unsplit.\<close>

fun splitN :: "char \<Rightarrow> nat \<Rightarrow> string \<Rightarrow> string list" where
  "splitN c 0 s = []"
| "splitN c (Suc 0) s = [s]"
| "splitN c (Suc (Suc n)) s =
     (case dropWhile (\<lambda>x. x \<noteq> c) s of
        [] \<Rightarrow> [s]
      | _ # rest \<Rightarrow> takeWhile (\<lambda>x. x \<noteq> c) s # splitN c (Suc n) rest)"

definition has_prefix :: "string \<Rightarrow> string \<Rightarrow> bool" where
  "has_prefix s p = (take (length p) s = p)"

definition has_suffix :: "string \<Rightarrow> string \<Rightarrow> bool" where
  "has_suffix s p = has_prefix (rev s) (rev p)"

text \<open>
  \<^verbatim>\<open>strings.TrimSpace\<close> removes the runes of \<^verbatim>\<open>unicode.IsSpace\<close> at both
  ends: the six ASCII ones and the UTF-8 encodings of U+0085, U+00A0, U+1680, U+2000 to U+200A,
  U+2028, U+2029, U+202F, U+205F and U+3000.
\<close>

definition space_runes :: "string list" where
  "space_runes =
     [[CHR 0x09], [CHR 0x0A], [CHR 0x0B], [CHR 0x0C], [CHR 0x0D], [CHR 0x20],
      [CHR 0xC2, CHR 0x85], [CHR 0xC2, CHR 0xA0], [CHR 0xE1, CHR 0x9A, CHR 0x80]] @
     map (\<lambda>n. [CHR 0xE2, CHR 0x80, char_of n]) ([128..<139] @ [168, 169, 175 :: nat]) @
     [[CHR 0xE2, CHR 0x81, CHR 0x9F], [CHR 0xE3, CHR 0x80, CHR 0x80]]"

text \<open>Trimming at the front; every round removes at least one byte, so the length of the string
  bounds the number of rounds.\<close>

fun trim_front :: "nat \<Rightarrow> string list \<Rightarrow> string \<Rightarrow> string" where
  "trim_front 0 rs s = s"
| "trim_front (Suc k) rs s =
     (case find (\<lambda>r. has_prefix s r) rs of
        None \<Rightarrow> s
      | Some r \<Rightarrow> trim_front k rs (drop (length r) s))"

definition trim_space :: "string \<Rightarrow> string" where
  "trim_space s =
     (let l = trim_front (length s) space_runes s
      in rev (trim_front (length l) (map rev space_runes) (rev l)))"

lemma split_on_not_Nil [simp]: "split_on c s \<noteq> []"
  by (induction s) (auto split: list.splits)

lemma split_on_no_sep: "c \<notin> set s \<Longrightarrow> split_on c s = [s]"
  by (induction s) auto

lemma split_on_append:
  "c \<notin> set s \<Longrightarrow> split_on c (s @ c # t) = s # split_on c t"
  by (induction s) auto

lemma split_on_lines:
  "\<forall>l \<in> set ls. c \<notin> set l \<Longrightarrow> split_on c (concat (map (\<lambda>l. l @ [c]) ls)) = ls @ [[]]"
  by (induction ls) (auto simp: split_on_append)

text \<open>Lines joined by the separator: what \<open>split_on\<close> inverts.\<close>

fun join_with :: "string \<Rightarrow> string list \<Rightarrow> string" where
  "join_with sep [] = []"
| "join_with sep [x] = x"
| "join_with sep (x # y # ys) = x @ sep @ join_with sep (y # ys)"

lemma join_with_Cons: "ys \<noteq> [] \<Longrightarrow> join_with sep (x # ys) = x @ sep @ join_with sep ys"
  by (cases ys) auto

lemma join_with_append:
  "xs \<noteq> [] \<Longrightarrow> ys \<noteq> [] \<Longrightarrow> join_with sep (xs @ ys) = join_with sep xs @ sep @ join_with sep ys"
proof (induction xs)
  case (Cons x xs)
  then show ?case by (cases xs) (auto simp: join_with_Cons)
qed simp

lemma split_on_join:
  "\<lbrakk>ls \<noteq> []; \<forall>l \<in> set ls. c \<notin> set l\<rbrakk> \<Longrightarrow> split_on c (join_with [c] ls) = ls"
  by (induction "[c]" ls rule: join_with.induct) (auto simp: split_on_no_sep split_on_append)

lemma join_with_Cons_head: "join_with sep ((a # x) # xs) = a # join_with sep (x # xs)"
  by (cases xs) auto

lemma join_split_on: "join_with [c] (split_on c s) = s"
proof (induction s)
  case (Cons a s)
  obtain y ys where "split_on c s = y # ys" by (cases "split_on c s") auto
  with Cons show ?case by (auto simp: join_with_Cons join_with_Cons_head)
qed simp

lemma lines_join:
  "ls \<noteq> [] \<Longrightarrow> concat (map (\<lambda>l. l @ [c]) ls) = join_with [c] ls @ [c]"
  by (induction ls rule: list_nonempty_induct) (auto simp: join_with_Cons)

lemma split_on_pieces: "l \<in> set (split_on c s) \<Longrightarrow> c \<notin> set l"
  by (induction s arbitrary: l) (auto split: if_splits list.splits)

lemma has_prefix_iff: "has_prefix s p \<longleftrightarrow> (\<exists>t. s = p @ t)"
  unfolding has_prefix_def by (metis append_eq_conv_conj append_take_drop_id)

lemma has_prefix_append [simp]: "has_prefix (p @ t) p"
  by (simp add: has_prefix_def)

lemma has_suffix_iff: "has_suffix s p \<longleftrightarrow> (\<exists>t. s = t @ p)"
  unfolding has_suffix_def has_prefix_iff by (metis rev_append rev_rev_ident)

text \<open>Trimming leaves a string alone when neither end starts a space rune, and removes a final
  newline.\<close>

lemma trim_front_id:
  "(\<And>r. r \<in> set rs \<Longrightarrow> \<not> has_prefix s r) \<Longrightarrow> trim_front k rs s = s"
  by (cases k) (auto simp: find_None_iff [THEN iffD2])

definition graphic :: "char \<Rightarrow> bool" where
  "graphic c = (33 \<le> (of_char c :: nat) \<and> (of_char c :: nat) \<le> 126)"

lemma space_runes_not_graphic:
  "list_all (\<lambda>r. r \<noteq> [] \<and> \<not> graphic (hd r) \<and> \<not> graphic (last r)) space_runes"
  by (simp add: space_runes_def graphic_def list_all_iff)

lemma no_space_prefix:
  "r \<in> set space_runes \<Longrightarrow> graphic c \<Longrightarrow> \<not> has_prefix (c # s) r"
  "r \<in> set space_runes \<Longrightarrow> graphic c \<Longrightarrow> \<not> has_prefix (c # s) (rev r)"
  using space_runes_not_graphic
  by (auto simp: list_all_iff has_prefix_iff Cons_eq_append_conv hd_rev [symmetric])
     (metis list.sel(1))

lemma trim_front_graphic:
  "graphic c \<Longrightarrow> trim_front k space_runes (c # s) = c # s"
  "graphic c \<Longrightarrow> trim_front k (map rev space_runes) (c # s) = c # s"
  by (rule trim_front_id; auto dest: no_space_prefix)+

lemma trim_front_newlines:
  assumes "graphic d"
  shows "n \<le> k \<Longrightarrow> trim_front k (map rev space_runes) (replicate n (CHR 0x0A) @ d # s) = d # s"
proof (induction n arbitrary: k)
  case 0
  then show ?case using assms by (simp add: trim_front_graphic)
next
  case (Suc n)
  then obtain j where k: "k = Suc j" "n \<le> j" by (cases k) auto
  have "find (\<lambda>r. has_prefix (CHR 0x0A # t) r) (map rev space_runes) = Some [CHR 0x0A]" for t
    by (simp add: space_runes_def has_prefix_def)
  with k Suc.IH [of j] show ?case by simp
qed

text \<open>The text of a tile: a first digit, a last digit, and newlines after it.\<close>

lemma trim_space_newlines:
  assumes "graphic c" "graphic d"
  shows "trim_space ((c # s @ [d]) @ replicate n (CHR 0x0A)) = c # s @ [d]"
proof -
  have "trim_front k space_runes ((c # s @ [d]) @ replicate n (CHR 0x0A))
      = (c # s @ [d]) @ replicate n (CHR 0x0A)" for k
    using assms(1) by (simp add: trim_front_graphic)
  then show ?thesis using trim_front_newlines [OF assms(2), of n _ "rev (c # s)"]
    by (simp add: trim_space_def Let_def del: trim_front.simps)
qed

end
