(* ===== verification/GoBase64.thy ===== *)
theory GoBase64
  imports GoStrings
begin

section \<open>encoding/base64, standard encoding\<close>

text \<open>
  \<^verbatim>\<open>base64.StdEncoding\<close>: \<open>encode\<close> is \<^verbatim>\<open>EncodeToString\<close>,
  \<open>decode\<close> is \<^verbatim>\<open>DecodeString\<close>.  Decoding skips carriage returns and newlines,
  wants the padding, and (the encoding not being strict) ignores the unused bits of the last
  character.
\<close>

definition b64_char :: "nat \<Rightarrow> char" where
  "b64_char n = char_of (if n < 26 then 65 + n else if n < 52 then 71 + n
     else if n < 62 then n - 4 else if n = 62 then 43 else 47)"

definition b64_val :: "char \<Rightarrow> nat option" where
  "b64_val c = (let n = of_char c :: nat in
     if 65 \<le> n \<and> n \<le> 90 then Some (n - 65)
     else if 97 \<le> n \<and> n \<le> 122 then Some (n - 71)
     else if 48 \<le> n \<and> n \<le> 57 then Some (n + 4)
     else if n = 43 then Some 62
     else if n = 47 then Some 63
     else None)"

fun encode :: "bytes \<Rightarrow> string" where
  "encode [] = []"
| "encode [a] =
     (let x = of_char a * 16 :: nat in [b64_char (x div 64), b64_char (x mod 64), CHR ''='', CHR ''=''])"
| "encode [a, b] =
     (let x = (of_char a * 256 + of_char b) * 4 :: nat in
      [b64_char (x div 4096), b64_char (x div 64 mod 64), b64_char (x mod 64), CHR ''=''])"
| "encode (a # b # c # rest) =
     (let x = of_char a * 65536 + of_char b * 256 + of_char c :: nat in
      [b64_char (x div 262144), b64_char (x div 4096 mod 64), b64_char (x div 64 mod 64),
       b64_char (x mod 64)] @ encode rest)"

fun decode_quanta :: "string \<Rightarrow> bytes res" where
  "decode_quanta [] = Inr []"
| "decode_quanta (p # q # r # s # rest) =
     (case (b64_val p, b64_val q) of
        (Some w, Some x) \<Rightarrow>
          (case b64_val r of
             Some y \<Rightarrow>
               (case b64_val s of
                  Some z \<Rightarrow>
                    (let v = w * 262144 + x * 4096 + y * 64 + z in
                     case decode_quanta rest of Inl e \<Rightarrow> Inl e
                     | Inr bs \<Rightarrow> Inr ([char_of (v div 65536), char_of (v div 256 mod 256),
                                  char_of (v mod 256)] @ bs))
                | None \<Rightarrow>
                    if s = CHR ''='' \<and> rest = []
                    then (let v = w * 4096 + x * 64 + y in
                          Inr [char_of (v div 1024), char_of (v div 4 mod 256)])
                    else Inl (Errorf ''CorruptInputError''))
           | None \<Rightarrow>
               if r = CHR ''='' \<and> s = CHR ''='' \<and> rest = []
               then Inr [char_of ((w * 64 + x) div 16)]
               else Inl (Errorf ''CorruptInputError''))
      | _ \<Rightarrow> Inl (Errorf ''CorruptInputError''))"
| "decode_quanta _ = Inl (Errorf ''CorruptInputError'')"

definition decode :: "string \<Rightarrow> bytes res" where
  "decode s = decode_quanta (filter (\<lambda>c. c \<noteq> CHR 0x0A \<and> c \<noteq> CHR 0x0D) s)"

lemma of_char_b64_char:
  "n < 64 \<Longrightarrow> of_char (b64_char n) = (if n < 26 then 65 + n else if n < 52 then 71 + n
     else if n < 62 then n - 4 else if n = 62 then 43 else 47)"
  by (simp add: b64_char_def)

lemma b64_val_char [simp]: "n < 64 \<Longrightarrow> b64_val (b64_char n) = Some n"
  by (auto simp: b64_val_def of_char_b64_char Let_def)

lemma b64_char_neq: "n < 64 \<Longrightarrow> b64_char n \<notin> {CHR 0x0A, CHR 0x0D, CHR ''=''}"
  using b64_val_char [of n] by (auto simp: b64_val_def simp del: b64_val_char)

lemma b64_char_graphic [simp]: "graphic (b64_char n)"
  by (auto simp: graphic_def b64_char_def)

lemma b64_val_pad [simp]: "b64_val (CHR ''='') = None"
  by (simp add: b64_val_def)

lemma of_char_lt [simp]: "(of_char c :: nat) < 256"
  using nat_of_char_less_256 [of c] .

lemma set_encode: "c \<in> set (encode bs) \<Longrightarrow> graphic c"
  by (induction bs rule: encode.induct) (auto simp: Let_def graphic_def [of "CHR ''=''"])

lemma encode_no_newline: "CHR 0x0A \<notin> set (encode bs)" "CHR 0x0D \<notin> set (encode bs)"
  using set_encode [of "CHR 0x0A" bs] set_encode [of "CHR 0x0D" bs] by (auto simp: graphic_def)

lemma encode_eq_Nil [simp]: "encode bs = [] \<longleftrightarrow> bs = []"
  by (cases bs rule: encode.cases) (auto simp: Let_def)

text \<open>The quanta, by arithmetic on their values.\<close>

lemma sextets: "x div 64 * 64 + x mod 64 = (x :: nat)"
  "x div 4096 * 4096 + x div 64 mod 64 * 64 + x mod 64 = (x :: nat)"
  "x div 262144 * 262144 + x div 4096 mod 64 * 4096 + x div 64 mod 64 * 64 + x mod 64 = (x :: nat)"
proof -
  have *: "y div 64 * 64 + y mod 64 = (y :: nat)" for y by simp
  have d: "x div 4096 = x div 64 div 64" "x div 262144 = x div 4096 div 64"
    by (simp_all add: div_mult2_eq [symmetric])
  show "x div 64 * 64 + x mod 64 = x" by simp
  show 2: "x div 4096 * 4096 + x div 64 mod 64 * 64 + x mod 64 = x"
    using * [of x] * [of "x div 64"] by (simp only: d)
  show "x div 262144 * 262144 + x div 4096 mod 64 * 4096 + x div 64 mod 64 * 64 + x mod 64 = x"
    using 2 * [of "x div 4096"] by (simp only: d)
qed

lemma octets:
  fixes a b c :: nat
  assumes "b < 256" "c < 256"
  shows "(a * 65536 + b * 256 + c) div 65536 = a" "(a * 65536 + b * 256 + c) div 256 mod 256 = b"
    "(a * 65536 + b * 256 + c) mod 256 = c"
    "(a * 256 + b) * 4 div 1024 = a" "(a * 256 + b) * 4 div 4 mod 256 = b"
proof -
  have x: "a * 65536 + b * 256 + c = c + (a * 256 + b) * 256" by simp
  show "(a * 65536 + b * 256 + c) mod 256 = c"
    "(a * 65536 + b * 256 + c) div 256 mod 256 = b"
    unfolding x using assms by (simp_all add: div_mult_self1 del: distrib_right_numeral)
qed (use assms in auto)

lemma quantum_tops:
  fixes a b c :: nat
  assumes "a < 256" "b < 256" "c < 256"
  shows "a * 16 div 64 < 64" "(a * 256 + b) * 4 div 4096 < 64"
    "(a * 65536 + b * 256 + c) div 262144 < 64"
  using assms by auto

lemma decode_quanta_encode: "decode_quanta (encode bs) = Inr bs"
proof (induction bs rule: encode.induct)
  case (2 a)
  have "of_char a * 16 div 16 = (of_char a :: nat)" by simp
  then show ?case
    using quantum_tops(1) [OF of_char_lt [of a] of_char_lt [of a] of_char_lt [of a]]
      sextets(1) [of "of_char a * 16"] by (simp add: Let_def del: div_mult_self1)
next
  case (3 a b)
  note q = quantum_tops(2) [OF of_char_lt [of a] of_char_lt [of b] of_char_lt [of b]]
  show ?case
    using q sextets(2) [of "(of_char a * 256 + of_char b) * 4"]
      octets(4,5) [OF of_char_lt [of b] of_char_lt [of b], of "of_char a"]
    by (simp only: encode.simps decode_quanta.simps Let_def) simp
next
  case (4 a b c rest)
  note q = quantum_tops(3) [OF of_char_lt [of a] of_char_lt [of b] of_char_lt [of c]]
    octets(1,2,3) [OF of_char_lt [of b] of_char_lt [of c], of "of_char a"]
  from 4 show ?case by (simp add: Let_def q sextets del: char_of_mod_256)
qed simp

theorem decode_encode [go_simps, simp]: "decode (encode bs) = Inr bs"
proof -
  have "filter (\<lambda>c. c \<noteq> CHR 0x0A \<and> c \<noteq> CHR 0x0D) (encode bs) = encode bs"
    using encode_no_newline by (intro filter_all_id) metis
  then show ?thesis by (simp add: decode_def decode_quanta_encode)
qed

end
