(* ===== verification/Filepath.thy ===== *)
theory Filepath
  imports GoStrings
begin

section \<open>The Go standard library on paths\<close>

text \<open>
  \<^verbatim>\<open>path/filepath\<close> on Unix: \<open>Clean\<close> and \<open>Join\<close>.  A cleaned path is
  determined by whether it is rooted and by its list of components; the lemmas of this theory move
  every joined path to that form, which is what the storage and the client compare.
\<close>

abbreviation slash :: char where "slash \<equiv> CHR ''/''"

text \<open>One component pushed on the components cleaned so far.\<close>

definition clean_push :: "bool \<Rightarrow> string list \<Rightarrow> string \<Rightarrow> string list" where
  "clean_push rooted st c =
     (if c = [] \<or> c = ''.'' then st
      else if c = ''..'' then
        (if st \<noteq> [] \<and> last st \<noteq> ''..'' then butlast st
         else if rooted then st else st @ [c])
      else st @ [c])"

definition is_rooted :: "string \<Rightarrow> bool" where
  "is_rooted s = has_prefix s ''/''"

definition clean_comps :: "string \<Rightarrow> string list" where
  "clean_comps s = foldl (clean_push (is_rooted s)) [] (split_on slash s)"

definition path_of :: "bool \<Rightarrow> string list \<Rightarrow> string" where
  "path_of rooted cs =
     (let p = (if rooted then ''/'' else []) @ join_with ''/'' cs in if p = [] then ''.'' else p)"

definition Clean :: "string \<Rightarrow> string" where
  "Clean s = path_of (is_rooted s) (clean_comps s)"

definition Join :: "string list \<Rightarrow> string" where
  "Join es = (case dropWhile (\<lambda>e. e = []) es of [] \<Rightarrow> [] | e # es' \<Rightarrow> Clean (join_with ''/'' (e # es')))"

text \<open>A component that cleaning keeps as it is.\<close>

definition normal_comp :: "string \<Rightarrow> bool" where
  "normal_comp c = (c \<noteq> [] \<and> c \<noteq> ''.'' \<and> c \<noteq> ''..'' \<and> slash \<notin> set c)"

lemma split_on_concat: "split_on c (x @ c # y) = split_on c x @ split_on c y"
  by (induction x) (auto split: list.splits)

lemma split_on_join_with:
  "es \<noteq> [] \<Longrightarrow> split_on c (join_with [c] es) = concat (map (split_on c) es)"
proof (induction es)
  case (Cons e es)
  then show ?case by (cases es) (auto simp: join_with_Cons split_on_concat)
qed simp

lemma clean_push_normal: "normal_comp c \<Longrightarrow> clean_push r st c = st @ [c]"
  by (simp add: clean_push_def normal_comp_def)

lemma foldl_clean_push_normal:
  "\<forall>c \<in> set cs. normal_comp c \<Longrightarrow> foldl (clean_push r) st cs = st @ cs"
  by (induction cs arbitrary: st) (auto simp: clean_push_normal)

lemma split_normal [simp]: "normal_comp c \<Longrightarrow> split_on slash c = [c]"
  by (simp add: normal_comp_def split_on_no_sep)

lemma concat_split_normal:
  "\<forall>c \<in> set cs. normal_comp c \<Longrightarrow> concat (map (split_on slash) cs) = cs"
  by (induction cs) auto

lemma is_rooted_join: "e \<noteq> [] \<Longrightarrow> is_rooted (join_with ''/'' (e # es)) = is_rooted e"
  by (cases es; cases e) (auto simp: is_rooted_def has_prefix_def)

lemma normal_not_rooted: "normal_comp c \<Longrightarrow> \<not> is_rooted c"
  by (cases c) (auto simp: is_rooted_def has_prefix_def normal_comp_def)

text \<open>The components of a root directory, the empty string standing for "no root".\<close>

definition root_comps :: "string \<Rightarrow> string list" where
  "root_comps root = (if root = [] then [] else clean_comps root)"

lemma Join_root:
  assumes "cs \<noteq> []" "\<forall>c \<in> set cs. normal_comp c"
  shows "Join (root # cs) = path_of (is_rooted root) (root_comps root @ cs)"
proof (cases "root = []")
  case True
  obtain c cs' where cs: "cs = c # cs'" using assms(1) by (cases cs) auto
  have "c \<noteq> []" "\<not> is_rooted c" using assms(2) cs by (auto simp: normal_comp_def normal_not_rooted)
  then have "Join (root # cs) = Clean (join_with ''/'' cs)"
    using True cs by (simp add: Join_def)
  also have "\<dots> = path_of False cs"
    using assms cs \<open>c \<noteq> []\<close> \<open>\<not> is_rooted c\<close>
    by (simp add: Clean_def clean_comps_def is_rooted_join split_on_join_with concat_split_normal
        foldl_clean_push_normal clean_push_normal del: join_with.simps)
  finally show ?thesis using True by (simp add: root_comps_def is_rooted_def has_prefix_def)
next
  case False
  then have "Join (root # cs) = Clean (join_with ''/'' (root # cs))" by (simp add: Join_def)
  then show ?thesis using False assms
    by (simp add: Clean_def clean_comps_def is_rooted_join split_on_join_with concat_split_normal
        foldl_clean_push_normal root_comps_def del: join_with.simps)
qed

text \<open>What cleaning leaves: \<open>..\<close> only at the front of a path that is not rooted.\<close>

definition cleaned :: "bool \<Rightarrow> string list \<Rightarrow> bool" where
  "cleaned r cs = (\<exists>k ns. cs = replicate k ''..'' @ ns \<and> (\<forall>c \<in> set ns. normal_comp c) \<and> (r \<longrightarrow> k = 0))"

lemma cleaned_push:
  assumes "cleaned r st" "slash \<notin> set c"
  shows "cleaned r (clean_push r st c)"
proof -
  obtain k ns where st: "st = replicate k ''..'' @ ns" "\<forall>c \<in> set ns. normal_comp c" "r \<longrightarrow> k = 0"
    using assms(1) by (auto simp: cleaned_def)
  consider "c = [] \<or> c = ''.''" | "c = ''..''" "ns = []" | "c = ''..''" "ns \<noteq> []" | "normal_comp c"
    using assms(2) by (auto simp: normal_comp_def)
  then show ?thesis
  proof cases
    case 1
    then show ?thesis using assms(1) by (auto simp: clean_push_def)
  next
    case 2
    then have "clean_push r st c = (if r then [] else replicate (Suc k) ''..'')"
      using st by (cases k) (auto simp: clean_push_def replicate_append_same)
    then show ?thesis unfolding cleaned_def
      by (metis append_Nil2 empty_iff list.set(1) replicate_0)
  next
    case 3
    then have "last ns \<noteq> ''..''" using st(2) last_in_set by (force simp: normal_comp_def)
    with 3 have "clean_push r st c = replicate k ''..'' @ butlast ns"
      using st by (auto simp: clean_push_def butlast_append)
    then show ?thesis using st unfolding cleaned_def by (metis in_set_butlastD)
  next
    case 4
    then have "clean_push r st c = replicate k ''..'' @ (ns @ [c])"
      using st by (simp add: clean_push_normal)
    moreover have "\<forall>x \<in> set (ns @ [c]). normal_comp x" using st(2) 4 by simp
    ultimately show ?thesis using st(3) unfolding cleaned_def by blast
  qed
qed

lemma cleaned_clean_comps: "cleaned (is_rooted s) (clean_comps s)"
proof -
  have "cleaned r st \<Longrightarrow> \<forall>c \<in> set cs. slash \<notin> set c \<Longrightarrow> cleaned r (foldl (clean_push r) st cs)"
    for r st cs
    by (induction cs arbitrary: st) (auto simp: cleaned_push)
  moreover have "cleaned r []" for r by (simp add: cleaned_def)
  ultimately show ?thesis by (auto simp: clean_comps_def dest: split_on_pieces)
qed

lemma foldl_clean_push_dotdots:
  "foldl (clean_push False) (replicate j ''..'') (replicate k ''..'') = replicate (j + k) ''..''"
proof (induction k arbitrary: j)
  case (Suc k)
  have "clean_push False (replicate j ''..'') ''..'' = replicate (Suc j) ''..''"
    by (cases j) (auto simp: clean_push_def replicate_append_same)
  with Suc [of "Suc j"] show ?case by simp
qed simp

lemma foldl_cleaned: "cleaned r cs \<Longrightarrow> foldl (clean_push r) [] cs = cs"
proof -
  assume "cleaned r cs"
  then obtain k ns where cs: "cs = replicate k ''..'' @ ns" "\<forall>c \<in> set ns. normal_comp c" "r \<longrightarrow> k = 0"
    by (auto simp: cleaned_def)
  show ?thesis
  proof (cases "k = 0")
    case True
    with cs show ?thesis by (simp add: foldl_clean_push_normal)
  next
    case False
    with cs have "\<not> r" by simp
    then show ?thesis unfolding cs(1) using cs(2) foldl_clean_push_dotdots [of 0 k]
      by (simp add: foldl_clean_push_normal)
  qed
qed

lemma cleaned_no_slash: "cleaned r cs \<Longrightarrow> c \<in> set cs \<Longrightarrow> slash \<notin> set c \<and> c \<noteq> []"
proof -
  assume "cleaned r cs" "c \<in> set cs"
  then obtain k ns where "c \<in> set (replicate k ''..'' @ ns)" "\<forall>c \<in> set ns. normal_comp c"
    unfolding cleaned_def by metis
  then have "c = ''..'' \<or> normal_comp c" by auto
  then show ?thesis by (auto simp: normal_comp_def)
qed

lemma join_cleaned_head:
  assumes "cleaned r (c # cs)"
  shows "\<exists>x xs. join_with ''/'' (c # cs) = x # xs \<and> x \<noteq> slash"
  using cleaned_no_slash [OF assms, of c] by (cases c; cases cs) auto

lemma is_rooted_path_of: "cleaned r cs \<Longrightarrow> is_rooted (path_of r cs) = r"
proof (cases cs)
  case (Cons c cs')
  assume "cleaned r cs"
  with join_cleaned_head [of r c cs'] Cons obtain x xs
    where "join_with ''/'' cs = x # xs" "x \<noteq> slash" by auto
  then show ?thesis by (simp add: path_of_def is_rooted_def has_prefix_def)
qed (auto simp: path_of_def is_rooted_def has_prefix_def)

lemma clean_comps_path_of:
  assumes "cleaned r cs"
  shows "clean_comps (path_of r cs) = cs"
proof (cases "cs = []")
  case True
  then show ?thesis
    by (cases r) (simp_all add: path_of_def clean_comps_def clean_push_def)
next
  case False
  have ns: "concat (map (split_on slash) cs) = cs"
    using cleaned_no_slash [OF assms] by (induction cs) (auto simp: split_on_no_sep)
  have ne: "join_with ''/'' cs \<noteq> []"
    using False join_cleaned_head assms by (cases cs) force+
  have "split_on slash (path_of r cs) = (if r then [[]] else []) @ cs"
    using False ns ne by (simp add: path_of_def split_on_join_with)
  then show ?thesis using is_rooted_path_of [OF assms] foldl_cleaned [OF assms]
    by (cases r) (simp_all add: clean_comps_def clean_push_def [of _ _ "[]"])
qed

lemma path_of_inj:
  "\<lbrakk>cleaned r cs; cleaned r cs'; path_of r cs = path_of r cs'\<rbrakk> \<Longrightarrow> cs = cs'"
  using clean_comps_path_of by metis

lemma cleaned_append_normal:
  "\<lbrakk>cleaned r cs; \<forall>c \<in> set ds. normal_comp c\<rbrakk> \<Longrightarrow> cleaned r (cs @ ds)"
  unfolding cleaned_def
proof (elim exE conjE)
  fix k ns
  assume "cs = replicate k ''..'' @ ns" "\<forall>c \<in> set ns. normal_comp c" "r \<longrightarrow> k = 0"
    "\<forall>c \<in> set ds. normal_comp c"
  then show "\<exists>k ns. cs @ ds = replicate k ''..'' @ ns \<and> (\<forall>c \<in> set ns. normal_comp c) \<and> (r \<longrightarrow> k = 0)"
    by (intro exI [of _ k] exI [of _ "ns @ ds"]) auto
qed

lemma cleaned_root_comps [simp]: "cleaned (is_rooted root) (root_comps root)"
  using cleaned_clean_comps by (auto simp: root_comps_def) (simp add: cleaned_def)

text \<open>The directory and the file name a layout function returns, joined again.\<close>

lemma path_of_not_Nil [simp]: "path_of r cs \<noteq> []"
  by (simp add: path_of_def Let_def)

lemma Join_path_of:
  assumes "cleaned r cs" "normal_comp f"
  shows "Join [path_of r cs, f] = path_of r (cs @ [f])"
  using Join_root [of "[f]" "path_of r cs"] assms
  by (simp add: root_comps_def clean_comps_path_of is_rooted_path_of)

end
