(* ===== verification/Layout.thy ===== *)
theory Layout
  imports Filepath
begin

unbundle bit_operations_syntax

section \<open>serverless/api/layout: where things are stored\<close>

text \<open>
  The path of a sequenced entry, of the leaf-hash index file and of a tile, with the inverse of the
  first, and the arithmetic that maps a node of the log's tree to the tile that holds it.  Shown:
  every path function is injective, \<open>SeqFromPath\<close> inverts \<open>SeqPath\<close> exactly on
  sequence numbers below \<open>2 ^ 40\<close>, and the tile arithmetic is a bijection between node
  coordinates and addresses inside tiles.
\<close>

definition CheckpointPath :: string where
  "CheckpointPath = ''checkpoint''"

definition byte_at :: "nat \<Rightarrow> u64 \<Rightarrow> nat" where
  "byte_at k x = unat (drop_bit k x AND 0xff)"

definition SeqPath :: "string \<Rightarrow> u64 \<Rightarrow> string \<times> string" where
  "SeqPath root seq =
     (Join [root, ''seq'', sprintf_0x 2 (unat (drop_bit 32 seq)), sprintf_0x 2 (byte_at 24 seq),
        sprintf_0x 2 (byte_at 16 seq), sprintf_0x 2 (byte_at 8 seq)],
      sprintf_0x 2 (byte_at 0 seq))"

text \<open>The separator test of \<^verbatim>\<open>SeqFromPath\<close>, in the order of the source's
  \<^verbatim>\<open>||\<close>: an index outside the string panics, but only when every earlier one was a
  separator.\<close>

fun check_seps :: "string \<Rightarrow> nat list \<Rightarrow> unit res" where
  "check_seps s [] = Inr ()"
| "check_seps s (i # is) =
     (if length s \<le> i then Inl (Panic ''index out of range'')
      else if s ! i \<noteq> slash then Inl (Errorf ''seqPath format invalid'')
      else check_seps s is)"

definition slice :: "nat \<Rightarrow> nat \<Rightarrow> 'a list \<Rightarrow> 'a list" where
  "slice i j s = drop i (take j s)"

definition SeqFromPath :: "string \<Rightarrow> string \<Rightarrow> u64 res" where
  "SeqFromPath root seqPath =
     (let seqDir = Join [root, ''seq''] in
      if \<not> has_prefix seqPath seqDir then Inl (Errorf ''invalid seqPath, doesn't start with prefix'')
      else
        (let s = drop (length seqDir) seqPath in
         case check_seps s [0, 3, 6, 9, 12] of
           Inl e \<Rightarrow> Inl e
         | Inr _ \<Rightarrow>
             (case parse_uint (slice 1 3 s @ slice 4 6 s @ slice 7 9 s @ slice 10 12 s @ drop 13 s) 16 64 of
                Inl e \<Rightarrow> Inl e
              | Inr n \<Rightarrow> Inr (of_nat n))))"

definition LeafPath :: "string \<Rightarrow> bytes \<Rightarrow> (string \<times> string) res" where
  "LeafPath root leafhash =
     (if length leafhash < 3 then Inl (Panic ''index out of range'')
      else Inr (Join [root, ''leaves'', sprintf_0x 2 (of_char (leafhash ! 0)),
                  sprintf_0x 2 (of_char (leafhash ! 1)), sprintf_0x 2 (of_char (leafhash ! 2))],
                hex_bytes (drop 3 leafhash)))"

definition TilePath :: "string \<Rightarrow> u64 \<Rightarrow> u64 \<Rightarrow> u64 \<Rightarrow> string \<times> string" where
  "TilePath root level index partialTileSize =
     (let suffix = (if 0 < partialTileSize then ''.'' @ sprintf_0x 2 (unat partialTileSize) else []) in
      (Join [root, ''tile'', sprintf_0x 2 (unat level), sprintf_0x 4 (unat (drop_bit 24 index)),
         sprintf_0x 2 (byte_at 16 index), sprintf_0x 2 (byte_at 8 index)],
       sprintf_0x 2 (byte_at 0 index) @ suffix))"

definition PartialTileSize :: "u64 \<Rightarrow> u64 \<Rightarrow> u64 \<Rightarrow> u64" where
  "PartialTileSize level index logSize =
     (let sizeAtLevel = drop_bit (unat (level * 8)) logSize;
          fullTiles = sizeAtLevel div 256
      in if index < fullTiles then 0 else sizeAtLevel mod 256)"

definition NodeCoordsToTileAddress :: "u64 \<Rightarrow> u64 \<Rightarrow> u64 \<times> u64 \<times> u64 \<times> u64" where
  "NodeCoordsToTileAddress treeLevel treeIndex =
     (let tileRowWidth = push_bit (unat (8 - treeLevel mod 8)) 1 :: u64;
          tileLevel = treeLevel div 8;
          tileIndex = treeIndex div tileRowWidth;
          nodeLevel = treeLevel mod 8;
          nodeIndex = treeIndex mod tileRowWidth
      in (tileLevel, tileIndex, nodeLevel, nodeIndex))"

subsection \<open>Bytes of a number\<close>

lemma byte_at_eq: "byte_at k x = unat x div 2 ^ k mod 256"
proof -
  have "(0xff :: u64) = mask 8" by (simp add: mask_eq_exp_minus_1)
  then have "byte_at k x = unat (take_bit 8 (drop_bit k x))"
    unfolding byte_at_def by (simp only: take_bit_eq_mask)
  then show ?thesis
    by (simp only: unsigned_take_bit_eq unat_drop_bit_u64) (simp add: take_bit_eq_mod)
qed

lemma byte_at_lt [simp]: "byte_at k x < 256"
  by (simp add: byte_at_eq)

lemma sprintf_byte:
  assumes "d < 256"
  shows "sprintf_0x 2 d = [digit_char (d div 16), digit_char (d mod 16)]"
proof (cases "d < 16")
  case True
  then show ?thesis by (simp add: sprintf_0x_def pad0_def format_uint.simps)
next
  case False
  with assms have "d div 16 < 16" by auto
  with False show ?thesis
    by (simp add: sprintf_0x_def pad0_def format_uint.simps [of 16 d] format_uint.simps [of 16 "d div 16"])
qed

lemma length_sprintf_byte [simp]: "d < 256 \<Longrightarrow> length (sprintf_0x 2 d) = 2"
  by (simp add: sprintf_byte)

lemma parse_digits_byte:
  assumes "d < 256" "n * 256 + d \<le> mx"
  shows "parse_digits 16 mx n (sprintf_0x 2 d) = Inr (n * 256 + d)"
proof -
  have lt: "d div 16 < 16" "d mod 16 < 16" using assms by auto
  have eq: "(n * 16 + d div 16) * 16 + d mod 16 = n * 256 + d" by simp
  have "n * 16 + d div 16 \<le> mx" using assms(2) eq by linarith
  moreover have "d div 16 < 36" "d mod 16 < 36" using lt by linarith+
  ultimately show ?thesis using assms lt eq
    by (simp add: sprintf_byte not_le not_less)
qed

lemma sprintf_0x_not_Nil [simp]: "sprintf_0x w n \<noteq> []"
  by (simp add: sprintf_0x_def pad0_def)

lemma normal_comp_digits:
  assumes "c \<noteq> []" "\<And>x. x \<in> set c \<Longrightarrow> char_digit x \<noteq> None"
  shows "normal_comp c"
  using assms(2) [of slash] assms(2) [of "CHR ''.''"] assms(1)
  by (auto simp: normal_comp_def)

lemma normal_sprintf [simp]: "normal_comp (sprintf_0x w n)"
  by (rule normal_comp_digits) (auto dest: sprintf_0x_digits)

lemma normal_names [simp]:
  "normal_comp ''seq''" "normal_comp ''leaves''" "normal_comp ''tile''" "normal_comp ''checkpoint''"
  by (simp_all add: normal_comp_def)

subsection \<open>Paths as components\<close>

text \<open>\<^verbatim>\<open>filepath.Join(layout.SeqPath(...))\<close> and the like: directory and file joined.\<close>

definition JoinPair :: "string \<times> string \<Rightarrow> string" where
  "JoinPair p = Join [fst p, snd p]"

definition seq_comps :: "u64 \<Rightarrow> string list" where
  "seq_comps seq = [''seq'', sprintf_0x 2 (unat (drop_bit 32 seq)), sprintf_0x 2 (byte_at 24 seq),
     sprintf_0x 2 (byte_at 16 seq), sprintf_0x 2 (byte_at 8 seq), sprintf_0x 2 (byte_at 0 seq)]"

definition tile_comps :: "u64 \<Rightarrow> u64 \<Rightarrow> u64 \<Rightarrow> string list" where
  "tile_comps level index ps = [''tile'', sprintf_0x 2 (unat level),
     sprintf_0x 4 (unat (drop_bit 24 index)), sprintf_0x 2 (byte_at 16 index),
     sprintf_0x 2 (byte_at 8 index),
     sprintf_0x 2 (byte_at 0 index) @ (if 0 < ps then ''.'' @ sprintf_0x 2 (unat ps) else [])]"

definition leaf_comps :: "bytes \<Rightarrow> string list" where
  "leaf_comps lh = [''leaves'', sprintf_0x 2 (of_char (lh ! 0)), sprintf_0x 2 (of_char (lh ! 1)),
     sprintf_0x 2 (of_char (lh ! 2)), hex_bytes (drop 3 lh)]"

lemma JoinPair_root:
  assumes "\<forall>c \<in> set cs. normal_comp c" "normal_comp f" "cs \<noteq> []"
  shows "JoinPair (Join (root # cs), f) = path_of (is_rooted root) (root_comps root @ cs @ [f])"
  using assms Join_root [of cs root]
  by (simp add: JoinPair_def Join_path_of cleaned_append_normal)

lemma hex_bytes_eq_Nil [simp]: "hex_bytes bs = [] \<longleftrightarrow> bs = []"
  by (cases bs) (auto simp: hex_bytes_def)

lemma normal_hex_bytes: "bs \<noteq> [] \<Longrightarrow> normal_comp (hex_bytes bs)"
  by (rule normal_comp_digits) (auto dest: hex_bytes_digits)

lemma normal_tile_file: "normal_comp (sprintf_0x 2 a @ CHR ''.'' # sprintf_0x 2 b)"
proof -
  have "sprintf_0x 2 b \<noteq> []" "sprintf_0x 2 a \<noteq> []" by simp_all
  then obtain x xs y ys where xy: "sprintf_0x 2 a = x # xs" "sprintf_0x 2 b = y # ys"
    by (meson neq_Nil_conv)
  have "char_digit x \<noteq> None" using sprintf_0x_digits [of x 2 a] xy by simp
  then have "x \<noteq> CHR ''.''" by auto
  moreover have "slash \<notin> set (sprintf_0x 2 a)" "slash \<notin> set (sprintf_0x 2 b)"
    using sprintf_0x_digits [of slash] by auto
  ultimately show ?thesis by (auto simp: normal_comp_def xy)
qed

lemma normal_seq_comps: "c \<in> set (seq_comps seq) \<Longrightarrow> normal_comp c"
  by (auto simp: seq_comps_def)

lemma normal_tile_comps: "c \<in> set (tile_comps l i ps) \<Longrightarrow> normal_comp c"
  by (auto simp: tile_comps_def normal_tile_file)

lemma normal_leaf_comps: "3 < length lh \<Longrightarrow> c \<in> set (leaf_comps lh) \<Longrightarrow> normal_comp c"
  by (auto simp: leaf_comps_def normal_hex_bytes)

lemma SeqPath_comps:
  "JoinPair (SeqPath root seq) = path_of (is_rooted root) (root_comps root @ seq_comps seq)"
  unfolding SeqPath_def seq_comps_def by (subst JoinPair_root) auto

lemma TilePath_comps:
  "JoinPair (TilePath root l i ps) = path_of (is_rooted root) (root_comps root @ tile_comps l i ps)"
  unfolding TilePath_def tile_comps_def Let_def
  by (subst JoinPair_root) (auto simp: normal_tile_file)

lemma LeafPath_comps:
  "3 < length lh \<Longrightarrow> \<exists>p. LeafPath root lh = Inr p \<and>
     JoinPair p = path_of (is_rooted root) (root_comps root @ leaf_comps lh)"
  by (auto simp: LeafPath_def leaf_comps_def JoinPair_root normal_hex_bytes)

lemma path_of_root_eq_iff:
  assumes "\<And>c. c \<in> set cs \<Longrightarrow> normal_comp c" "\<And>c. c \<in> set ds \<Longrightarrow> normal_comp c"
  shows "path_of (is_rooted root) (root_comps root @ cs) = path_of (is_rooted root) (root_comps root @ ds)
     \<longleftrightarrow> cs = ds"
  using path_of_inj [of "is_rooted root" "root_comps root @ cs" "root_comps root @ ds"] assms
    cleaned_append_normal [OF cleaned_root_comps] by auto

subsection \<open>Paths are injective\<close>

lemma sprintf_0x_inj [simp]: "sprintf_0x w a = sprintf_0x w b \<longleftrightarrow> a = b"
  using pad0_format_inj [of 16 w a w b] by (auto simp: sprintf_0x_def)

lemma base256_5:
  fixes n :: nat
  shows "n = (((n div 2 ^ 32 * 256 + n div 2 ^ 24 mod 256) * 256 + n div 2 ^ 16 mod 256) * 256
     + n div 2 ^ 8 mod 256) * 256 + n mod 256"
proof -
  have *: "m div 256 * 256 + m mod 256 = m" for m :: nat by simp
  have d: "n div 2 ^ 8 = n div 256" "n div 2 ^ 16 = n div 2 ^ 8 div 256" "n div 2 ^ 24 = n div 2 ^ 16 div 256"
    "n div 2 ^ 32 = n div 2 ^ 24 div 256" by (simp_all add: div_mult2_eq [symmetric])
  show ?thesis by (simp only: d *)
qed

lemma seq_comps_inj: "seq_comps a = seq_comps b \<longleftrightarrow> a = b"
proof
  assume "seq_comps a = seq_comps b"
  then have "unat a div 2 ^ 32 = unat b div 2 ^ 32" "unat a div 2 ^ 24 mod 256 = unat b div 2 ^ 24 mod 256"
    "unat a div 2 ^ 16 mod 256 = unat b div 2 ^ 16 mod 256"
    "unat a div 2 ^ 8 mod 256 = unat b div 2 ^ 8 mod 256" "unat a mod 256 = unat b mod 256"
    by (simp_all add: seq_comps_def byte_at_eq unat_drop_bit_u64)
  then have "unat a = unat b" using base256_5 [of "unat a"] base256_5 [of "unat b"] by simp
  then show "a = b" by (simp only: word_unat_eq_iff)
qed simp

text \<open>Two sequence numbers, two tiles (at whatever level, index and width) or two leaf hashes never
  share a path, and the three kinds of path never meet each other or the checkpoint.\<close>

lemma byte_tail_inj:
  assumes "unat a div 2 ^ 24 = unat b div 2 ^ 24" "byte_at 16 a = byte_at 16 b"
    "byte_at 8 a = byte_at 8 b" "byte_at 0 a = byte_at 0 b"
  shows "a = b"
proof -
  have "unat a div 2 ^ 32 = unat b div 2 ^ 32"
  proof -
    have "n div 2 ^ 32 = n div 2 ^ 24 div 256" for n :: nat by (simp add: div_mult2_eq [symmetric])
    then show ?thesis by (simp only: assms(1))
  qed
  then have "unat a = unat b"
    using base256_5 [of "unat a"] base256_5 [of "unat b"] assms by (simp add: byte_at_eq)
  then show ?thesis by (simp only: word_unat_eq_iff)
qed

lemma dot_suffix_inj:
  assumes "sprintf_0x 2 a @ (if P then ''.'' @ x else []) = sprintf_0x 2 b @ (if Q then ''.'' @ y else [])"
  shows "a = b \<and> P = Q \<and> (P \<longrightarrow> x = y)"
proof -
  have tw: "takeWhile (\<lambda>c. c \<noteq> CHR ''.'') (sprintf_0x 2 n @ (if R then ''.'' @ z else [])) = sprintf_0x 2 n"
    for n R z
    using sprintf_0x_digits [of "CHR ''.''" 2 n] by (subst takeWhile_append2) auto
  have "sprintf_0x 2 a = sprintf_0x 2 b" using assms tw by metis
  moreover from this have "(if P then ''.'' @ x else []) = (if Q then ''.'' @ y else [])"
    using assms by simp
  ultimately show ?thesis by (auto split: if_splits)
qed

lemma tile_comps_inj: "tile_comps l i ps = tile_comps l' i' ps' \<longleftrightarrow> l = l' \<and> i = i' \<and> ps = ps'"
proof
  assume eq: "tile_comps l i ps = tile_comps l' i' ps'"
  then have l: "unat l = unat l'" and b: "unat i div 2 ^ 24 = unat i' div 2 ^ 24"
    "byte_at 16 i = byte_at 16 i'" "byte_at 8 i = byte_at 8 i'"
    by (simp_all add: tile_comps_def unat_drop_bit_u64)
  from eq have "byte_at 0 i = byte_at 0 i' \<and> (0 < ps) = (0 < ps') \<and> (0 < ps \<longrightarrow> unat ps = unat ps')"
    unfolding tile_comps_def using dot_suffix_inj [of "byte_at 0 i" "0 < ps" "sprintf_0x 2 (unat ps)"]
    by force
  moreover from this have "ps = ps'"
    by (cases "0 < ps") (auto simp: word_unat_eq_iff word_gt_0)
  ultimately show "l = l' \<and> i = i' \<and> ps = ps'" using l b byte_tail_inj by (auto simp: word_unat_eq_iff)
qed simp

lemma hex_bytes_inj: "hex_bytes a = hex_bytes b \<longleftrightarrow> a = b"
proof
  show "hex_bytes a = hex_bytes b \<Longrightarrow> a = b"
  proof (induction a arbitrary: b)
    case Nil
    then show ?case using hex_bytes_eq_Nil [of b] by (simp add: hex_bytes_def)
  next
    case (Cons x a)
    from Cons.prems hex_bytes_eq_Nil [of "x # a"] have "hex_bytes b \<noteq> []" by auto
    then obtain y b' where b: "b = y # b'" by (cases b) (auto simp: hex_bytes_def)
    have eq: "sprintf_0x 2 (of_char x) @ hex_bytes a = sprintf_0x 2 (of_char y) @ hex_bytes b'"
      using Cons.prems b by (simp add: hex_bytes_def)
    have "sprintf_0x 2 (of_char x :: nat) = sprintf_0x 2 (of_char y) \<and> hex_bytes a = hex_bytes b'"
      using eq length_sprintf_byte [OF nat_of_char_less_256 [of x]]
        length_sprintf_byte [OF nat_of_char_less_256 [of y]]
      by (intro append_eq_append_conv [THEN iffD1]) auto
    then show ?case using Cons.IH b by simp
  qed
qed simp

lemma leaf_comps_inj:
  assumes "3 \<le> length a" "3 \<le> length b" "leaf_comps a = leaf_comps b"
  shows "a = b"
proof -
  have split3: "xs = xs ! 0 # xs ! 1 # xs ! 2 # drop 3 xs" if "3 \<le> length xs" for xs :: bytes
    using that by (auto simp: numeral_3_eq_3 Suc_le_length_iff)
  show ?thesis using assms split3 [of a] split3 [of b]
    by (auto simp: leaf_comps_def hex_bytes_inj)
qed

text \<open>Everything the log keeps in its directory, and the path each thing has.\<close>

datatype stored_object =
    SeqObj u64 | LeafObj bytes | TileObj u64 u64 u64 | CheckpointObj

fun object_path :: "string \<Rightarrow> stored_object \<Rightarrow> string res" where
  "object_path root (SeqObj s) = Inr (JoinPair (SeqPath root s))"
| "object_path root (LeafObj lh) = map_sum id JoinPair (LeafPath root lh)"
| "object_path root (TileObj l i ps) = Inr (JoinPair (TilePath root l i ps))"
| "object_path root CheckpointObj = Inr (Join [root, CheckpointPath])"

fun object_comps :: "stored_object \<Rightarrow> string list" where
  "object_comps (SeqObj s) = seq_comps s"
| "object_comps (LeafObj lh) = leaf_comps lh"
| "object_comps (TileObj l i ps) = tile_comps l i ps"
| "object_comps CheckpointObj = [CheckpointPath]"

fun object_ok :: "stored_object \<Rightarrow> bool" where
  "object_ok (LeafObj lh) = (3 < length lh)"
| "object_ok _ = True"

lemma object_path_comps:
  "object_ok ob \<Longrightarrow>
     object_path root ob = Inr (path_of (is_rooted root) (root_comps root @ object_comps ob))"
  using LeafPath_comps [of _ root]
  by (cases ob) (force simp: SeqPath_comps TilePath_comps, force,
      force simp: SeqPath_comps TilePath_comps, simp add: Join_root CheckpointPath_def)

lemma normal_object_comps: "object_ok ob \<Longrightarrow> c \<in> set (object_comps ob) \<Longrightarrow> normal_comp c"
  by (cases ob) (auto simp: CheckpointPath_def dest: normal_seq_comps normal_tile_comps normal_leaf_comps)

lemma object_comps_inj:
  assumes "object_ok a" "object_ok b" "object_comps a = object_comps b"
  shows "a = b"
proof -
  have "hd (object_comps a) = hd (object_comps b)" using assms(3) by simp
  then show ?thesis using assms leaf_comps_inj
    by (cases a; cases b)
      (auto simp: seq_comps_inj tile_comps_inj,
       auto simp: seq_comps_def tile_comps_def leaf_comps_def CheckpointPath_def)
qed

lemma object_path_eq_iff:
  "\<lbrakk>object_ok a; object_ok b\<rbrakk> \<Longrightarrow> object_path root a = object_path root b \<longleftrightarrow> a = b"
  using path_of_root_eq_iff [of "object_comps a" "object_comps b" root,
      OF normal_object_comps [of a] normal_object_comps [of b]]
    object_comps_inj [of a b] by (auto simp: object_path_comps)

subsection \<open>Sequence numbers and their paths\<close>

lemma parse_seq_bytes:
  assumes "seq < 2 ^ 40"
  shows "parse_uint (sprintf_0x 2 (unat (drop_bit 32 seq)) @ sprintf_0x 2 (byte_at 24 seq)
     @ sprintf_0x 2 (byte_at 16 seq) @ sprintf_0x 2 (byte_at 8 seq) @ sprintf_0x 2 (byte_at 0 seq)) 16 64
     = Inr (unat seq)"
proof -
  let ?n = "unat seq"
  have lt: "?n < 2 ^ 40" using assms by (simp add: word_less_nat_alt)
  have e: "?n = (((?n div 2 ^ 32 * 256 + byte_at 24 seq) * 256 + byte_at 16 seq) * 256
     + byte_at 8 seq) * 256 + byte_at 0 seq"
    using base256_5 [of ?n] by (simp add: byte_at_eq)
  have "?n div 2 ^ 32 < 256" using lt by (simp add: less_mult_imp_div_less)
  then have "unat (drop_bit 32 seq) < 256" by (simp add: unat_drop_bit_u64)
  moreover have "?n \<le> 2 ^ 64 - 1" using lt by simp
  ultimately show ?thesis using e
    by (simp add: parse_uint_def parse_digits_append parse_digits_byte unat_drop_bit_u64)
qed

text \<open>The part of the path after the \<open>seq\<close> directory.\<close>

lemma seq_path_split:
  "JoinPair (SeqPath root seq) = Join [root, ''seq''] @ ''/'' @ sprintf_0x 2 (unat (drop_bit 32 seq))
     @ ''/'' @ sprintf_0x 2 (byte_at 24 seq) @ ''/'' @ sprintf_0x 2 (byte_at 16 seq)
     @ ''/'' @ sprintf_0x 2 (byte_at 8 seq) @ ''/'' @ sprintf_0x 2 (byte_at 0 seq)"
proof -
  let ?b = "root_comps root @ [''seq'']"
  have "join_with ''/'' (?b @ cs) = join_with ''/'' ?b @ ''/'' @ join_with ''/'' cs" if "cs \<noteq> []" for cs
    using that by (intro join_with_append) auto
  moreover have "join_with ''/'' ?b \<noteq> []"
    by (cases "root_comps root = []") (auto simp: join_with_append)
  moreover have "Join [root, ''seq''] = path_of (is_rooted root) ?b"
    by (simp add: Join_root)
  ultimately show ?thesis
    by (simp add: SeqPath_comps seq_comps_def path_of_def Let_def)
qed

lemma SeqFromPath_small:
  assumes "seq < 2 ^ 40"
  shows "SeqFromPath root (JoinPair (SeqPath root seq)) = Inr seq"
proof -
  have "unat seq div 2 ^ 32 < 256"
    using assms by (intro less_mult_imp_div_less) (simp add: word_less_nat_alt)
  then have "unat (drop_bit 32 seq) < 256" by (simp add: unat_drop_bit_u64)
  then obtain a b c d e f g h i j where
    bs: "sprintf_0x 2 (unat (drop_bit 32 seq)) = [a, b]" "sprintf_0x 2 (byte_at 24 seq) = [c, d]"
      "sprintf_0x 2 (byte_at 16 seq) = [e, f]" "sprintf_0x 2 (byte_at 8 seq) = [g, h]"
      "sprintf_0x 2 (byte_at 0 seq) = [i, j]"
    by (simp add: sprintf_byte)
  show ?thesis using parse_seq_bytes [OF assms]
    by (simp add: SeqFromPath_def seq_path_split bs slice_def)
qed

lemma sprintf_0x_long: "256 \<le> n \<Longrightarrow> 3 \<le> length (sprintf_0x 2 n)"
proof -
  assume "256 \<le> n"
  then have "\<not> n < 16" "\<not> n div 16 < 16" by auto
  then have "3 \<le> length (format_uint 16 n)"
    using format_uint_not_Nil [of 16 "n div 16 div 16"]
    by (subst format_uint.simps, subst format_uint.simps) (cases "format_uint 16 (n div 16 div 16)", auto)
  then show ?thesis by (simp add: sprintf_0x_def pad0_def)
qed

lemma SeqFromPath_large:
  assumes "\<not> seq < 2 ^ 40"
  shows "SeqFromPath root (JoinPair (SeqPath root seq)) = Inl (Errorf ''seqPath format invalid'')"
proof -
  have "2 ^ 40 \<le> unat seq" using assms by (simp add: word_less_nat_alt)
  then have "2 ^ 40 div 2 ^ 32 \<le> unat seq div 2 ^ 32" by (rule div_le_mono)
  then have "256 \<le> unat (drop_bit 32 seq)" by (simp add: unat_drop_bit_u64)
  from sprintf_0x_long [OF this] obtain a b c xs
    where s: "sprintf_0x 2 (unat (drop_bit 32 seq)) = a # b # c # xs"
    by (auto simp: numeral_3_eq_3 Suc_le_length_iff)
  have "char_digit c \<noteq> None" using sprintf_0x_digits [of c] s by (metis list.set_intros)
  then have "c \<noteq> slash" by auto
  then show ?thesis by (simp add: SeqFromPath_def seq_path_split s)
qed

subsection \<open>Tile arithmetic\<close>

text \<open>The coordinates as natural numbers: no step of the computation wraps around.\<close>

definition tile_addr :: "nat \<Rightarrow> nat \<Rightarrow> nat \<times> nat \<times> nat \<times> nat" where
  "tile_addr l i = (l div 8, i div 2 ^ (8 - l mod 8), l mod 8, i mod 2 ^ (8 - l mod 8))"

lemma unat_mod8 [unat_simps]: "unat (x mod 8 :: u64) = unat x mod 8"
  by (simp add: unat_mod)

lemma unat_8_minus [unat_simps]: "unat (8 - x mod 8 :: u64) = 8 - unat x mod 8"
  by (subst unat_sub) (simp_all add: word_le_nat_alt unat_mod8)

lemma NodeCoords_unat:
  assumes "NodeCoordsToTileAddress l i = (tlv, ti, nl, ni)"
  shows "(unat tlv, unat ti, unat nl, unat ni) = tile_addr (unat l) (unat i)"
proof -
  have "unat (2 ^ (8 - unat l mod 8) :: u64) = 2 ^ (8 - unat l mod 8)"
    by (rule unat_pow2_u64) simp
  then show ?thesis using assms
    by (auto simp: NodeCoordsToTileAddress_def tile_addr_def Let_def unat_div unat_mod unat_8_minus)
qed

text \<open>An address in a tile determines the node: the tile holds levels \<open>8 * tlv\<close> to
  \<open>8 * tlv + 7\<close>, and its row at node level \<open>nl\<close> has \<open>2 ^ (8 - nl)\<close> nodes.\<close>

lemma tile_addr_inverse:
  assumes "tile_addr l i = (tlv, ti, nl, ni)"
  shows "l = 8 * tlv + nl" "i = ti * 2 ^ (8 - nl) + ni" "nl < 8" "ni < 2 ^ (8 - nl)"
  using assms div_mult_mod_eq [of i "2 ^ (8 - nl)"] by (auto simp: tile_addr_def)

lemma tile_addr_inj: "tile_addr l i = tile_addr l' i' \<longleftrightarrow> l = l' \<and> i = i'"
  by (metis prod_cases4 tile_addr_inverse(1,2))

lemma tile_addr_intro:
  assumes "nl < 8" "ni < 2 ^ (8 - nl)"
  shows "tile_addr (8 * tlv + nl) (ti * 2 ^ (8 - nl) + ni) = (tlv, ti, nl, ni)"
  using assms by (simp add: tile_addr_def)

lemma unat_level8 [unat_simps]: "level < 8 \<Longrightarrow> unat (level * 8 :: u64) = unat level * 8"
  by (rule unat_mult_u64 [where y = 8, simplified]) (simp add: word_less_nat_alt)

definition partial_size :: "nat \<Rightarrow> nat \<Rightarrow> nat \<Rightarrow> nat" where
  "partial_size l i n = (if i < n div 256 ^ l div 256 then 0 else n div 256 ^ l mod 256)"

lemma PartialTileSize_unat:
  assumes "level < 8"
  shows "unat (PartialTileSize level index n) = partial_size (unat level) (unat index) (unat n)"
proof -
  have p: "(2 :: nat) ^ (unat level * 8) = 256 ^ unat level"
    using power_mult [of "2 :: nat" 8 "unat level"] by (simp add: mult.commute)
  show ?thesis using assms
    by (simp add: PartialTileSize_def partial_size_def Let_def unat_level8 unat_drop_bit_u64 unat_div
        unat_mod word_less_nat_alt p)
qed

lemma PartialTileSize_lt: "PartialTileSize level index n < 256"
  by (simp add: PartialTileSize_def Let_def word_less_nat_alt unat_mod)

end
