(* ===== verification/TileState.thy ===== *)
theory TileState
  imports GoBase64 Layout
begin

section \<open>serverless/api/state.go: tiles\<close>

text \<open>
  A tile is a subtree of up to 256 leaves and eight levels, its nodes linearised in order.  The model
  keeps the difference between a nil node and an empty one, because the client tests it; text
  written by \<open>MarshalText\<close> has no such difference.  Shown: what reading a written tile gives, for
  every tile; that node keys are injective, in order and below 511.
\<close>

record Tile =
  NumLeaves :: u64
  Nodes :: "bytes option list"

definition node_bytes :: "bytes option \<Rightarrow> bytes" where
  "node_bytes n = (case n of None \<Rightarrow> [] | Some b \<Rightarrow> b)"

abbreviation newline :: char where "newline \<equiv> CHR 0x0A"

definition MarshalText :: "Tile \<Rightarrow> bytes" where
  "MarshalText t =
     format_uint 10 32 @ [newline] @ format_uint 10 (unat (NumLeaves t)) @ [newline] @
     concat (map (\<lambda>n. encode (node_bytes n) @ [newline]) (Nodes t))"

definition UnmarshalText :: "bytes \<Rightarrow> Tile res" where
  "UnmarshalText raw =
     (let lines = split_on newline (trim_space raw) in
      case parse_uint (lines ! 0) 10 16 of
        Inl e \<Rightarrow> Inl (Wrapf ''unable to parse hash size'' e)
      | Inr hs \<Rightarrow>
          if hs \<noteq> 32 then Inl (Errorf ''invalid hash size'')
          else if length lines \<le> 1 then Inl (Panic ''index out of range'')
          else
            (case parse_uint (lines ! 1) 10 16 of
               Inl e \<Rightarrow> Inl (Wrapf ''unable to parse numLeaves'' e)
             | Inr numLeaves \<Rightarrow>
                 (case mapE decode (drop 2 lines) of
                    Inl e \<Rightarrow> Inl (Wrapf ''unable to parse nodehash'' e)
                  | Inr nodes \<Rightarrow>
                      Inr \<lparr>NumLeaves = of_nat numLeaves, Nodes = map Some nodes\<rparr>)))"

definition TileNodeKey :: "u64 \<Rightarrow> u64 \<Rightarrow> u64" where
  "TileNodeKey level index = push_bit (unat (level + 1)) 1 * index + push_bit (unat level) 1 - 1"

subsection \<open>Reading back a written tile\<close>

text \<open>Empty nodes at the end of a tile leave blank lines that \<^verbatim>\<open>TrimSpace\<close> drops.\<close>

definition drop_trailing_empty :: "bytes option list \<Rightarrow> bytes option list" where
  "drop_trailing_empty ns = rev (dropWhile (\<lambda>n. node_bytes n = []) (rev ns))"

lemma drop_trailing_empty_split:
  "\<exists>k. ns = drop_trailing_empty ns @ k \<and> (\<forall>n \<in> set k. node_bytes n = [])"
proof -
  have "rev ns = takeWhile (\<lambda>n. node_bytes n = []) (rev ns) @ dropWhile (\<lambda>n. node_bytes n = []) (rev ns)"
    by simp
  then have "ns = drop_trailing_empty ns @ rev (takeWhile (\<lambda>n. node_bytes n = []) (rev ns))"
    unfolding drop_trailing_empty_def by (metis rev_append rev_rev_ident)
  moreover have "\<forall>n \<in> set (rev (takeWhile (\<lambda>n. node_bytes n = []) (rev ns))). node_bytes n = []"
    by (auto dest: set_takeWhileD)
  ultimately show ?thesis by blast
qed

lemma last_drop_trailing_empty:
  "drop_trailing_empty ns \<noteq> [] \<Longrightarrow> node_bytes (last (drop_trailing_empty ns)) \<noteq> []"
  using hd_dropWhile [of "\<lambda>n. node_bytes n = []" "rev ns"]
  by (auto simp: drop_trailing_empty_def last_rev)

lemma drop_trailing_empty_id:
  "ns = [] \<or> node_bytes (last ns) \<noteq> [] \<Longrightarrow> drop_trailing_empty ns = ns"
  by (cases ns rule: rev_cases) (auto simp: drop_trailing_empty_def)

lemma digit_char_graphic: "d < 36 \<Longrightarrow> graphic (digit_char d)"
  by (simp add: graphic_def of_char_digit_char)

lemma format_uint_graphic: "c \<in> set (format_uint 10 n) \<Longrightarrow> graphic c"
  using set_format_uint [of 10 n] by (auto intro!: digit_char_graphic)

lemma format_uint_no_newline: "newline \<notin> set (format_uint 10 n)"
  using format_uint_digits [of 10 newline n] by auto

lemma empty_lines:
  "\<forall>n \<in> set k. node_bytes n = [] \<Longrightarrow>
     concat (map (\<lambda>n. encode (node_bytes n) @ [newline]) k) = replicate (length k) newline"
  by (induction k) auto

text \<open>The text of a tile without trailing empty nodes is its lines, joined, and a newline.\<close>

definition tile_lines :: "Tile \<Rightarrow> string list" where
  "tile_lines t = format_uint 10 32 # format_uint 10 (unat (NumLeaves t)) #
     map (\<lambda>n. encode (node_bytes n)) (drop_trailing_empty (Nodes t))"

lemma MarshalText_lines:
  "\<exists>m. MarshalText t = join_with [newline] (tile_lines t) @ replicate (Suc m) newline"
proof -
  obtain k where k: "Nodes t = drop_trailing_empty (Nodes t) @ k" "\<forall>n \<in> set k. node_bytes n = []"
    using drop_trailing_empty_split by blast
  have "MarshalText t = concat (map (\<lambda>l. l @ [newline]) (tile_lines t)) @
      concat (map (\<lambda>n. encode (node_bytes n) @ [newline]) k)"
    unfolding MarshalText_def by (subst k(1)) (simp add: tile_lines_def comp_def)
  also have "\<dots> = join_with [newline] (tile_lines t) @ replicate (Suc (length k)) newline"
    using k(2) by (subst lines_join) (auto simp: tile_lines_def empty_lines)
  finally show ?thesis by blast
qed

lemma tile_lines_no_newline: "l \<in> set (tile_lines t) \<Longrightarrow> newline \<notin> set l"
  using format_uint_no_newline encode_no_newline by (auto simp: tile_lines_def)

lemma last_join_with: "xs \<noteq> [] \<Longrightarrow> last xs \<noteq> [] \<Longrightarrow>
    join_with sep xs \<noteq> [] \<and> last (join_with sep xs) = last (last xs)"
proof (induction xs)
  case (Cons x xs)
  then show ?case by (cases xs) (auto simp: join_with_Cons)
qed simp

lemma trim_space_MarshalText: "trim_space (MarshalText t) = join_with [newline] (tile_lines t)"
proof -
  let ?j = "join_with [newline] (tile_lines t)"
  have "graphic (last (format_uint 10 n))" for n
    by (rule format_uint_graphic [of _ n]) simp
  moreover have "bs \<noteq> [] \<Longrightarrow> graphic (last (encode bs))" for bs
    by (rule set_encode [of _ bs]) simp
  ultimately have last: "last (tile_lines t) \<noteq> []" "graphic (last (last (tile_lines t)))"
    using last_drop_trailing_empty [of "Nodes t"] by (auto simp: tile_lines_def last_map)
  have j: "?j \<noteq> []" "last ?j = last (last (tile_lines t))"
    using last_join_with [of "tile_lines t" "[newline]"] last(1) by (auto simp: tile_lines_def)
  have f32: "format_uint 10 32 = ''32''"
    by (simp add: format_uint.simps [of 10 32] format_uint.simps [of 10 3] digit_char_def)
      (simp add: char_of_def bit_iff_odd)
  obtain r where r: "?j = CHR ''3'' # CHR ''2'' # r"
    by (simp add: tile_lines_def f32)
  then have "?j = CHR ''3'' # butlast (CHR ''2'' # r) @ [last ?j]" by simp
  moreover have "graphic (CHR ''3'')" by (simp add: graphic_def)
  moreover obtain m where "MarshalText t = ?j @ replicate (Suc m) newline"
    using MarshalText_lines by blast
  ultimately show ?thesis using trim_space_newlines last(2) j(2) by metis
qed

lemma split_tile_lines: "split_on newline (trim_space (MarshalText t)) = tile_lines t"
  unfolding trim_space_MarshalText
proof (rule split_on_join)
  show "tile_lines t \<noteq> []" by (simp add: tile_lines_def)
qed (use tile_lines_no_newline in blast)

lemma UnmarshalText_MarshalText:
  "UnmarshalText (MarshalText t) =
     (if unat (NumLeaves t) < 2 ^ 16
      then Inr (t\<lparr>Nodes := map (Some \<circ> node_bytes) (drop_trailing_empty (Nodes t))\<rparr>)
      else Inl (Wrapf ''unable to parse numLeaves'' (Sentinel ''strconv.ErrRange'')))"
proof -
  have nodes: "mapE decode (map (\<lambda>n. encode (node_bytes n)) ns) = Inr (map node_bytes ns)" for ns
    by (induction ns) auto
  have 32: "parse_uint (format_uint 10 32) 10 16 = Inr 32" by (rule parse_uint_format) simp_all
  have lines: "tile_lines t ! 0 = format_uint 10 32" "tile_lines t ! Suc 0 = format_uint 10 (unat (NumLeaves t))"
    "drop 2 (tile_lines t) = map (\<lambda>n. encode (node_bytes n)) (drop_trailing_empty (Nodes t))"
    "\<not> length (tile_lines t) \<le> Suc 0"
    by (simp_all add: tile_lines_def numeral_2_eq_2)
  show ?thesis
  proof (cases "unat (NumLeaves t) < 2 ^ 16")
    case True
    then have "parse_uint (format_uint 10 (unat (NumLeaves t))) 10 16 = Inr (unat (NumLeaves t))"
      by (intro parse_uint_format) simp_all
    then show ?thesis using True
      by (simp add: UnmarshalText_def Let_def split_tile_lines lines 32 nodes)
  next
    case False
    then have "parse_uint (format_uint 10 (unat (NumLeaves t))) 10 16 = Inl (Sentinel ''strconv.ErrRange'')"
      by (intro parse_uint_format_range) simp_all
    then show ?thesis using False
      by (simp add: UnmarshalText_def Let_def split_tile_lines lines 32)
  qed
qed

subsection \<open>Node keys\<close>

lemma pow2_odd_inj:
  "2 ^ a * (2 * m + 1) = 2 ^ b * (2 * n + 1 :: nat) \<longleftrightarrow> a = b \<and> m = n"
proof (induction a arbitrary: b)
  case 0
  show ?case
  proof (cases b)
    case (Suc c)
    have "2 * m + 1 \<noteq> 2 * (2 ^ c * (2 * n + 1))" by presburger
    then show ?thesis using Suc by (auto simp: mult.assoc)
  qed auto
next
  case (Suc a)
  show ?case
  proof (cases b)
    case 0
    have "2 * (2 ^ a * (2 * m + 1)) \<noteq> 2 * n + 1" by presburger
    then show ?thesis using 0 by (auto simp: mult.assoc)
  next
    case (Suc c)
    have "2 ^ Suc a * (2 * m + 1) = 2 ^ b * (2 * n + 1) \<longleftrightarrow> 2 ^ a * (2 * m + 1) = 2 ^ c * (2 * n + 1)"
      unfolding Suc by (simp only: power_Suc mult.assoc mult_cancel1) simp
    then show ?thesis using Suc.IH [of c] Suc by simp
  qed
qed

definition node_key :: "nat \<Rightarrow> nat \<Rightarrow> nat" where
  "node_key nl ni = 2 ^ nl * (2 * ni + 1) - 1"

lemma node_key_inj: "node_key a m = node_key b n \<longleftrightarrow> a = b \<and> m = n"
proof -
  have "0 < 2 ^ k * (2 * j + 1 :: nat)" for j k by simp
  then show ?thesis unfolding node_key_def
    using pow2_odd_inj [of a m b n] by (metis Suc_pred' diff_Suc_1)
qed

lemma node_key_lt:
  assumes "nl < 8" "ni < 2 ^ (8 - nl)"
  shows "node_key nl ni < 511"
proof -
  have "2 ^ nl * (2 * ni + 1) \<le> 2 ^ nl * (2 * 2 ^ (8 - nl) - 1)"
    using assms by (intro mult_le_mono) auto
  also have "\<dots> = 512 - 2 ^ nl"
    using assms(1) power_add [of "2 :: nat" nl "8 - nl"] by (simp add: right_diff_distrib')
  also have "\<dots> \<le> 511" using zero_less_power [of "2 :: nat" nl] by linarith
  finally show ?thesis by (simp add: node_key_def)
qed

text \<open>In order: a node stands between the rightmost node of its left subtree and the leftmost node
  of its right subtree.\<close>

lemma node_key_children:
  "node_key l (2 * i) + 2 ^ l = node_key (Suc l) i" "node_key (Suc l) i + 2 ^ l = node_key l (2 * i + 1)"
  by (simp_all add: node_key_def algebra_simps)

lemma TileNodeKey_unat:
  assumes "unat nl < 8" "unat ni < 2 ^ (8 - unat nl)"
  shows "unat (TileNodeKey nl ni) = node_key (unat nl) (unat ni)"
proof -
  let ?l = "unat nl" and ?i = "unat ni"
  have lt: "node_key ?l ?i < 511" by (rule node_key_lt) (use assms in auto)
  have l1: "unat (nl + 1) = ?l + 1" using assms(1) by (intro unat_Suc_u64) simp
  have pw: "unat (push_bit ?l 1 :: u64) = 2 ^ ?l" "unat (push_bit (?l + 1) 1 :: u64) = 2 ^ (?l + 1)"
    using assms(1) by (auto simp only: unat_push_bit_1)
  have key: "2 ^ (?l + 1) * ?i + 2 ^ ?l = Suc (node_key ?l ?i)"
    by (simp add: node_key_def algebra_simps)
  have b: "2 ^ (?l + 1) * ?i + 2 ^ ?l < (2 :: nat) ^ 64" unfolding key using lt by simp
  then have b': "2 ^ (?l + 1) * ?i < (2 :: nat) ^ 64" by linarith
  have mult: "unat (push_bit (?l + 1) 1 * ni :: u64) = 2 ^ (?l + 1) * ?i"
    using unat_mult_u64 [of "push_bit (?l + 1) 1" ni, unfolded pw, OF b'] .
  have add: "unat (push_bit (?l + 1) 1 * ni + push_bit ?l 1 :: u64) = Suc (node_key ?l ?i)"
    using unat_add_u64 [of "push_bit (?l + 1) 1 * ni" "push_bit ?l 1", unfolded pw mult, OF b]
    unfolding key .
  then have "1 \<le> (push_bit (?l + 1) 1 * ni + push_bit ?l 1 :: u64)"
    by (simp only: word_le_nat_alt) simp
  then show ?thesis unfolding TileNodeKey_def l1
    by (subst unat_sub) (simp_all only: add, simp)
qed

end
