(* ===== verification/Merkle.thy ===== *)
theory Merkle
  imports Prelude
begin

section \<open>Merkle trees and the interface of the merkle library\<close>

text \<open>
  The repository builds its trees with \<^verbatim>\<open>github.com/transparency-dev/merkle\<close>, which is not
  part of it.  Its compact ranges are therefore a parameter of the model, a record of the functions
  the sources call, and what the sources rely on is the locale \<open>compact_range\<close>, stated against
  the RFC 6962 tree defined here.  A compact range kept as a map from node to hash
  (\<open>ref_compact\<close>) satisfies the locale.

  A tree is given by the function \<open>lf\<close> from leaf index to leaf hash; node \<open>(l, i)\<close> is the root
  of the perfect subtree over leaves \<open>i * 2 ^ l\<close> to \<open>(i + 1) * 2 ^ l - 1\<close>.
\<close>

type_synonym hash_fn = "bytes \<Rightarrow> bytes \<Rightarrow> bytes"
type_synonym node_id = "u64 \<times> u64"
type_synonym visits = "(node_id \<times> bytes) list"

record hasher =
  HashLeaf :: "bytes \<Rightarrow> bytes"
  HashChildren :: hash_fn
  EmptyRoot :: bytes

subsection \<open>The tree of RFC 6962\<close>

fun node_hash :: "hash_fn \<Rightarrow> (nat \<Rightarrow> bytes) \<Rightarrow> nat \<Rightarrow> nat \<Rightarrow> bytes" where
  "node_hash hc lf 0 i = lf i"
| "node_hash hc lf (Suc l) i = hc (node_hash hc lf l (2 * i)) (node_hash hc lf l (2 * i + 1))"

text \<open>The largest power of two below \<open>n\<close>, for \<open>n \<ge> 2\<close>.\<close>

fun pow2_lt :: "nat \<Rightarrow> nat" where
  "pow2_lt n = (if n \<le> 2 then 1 else 2 * pow2_lt ((n + 1) div 2))"

declare pow2_lt.simps [simp del]

lemma pow2_lt_pow: "\<exists>k. pow2_lt n = 2 ^ k"
proof (induction n rule: pow2_lt.induct)
  case (1 n)
  show ?case
  proof (cases "n \<le> 2")
    case True
    then have "pow2_lt n = 2 ^ 0" by (simp add: pow2_lt.simps)
    then show ?thesis by blast
  next
    case False
    with 1 obtain k where "pow2_lt ((n + 1) div 2) = 2 ^ k" by auto
    with False have "pow2_lt n = 2 ^ Suc k" by (subst pow2_lt.simps) simp
    then show ?thesis by blast
  qed
qed

lemma pow2_lt_bounds: "2 \<le> n \<Longrightarrow> pow2_lt n < n \<and> n \<le> 2 * pow2_lt n"
proof (induction n rule: pow2_lt.induct)
  case (1 n)
  show ?case
  proof (cases "n \<le> 2")
    case True
    with 1 show ?thesis by (simp add: pow2_lt.simps)
  next
    case False
    with 1 have "pow2_lt ((n + 1) div 2) < (n + 1) div 2 \<and> (n + 1) div 2 \<le> 2 * pow2_lt ((n + 1) div 2)"
      by simp
    with False show ?thesis by (subst (1 2) pow2_lt.simps) auto
  qed
qed

text \<open>The Merkle tree hash of the \<open>n\<close> leaves from leaf \<open>b\<close> on.\<close>

function mth :: "hash_fn \<Rightarrow> (nat \<Rightarrow> bytes) \<Rightarrow> nat \<Rightarrow> nat \<Rightarrow> bytes" where
  "mth hc lf b n =
     (if n \<le> 1 then lf b
      else let k = pow2_lt n in hc (mth hc lf b k) (mth hc lf (b + k) (n - k)))"
  by pat_completeness auto
termination
proof (relation "measure (\<lambda>(hc, lf, b, n). n)", goal_cases)
  case (2 hc lf b n k)
  then show ?case using pow2_lt_bounds [of n] by simp
next
  case (3 hc lf b n k)
  then show ?case using pow2_lt_bounds [of n] pow2_lt_pow [of n] by auto
qed simp

declare mth.simps [simp del]

lemma pow2_lt_power: "pow2_lt (2 ^ Suc l) = 2 ^ l"
proof -
  obtain k where k: "pow2_lt (2 ^ Suc l) = 2 ^ k" using pow2_lt_pow by blast
  have "2 ^ k < (2 :: nat) ^ Suc l \<and> (2 :: nat) ^ Suc l \<le> 2 * 2 ^ k"
    using pow2_lt_bounds [of "2 ^ Suc l"] k by simp
  then have "k < Suc l" "Suc l \<le> Suc k"
    by (metis power_less_imp_less_exp one_less_numeral_iff semiring_norm(76),
        metis power_Suc power_increasing_iff one_less_numeral_iff semiring_norm(76))
  then show ?thesis using k by (metis le_antisym less_Suc_eq_le Suc_le_mono)
qed

lemma mth_perfect: "mth hc lf (i * 2 ^ l) (2 ^ l) = node_hash hc lf l i"
proof (induction l arbitrary: i)
  case 0
  then show ?case by (simp add: mth.simps)
next
  case (Suc l)
  have "(1 :: nat) < 2 ^ Suc l" by (rule one_less_power) simp_all
  then have "\<not> (2 :: nat) ^ Suc l \<le> 1" by (simp only: not_le)
  then have e: "mth hc lf (i * 2 ^ Suc l) (2 ^ Suc l) =
      hc (mth hc lf (i * 2 ^ Suc l) (2 ^ l)) (mth hc lf (i * 2 ^ Suc l + 2 ^ l) (2 ^ Suc l - 2 ^ l))"
    by (subst mth.simps) (simp only: pow2_lt_power Let_def if_False)
  have a: "i * 2 ^ Suc l + 2 ^ l = (2 * i + 1) * 2 ^ l" "i * 2 ^ Suc l = 2 * i * 2 ^ l"
    "2 ^ Suc l - 2 ^ l = (2 :: nat) ^ l"
    by (simp_all add: algebra_simps)
  show ?case unfolding e a(1,3) unfolding a(2) node_hash.simps by (simp only: Suc.IH)
qed

subsection \<open>Nodes of a range\<close>

definition complete :: "nat \<Rightarrow> nat \<Rightarrow> nat \<Rightarrow> nat \<Rightarrow> bool" where
  "complete b e l i \<longleftrightarrow> b \<le> i * 2 ^ l \<and> (i + 1) * 2 ^ l \<le> e"

definition crossing :: "nat \<Rightarrow> nat \<Rightarrow> nat \<Rightarrow> nat \<Rightarrow> nat \<Rightarrow> bool" where
  "crossing b m e l i \<longleftrightarrow> complete b e l i \<and> i * 2 ^ l < m \<and> m < (i + 1) * 2 ^ l"

definition maximal :: "nat \<Rightarrow> nat \<Rightarrow> nat \<Rightarrow> nat \<Rightarrow> bool" where
  "maximal b e l i \<longleftrightarrow> complete b e l i \<and> \<not> complete b e (Suc l) (i div 2)"

definition nid :: "nat \<Rightarrow> nat \<Rightarrow> node_id" where
  "nid l i = (of_nat l, of_nat i)"

text \<open>A visit list that reports exactly the nodes of a set, with their hashes.\<close>

definition visits_nodes :: "hash_fn \<Rightarrow> (nat \<Rightarrow> bytes) \<Rightarrow> visits \<Rightarrow> (nat \<Rightarrow> nat \<Rightarrow> bool) \<Rightarrow> bool" where
  "visits_nodes hc lf vs S \<longleftrightarrow> set vs = {(nid l i, node_hash hc lf l i) | l i. S l i}"

lemma visits_nodes_append:
  "\<lbrakk>visits_nodes hc lf v S; visits_nodes hc lf w T\<rbrakk> \<Longrightarrow> visits_nodes hc lf (v @ w) (\<lambda>l i. S l i \<or> T l i)"
  by (auto simp: visits_nodes_def)

lemma visits_nodes_Cons:
  "visits_nodes hc lf v S \<Longrightarrow>
     visits_nodes hc lf ((nid l i, node_hash hc lf l i) # v) (\<lambda>l' i'. (l' = l \<and> i' = i) \<or> S l' i')"
  by (auto simp: visits_nodes_def)

lemma visits_nodes_cong:
  "visits_nodes hc lf v S \<Longrightarrow> (\<And>l i. S l i = T l i) \<Longrightarrow> visits_nodes hc lf v T"
  by (simp add: visits_nodes_def)

lemma complete_cases:
  assumes "complete b e l i"
  obtains "complete b m l i" | "complete m e l i" | "crossing b m e l i"
  using assms unfolding complete_def crossing_def by linarith

lemma complete_empty [simp]: "\<not> complete b b l i"
proof -
  have "i * 2 ^ l < (i + 1) * 2 ^ l" by simp
  then show ?thesis unfolding complete_def by linarith
qed

lemma complete_mono: "complete b m l i \<Longrightarrow> m \<le> e \<Longrightarrow> complete b e l i"
  by (auto simp: complete_def)

lemma complete_child:
  assumes "complete b e (Suc l) i" "c = 2 * i \<or> c = 2 * i + 1"
  shows "complete b e l c"
proof -
  have "i * 2 ^ Suc l = 2 * i * 2 ^ l" "(i + 1) * 2 ^ Suc l = (2 * i + 1 + 1) * 2 ^ l"
    "(2 * i + 1) * 2 ^ l = 2 * i * 2 ^ l + 2 ^ l" "(2 * i + 1 + 1) * 2 ^ l = 2 * i * 2 ^ l + 2 ^ l + 2 ^ l"
    by (simp_all add: algebra_simps)
  with assms show ?thesis unfolding complete_def by (elim disjE; hypsubst) auto
qed

text \<open>One more leaf completes that leaf and the nodes across it.\<close>

lemma complete_Suc:
  assumes "b \<le> e"
  shows "complete b (e + 1) l i \<and> \<not> complete b e l i \<longleftrightarrow> (l = 0 \<and> i = e) \<or> crossing b e (e + 1) l i"
proof (cases l)
  case 0
  then show ?thesis using assms by (auto simp: complete_def crossing_def)
next
  case (Suc k)
  have "(1 :: nat) < 2 ^ l" unfolding Suc by (rule one_less_power) simp_all
  then show ?thesis using Suc unfolding complete_def crossing_def add_mult_distrib mult_1 by linarith
qed

lemma complete_bounds:
  assumes "complete b e l i" "e < 2 ^ 64"
  shows "l < 64" "i < 2 ^ 64"
proof -
  have "i * 1 \<le> i * 2 ^ l" by (rule mult_le_mono2) simp
  moreover have "(0 :: nat) < 2 ^ l" by simp
  moreover have "(i + 1) * 2 ^ l = i * 2 ^ l + 2 ^ l" by simp
  ultimately have "2 ^ l \<le> (i + 1) * 2 ^ l" "i < (i + 1) * 2 ^ l" by linarith+
  with assms have "2 ^ l < (2 :: nat) ^ 64" "i < 2 ^ 64" unfolding complete_def by linarith+
  then show "l < 64" "i < 2 ^ 64" using power_less_imp_less_exp [of "2 :: nat" l 64] by auto
qed

lemma nid_inj:
  assumes "complete b e l i" "complete b' e' l' i'" "e < 2 ^ 64" "e' < 2 ^ 64"
  shows "nid l i = nid l' i' \<longleftrightarrow> l = l' \<and> i = i'"
proof -
  have "l < 2 ^ 64" "l' < 2 ^ 64" "i < 2 ^ 64" "i' < 2 ^ 64"
    using complete_bounds [OF assms(1,3)] complete_bounds [OF assms(2,4)] by auto
  then show ?thesis by (simp add: nid_def of_nat_u64_eq_iff del: of_nat_eq_iff)
qed

subsection \<open>Compact ranges: the interface\<close>

text \<open>
  The methods of \<^verbatim>\<open>compact.RangeFactory\<close> and \<^verbatim>\<open>compact.Range\<close>.  A method
  with a visitor returns the calls it makes to it, in order; \<open>Append\<close> and \<open>AppendRange\<close>
  return the range they leave behind, since the sources ignore some of the errors.
\<close>

record 'r compact =
  RangeNodes :: "u64 \<Rightarrow> u64 \<Rightarrow> node_id list"
  NewRange :: "u64 \<Rightarrow> u64 \<Rightarrow> bytes list \<Rightarrow> 'r res"
  NewEmptyRange :: "u64 \<Rightarrow> 'r"
  Append :: "'r \<Rightarrow> bytes \<Rightarrow> 'r \<times> visits"
  AppendRange :: "'r \<Rightarrow> 'r \<Rightarrow> go_error option \<times> 'r \<times> visits"
  GetRootHash :: "'r \<Rightarrow> (bytes \<times> visits) res"
  Hashes :: "'r \<Rightarrow> bytes list"
  End :: "'r \<Rightarrow> u64"

fun append_all :: "'r compact \<Rightarrow> 'r \<Rightarrow> bytes list \<Rightarrow> 'r \<times> visits" where
  "append_all C r [] = (r, [])"
| "append_all C r (h # hs) =
     (let (r', vs) = Append C r h; (r'', vs') = append_all C r' hs in (r'', vs @ vs'))"

text \<open>
  The contract: \<open>rep r lf b e\<close> says that the range \<open>r\<close> covers the leaves \<open>[b, e)\<close> of the
  tree \<open>lf\<close>.  The visitor of an append sees the new complete nodes and nothing else; the root
  hash of a range from 0 is the tree hash, and the root of an empty range is nil.
\<close>

locale compact_range =
  fixes C :: "'r compact" and hc :: hash_fn
    and rep :: "'r \<Rightarrow> (nat \<Rightarrow> bytes) \<Rightarrow> nat \<Rightarrow> nat \<Rightarrow> bool"
  assumes range_nodes: "set (RangeNodes C x y) = {nid l i | l i. maximal (unat x) (unat y) l i}"
    and new_range: "x \<le> y \<Longrightarrow>
      \<exists>r. NewRange C x y (map (\<lambda>(l, i). node_hash hc lf (unat l) (unat i)) (RangeNodes C x y)) = Inr r
        \<and> rep r lf (unat x) (unat y)"
    and new_empty: "rep (NewEmptyRange C x) lf (unat x) (unat x)"
    and append_rep: "\<lbrakk>rep r lf b e; b \<le> e; e + 1 < 2 ^ 64; Append C r (lf e) = (r', vs)\<rbrakk> \<Longrightarrow>
      rep r' lf b (e + 1) \<and>
      visits_nodes hc lf vs (\<lambda>l i. (l = 0 \<and> i = e) \<or> crossing b e (e + 1) l i)"
    and append_range_rep: "\<lbrakk>rep r lf b m; rep s lf m e; b \<le> m; m \<le> e; e < 2 ^ 64;
      AppendRange C r s = (err, r', vs)\<rbrakk> \<Longrightarrow>
      err = None \<and> rep r' lf b e \<and> visits_nodes hc lf vs (\<lambda>l i. crossing b m e l i)"
    and root_rep: "\<lbrakk>rep r lf 0 e; 0 < e; e < 2 ^ 64\<rbrakk> \<Longrightarrow>
      \<exists>vs. GetRootHash C r = Inr (mth hc lf 0 e, vs) \<and> (\<forall>l i. complete 0 e l i \<longrightarrow> nid l i \<notin> fst ` set vs)"
    and root_empty: "rep r lf 0 0 \<Longrightarrow> GetRootHash C r = Inr ([], [])"
    and hashes_rep: "\<lbrakk>rep r lf b e; b \<le> e; e < 2 ^ 64\<rbrakk> \<Longrightarrow>
      Hashes C r = map (\<lambda>(l, i). node_hash hc lf (unat l) (unat i)) (RangeNodes C (of_nat b) (of_nat e))"
    and end_rep: "\<lbrakk>rep r lf b e; e < 2 ^ 64\<rbrakk> \<Longrightarrow> unat (End C r) = e"
begin

lemma range_nodes_complete:
  assumes "(x, y) \<in> set (RangeNodes C b e)"
  shows "complete (unat b) (unat e) (unat x) (unat y)" "nid (unat x) (unat y) = (x, y)"
proof -
  from assms obtain l i where n: "(x, y) = nid l i" and c: "complete (unat b) (unat e) l i"
    unfolding range_nodes maximal_def by blast
  have "l < 64" "i < 2 ^ 64" using complete_bounds [OF c unat_lt_u64] .
  with n c show "complete (unat b) (unat e) (unat x) (unat y)" "nid (unat x) (unat y) = (x, y)"
    by (auto simp: nid_def unat_of_nat_u64)
qed

text \<open>The nodes visited while a list of leaves is appended are those that were not complete before.\<close>

lemma append_all_rep:
  "\<lbrakk>rep r lf b e; b \<le> e; e + k < 2 ^ 64; append_all C r (map lf [e..<e + k]) = (r', vs)\<rbrakk> \<Longrightarrow>
     rep r' lf b (e + k) \<and> visits_nodes hc lf vs (\<lambda>l i. complete b (e + k) l i \<and> \<not> complete b e l i)"
proof (induction k arbitrary: r e r' vs)
  case 0
  then show ?case by (simp add: visits_nodes_def)
next
  case (Suc k)
  obtain r1 v1 where 1: "Append C r (lf e) = (r1, v1)" by fastforce
  obtain r2 v2 where 2: "append_all C r1 (map lf [e + 1..<e + 1 + k]) = (r2, v2)" by fastforce
  have upt: "[e..<e + Suc k] = e # [e + 1..<e + 1 + k]" by (simp add: upt_rec)
  have res: "r' = r2" "vs = v1 @ v2" using Suc.prems(4) 1 2 unfolding upt by simp_all
  have A: "rep r1 lf b (e + 1)"
    "visits_nodes hc lf v1 (\<lambda>l i. (l = 0 \<and> i = e) \<or> crossing b e (e + 1) l i)"
    using append_rep [OF Suc.prems(1,2) _ 1] Suc.prems(3) by auto
  have B: "rep r2 lf b (e + 1 + k)"
    "visits_nodes hc lf v2 (\<lambda>l i. complete b (e + 1 + k) l i \<and> \<not> complete b (e + 1) l i)"
    using Suc.IH [OF A(1) _ _ 2] Suc.prems by auto
  have "((l = 0 \<and> i = e) \<or> crossing b e (e + 1) l i) \<or>
      (complete b (e + 1 + k) l i \<and> \<not> complete b (e + 1) l i) \<longleftrightarrow>
      complete b (e + Suc k) l i \<and> \<not> complete b e l i" for l i
    using complete_Suc [OF Suc.prems(2), of l i] complete_mono [of b "e + 1" l i "e + Suc k"]
      complete_mono [of b e l i "e + 1"] by auto
  then show ?case using A B res visits_nodes_cong [OF visits_nodes_append [OF A(2) B(2)]] by auto
qed

end

end
