(* ===== verification/NoteLib.thy ===== *)
theory NoteLib
  imports Merkle "HOL-Library.Multiset"
begin

section \<open>The interfaces of the note, checkpoint and proof libraries\<close>

text \<open>
  \<^verbatim>\<open>golang.org/x/mod/sumdb/note\<close>, \<^verbatim>\<open>github.com/transparency-dev/formats/log\<close> and
  \<^verbatim>\<open>github.com/transparency-dev/merkle/proof\<close> are not part of the repository.  Their data
  types are transcribed here and their functions are parameters of the model, collected in records.
\<close>

record Checkpoint =
  Origin :: string
  Size :: u64
  Hash :: bytes

record Signature =
  SigName :: string
  SigHash :: u32
  SigBase64 :: string

record Note =
  NoteText :: string
  Sigs :: "Signature list"
  UnverifiedSigs :: "Signature list"

text \<open>\<^verbatim>\<open>note.Open\<close> distinguishes the error that still carries the note.\<close>

datatype open_result = Opened Note | UnverifiedNote Note | OpenFailed go_error

text \<open>\<open>'v\<close> is a \<^verbatim>\<open>note.Verifier\<close> and \<open>'s\<close> a \<^verbatim>\<open>note.Signer\<close>.\<close>

record ('v, 's) note_lib =
  note_Open :: "bytes \<Rightarrow> 'v list \<Rightarrow> open_result"
  note_Sign :: "Note \<Rightarrow> 's list \<Rightarrow> bytes res"
  KeyHash :: "'v \<Rightarrow> u32"
  ParseCheckpoint :: "bytes \<Rightarrow> string \<Rightarrow> 'v \<Rightarrow> 'v list \<Rightarrow> (Checkpoint \<times> Note) res"
  MarshalCheckpoint :: "Checkpoint \<Rightarrow> bytes"

text \<open>\<open>'n\<close> is the type \<^verbatim>\<open>proof.Nodes\<close>.\<close>

record 'n proof_lib =
  Inclusion :: "u64 \<Rightarrow> u64 \<Rightarrow> 'n res"
  Consistency :: "u64 \<Rightarrow> u64 \<Rightarrow> 'n res"
  IDs :: "'n \<Rightarrow> node_id list"
  Rehash :: "'n \<Rightarrow> bytes list \<Rightarrow> hash_fn \<Rightarrow> bytes list res"
  VerifyConsistency :: "hasher \<Rightarrow> u64 \<Rightarrow> u64 \<Rightarrow> bytes list \<Rightarrow> bytes \<Rightarrow> bytes \<Rightarrow> go_error option"
  VerifyInclusion :: "hasher \<Rightarrow> u64 \<Rightarrow> u64 \<Rightarrow> bytes \<Rightarrow> bytes list \<Rightarrow> bytes \<Rightarrow> go_error option"

definition zero_checkpoint :: Checkpoint where
  "zero_checkpoint = \<lparr>Origin = [], Size = 0, Hash = []\<rparr>"

text \<open>\<^verbatim>\<open>sort.Slice\<close> is not stable: all the code may rely on is that the result is a
  permutation of the input in which no element is less than an earlier one.\<close>

definition sorts_by :: "('a \<Rightarrow> 'a \<Rightarrow> bool) \<Rightarrow> ('a list \<Rightarrow> 'a list) \<Rightarrow> bool" where
  "sorts_by lt srt \<longleftrightarrow> (\<forall>xs. mset (srt xs) = mset xs \<and> sorted_wrt (\<lambda>x y. \<not> lt y x) (srt xs))"

lemma sorts_byD:
  assumes "sorts_by lt srt"
  shows "mset (srt xs) = mset xs" "set (srt xs) = set xs" "length (srt xs) = length xs"
    "sorted_wrt (\<lambda>x y. \<not> lt y x) (srt xs)"
  using assms mset_eq_setD [of "srt xs" xs] mset_eq_length [of "srt xs" xs]
  by (auto simp: sorts_by_def)

lemma sorts_by_sort_key: "sorts_by (\<lambda>a b. f a < f b) (sort_key (f :: 'a \<Rightarrow> 'b :: linorder))"
proof -
  have "sorted_wrt (\<lambda>x y. f x \<le> f y) (sort_key f xs)" for xs
    using sorted_sort_key [of f xs] unfolding sorted_map .
  then show ?thesis by (simp add: sorts_by_def not_less)
qed

text \<open>Ranging over a Go map visits its entries once each, in an order that is not specified.\<close>

definition permutes :: "('a list \<Rightarrow> 'a list) \<Rightarrow> bool" where
  "permutes iter \<longleftrightarrow> (\<forall>xs. mset (iter xs) = mset xs)"

lemma permutesD:
  assumes "permutes iter"
  shows "mset (iter xs) = mset xs" "set (iter xs) = set xs" "length (iter xs) = length xs"
  using assms mset_eq_setD [of "iter xs" xs] mset_eq_length [of "iter xs" xs]
  by (auto simp: permutes_def)

lemma permutes_id [simp]: "permutes id" "permutes (\<lambda>xs. xs)"
  by (simp_all add: permutes_def)

end
