(* ===== verification/LogClient.thy ===== *)
theory LogClient
  imports TileState NoteLib
begin

section \<open>serverless/client/client.go\<close>

text \<open>
  The client of a serverless log: fetching checkpoints, tiles and leaves by path, the node cache,
  the proof builder, the state tracker and the consistency check of a list of checkpoints.  A
  \<^verbatim>\<open>Fetcher\<close> is a function from path to contents or error; methods that change their
  receiver return it next to their result.
\<close>

type_synonym Fetcher = "string \<Rightarrow> bytes res"
type_synonym GetTileFunc = "u64 \<Rightarrow> u64 \<Rightarrow> Tile res"
type_synonym 'v ConsensusCheckpointFunc = "'v \<Rightarrow> string \<Rightarrow> (Checkpoint \<times> bytes \<times> Note) res"

definition FetchCheckpoint :: "('v, 's) note_lib \<Rightarrow> Fetcher \<Rightarrow> 'v ConsensusCheckpointFunc" where
  "FetchCheckpoint N f v origin =
     (case f CheckpointPath of
        Inl e \<Rightarrow> Inl e
      | Inr cpRaw \<Rightarrow>
          (case ParseCheckpoint N cpRaw origin v [] of
             Inl e \<Rightarrow> Inl (errorf ''failed to parse Checkpoint'' e)
           | Inr (cp, n) \<Rightarrow> Inr (cp, cpRaw, n)))"

definition UnilateralConsensus :: "('v, 's) note_lib \<Rightarrow> Fetcher \<Rightarrow> 'v ConsensusCheckpointFunc" where
  "UnilateralConsensus N f = (\<lambda>logSigV origin. FetchCheckpoint N f logSigV origin)"

subsection \<open>The node cache\<close>

record nodeCache =
  logSize :: u64
  ephemeral :: "node_id \<Rightarrow> bytes option"
  tiles :: "u64 \<times> u64 \<Rightarrow> Tile option"
  getTile :: GetTileFunc

definition newNodeCache :: "GetTileFunc \<Rightarrow> u64 \<Rightarrow> nodeCache" where
  "newNodeCache f sz =
     \<lparr>logSize = sz, ephemeral = Map.empty, tiles = Map.empty, getTile = f\<rparr>"

definition SetEphemeralNode :: "nodeCache \<Rightarrow> node_id \<Rightarrow> bytes \<Rightarrow> nodeCache" where
  "SetEphemeralNode n nID h = n\<lparr>ephemeral := (ephemeral n)(nID \<mapsto> h)\<rparr>"

text \<open>Reading one node of a fetched tile.\<close>

definition tile_node :: "Tile \<Rightarrow> u64 \<Rightarrow> u64 \<Rightarrow> bytes res" where
  "tile_node t nodeLevel nodeIndex =
     (let nodeKey = sint (TileNodeKey nodeLevel nodeIndex) in
      if int (length (Nodes t)) \<le> nodeKey then Inl (Errorf ''node outside populated tile nodes'')
      else if nodeKey < 0 then Inl (Panic ''index out of range'')
      else (case Nodes t ! nat nodeKey of
              None \<Rightarrow> Inl (Errorf ''node unknown'')
            | Some node \<Rightarrow> Inr node))"

definition GetNode :: "nodeCache \<Rightarrow> node_id \<Rightarrow> bytes res \<times> nodeCache" where
  "GetNode n nID =
     (let e = (case ephemeral n nID of None \<Rightarrow> [] | Some h \<Rightarrow> h) in
      if length e \<noteq> 0 then (Inr e, n)
      else
        (let (tileLevel, tileIndex, nodeLevel, nodeIndex) = NodeCoordsToTileAddress (fst nID) (snd nID);
             tKey = (tileLevel, tileIndex)
         in case tiles n tKey of
              Some t \<Rightarrow> (tile_node t nodeLevel nodeIndex, n)
            | None \<Rightarrow>
                (case getTile n tileLevel tileIndex of
                   Inl err \<Rightarrow> (Inl (wrapf ''failed to fetch tile'' err), n)
                 | Inr t \<Rightarrow> (tile_node t nodeLevel nodeIndex, n\<lparr>tiles := (tiles n)(tKey \<mapsto> t)\<rparr>))))"

fun get_nodes :: "nodeCache \<Rightarrow> node_id list \<Rightarrow> bytes list res \<times> nodeCache" where
  "get_nodes n [] = (Inr [], n)"
| "get_nodes n (nID # ids) =
     (case GetNode n nID of
        (Inl e, n') \<Rightarrow> (Inl e, n')
      | (Inr h, n') \<Rightarrow>
          (case get_nodes n' ids of
             (Inl e, n'') \<Rightarrow> (Inl e, n'')
           | (Inr hs, n'') \<Rightarrow> (Inr (h # hs), n'')))"

definition FetchRangeNodes :: "'r compact \<Rightarrow> u64 \<Rightarrow> GetTileFunc \<Rightarrow> bytes list res" where
  "FetchRangeNodes C s gt = fst (get_nodes (newNodeCache gt s) (RangeNodes C 0 s))"

definition newTileFetcher :: "Fetcher \<Rightarrow> u64 \<Rightarrow> GetTileFunc" where
  "newTileFetcher f sz = (\<lambda>level index.
     let tileSize = PartialTileSize level index sz;
         p = JoinPair (TilePath [] level index tileSize)
     in case f p of
          Inl err \<Rightarrow>
            (if \<not> errors_Is err ErrNotExist then Inl (wrapf ''failed to read tile'' err) else Inl err)
        | Inr t \<Rightarrow>
            (case UnmarshalText t of
               Inl err \<Rightarrow> Inl (wrapf ''failed to parse tile'' err)
             | Inr tile \<Rightarrow> Inr tile))"

fun fetch_leaves :: "nodeCache \<Rightarrow> nat \<Rightarrow> u64 \<Rightarrow> bytes list res \<times> nodeCache" where
  "fetch_leaves nc 0 seq = (Inr [], nc)"
| "fetch_leaves nc (Suc k) seq =
     (case GetNode nc (0, seq) of
        (Inl e, nc') \<Rightarrow> (Inl (errorf ''failed to fetch node'' e), nc')
      | (Inr h, nc') \<Rightarrow>
          (case fetch_leaves nc' k (seq + 1) of
             (Inl e, nc'') \<Rightarrow> (Inl e, nc'')
           | (Inr hs, nc'') \<Rightarrow> (Inr (h # hs), nc'')))"

definition FetchLeafHashes :: "Fetcher \<Rightarrow> u64 \<Rightarrow> u64 \<Rightarrow> u64 \<Rightarrow> bytes list res" where
  "FetchLeafHashes f first N sz =
     fst (fetch_leaves (newNodeCache (newTileFetcher f sz) sz) (unat N) first)"

definition LookupIndex :: "Fetcher \<Rightarrow> bytes \<Rightarrow> u64 res" where
  "LookupIndex f lh =
     (case LeafPath [] lh of
        Inl e \<Rightarrow> Inl e
      | Inr p \<Rightarrow>
          (case f (JoinPair p) of
             Inl err \<Rightarrow>
               (if errors_Is err ErrNotExist then Inl (wrapf ''leafhash unknown'' err)
                else Inl (wrapf ''failed to fetch leafhash->seq file'' err))
           | Inr sRaw \<Rightarrow> map_sum id of_nat (parse_uint sRaw 16 64)))"

definition GetLeaf :: "Fetcher \<Rightarrow> u64 \<Rightarrow> bytes res" where
  "GetLeaf f i =
     (case f (JoinPair (SeqPath [] i)) of
        Inl err \<Rightarrow>
          (if errors_Is err ErrNotExist then Inl (wrapf ''leaf index not found'' err)
           else Inl (wrapf ''failed to fetch leaf index'' err))
      | Inr sRaw \<Rightarrow> Inr sRaw)"

subsection \<open>The proof builder\<close>

record ProofBuilder =
  cp :: Checkpoint
  nodeCache :: nodeCache
  pb_h :: hash_fn

definition NewProofBuilder ::
    "(hash_fn \<Rightarrow> 'r compact) \<Rightarrow> Checkpoint \<Rightarrow> hash_fn \<Rightarrow> Fetcher \<Rightarrow> ProofBuilder res" where
  "NewProofBuilder RF c h f =
     (let tf = newTileFetcher f (Size c);
          pb = \<lparr>cp = c, nodeCache = newNodeCache tf (Size c), pb_h = h\<rparr>
      in case FetchRangeNodes (RF h) (Size c) tf of
           Inl e \<Rightarrow> Inl (wrapf ''failed to fetch range nodes'' e)
         | Inr hashes \<Rightarrow>
             (case NewRange (RF h) 0 (Size c) hashes of
                Inl e \<Rightarrow> Inl e
              | Inr r \<Rightarrow>
                  (case GetRootHash (RF h) r of
                     Inl e \<Rightarrow> Inl e
                   | Inr (sr, vs) \<Rightarrow>
                       if Hash c \<noteq> sr then Inl (Errorf ''invalid checkpoint hash'')
                       else Inr (pb\<lparr>nodeCache :=
                              foldl (\<lambda>n (nID, hh). SetEphemeralNode n nID hh) (nodeCache pb) vs\<rparr>))))"

definition fetchNodes :: "'n proof_lib \<Rightarrow> ProofBuilder \<Rightarrow> 'n \<Rightarrow> bytes list res \<times> ProofBuilder" where
  "fetchNodes P pb nodes =
     (case get_nodes (nodeCache pb) (IDs P nodes) of
        (Inl e, nc) \<Rightarrow> (Inl (wrapf ''failed to get node'' e), pb\<lparr>nodeCache := nc\<rparr>)
      | (Inr hashes, nc) \<Rightarrow>
          (case Rehash P nodes hashes (pb_h pb) of
             Inl e \<Rightarrow> (Inl (wrapf ''failed to rehash proof'' e), pb\<lparr>nodeCache := nc\<rparr>)
           | Inr hs \<Rightarrow> (Inr hs, pb\<lparr>nodeCache := nc\<rparr>)))"

definition InclusionProof :: "'n proof_lib \<Rightarrow> ProofBuilder \<Rightarrow> u64 \<Rightarrow> bytes list res \<times> ProofBuilder" where
  "InclusionProof P pb index =
     (case Inclusion P index (Size (cp pb)) of
        Inl e \<Rightarrow> (Inl (wrapf ''failed to calculate inclusion proof node list'' e), pb)
      | Inr nodes \<Rightarrow> fetchNodes P pb nodes)"

definition ConsistencyProof ::
    "'n proof_lib \<Rightarrow> ProofBuilder \<Rightarrow> u64 \<Rightarrow> u64 \<Rightarrow> bytes list res \<times> ProofBuilder" where
  "ConsistencyProof P pb smaller larger =
     (case Consistency P smaller larger of
        Inl e \<Rightarrow> (Inl (wrapf ''failed to calculate consistency proof node list'' e), pb)
      | Inr nodes \<Rightarrow> fetchNodes P pb nodes)"

subsection \<open>Tracking a log\<close>

datatype update_error =
    UpdateErr go_error
  | ErrInconsistency bytes bytes "bytes list" go_error   \<comment> \<open>SmallerRaw LargerRaw Proof Wrapped\<close>

record 'v LogStateTracker =
  Hasher :: hasher
  lst_Fetcher :: Fetcher
  lst_Origin :: string
  ConsensusCheckpoint :: "'v ConsensusCheckpointFunc"
  LatestConsistentRaw :: bytes
  LatestConsistent :: Checkpoint
  CheckpointNote :: "Note option"
  CpSigVerifier :: 'v

definition Update ::
    "(hash_fn \<Rightarrow> 'r compact) \<Rightarrow> 'n proof_lib \<Rightarrow> 'v LogStateTracker \<Rightarrow>
     (update_error + bytes \<times> bytes list \<times> bytes) \<times> 'v LogStateTracker" where
  "Update RF P lst =
     (case ConsensusCheckpoint lst (CpSigVerifier lst) (lst_Origin lst) of
        Inl e \<Rightarrow> (Inl (UpdateErr e), lst)
      | Inr (c, cRaw, cn) \<Rightarrow>
          (let commit = (\<lambda>p. (Inr (LatestConsistentRaw lst, p, cRaw),
                 lst\<lparr>LatestConsistentRaw := cRaw, LatestConsistent := c, CheckpointNote := Some cn\<rparr>))
           in if 0 < Size (LatestConsistent lst) \<and> Size (LatestConsistent lst) < Size c
              then (case NewProofBuilder RF c (HashChildren (Hasher lst)) (lst_Fetcher lst) of
                      Inl e \<Rightarrow> (Inl (UpdateErr (wrapf ''failed to create proof builder'' e)), lst)
                    | Inr builder \<Rightarrow>
                        (case fst (ConsistencyProof P builder (Size (LatestConsistent lst)) (Size c)) of
                           Inl e \<Rightarrow> (Inl (UpdateErr e), lst)
                         | Inr p \<Rightarrow>
                             (case VerifyConsistency P (Hasher lst) (Size (LatestConsistent lst)) (Size c) p
                                     (Hash (LatestConsistent lst)) (Hash c) of
                                Some e \<Rightarrow> (Inl (ErrInconsistency (LatestConsistentRaw lst) cRaw p e), lst)
                              | None \<Rightarrow> commit p)))
              else commit []))"

definition NewLogStateTracker ::
    "(hash_fn \<Rightarrow> 'r compact) \<Rightarrow> 'n proof_lib \<Rightarrow> ('v, 's) note_lib \<Rightarrow> Fetcher \<Rightarrow> hasher \<Rightarrow> bytes \<Rightarrow> 'v \<Rightarrow> string
     \<Rightarrow> 'v ConsensusCheckpointFunc \<Rightarrow> 'v LogStateTracker \<times> update_error option" where
  "NewLogStateTracker RF P N f h checkpointRaw nV origin cc =
     (let ret = \<lparr>Hasher = h, lst_Fetcher = f, lst_Origin = origin, ConsensusCheckpoint = cc,
                 LatestConsistentRaw = [], LatestConsistent = zero_checkpoint, CheckpointNote = None,
                 CpSigVerifier = nV\<rparr>
      in if 0 < length checkpointRaw
         then (let ret = ret\<lparr>LatestConsistentRaw := checkpointRaw\<rparr> in
               case ParseCheckpoint N checkpointRaw origin nV [] of
                 Inl e \<Rightarrow> (ret, Some (UpdateErr e))
               | Inr (c, _) \<Rightarrow> (ret\<lparr>LatestConsistent := c\<rparr>, None))
         else (case Update RF P ret of
                 (Inl e, ret') \<Rightarrow> (ret', Some e)
               | (Inr _, ret') \<Rightarrow> (ret', None)))"

subsection \<open>Consistency of a list of checkpoints\<close>

text \<open>The body of the loop, for the pair \<open>a\<close>, \<open>b\<close>.\<close>

definition check_pair ::
    "'n proof_lib \<Rightarrow> hasher \<Rightarrow> ProofBuilder \<Rightarrow> Checkpoint \<Rightarrow> Checkpoint \<Rightarrow> ProofBuilder res" where
  "check_pair P h pb a b =
     (if Size a = Size b then
        (if Hash a = Hash b then Inr pb
         else Inl (Errorf ''two checkpoints with same size but different hashes''))
      else if 0 < Size a then
        (case ConsistencyProof P pb (Size a) (Size b) of
           (Inl e, _) \<Rightarrow> Inl (errorf ''failed to fetch consistency between sizes'' e)
         | (Inr prf, pb') \<Rightarrow>
             (case VerifyConsistency P h (Size a) (Size b) prf (Hash a) (Hash b) of
                Some _ \<Rightarrow> Inl (Errorf ''invalid consistency proof between sizes'')
              | None \<Rightarrow> Inr pb'))
      else Inr pb)"

text \<open>The loop
  \<^verbatim>\<open>for i := 0; i < len(cp)-1; i, a, b = i+1, cp[i], cp[i+1]\<close>: the post statement reads
  \<open>cp[i]\<close> and \<open>cp[i+1]\<close> with the old value of \<open>i\<close>.\<close>

function check_loop ::
    "'n proof_lib \<Rightarrow> hasher \<Rightarrow> Checkpoint list \<Rightarrow> ProofBuilder \<Rightarrow> nat \<Rightarrow> Checkpoint \<Rightarrow> Checkpoint \<Rightarrow> unit res" where
  "check_loop P h cps pb i a b =
     (if i < length cps - 1
      then (case check_pair P h pb a b of
              Inl e \<Rightarrow> Inl e
            | Inr pb' \<Rightarrow> check_loop P h cps pb' (i + 1) (cps ! i) (cps ! (i + 1)))
      else Inr ())"
  by pat_completeness auto
termination
  by (relation "measure (\<lambda>(P, h, cps, pb, i, a, b). length cps - i)") auto

declare check_loop.simps [simp del]

definition CheckConsistency ::
    "(hash_fn \<Rightarrow> 'r compact) \<Rightarrow> 'n proof_lib \<Rightarrow> (Checkpoint list \<Rightarrow> Checkpoint list) \<Rightarrow>
     hasher \<Rightarrow> Fetcher \<Rightarrow> Checkpoint list \<Rightarrow> unit res" where
  "CheckConsistency RF P srt h f cps0 =
     (if length cps0 < 2 then Inl (Errorf ''need at least 2 checkpoints'')
      else
        (let cps = srt cps0 in
         case NewProofBuilder RF (last cps) (HashChildren h) f of
           Inl e \<Rightarrow> Inl (errorf ''failed to create proofbuilder'' e)
         | Inr pb \<Rightarrow> check_loop P h cps pb 0 (cps ! 0) (cps ! 1)))"

end
