(* ===== verification/MerkleRef.thy ===== *)
theory MerkleRef
  imports Merkle
begin

section \<open>A compact range that satisfies the interface\<close>

text \<open>
  A compact range as the library keeps it, but with its hashes in a map from node to hash: the
  maximal complete nodes of the range are in the map.  Appending computes the new nodes level by
  level, each from its two children.
\<close>

type_synonym ref_range = "nat \<times> nat \<times> (nat \<times> nat \<Rightarrow> bytes)"

definition ref_nodes :: "nat \<Rightarrow> nat \<Rightarrow> (nat \<times> nat) list" where
  "ref_nodes b e = concat (map (\<lambda>l. map (Pair l) (filter (maximal b e l) [0..<e])) [0..<64])"

fun ref_merge :: "hash_fn \<Rightarrow> nat \<Rightarrow> nat \<Rightarrow> nat \<Rightarrow> (nat \<times> nat \<Rightarrow> bytes) \<Rightarrow> nat list
    \<Rightarrow> (nat \<times> nat \<Rightarrow> bytes) \<times> visits" where
  "ref_merge hc b m e mp [] = (mp, [])"
| "ref_merge hc b m e mp (l # ls) =
     (let i = m div 2 ^ Suc l in
      if crossing b m e (Suc l) i
      then (let h = hc (mp (l, 2 * i)) (mp (l, 2 * i + 1));
                (mp', vs) = ref_merge hc b m e (mp((Suc l, i) := h)) ls
            in (mp', (nid (Suc l) i, h) # vs))
      else ref_merge hc b m e mp ls)"

function ref_root :: "hash_fn \<Rightarrow> (nat \<times> nat \<Rightarrow> bytes) \<Rightarrow> nat \<Rightarrow> nat \<Rightarrow> bytes" where
  "ref_root hc mp b n =
     (case find (\<lambda>l. n = 2 ^ l) [0..<64] of
        Some l \<Rightarrow> mp (l, b div 2 ^ l)
      | None \<Rightarrow> (if n \<le> 2 then [] else
          let k = pow2_lt n in hc (ref_root hc mp b k) (ref_root hc mp (b + k) (n - k))))"
  by pat_completeness auto
termination
proof (relation "measure (\<lambda>(hc, mp, b, n). n)", goal_cases)
  case (2 hc mp b n k)
  then show ?case using pow2_lt_bounds [of n] by simp
next
  case (3 hc mp b n k)
  then show ?case using pow2_lt_bounds [of n] pow2_lt_pow [of n] by auto
qed simp

declare ref_root.simps [simp del]

definition ref_join :: "hash_fn \<Rightarrow> ref_range \<Rightarrow> ref_range \<Rightarrow> go_error option \<times> ref_range \<times> visits" where
  "ref_join hc r s =
     (let (b, m, mp) = r; (m', e, mp') = s in
      if m \<noteq> m' then (Some (Errorf ''ranges are not contiguous''), r, [])
      else (let (mp'', vs) = ref_merge hc b m e (\<lambda>(l, i). if complete m e l i then mp' (l, i) else mp (l, i)) [0..<64]
            in (None, (b, e, mp''), vs)))"

definition ref_compact :: "hash_fn \<Rightarrow> ref_range compact" where
  "ref_compact hc = \<lparr>
     RangeNodes = (\<lambda>b e. map (\<lambda>(l, i). nid l i) (ref_nodes (unat b) (unat e))),
     NewRange = (\<lambda>b e hs.
       let ns = ref_nodes (unat b) (unat e) in
       if b \<le> e \<and> length hs = length ns
       then Inr (unat b, unat e, \<lambda>k. case map_of (zip ns hs) k of None \<Rightarrow> [] | Some h \<Rightarrow> h)
       else Inl (Errorf ''invalid range'')),
     NewEmptyRange = (\<lambda>b. (unat b, unat b, \<lambda>k. [])),
     Append = (\<lambda>r h. let (b, e, mp) = r;
                      (err, r', vs) = ref_join hc r (e, e + 1, \<lambda>k. h) in (r', (nid 0 e, h) # vs)),
     AppendRange = ref_join hc,
     GetRootHash = (\<lambda>(b, e, mp).
       if b \<noteq> 0 then Inl (Errorf ''begin is not 0'')
       else if e = 0 then Inr ([], []) else Inr (ref_root hc mp 0 e, [])),
     Hashes = (\<lambda>(b, e, mp). map mp (ref_nodes b e)),
     End = (\<lambda>(b, e, mp). of_nat e)\<rparr>"

definition ref_rep :: "hash_fn \<Rightarrow> ref_range \<Rightarrow> (nat \<Rightarrow> bytes) \<Rightarrow> nat \<Rightarrow> nat \<Rightarrow> bool" where
  "ref_rep hc r lf b e \<longleftrightarrow> (\<exists>mp. r = (b, e, mp) \<and> (\<forall>l i. maximal b e l i \<longrightarrow> mp (l, i) = node_hash hc lf l i))"

lemma ref_nodes_iff: "e < 2 ^ 64 \<Longrightarrow> (l, i) \<in> set (ref_nodes b e) \<longleftrightarrow> maximal b e l i"
proof -
  assume e: "e < 2 ^ 64"
  have "l < 64 \<and> i < e" if "maximal b e l i"
  proof -
    have c: "complete b e l i" using that by (simp add: maximal_def)
    have "i * 1 \<le> i * 2 ^ l" by (rule mult_le_mono2) simp
    moreover have "(0 :: nat) < 2 ^ l" by simp
    moreover have "(i + 1) * 2 ^ l = i * 2 ^ l + 2 ^ l" by simp
    ultimately have "i < e" using c unfolding complete_def by linarith
    then show ?thesis using complete_bounds [OF c e] by simp
  qed
  then show ?thesis by (auto simp: ref_nodes_def image_iff)
qed

lemma ref_merge_sound:
  "\<lbrakk>b \<le> m; m \<le> e; ref_merge hc b m e mp [j..<j + k] = (mp', vs);
    \<And>l i. maximal b m l i \<or> maximal m e l i \<or> (l \<le> j \<and> crossing b m e l i) \<Longrightarrow>
      mp (l, i) = node_hash hc lf l i\<rbrakk> \<Longrightarrow>
   (\<forall>l i. maximal b m l i \<or> maximal m e l i \<or> (l \<le> j + k \<and> crossing b m e l i) \<longrightarrow>
      mp' (l, i) = node_hash hc lf l i) \<and>
   visits_nodes hc lf vs (\<lambda>l i. j < l \<and> l \<le> j + k \<and> crossing b m e l i)"
proof (induction k arbitrary: j mp mp' vs)
  case 0
  then show ?case by (auto simp: visits_nodes_def)
next
  case (Suc k)
  let ?i = "m div 2 ^ Suc j"
  have upt: "[j..<j + Suc k] = j # [Suc j..<Suc j + k]" by (simp add: upt_rec)
  have uniq: "i = ?i" if "crossing b m e (Suc j) i" for i
    using that unfolding crossing_def
    by (metis div_nat_eqI less_imp_le mult.commute Suc_eq_plus1)
  show ?case
  proof (cases "crossing b m e (Suc j) ?i")
    case True
    let ?h = "hc (mp (j, 2 * ?i)) (mp (j, 2 * ?i + 1))"
    have child: "mp (j, c) = node_hash hc lf j c" if "c = 2 * ?i \<or> c = 2 * ?i + 1" for c
    proof -
      have "c div 2 = ?i" using that by auto
      moreover have cc: "complete b e j c"
        using True that complete_child [of b e j ?i c] unfolding crossing_def by blast
      moreover have "\<not> complete b m (Suc j) ?i" "\<not> complete m e (Suc j) ?i"
        using True unfolding crossing_def complete_def by linarith+
      ultimately have "maximal b m j c \<or> maximal m e j c \<or> crossing b m e j c"
        using complete_cases [OF cc, of m] unfolding maximal_def by metis
      then show ?thesis using Suc.prems(4) by auto
    qed
    have h: "?h = node_hash hc lf (Suc j) ?i" using child by simp
    obtain mp2 v2 where 2: "ref_merge hc b m e (mp((Suc j, ?i) := ?h)) [Suc j..<Suc j + k] = (mp2, v2)"
      by fastforce
    have res: "mp' = mp2" "vs = (nid (Suc j) ?i, ?h) # v2"
      using Suc.prems(3) True 2 unfolding upt by (simp_all add: Let_def)
    have "(mp((Suc j, ?i) := ?h)) (l, i) = node_hash hc lf l i"
      if "maximal b m l i \<or> maximal m e l i \<or> (l \<le> Suc j \<and> crossing b m e l i)" for l i
      using that Suc.prems(4) [of l i] h uniq [of i] by (auto simp: le_Suc_eq)
    note IH = Suc.IH [OF Suc.prems(1,2) 2 this]
    have "((l = Suc j \<and> i = ?i) \<or> Suc j < l \<and> l \<le> Suc j + k \<and> crossing b m e l i) \<longleftrightarrow>
        (j < l \<and> l \<le> j + Suc k \<and> crossing b m e l i)" for l i
      using True uniq [of i] by (cases "l = Suc j") auto
    then show ?thesis unfolding res h
      using IH visits_nodes_cong [OF visits_nodes_Cons [OF IH [THEN conjunct2], of "Suc j" ?i]] by simp
  next
    case False
    then have 2: "ref_merge hc b m e mp [Suc j..<Suc j + k] = (mp', vs)"
      using Suc.prems(3) unfolding upt by simp
    have no: "\<not> crossing b m e (Suc j) i" for i using False uniq by metis
    have "mp (l, i) = node_hash hc lf l i"
      if "maximal b m l i \<or> maximal m e l i \<or> (l \<le> Suc j \<and> crossing b m e l i)" for l i
      using that Suc.prems(4) [of l i] no by (auto simp: le_Suc_eq)
    note IH = Suc.IH [OF Suc.prems(1,2) 2 this]
    have "(Suc j < l \<and> l \<le> Suc j + k \<and> crossing b m e l i) \<longleftrightarrow>
        (j < l \<and> l \<le> j + Suc k \<and> crossing b m e l i)" for l i
      using no [of i] by (cases "l = Suc j") auto
    then show ?thesis using IH visits_nodes_cong [OF IH [THEN conjunct2]] by simp
  qed
qed

lemma ref_join_sound:
  assumes "ref_rep hc r lf b m" "ref_rep hc s lf m e" "b \<le> m" "m \<le> e" "e < 2 ^ 64"
    "ref_join hc r s = (err, r', vs)"
  shows "err = None \<and> ref_rep hc r' lf b e \<and> visits_nodes hc lf vs (crossing b m e)"
proof -
  obtain mp mp' where r: "r = (b, m, mp)" and s: "s = (m, e, mp')"
    and mp: "\<And>l i. maximal b m l i \<Longrightarrow> mp (l, i) = node_hash hc lf l i"
    and mp': "\<And>l i. maximal m e l i \<Longrightarrow> mp' (l, i) = node_hash hc lf l i"
    using assms(1,2) by (auto simp: ref_rep_def)
  let ?u = "\<lambda>(l, i). if complete m e l i then mp' (l, i) else mp (l, i)"
  obtain mq ws where mq: "ref_merge hc b m e ?u [0..<0 + 64] = (mq, ws)" by fastforce
  have res: "err = None" "r' = (b, e, mq)" "vs = ws"
    using assms(6) mq by (simp_all add: ref_join_def r s Let_def)
  have disj: "\<not> (complete b m l i \<and> complete m e l i)" for l i
  proof -
    have "i * 2 ^ l < (i + 1) * 2 ^ l" by simp
    then show ?thesis unfolding complete_def by linarith
  qed
  have "?u (l, i) = node_hash hc lf l i"
    if "maximal b m l i \<or> maximal m e l i \<or> (l \<le> 0 \<and> crossing b m e l i)" for l i
    using that mp [of l i] mp' [of l i] disj [of l i] by (auto simp: maximal_def crossing_def)
  note merged = ref_merge_sound [OF assms(3,4) mq this]
  have A: "maximal b m l i \<or> maximal m e l i \<or> (l \<le> 64 \<and> crossing b m e l i) \<Longrightarrow>
      mq (l, i) = node_hash hc lf l i" for l i
    using merged by auto
  have B: "visits_nodes hc lf ws (\<lambda>l i. 0 < l \<and> l \<le> 64 \<and> crossing b m e l i)"
    using merged by simp
  have lev: "crossing b m e l i \<Longrightarrow> 0 < l \<and> l \<le> 64" for l i
    using complete_bounds [of b e l i] assms(5) by (cases l) (auto simp: crossing_def)
  have "mq (l, i) = node_hash hc lf l i" if "maximal b e l i" for l i
  proof -
    have c: "complete b e l i" and nc: "\<not> complete b e (Suc l) (i div 2)"
      using that by (simp_all add: maximal_def)
    have "\<not> complete b m (Suc l) (i div 2)" "\<not> complete m e (Suc l) (i div 2)"
      using nc assms(3,4) unfolding complete_def by linarith+
    then show ?thesis using A [of l i] lev [of l i] complete_cases [OF c, of m]
      unfolding maximal_def by blast
  qed
  moreover have "visits_nodes hc lf ws (crossing b m e)"
    using visits_nodes_cong [OF B] lev by blast
  ultimately show ?thesis using res by (simp add: ref_rep_def)
qed

text \<open>The root: the left part of every split is a maximal node, because the offset is a multiple of
  twice every power of two that still fits.\<close>

lemma find_pow2_Some: "find (\<lambda>l. n = 2 ^ l) [0..<64] = Some l \<Longrightarrow> n = 2 ^ l"
  by (auto simp: find_Some_iff)

lemma find_pow2_None: "find (\<lambda>l. n = 2 ^ l) [0..<64] = None \<Longrightarrow> l < 64 \<Longrightarrow> n \<noteq> 2 ^ l"
  by (auto simp: find_None_iff)

lemma ref_root_sound:
  assumes mp: "\<And>l i. maximal 0 e l i \<Longrightarrow> mp (l, i) = node_hash hc lf l i" and e: "e < 2 ^ 64"
  shows "\<lbrakk>b + n = e; 0 < n; \<And>l. 2 ^ l \<le> n \<Longrightarrow> 2 ^ Suc l dvd b\<rbrakk> \<Longrightarrow> ref_root hc mp b n = mth hc lf b n"
proof (induction n arbitrary: b rule: less_induct)
  case (less n)
  have pick: "mp (l, b div 2 ^ l) = mth hc lf b (2 ^ l)" if l: "2 ^ l \<le> n" "n < 2 * 2 ^ l" for l
  proof -
    obtain q where q: "b = q * 2 ^ Suc l" using less.prems(3) [OF l(1)] by (metis dvdE mult.commute)
    let ?i = "b div 2 ^ l"
    have i: "?i = 2 * q" "?i div 2 = q" "?i * 2 ^ l = b" unfolding q by simp_all
    have "complete 0 e l ?i" using i(3) l less.prems(1) by (simp add: complete_def)
    moreover have "\<not> complete 0 e (Suc l) (?i div 2)"
      using l less.prems(1) q unfolding i(2) by (simp add: complete_def)
    ultimately have "mp (l, ?i) = node_hash hc lf l ?i" by (intro mp) (simp add: maximal_def)
    then show ?thesis using mth_perfect [of hc lf ?i l] i(3) by simp
  qed
  show ?case
  proof (cases "find (\<lambda>l. n = 2 ^ l) [0..<64]")
    case (Some l)
    then have "n = 2 ^ l" by (rule find_pow2_Some)
    then show ?thesis using pick [of l] Some by (subst ref_root.simps) simp
  next
    case None
    let ?k = "pow2_lt n"
    have "n \<noteq> 2 ^ 0" "n \<noteq> 2 ^ 1" by (rule find_pow2_None [OF None]; simp)+
    then have n: "2 < n" using less.prems(2) by simp
    obtain j where j: "?k = 2 ^ j" using pow2_lt_pow by blast
    have k: "2 ^ j < n" "n \<le> 2 * 2 ^ j" using pow2_lt_bounds [of n] n j by auto
    have "(2 :: nat) ^ j < 2 ^ 64" using k(1) less.prems(1) e by linarith
    then have "j < 64" using power_less_imp_less_exp [of "2 :: nat" j 64] by simp
    have n2: "n \<noteq> 2 * 2 ^ j"
    proof
      assume n2: "n = 2 * 2 ^ j"
      then have "(2 :: nat) ^ Suc j < 2 ^ 64" using less.prems(1) e by simp
      then have "Suc j < 64" using power_less_imp_less_exp [of "2 :: nat" "Suc j" 64] by simp
      then show False using find_pow2_None [OF None, of "Suc j"] n2 by simp
    qed
    have left: "ref_root hc mp b ?k = mth hc lf b ?k"
    proof -
      have "find (\<lambda>l. (2 :: nat) ^ j = 2 ^ l) [0..<64] = Some j"
      proof -
        have nth: "[0..<64] ! k = k" if "k < 64" for k :: nat using that by (subst nth_upt) auto
        show ?thesis unfolding find_Some_iff using \<open>j < 64\<close> nth
          by (intro exI [of _ j]) (auto simp del: upt_conv_Cons)
      qed
      then show ?thesis using pick [of j] k n2 unfolding j by (subst ref_root.simps) simp
    qed
    have right: "ref_root hc mp (b + ?k) (n - ?k) = mth hc lf (b + ?k) (n - ?k)"
    proof (rule less.IH)
      show "n - ?k < n" "b + ?k + (n - ?k) = e" "0 < n - ?k" using k j less.prems(1) by auto
      fix l assume l: "2 ^ l \<le> n - ?k"
      then have "(2 :: nat) ^ l < 2 ^ j" using k n2 unfolding j by linarith
      then have "l < j" using power_less_imp_less_exp [of "2 :: nat" l j] by simp
      then have "2 ^ Suc l dvd (2 :: nat) ^ j" by (intro le_imp_power_dvd) simp
      moreover have "2 ^ Suc l dvd b" using l by (intro less.prems(3)) linarith
      ultimately show "2 ^ Suc l dvd b + ?k" unfolding j by simp
    qed
    show ?thesis using None n left right
      by (subst ref_root.simps, subst mth.simps) (simp add: Let_def)
  qed
qed

lemma nid_unat:
  "maximal b e l i \<Longrightarrow> e < 2 ^ 64 \<Longrightarrow> nid l i = (x, y) \<Longrightarrow> unat x = l \<and> unat y = i"
  using complete_bounds [of b e l i] by (auto simp: maximal_def nid_def unat_of_nat_u64)

lemma map_ref_nodes:
  "e < 2 ^ 64 \<Longrightarrow> map (\<lambda>(l, i). node_hash hc lf (unat l) (unat i)) (map (\<lambda>(l, i). nid l i) (ref_nodes b e))
     = map (\<lambda>(l, i). node_hash hc lf l i) (ref_nodes b e)"
  using nid_unat by (auto simp: ref_nodes_iff split: prod.splits)

interpretation ref: compact_range "ref_compact hc" hc "ref_rep hc" for hc
proof (unfold_locales, goal_cases)
  case (1 x y)
  have "(l, i) \<in> set (ref_nodes (unat x) (unat y)) \<longleftrightarrow> maximal (unat x) (unat y) l i" for l i
    by (rule ref_nodes_iff) simp
  then show ?case by (force simp: ref_compact_def image_iff)
next
  case (2 x y lf)
  let ?ns = "ref_nodes (unat x) (unat y)"
  have "map_of (zip ?ns (map (\<lambda>(l, i). node_hash hc lf l i) ?ns)) (l, i) = Some (node_hash hc lf l i)"
    if "maximal (unat x) (unat y) l i" for l i
    using that ref_nodes_iff [of "unat y" l i "unat x"] by (simp add: map_of_zip_map)
  moreover have hs: "map (\<lambda>(l, i). node_hash hc lf (unat l) (unat i)) (RangeNodes (ref_compact hc) x y)
      = map (\<lambda>(l, i). node_hash hc lf l i) ?ns"
    using map_ref_nodes [OF unat_lt_u64, of hc lf "unat x" y] by (simp add: ref_compact_def)
  ultimately show ?case unfolding hs using 2 by (simp add: ref_compact_def ref_rep_def Let_def)
next
  case (3 x lf)
  have "\<not> maximal b b l i" for b l i by (simp add: maximal_def)
  then show ?case by (simp add: ref_compact_def ref_rep_def)
next
  case (4 r lf b e r' vs)
  obtain mp where r: "r = (b, e, mp)" using 4 by (auto simp: ref_rep_def)
  have "ref_rep hc (e, e + 1, \<lambda>k. lf e) lf e (e + 1)"
  proof -
    have "\<not> crossing e e (e + 1) l i" for l i by (auto simp: crossing_def complete_def)
    then have "l = 0 \<and> i = e" if "maximal e (e + 1) l i" for l i
      using that complete_Suc [of e e l i] complete_empty [of e l i] unfolding maximal_def by blast
    then have "maximal e (e + 1) l i \<Longrightarrow> lf e = node_hash hc lf l i" for l i by fastforce
    then show ?thesis by (simp add: ref_rep_def)
  qed
  moreover obtain err r2 v2 where j: "ref_join hc r (e, e + 1, \<lambda>k. lf e) = (err, r2, v2)"
    by (metis prod_cases3)
  ultimately have "ref_rep hc r2 lf b (e + 1) \<and> visits_nodes hc lf v2 (crossing b e (e + 1))"
    using ref_join_sound [of hc r lf b e _ "e + 1"] 4 by auto
  moreover have "r' = r2" "vs = (nid 0 e, lf e) # v2"
    using 4(4) j by (simp_all add: ref_compact_def r)
  ultimately show ?case using visits_nodes_Cons [of hc lf v2 "crossing b e (e + 1)" 0 e] by simp
next
  case (5 r lf b m s e err r' vs)
  then show ?case using ref_join_sound [of hc r lf b m s e err r' vs]
    by (simp add: ref_compact_def)
next
  case (6 r lf e)
  then show ?case using ref_root_sound [of e _ hc lf 0 e]
    by (auto simp: ref_compact_def ref_rep_def)
next
  case (7 r lf)
  then show ?case by (auto simp: ref_compact_def ref_rep_def)
next
  case (8 r lf b e)
  then obtain mp where "r = (b, e, mp)" "\<And>l i. maximal b e l i \<Longrightarrow> mp (l, i) = node_hash hc lf l i"
    by (auto simp: ref_rep_def)
  moreover have "unat (of_nat b :: u64) = b" "unat (of_nat e :: u64) = e"
    using 8 by (simp_all add: unat_of_nat_u64)
  ultimately show ?case using 8 nid_unat [of b e]
    by (auto simp: ref_compact_def ref_nodes_iff split: prod.split)
next
  case (9 r lf b e)
  then show ?case by (auto simp: ref_compact_def ref_rep_def unat_of_nat_u64)
qed

end
