(* ===== verification/ProofLib.thy ===== *)
theory ProofLib
  imports NoteLib
begin

section \<open>Merkle proofs: the contract and the proofs of RFC 6962\<close>

text \<open>
  What the sources rely on in \<^verbatim>\<open>merkle/proof\<close>: a proof request names complete nodes of
  the tree, and the proof made from their hashes verifies against the tree's root hashes.  The
  proofs of RFC 6962, section 2.1, satisfy this contract.
\<close>

abbreviation id_hashes :: "hash_fn \<Rightarrow> (nat \<Rightarrow> bytes) \<Rightarrow> node_id list \<Rightarrow> bytes list" where
  "id_hashes hc lf ids \<equiv> map (\<lambda>(l, i). node_hash hc lf (unat l) (unat i)) ids"

definition ids_complete :: "nat \<Rightarrow> node_id list \<Rightarrow> bool" where
  "ids_complete n ids \<longleftrightarrow> (\<forall>(x, y) \<in> set ids. complete 0 n (unat x) (unat y))"

locale merkle_proofs =
  fixes P :: "'n proof_lib" and H :: hasher
  assumes inclusion: "i < n \<Longrightarrow> \<exists>ns. Inclusion P i n = Inr ns \<and> ids_complete (unat n) (IDs P ns) \<and>
      (\<forall>lf. \<exists>p. Rehash P ns (id_hashes (HashChildren H) lf (IDs P ns)) (HashChildren H) = Inr p \<and>
         VerifyInclusion P H i n (lf (unat i)) p (mth (HashChildren H) lf 0 (unat n)) = None)"
    and consistency: "0 < m \<Longrightarrow> m \<le> n \<Longrightarrow> \<exists>ns. Consistency P m n = Inr ns \<and> ids_complete (unat n) (IDs P ns) \<and>
      (\<forall>lf. \<exists>p. Rehash P ns (id_hashes (HashChildren H) lf (IDs P ns)) (HashChildren H) = Inr p \<and>
         VerifyConsistency P H m n p (mth (HashChildren H) lf 0 (unat m)) (mth (HashChildren H) lf 0 (unat n)) = None)"

subsection \<open>Subtrees by their complete nodes\<close>

fun lg :: "nat \<Rightarrow> nat" where
  "lg n = (if n \<le> 1 then 0 else Suc (lg (n div 2)))"

declare lg.simps [simp del]

lemma lg_power [simp]: "lg (2 ^ l) = l"
proof (induction l)
  case (Suc l)
  have "(1 :: nat) < 2 ^ Suc l" by (rule one_less_power) simp_all
  then show ?case using Suc by (subst lg.simps) simp
qed (simp add: lg.simps)

function subtree_ids :: "nat \<Rightarrow> nat \<Rightarrow> (nat \<times> nat) list" where
  "subtree_ids n b =
     (if n \<le> 1 \<or> n = 2 ^ lg n then [(lg n, b div 2 ^ lg n)]
      else subtree_ids (pow2_lt n) b @ subtree_ids (n - pow2_lt n) (b + pow2_lt n))"
  by pat_completeness auto
termination
proof (relation "measure (\<lambda>(n, b). n)", goal_cases)
  case (2 n b)
  then show ?case using pow2_lt_bounds [of n] by simp
next
  case (3 n b)
  then show ?case using pow2_lt_bounds [of n] pow2_lt_pow [of n] by auto
qed simp

function subtree_hash :: "hash_fn \<Rightarrow> nat \<Rightarrow> bytes list \<Rightarrow> bytes \<times> bytes list" where
  "subtree_hash hc n hs =
     (if n \<le> 1 \<or> n = 2 ^ lg n then (case hs of [] \<Rightarrow> ([], []) | h # hs' \<Rightarrow> (h, hs'))
      else let (a, hs1) = subtree_hash hc (pow2_lt n) hs; (b, hs2) = subtree_hash hc (n - pow2_lt n) hs1
           in (hc a b, hs2))"
  by pat_completeness auto
termination
proof (relation "measure (\<lambda>(hc, n, hs). n)", goal_cases)
  case (2 hc n hs)
  then show ?case using pow2_lt_bounds [of n] by simp
next
  case (3 hc n hs)
  then show ?case using pow2_lt_bounds [of n] pow2_lt_pow [of n] by auto
qed simp

declare subtree_ids.simps [simp del] subtree_hash.simps [simp del]

text \<open>The offset of a subtree of the log is a multiple of every power of two that fits into it.\<close>

definition aligned :: "nat \<Rightarrow> nat \<Rightarrow> bool" where
  "aligned n b \<longleftrightarrow> (\<forall>l. 2 ^ l \<le> n \<longrightarrow> 2 ^ l dvd b)"

lemma aligned_0 [simp]: "aligned n 0"
  by (simp add: aligned_def)

lemma aligned_split:
  assumes "2 \<le> n" "aligned n b"
  shows "aligned (pow2_lt n) b" "aligned (n - pow2_lt n) (b + pow2_lt n)"
proof -
  obtain j where j: "pow2_lt n = 2 ^ j" using pow2_lt_pow by blast
  have k: "2 ^ j < n" "n \<le> 2 * 2 ^ j" using pow2_lt_bounds [OF assms(1)] j by auto
  show "aligned (pow2_lt n) b" using assms(2) k unfolding aligned_def j
    by (meson less_imp_le order_trans)
  show "aligned (n - pow2_lt n) (b + pow2_lt n)" unfolding aligned_def
  proof (intro allI impI)
    fix l assume l: "(2 :: nat) ^ l \<le> n - pow2_lt n"
    then have "(2 :: nat) ^ l \<le> 2 ^ j" "2 ^ l \<le> n" using k unfolding j by linarith+
    then have "(2 :: nat) ^ l dvd 2 ^ j" "2 ^ l dvd b"
      using assms(2) by (auto simp: aligned_def intro: le_imp_power_dvd)
    then show "2 ^ l dvd b + pow2_lt n" unfolding j by simp
  qed
qed

lemma subtree_leaf:
  assumes "0 < n" "n \<le> 1 \<or> n = 2 ^ lg n" "aligned n b"
  shows "n = 2 ^ lg n" "b div 2 ^ lg n * 2 ^ lg n = b"
proof -
  have "lg 1 = 0" by (simp add: lg.simps)
  then show n: "n = 2 ^ lg n" using assms(1,2) by (cases "n = 1") auto
  have "2 ^ lg n dvd b" using assms(3) n unfolding aligned_def by (metis order_refl)
  then show "b div 2 ^ lg n * 2 ^ lg n = b" by simp
qed

lemma subtree_hash_sound:
  "\<lbrakk>0 < n; aligned n b\<rbrakk> \<Longrightarrow>
   subtree_hash hc n (map (\<lambda>(l, i). node_hash hc lf l i) (subtree_ids n b) @ rest) = (mth hc lf b n, rest)"
proof (induction n b arbitrary: rest rule: subtree_ids.induct)
  case (1 n b)
  show ?case
  proof (cases "n \<le> 1 \<or> n = 2 ^ lg n")
    case True
    then show ?thesis using mth_perfect [of hc lf "b div 2 ^ lg n" "lg n"] subtree_leaf [OF 1(3) True 1(4)]
      by (simp add: subtree_ids.simps subtree_hash.simps)
  next
    case False
    then have "2 \<le> n" by simp
    note al = aligned_split [OF this 1(4)] and pb = pow2_lt_bounds [OF this]
    obtain j where "pow2_lt n = 2 ^ j" using pow2_lt_pow by blast
    then have "0 < pow2_lt n" by simp
    then show ?thesis using False 1(1) [OF False _ al(1)] 1(2) [OF False _ al(2)] pb
      by (simp add: subtree_ids.simps [of n] subtree_hash.simps [of hc n] mth.simps [of hc lf b n] Let_def)
  qed
qed

lemma subtree_ids_complete:
  "\<lbrakk>0 < n; aligned n b; (l, i) \<in> set (subtree_ids n b)\<rbrakk> \<Longrightarrow> complete b (b + n) l i"
proof (induction n b rule: subtree_ids.induct)
  case (1 n b)
  show ?case
  proof (cases "n \<le> 1 \<or> n = 2 ^ lg n")
    case True
    note s = subtree_leaf [OF 1(3) True 1(4)]
    have "l = lg n" "i = b div 2 ^ lg n" using 1(5) True by (simp_all add: subtree_ids.simps)
    then show ?thesis using s by (simp add: complete_def)
  next
    case False
    then have n: "2 \<le> n" by simp
    note al = aligned_split [OF n 1(4)] and pb = pow2_lt_bounds [OF n]
    obtain j where "pow2_lt n = 2 ^ j" using pow2_lt_pow by blast
    then have "0 < pow2_lt n" by simp
    moreover have "(l, i) \<in> set (subtree_ids (pow2_lt n) b) \<or>
        (l, i) \<in> set (subtree_ids (n - pow2_lt n) (b + pow2_lt n))"
      using 1(5) False by (simp add: subtree_ids.simps [of n])
    ultimately show ?thesis
      using 1(1) [OF False _ al(1)] 1(2) [OF False _ al(2)] pb by (auto simp: complete_def)
  qed
qed


subsection \<open>The proofs\<close>

text \<open>A proof is a list of subtrees, each given by its first leaf and its width, bottom up.\<close>

function incl_path :: "nat \<Rightarrow> nat \<Rightarrow> nat \<Rightarrow> (nat \<times> nat) list" where
  "incl_path m n b =
     (if n \<le> 1 then []
      else let k = pow2_lt n in
        if m < k then incl_path m k b @ [(b + k, n - k)]
        else incl_path (m - k) (n - k) (b + k) @ [(b, k)])"
  by pat_completeness auto
termination
proof (relation "measure (\<lambda>(m, n, b). n)", goal_cases)
  case (2 m n b k)
  then show ?case using pow2_lt_bounds [of n] by simp
next
  case (3 m n b k)
  then show ?case using pow2_lt_bounds [of n] pow2_lt_pow [of n] by auto
qed simp

function incl_root :: "hash_fn \<Rightarrow> nat \<Rightarrow> nat \<Rightarrow> bytes \<Rightarrow> bytes list \<Rightarrow> bytes option" where
  "incl_root hc m n h p =
     (if n \<le> 1 then (if p = [] then Some h else None)
      else if p = [] then None
      else let k = pow2_lt n in
        if m < k then map_option (\<lambda>x. hc x (last p)) (incl_root hc m k h (butlast p))
        else map_option (hc (last p)) (incl_root hc (m - k) (n - k) h (butlast p)))"
  by pat_completeness auto
termination
proof (relation "measure (\<lambda>(hc, m, n, h, p). n)", goal_cases)
  case (2 hc m n h p k)
  then show ?case using pow2_lt_bounds [of n] by simp
next
  case (3 hc m n h p k)
  then show ?case using pow2_lt_bounds [of n] pow2_lt_pow [of n] by auto
qed simp

function cons_path :: "nat \<Rightarrow> nat \<Rightarrow> nat \<Rightarrow> bool \<Rightarrow> (nat \<times> nat) list" where
  "cons_path m n b tp =
     (if n \<le> m \<or> n \<le> 1 then (if tp then [] else [(b, n)])
      else let k = pow2_lt n in
        if m \<le> k then cons_path m k b tp @ [(b + k, n - k)]
        else cons_path (m - k) (n - k) (b + k) False @ [(b, k)])"
  by pat_completeness auto
termination
proof (relation "measure (\<lambda>(m, n, b, tp). n)", goal_cases)
  case (2 m n b tp k)
  then show ?case using pow2_lt_bounds [of n] by simp
next
  case (3 m n b tp k)
  then show ?case using pow2_lt_bounds [of n] pow2_lt_pow [of n] by auto
qed simp

function cons_roots :: "hash_fn \<Rightarrow> nat \<Rightarrow> nat \<Rightarrow> bool \<Rightarrow> bytes \<Rightarrow> bytes list \<Rightarrow> (bytes \<times> bytes) option" where
  "cons_roots hc m n tp r p =
     (if n \<le> m \<or> n \<le> 1 then
        (if tp then (if p = [] then Some (r, r) else None)
         else (case p of [h] \<Rightarrow> Some (h, h) | _ \<Rightarrow> None))
      else if p = [] then None
      else let k = pow2_lt n in
        if m \<le> k then map_option (\<lambda>(x, y). (x, hc y (last p))) (cons_roots hc m k tp r (butlast p))
        else map_option (\<lambda>(x, y). (hc (last p) x, hc (last p) y))
               (cons_roots hc (m - k) (n - k) False r (butlast p)))"
  by pat_completeness auto
termination
proof (relation "measure (\<lambda>(hc, m, n, tp, r, p). n)", goal_cases)
  case (2 hc m n tp r p k)
  then show ?case using pow2_lt_bounds [of n] by simp
next
  case (3 hc m n tp r p k)
  then show ?case using pow2_lt_bounds [of n] pow2_lt_pow [of n] by auto
qed simp

declare incl_path.simps [simp del] incl_root.simps [simp del]
declare cons_path.simps [simp del] cons_roots.simps [simp del]

abbreviation range_hashes :: "hash_fn \<Rightarrow> (nat \<Rightarrow> bytes) \<Rightarrow> (nat \<times> nat) list \<Rightarrow> bytes list" where
  "range_hashes hc lf ns \<equiv> map (\<lambda>(b, n). mth hc lf b n) ns"

lemma incl_root_sound:
  "m < n \<Longrightarrow> incl_root hc m n (lf (b + m)) (range_hashes hc lf (incl_path m n b)) = Some (mth hc lf b n)"
proof (induction m n b rule: incl_path.induct)
  case (1 m n b)
  show ?case
  proof (cases "n \<le> 1")
    case True
    then have "m = 0" using 1(3) by simp
    then show ?thesis using True by (simp add: incl_path.simps incl_root.simps mth.simps)
  next
    case False
    then have pb: "pow2_lt n < n" using pow2_lt_bounds [of n] by simp
    show ?thesis
    proof (cases "m < pow2_lt n")
      case True
      then show ?thesis using False 1(1) [OF False refl True True]
        by (simp add: incl_path.simps [of m n] incl_root.simps [of hc m n] mth.simps [of hc lf b n] Let_def)
    next
      case k: False
      then show ?thesis using False 1(2) [OF False refl k] pb 1(3)
        by (simp add: incl_path.simps [of m n] incl_root.simps [of hc m n] mth.simps [of hc lf b n] Let_def)
    qed
  qed
qed

lemma pow2_lt_unique: "\<lbrakk>2 \<le> n; 2 ^ k < n; n \<le> 2 * 2 ^ k\<rbrakk> \<Longrightarrow> pow2_lt n = 2 ^ k"
proof -
  assume n: "2 \<le> n" "2 ^ k < n" "n \<le> 2 * 2 ^ k"
  obtain j where j: "pow2_lt n = 2 ^ j" using pow2_lt_pow by blast
  have b: "2 ^ j < n" "n \<le> 2 * 2 ^ j" using pow2_lt_bounds [OF n(1)] j by auto
  then have "(2 :: nat) ^ j < 2 ^ Suc k" "(2 :: nat) ^ k < 2 ^ Suc j" using n by simp_all
  then have "j < Suc k" "k < Suc j" by (metis power_less_imp_less_exp one_less_numeral_iff semiring_norm(76))+
  then show ?thesis using j by simp
qed

lemma cons_roots_sound:
  "\<lbrakk>0 < m; m \<le> n; tp \<Longrightarrow> r = mth hc lf b m\<rbrakk> \<Longrightarrow>
   cons_roots hc m n tp r (range_hashes hc lf (cons_path m n b tp)) = Some (mth hc lf b m, mth hc lf b n)"
proof (induction m n b tp rule: cons_path.induct)
  case (1 m n b tp)
  show ?case
  proof (cases "n \<le> m \<or> n \<le> 1")
    case True
    then have "n = m" using 1(3,4) by linarith
    then show ?thesis using 1(5) by (simp add: cons_path.simps cons_roots.simps)
  next
    case False
    then have n2: "2 \<le> n" by simp
    note pb = pow2_lt_bounds [OF n2]
    show ?thesis
    proof (cases "m \<le> pow2_lt n")
      case True
      then show ?thesis using False 1(1) [OF False refl True 1(3) True 1(5)]
        by (simp add: cons_path.simps [of m n] cons_roots.simps [of hc m n] mth.simps [of hc lf b n] Let_def)
    next
      case k: False
      obtain j where j: "pow2_lt n = 2 ^ j" using pow2_lt_pow by blast
      have "(1 :: nat) \<le> 2 ^ j" by simp
      then have m: "\<not> m \<le> 1" using k unfolding j by linarith
      have "pow2_lt m = pow2_lt n" unfolding j
        using k pb 1(4) m unfolding j by (intro pow2_lt_unique) linarith+
      then show ?thesis using False k 1(2) [OF False refl k] pb 1(4) m
        by (simp add: cons_path.simps [of m n] cons_roots.simps [of hc m n] mth.simps [of hc lf b n]
            mth.simps [of hc lf b m] Let_def)
    qed
  qed
qed


subsection \<open>The library of RFC 6962 proofs\<close>

definition range_ids :: "(nat \<times> nat) list \<Rightarrow> (nat \<times> nat) list" where
  "range_ids ns = concat (map (\<lambda>(b, n). subtree_ids n b) ns)"

fun range_rehash :: "hash_fn \<Rightarrow> (nat \<times> nat) list \<Rightarrow> bytes list \<Rightarrow> bytes list res" where
  "range_rehash hc [] hs = (if hs = [] then Inr [] else Inl (Errorf ''too many hashes''))"
| "range_rehash hc ((b, n) # ns) hs =
     (let (h, hs') = subtree_hash hc n hs in map_sum id (\<lambda>p. h # p) (range_rehash hc ns hs'))"

definition rfc6962_proofs :: "(nat \<times> nat) list proof_lib" where
  "rfc6962_proofs = \<lparr>
     Inclusion = (\<lambda>i n. if i < n then Inr (incl_path (unat i) (unat n) 0)
                        else Inl (Errorf ''index is outside of the tree'')),
     Consistency = (\<lambda>m n. if m \<le> n then Inr (if m = 0 then [] else cons_path (unat m) (unat n) 0 True)
                          else Inl (Errorf ''tree size is smaller'')),
     IDs = (\<lambda>ns. map (\<lambda>(l, i). nid l i) (range_ids ns)),
     Rehash = (\<lambda>ns hs hc. range_rehash hc ns hs),
     VerifyConsistency = (\<lambda>H m n p r1 r2.
       if n < m then Some (Errorf ''size2 smaller than size1'')
       else if m = 0 then (if p = [] then None else Some (Errorf ''expected empty proof''))
       else if cons_roots (HashChildren H) (unat m) (unat n) True r1 p = Some (r1, r2) then None
       else Some (Errorf ''root mismatch'')),
     VerifyInclusion = (\<lambda>H i n h p r.
       if i < n \<and> incl_root (HashChildren H) (unat i) (unat n) h p = Some r then None
       else Some (Errorf ''root mismatch''))\<rparr>"

definition ranges_ok :: "nat \<Rightarrow> (nat \<times> nat) list \<Rightarrow> bool" where
  "ranges_ok e ns \<longleftrightarrow> (\<forall>(b, n) \<in> set ns. 0 < n \<and> aligned n b \<and> b + n \<le> e)"

lemma range_rehash_sound:
  "ranges_ok e ns \<Longrightarrow>
     range_rehash hc ns (map (\<lambda>(l, i). node_hash hc lf l i) (range_ids ns)) = Inr (range_hashes hc lf ns)"
proof (induction ns)
  case (Cons a ns)
  obtain b n where a: "a = (b, n)" by fastforce
  have "0 < n" "aligned n b" "ranges_ok e ns" using Cons.prems by (auto simp: ranges_ok_def a)
  then show ?case using Cons.IH by (simp add: a range_ids_def subtree_hash_sound)
qed (simp add: range_ids_def)

lemma range_ids_complete:
  "ranges_ok e ns \<Longrightarrow> (l, i) \<in> set (range_ids ns) \<Longrightarrow> complete 0 e l i"
proof -
  assume ok: "ranges_ok e ns" and "(l, i) \<in> set (range_ids ns)"
  then obtain b n where bn: "(b, n) \<in> set ns" "(l, i) \<in> set (subtree_ids n b)"
    by (auto simp: range_ids_def)
  then have "0 < n" "aligned n b" "b + n \<le> e" using ok by (auto simp: ranges_ok_def)
  then show ?thesis using subtree_ids_complete [OF _ _ bn(2)] by (auto simp: complete_def)
qed

lemma ranges_ok_split:
  assumes "2 \<le> n" "aligned n b" "b + n \<le> e"
  shows "0 < pow2_lt n" "0 < n - pow2_lt n" "aligned (pow2_lt n) b" "aligned (n - pow2_lt n) (b + pow2_lt n)"
    "b + pow2_lt n \<le> e" "b + pow2_lt n + (n - pow2_lt n) \<le> e"
proof -
  obtain j where "pow2_lt n = 2 ^ j" using pow2_lt_pow by blast
  then show "0 < pow2_lt n" by simp
  show "0 < n - pow2_lt n" "b + pow2_lt n \<le> e" "b + pow2_lt n + (n - pow2_lt n) \<le> e"
    using pow2_lt_bounds [OF assms(1)] assms(3) by auto
qed (fact aligned_split [OF assms(1,2)])+

lemma incl_path_ok: "\<lbrakk>m < n; aligned n b; b + n \<le> e\<rbrakk> \<Longrightarrow> ranges_ok e (incl_path m n b)"
proof (induction m n b rule: incl_path.induct)
  case (1 m n b)
  show ?case
  proof (cases "n \<le> 1")
    case False
    then have "2 \<le> n" by simp
    note s = ranges_ok_split [OF this 1(4,5)]
    show ?thesis
    proof (cases "m < pow2_lt n")
      case True
      then show ?thesis using False 1(1) [OF False refl True True s(3,5)] s
        by (auto simp: incl_path.simps [of m n] Let_def ranges_ok_def)
    next
      case k: False
      then show ?thesis using False 1(2) [OF False refl k _ s(4,6)] s 1(3)
        by (auto simp: incl_path.simps [of m n] Let_def ranges_ok_def)
    qed
  qed (simp add: incl_path.simps ranges_ok_def)
qed

lemma cons_path_ok: "\<lbrakk>0 < n; aligned n b; b + n \<le> e\<rbrakk> \<Longrightarrow> ranges_ok e (cons_path m n b tp)"
proof (induction m n b tp rule: cons_path.induct)
  case (1 m n b tp)
  show ?case
  proof (cases "n \<le> m \<or> n \<le> 1")
    case True
    then show ?thesis using 1(3-) by (simp add: cons_path.simps ranges_ok_def)
  next
    case False
    then have "2 \<le> n" by simp
    note s = ranges_ok_split [OF this 1(4,5)]
    show ?thesis
    proof (cases "m \<le> pow2_lt n")
      case True
      then show ?thesis using False 1(1) [OF False refl True s(1,3,5)] s
        by (auto simp: cons_path.simps [of m n] Let_def ranges_ok_def)
    next
      case k: False
      then show ?thesis using False 1(2) [OF False refl k s(2,4,6)] s
        by (auto simp: cons_path.simps [of m n] Let_def ranges_ok_def)
    qed
  qed
qed

lemma map_nid_range_ids:
  assumes "ranges_ok e ns" "e < 2 ^ 64"
  shows "id_hashes hc lf (map (\<lambda>(l, i). nid l i) (range_ids ns)) = map (\<lambda>(l, i). node_hash hc lf l i) (range_ids ns)"
    and "ids_complete e (map (\<lambda>(l, i). nid l i) (range_ids ns))"
proof -
  have u: "unat (of_nat l :: u64) = l \<and> unat (of_nat i :: u64) = i" if "(l, i) \<in> set (range_ids ns)" for l i
    using complete_bounds [OF range_ids_complete [OF assms(1) that] assms(2)] by (simp add: unat_of_nat_u64)
  then show "id_hashes hc lf (map (\<lambda>(l, i). nid l i) (range_ids ns)) = map (\<lambda>(l, i). node_hash hc lf l i) (range_ids ns)"
    by (fastforce simp: nid_def)
  show "ids_complete e (map (\<lambda>(l, i). nid l i) (range_ids ns))"
    using u range_ids_complete [OF assms(1)] by (fastforce simp: ids_complete_def nid_def)
qed

interpretation rfc: merkle_proofs rfc6962_proofs H for H
proof (unfold_locales, goal_cases)
  case (1 i n)
  then have lt: "unat i < unat n" by (simp add: word_less_nat_alt)
  let ?ns = "incl_path (unat i) (unat n) 0"
  have ok: "ranges_ok (unat n) ?ns" using lt by (intro incl_path_ok) simp_all
  have "Inclusion rfc6962_proofs i n = Inr ?ns" using 1 by (simp add: rfc6962_proofs_def)
  moreover have "ids_complete (unat n) (IDs rfc6962_proofs ?ns)"
    using map_nid_range_ids(2) [OF ok unat_lt_u64] by (simp add: rfc6962_proofs_def)
  moreover have "Rehash rfc6962_proofs ?ns (id_hashes (HashChildren H) lf (IDs rfc6962_proofs ?ns)) (HashChildren H)
      = Inr (range_hashes (HashChildren H) lf ?ns)" for lf
    using map_nid_range_ids(1) [OF ok unat_lt_u64] range_rehash_sound [OF ok]
    by (simp add: rfc6962_proofs_def del: map_map)
  moreover have "VerifyInclusion rfc6962_proofs H i n (lf (unat i)) (range_hashes (HashChildren H) lf ?ns)
      (mth (HashChildren H) lf 0 (unat n)) = None" for lf
    using incl_root_sound [OF lt, of _ lf 0] 1 by (simp add: rfc6962_proofs_def)
  ultimately show ?case by blast
next
  case (2 m n)
  then have lt: "0 < unat m" "unat m \<le> unat n" "\<not> n < m" "m \<noteq> 0"
    by (auto simp: word_less_nat_alt word_le_nat_alt)
  let ?ns = "cons_path (unat m) (unat n) 0 True"
  have ok: "ranges_ok (unat n) ?ns" using lt(1,2) by (intro cons_path_ok) simp_all
  have "Consistency rfc6962_proofs m n = Inr ?ns" using 2 lt by (simp add: rfc6962_proofs_def)
  moreover have "ids_complete (unat n) (IDs rfc6962_proofs ?ns)"
    using map_nid_range_ids(2) [OF ok unat_lt_u64] by (simp add: rfc6962_proofs_def)
  moreover have "Rehash rfc6962_proofs ?ns (id_hashes (HashChildren H) lf (IDs rfc6962_proofs ?ns)) (HashChildren H)
      = Inr (range_hashes (HashChildren H) lf ?ns)" for lf
    using map_nid_range_ids(1) [OF ok unat_lt_u64] range_rehash_sound [OF ok]
    by (simp add: rfc6962_proofs_def del: map_map)
  moreover have "VerifyConsistency rfc6962_proofs H m n (range_hashes (HashChildren H) lf ?ns)
      (mth (HashChildren H) lf 0 (unat m)) (mth (HashChildren H) lf 0 (unat n)) = None" for lf
    using cons_roots_sound [OF lt(1,2), where tp = True and lf = lf and b = 0, OF refl] lt(3,4) by (simp add: rfc6962_proofs_def)
  ultimately show ?case by blast
qed

end
