(* ===== verification/LogClientProofs.thy ===== *)
theory LogClientProofs
  imports LogClient MerkleRef ProofLib
begin

section \<open>The client is correct\<close>

text \<open>
  Shown here: the node cache never changes an answer; over tiles that hold the nodes of a tree the
  client reads the right hashes, rebuilds the root and accepts a checkpoint exactly when its hash is
  that root; what \<open>Update\<close> checks before it moves the tracker; and which pairs of checkpoints
  \<open>CheckConsistency\<close> compares.
\<close>

subsection \<open>The cache is transparent\<close>

text \<open>The lookup without a cache.\<close>

definition lookup_node :: "(node_id \<Rightarrow> bytes option) \<Rightarrow> GetTileFunc \<Rightarrow> node_id \<Rightarrow> bytes res" where
  "lookup_node eph gt nID =
     (case eph nID of
        Some (c # cs) \<Rightarrow> Inr (c # cs)
      | _ \<Rightarrow>
        (let (tileLevel, tileIndex, nodeLevel, nodeIndex) = NodeCoordsToTileAddress (fst nID) (snd nID)
         in case gt tileLevel tileIndex of
              Inl err \<Rightarrow> Inl (wrapf ''failed to fetch tile'' err)
            | Inr t \<Rightarrow> tile_node t nodeLevel nodeIndex))"

definition cache_ok :: "nodeCache \<Rightarrow> bool" where
  "cache_ok n \<longleftrightarrow> (\<forall>l i t. tiles n (l, i) = Some t \<longrightarrow> getTile n l i = Inr t)"

text \<open>What a step of the cache keeps: everything but the tiles, which stay what \<open>getTile\<close> returns.\<close>

definition same_view :: "nodeCache \<Rightarrow> nodeCache \<Rightarrow> bool" where
  "same_view n n' \<longleftrightarrow> cache_ok n' \<and> getTile n' = getTile n \<and> ephemeral n' = ephemeral n \<and> logSize n' = logSize n"

lemma same_view_refl: "cache_ok n \<Longrightarrow> same_view n n"
  by (simp add: same_view_def)

lemma same_view_trans: "same_view n n' \<Longrightarrow> same_view n' n'' \<Longrightarrow> same_view n n''"
  by (simp add: same_view_def)

lemma cache_ok_new [simp]: "cache_ok (newNodeCache gt s)"
  by (simp add: cache_ok_def newNodeCache_def)

lemma GetNode_lookup:
  assumes "cache_ok n"
  shows "fst (GetNode n nID) = lookup_node (ephemeral n) (getTile n) nID"
    and "same_view n (snd (GetNode n nID))"
proof -
  obtain tlv ti nl ni where a: "NodeCoordsToTileAddress (fst nID) (snd nID) = (tlv, ti, nl, ni)"
    by (metis prod_cases4)
  have "fst (GetNode n nID) = lookup_node (ephemeral n) (getTile n) nID \<and>
      same_view n (snd (GetNode n nID))"
    using assms unfolding cache_ok_def GetNode_def lookup_node_def same_view_def Let_def a
    by (auto split: option.splits sum.splits list.splits)
  then show "fst (GetNode n nID) = lookup_node (ephemeral n) (getTile n) nID"
    "same_view n (snd (GetNode n nID))" by auto
qed

lemma get_nodes_lookup:
  "cache_ok n \<Longrightarrow> fst (get_nodes n ids) = mapE (lookup_node (ephemeral n) (getTile n)) ids \<and>
     same_view n (snd (get_nodes n ids))"
proof (induction ids arbitrary: n)
  case Nil
  then show ?case by (simp add: same_view_refl)
next
  case (Cons x ids)
  note g = GetNode_lookup [OF Cons.prems, of x]
  obtain r n' where r: "GetNode n x = (r, n')" by fastforce
  then have v: "same_view n n'" and l: "lookup_node (ephemeral n) (getTile n) x = r"
    using g by auto
  show ?case
  proof (cases r)
    case (Inl e)
    then show ?thesis using r v l by simp
  next
    case (Inr h)
    have "cache_ok n'" "ephemeral n' = ephemeral n" "getTile n' = getTile n"
      using v by (auto simp: same_view_def)
    moreover obtain r2 n2 where r2: "get_nodes n' ids = (r2, n2)" by fastforce
    ultimately have IH: "mapE (lookup_node (ephemeral n) (getTile n)) ids = r2" "same_view n' n2"
      using Cons.IH [of n'] by auto
    have "same_view n n2" using same_view_trans [OF v IH(2)] .
    then show ?thesis using r l Inr r2 IH(1) by (cases r2) simp_all
  qed
qed

text \<open>C23: For every tile source and every sequence of node requests, a fresh node cache gives exactly
  the answers, and the first error, that fetching the tile anew for every node would give: caching
  tiles never changes what a client sees.\<close>

theorem nodeCache_transparent:
  "fst (get_nodes (newNodeCache gt s) ids) = mapE (lookup_node Map.empty gt) ids"
  using get_nodes_lookup [OF cache_ok_new, of gt s ids] by (simp add: newNodeCache_def)

subsection \<open>Tiles that hold a tree\<close>

definition tile_has :: "GetTileFunc \<Rightarrow> nat \<Rightarrow> nat \<Rightarrow> bytes \<Rightarrow> bool" where
  "tile_has gt l i h \<longleftrightarrow>
     (let (tlv, ti, nl, ni) = tile_addr l i in
      \<exists>t. gt (of_nat tlv) (of_nat ti) = Inr t \<and> node_key nl ni < length (Nodes t) \<and>
          Nodes t ! node_key nl ni = Some h)"

definition tiles_hold :: "hash_fn \<Rightarrow> (nat \<Rightarrow> bytes) \<Rightarrow> nat \<Rightarrow> GetTileFunc \<Rightarrow> bool" where
  "tiles_hold hc lf n gt \<longleftrightarrow> (\<forall>l i. complete 0 n l i \<longrightarrow> tile_has gt l i (node_hash hc lf l i))"

lemma sint_small: "unat (w :: u64) < 2 ^ 63 \<Longrightarrow> sint w = int (unat w)"
proof -
  assume a: "unat w < 2 ^ 63"
  have "sint w = signed_take_bit 63 (int (unat w))" by (simp add: sint_uint)
  also have "\<dots> = int (unat w)"
  proof (rule signed_take_bit_int_eq_self)
    show "- (2 ^ 63) \<le> int (unat w)" by (rule order_trans [of _ 0]) simp_all
    show "int (unat w) < 2 ^ 63" using a by (metis of_nat_less_iff of_nat_numeral of_nat_power)
  qed
  finally show ?thesis .
qed

lemma tile_node_key:
  assumes "unat nl < 8" "unat ni < 2 ^ (8 - unat nl)"
  shows "tile_node t nl ni =
     (if length (Nodes t) \<le> node_key (unat nl) (unat ni) then Inl (Errorf ''node outside populated tile nodes'')
      else case Nodes t ! node_key (unat nl) (unat ni) of
             None \<Rightarrow> Inl (Errorf ''node unknown'') | Some node \<Rightarrow> Inr node)"
proof -
  have k: "unat (TileNodeKey nl ni) = node_key (unat nl) (unat ni)"
    using assms by (rule TileNodeKey_unat)
  have "node_key (unat nl) (unat ni) < 511" using assms by (rule node_key_lt)
  then have "sint (TileNodeKey nl ni) = int (node_key (unat nl) (unat ni))"
    using k sint_small [of "TileNodeKey nl ni"] by simp
  then show ?thesis by (simp add: tile_node_def)
qed

lemma lookup_node_tile_has:
  assumes "tile_has gt l i h" "l < 64" "i < 2 ^ 64" "eph (nid l i) = None"
  shows "lookup_node eph gt (nid l i) = Inr h"
proof -
  obtain tlv ti nl ni where a: "NodeCoordsToTileAddress (of_nat l) (of_nat i) = (tlv, ti, nl, ni)"
    by (metis prod_cases4)
  have un: "unat (of_nat l :: u64) = l" "unat (of_nat i :: u64) = i"
    using assms(2,3) by (simp_all add: unat_of_nat_u64)
  have ta: "tile_addr l i = (unat tlv, unat ti, unat nl, unat ni)"
    using NodeCoords_unat [OF a] un by simp
  have b: "unat nl < 8" "unat ni < 2 ^ (8 - unat nl)" using tile_addr_inverse(3,4) [OF ta] .
  show ?thesis using assms(1,4) a
    by (auto simp: lookup_node_def nid_def tile_has_def ta tile_node_key [OF b])
qed

lemma lookup_node_complete:
  assumes "tiles_hold hc lf n gt" "complete 0 n l i" "n < 2 ^ 64" "eph (nid l i) = None"
  shows "lookup_node eph gt (nid l i) = Inr (node_hash hc lf l i)"
  using assms complete_bounds [OF assms(2,3)]
  by (intro lookup_node_tile_has) (auto simp: tiles_hold_def)


lemma mapE_lookup_complete:
  assumes "tiles_hold hc lf n gt" "n < 2 ^ 64"
    "\<And>x y. (x, y) \<in> set ids \<Longrightarrow> complete 0 n (unat x) (unat y) \<and> eph (x, y) = None"
  shows "mapE (lookup_node eph gt) ids = Inr (map (\<lambda>(l, i). node_hash hc lf (unat l) (unat i)) ids)"
proof (rule mapE_all_Inr)
  fix a assume a: "a \<in> set ids"
  obtain x y where xy: "a = (x, y)" by fastforce
  have c: "complete 0 n (unat x) (unat y)" and e: "eph (x, y) = None" using assms(3) a xy by auto
  have "nid (unat x) (unat y) = (x, y)" by (simp add: nid_def)
  then show "lookup_node eph gt a = Inr ((\<lambda>(l, i). node_hash hc lf (unat l) (unat i)) a)"
    using lookup_node_complete [OF assms(1) c assms(2), of eph] e xy by simp
qed

text \<open>The hash a checkpoint of size \<open>n\<close> must carry: nil for the empty tree.\<close>

definition root_of :: "hash_fn \<Rightarrow> (nat \<Rightarrow> bytes) \<Rightarrow> nat \<Rightarrow> bytes" where
  "root_of hc lf n = (if n = 0 then [] else mth hc lf 0 n)"

context compact_range
begin

lemma FetchRangeNodes_hold:
  assumes "tiles_hold hc lf (unat s) gt"
  shows "FetchRangeNodes C s gt = Inr (map (\<lambda>(l, i). node_hash hc lf (unat l) (unat i)) (RangeNodes C 0 s))"
proof -
  have "fst (get_nodes (newNodeCache gt s) (RangeNodes C 0 s)) =
      mapE (lookup_node Map.empty gt) (RangeNodes C 0 s)"
    using get_nodes_lookup [OF cache_ok_new, of gt s "RangeNodes C 0 s"] by (simp add: newNodeCache_def)
  also have "\<dots> = Inr (map (\<lambda>(l, i). node_hash hc lf (unat l) (unat i)) (RangeNodes C 0 s))"
    using range_nodes_complete [of _ _ 0 s] by (intro mapE_lookup_complete [OF assms]) auto
  finally show ?thesis by (simp add: FetchRangeNodes_def)
qed

lemma range_root:
  assumes "rep r lf 0 e" "e < 2 ^ 64"
  shows "\<exists>vs. GetRootHash C r = Inr (root_of hc lf e, vs) \<and>
    (\<forall>l i. complete 0 e l i \<longrightarrow> nid l i \<notin> fst ` set vs)"
  using root_rep [OF assms(1) _ assms(2)] root_empty [of r lf] assms(1)
  by (cases "e = 0") (auto simp: root_of_def)

lemma stored_range:
  assumes "tiles_hold hc lf (unat s) gt"
  shows "\<exists>hs r. FetchRangeNodes C s gt = Inr hs \<and> NewRange C 0 s hs = Inr r \<and> rep r lf 0 (unat s)"
  using FetchRangeNodes_hold [OF assms] new_range [of 0 s lf] by auto

end

lemma ephemeral_fold:
  "k \<notin> fst ` set vs \<Longrightarrow>
     ephemeral (foldl (\<lambda>n (nID, hh). SetEphemeralNode n nID hh) n vs) k = ephemeral n k"
  "cache_ok (foldl (\<lambda>n (nID, hh). SetEphemeralNode n nID hh) n vs) = cache_ok n"
  "getTile (foldl (\<lambda>n (nID, hh). SetEphemeralNode n nID hh) n vs) = getTile n"
  by (induction vs arbitrary: n) (auto simp: SetEphemeralNode_def cache_ok_def)

text \<open>A proof builder whose cache reads the nodes of a tree of the size of its checkpoint.\<close>

definition builder_ok :: "hash_fn \<Rightarrow> (nat \<Rightarrow> bytes) \<Rightarrow> ProofBuilder \<Rightarrow> bool" where
  "builder_ok hc lf pb \<longleftrightarrow> pb_h pb = hc \<and> cache_ok (nodeCache pb) \<and>
     tiles_hold hc lf (unat (Size (cp pb))) (getTile (nodeCache pb)) \<and>
     (\<forall>l i. complete 0 (unat (Size (cp pb))) l i \<longrightarrow> ephemeral (nodeCache pb) (nid l i) = None)"

lemma NewProofBuilder_cases:
  assumes "compact_range (RF h) h rep" "tiles_hold h lf (unat (Size c)) (newTileFetcher f (Size c))"
  shows "if Hash c = root_of h lf (unat (Size c))
    then \<exists>pb. NewProofBuilder RF c h f = Inr pb \<and> builder_ok h lf pb \<and> cp pb = c
    else NewProofBuilder RF c h f = Inl (Errorf ''invalid checkpoint hash'')"
proof -
  let ?gt = "newTileFetcher f (Size c)"
  obtain hs r where hs: "FetchRangeNodes (RF h) (Size c) ?gt = Inr hs"
    and r: "NewRange (RF h) 0 (Size c) hs = Inr r" "rep r lf 0 (unat (Size c))"
    using compact_range.stored_range [OF assms(1,2)] by blast
  obtain vs where vs: "GetRootHash (RF h) r = Inr (root_of h lf (unat (Size c)), vs)"
    and disj: "\<And>l i. complete 0 (unat (Size c)) l i \<Longrightarrow> nid l i \<notin> fst ` set vs"
    using compact_range.range_root [OF assms(1) r(2) unat_lt_u64] by blast
  show ?thesis
  proof (cases "Hash c = root_of h lf (unat (Size c))")
    case True
    then show ?thesis using assms(2) disj cache_ok_new [of ?gt "Size c"]
      by (auto simp: NewProofBuilder_def Let_def hs r(1) vs builder_ok_def ephemeral_fold newNodeCache_def)
  next
    case False
    then show ?thesis by (simp add: NewProofBuilder_def Let_def hs r(1) vs)
  qed
qed

text \<open>Over tiles that hold a tree of the size of the checkpoint, \<open>NewProofBuilder\<close> succeeds
  exactly when the hash in the checkpoint is the root of that tree (nil for the empty tree).\<close>

theorem NewProofBuilder_accepts_iff_root:
  assumes "compact_range (RF h) h rep" "tiles_hold h lf (unat (Size c)) (newTileFetcher f (Size c))"
  shows "is_ok (NewProofBuilder RF c h f) \<longleftrightarrow> Hash c = root_of h lf (unat (Size c))"
  using NewProofBuilder_cases [of RF h rep lf c f] assms by (auto split: if_splits)


subsection \<open>Proofs the builder makes\<close>

lemma get_nodes_builder:
  assumes "builder_ok hc lf pb" "ids_complete (unat (Size (cp pb))) ids"
  shows "\<exists>nc. get_nodes (nodeCache pb) ids = (Inr (id_hashes hc lf ids), nc) \<and> builder_ok hc lf (pb\<lparr>nodeCache := nc\<rparr>)"
proof -
  let ?n = "unat (Size (cp pb))"
  note b = assms(1) [unfolded builder_ok_def]
  obtain r nc where g: "get_nodes (nodeCache pb) ids = (r, nc)" by fastforce
  have r: "r = mapE (lookup_node (ephemeral (nodeCache pb)) (getTile (nodeCache pb))) ids"
    and v: "same_view (nodeCache pb) nc"
    using get_nodes_lookup [of "nodeCache pb" ids] b g by auto
  have "complete 0 ?n (unat x) (unat y) \<and> ephemeral (nodeCache pb) (x, y) = None" if "(x, y) \<in> set ids" for x y
  proof -
    have c: "complete 0 ?n (unat x) (unat y)" using assms(2) that by (auto simp: ids_complete_def)
    moreover have "nid (unat x) (unat y) = (x, y)" by (simp add: nid_def)
    ultimately show ?thesis using b by metis
  qed
  then have "r = Inr (id_hashes hc lf ids)" unfolding r
    using b by (intro mapE_lookup_complete [OF _ unat_lt_u64]) auto
  then show ?thesis using g v b by (simp add: builder_ok_def same_view_def)
qed

lemma fetchNodes_ok:
  assumes "builder_ok hc lf pb" "ids_complete (unat (Size (cp pb))) (IDs P ns)"
    "Rehash P ns (id_hashes hc lf (IDs P ns)) hc = Inr p"
  shows "\<exists>pb'. fetchNodes P pb ns = (Inr p, pb') \<and> builder_ok hc lf pb' \<and> cp pb' = cp pb"
  using get_nodes_builder [OF assms(1,2)] assms(1,3) by (auto simp: fetchNodes_def builder_ok_def)

context merkle_proofs
begin

lemma InclusionProof_verifies:
  assumes "builder_ok (HashChildren H) lf pb" "i < Size (cp pb)"
  shows "\<exists>p pb'. InclusionProof P pb i = (Inr p, pb') \<and> builder_ok (HashChildren H) lf pb' \<and> cp pb' = cp pb \<and>
    VerifyInclusion P H i (Size (cp pb)) (lf (unat i)) p (mth (HashChildren H) lf 0 (unat (Size (cp pb)))) = None"
proof -
  obtain ns p where ns: "Inclusion P i (Size (cp pb)) = Inr ns" "ids_complete (unat (Size (cp pb))) (IDs P ns)"
    "Rehash P ns (id_hashes (HashChildren H) lf (IDs P ns)) (HashChildren H) = Inr p"
    "VerifyInclusion P H i (Size (cp pb)) (lf (unat i)) p (mth (HashChildren H) lf 0 (unat (Size (cp pb)))) = None"
    using inclusion [OF assms(2)] by blast
  show ?thesis using fetchNodes_ok [OF assms(1) ns(2,3)] ns(1,4) by (auto simp: InclusionProof_def)
qed

lemma ConsistencyProof_verifies:
  assumes "builder_ok (HashChildren H) lf pb" "0 < m" "m \<le> n" "n \<le> Size (cp pb)"
  shows "\<exists>p pb'. ConsistencyProof P pb m n = (Inr p, pb') \<and> builder_ok (HashChildren H) lf pb' \<and> cp pb' = cp pb \<and>
    VerifyConsistency P H m n p (mth (HashChildren H) lf 0 (unat m)) (mth (HashChildren H) lf 0 (unat n)) = None"
proof -
  obtain ns p where ns: "Consistency P m n = Inr ns" "ids_complete (unat n) (IDs P ns)"
    "Rehash P ns (id_hashes (HashChildren H) lf (IDs P ns)) (HashChildren H) = Inr p"
    "VerifyConsistency P H m n p (mth (HashChildren H) lf 0 (unat m)) (mth (HashChildren H) lf 0 (unat n)) = None"
    using consistency [OF assms(2,3)] by blast
  have "ids_complete (unat (Size (cp pb))) (IDs P ns)"
    using ns(2) assms(4) complete_mono by (fastforce simp: ids_complete_def word_le_nat_alt)
  from fetchNodes_ok [OF assms(1) this ns(3)] show ?thesis using ns(1,4) by (auto simp: ConsistencyProof_def)
qed

end

text \<open>C20: Over tiles that hold a tree whose root the checkpoint carries, a proof builder can be made
  and the inclusion proof it builds for any index below the checkpoint's size verifies.\<close>

theorem InclusionProof_correct:
  assumes "\<And>h. compact_range (RF h) h (rep h)" "merkle_proofs P H"
    "tiles_hold (HashChildren H) lf (unat (Size c)) (newTileFetcher f (Size c))"
    "Hash c = mth (HashChildren H) lf 0 (unat (Size c))" "i < Size c"
  shows "\<exists>pb p pb'. NewProofBuilder RF c (HashChildren H) f = Inr pb \<and> InclusionProof P pb i = (Inr p, pb') \<and>
    VerifyInclusion P H i (Size c) (lf (unat i)) p (Hash c) = None"
proof -
  have "Size c \<noteq> 0" using assms(5) by auto
  then have "Hash c = root_of (HashChildren H) lf (unat (Size c))"
    using assms(4) by (simp add: root_of_def unat_eq_0)
  then obtain pb where "NewProofBuilder RF c (HashChildren H) f = Inr pb"
    "builder_ok (HashChildren H) lf pb" "cp pb = c"
    using NewProofBuilder_cases [of RF "HashChildren H" "rep (HashChildren H)" lf c f] assms(1,3) by auto
  then show ?thesis
    using merkle_proofs.InclusionProof_verifies [OF assms(2), of lf pb i] assms(4,5) by auto
qed

subsection \<open>The state tracker\<close>

text \<open>When \<open>Update\<close> moves a tracker from a non-empty checkpoint to a larger one, it has built a
  proof from the larger checkpoint's tiles that verifies between the two, and returns it; in every
  error case the tracker is left as it was.\<close>

theorem Update_growth_verified:
  "case Update RF P lst of
     (Inl _, lst') \<Rightarrow> lst' = lst
   | (Inr (oldRaw, p, newRaw), lst') \<Rightarrow>
       oldRaw = LatestConsistentRaw lst \<and> newRaw = LatestConsistentRaw lst' \<and>
       (\<exists>cn. ConsensusCheckpoint lst (CpSigVerifier lst) (lst_Origin lst) =
          Inr (LatestConsistent lst', LatestConsistentRaw lst', cn) \<and> CheckpointNote lst' = Some cn) \<and>
       (0 < Size (LatestConsistent lst) \<and> Size (LatestConsistent lst) < Size (LatestConsistent lst') \<longrightarrow>
        VerifyConsistency P (Hasher lst) (Size (LatestConsistent lst)) (Size (LatestConsistent lst')) p
          (Hash (LatestConsistent lst)) (Hash (LatestConsistent lst')) = None)"
  by (auto simp: Update_def Let_def split: sum.splits prod.splits option.splits if_splits)

text \<open>\<open>Update\<close> adopts without any check a checkpoint that is not larger than the latest one,
  whatever its size and hash: the tracker can be moved to a smaller tree, or to a different tree of
  the same size.\<close>

theorem Update_shrink_unchecked:
  assumes "ConsensusCheckpoint lst (CpSigVerifier lst) (lst_Origin lst) = Inr (c, cRaw, cn)"
    "Size c \<le> Size (LatestConsistent lst)"
  shows "Update RF P lst = (Inr (LatestConsistentRaw lst, [], cRaw),
    lst\<lparr>LatestConsistentRaw := cRaw, LatestConsistent := c, CheckpointNote := Some cn\<rparr>)"
  using assms by (auto simp: Update_def Let_def)

lemma Update_advances:
  assumes "\<And>h. compact_range (RF h) h (rep h)" "merkle_proofs P (Hasher lst)"
    "ConsensusCheckpoint lst (CpSigVerifier lst) (lst_Origin lst) = Inr (c, cRaw, cn)"
    "tiles_hold (HashChildren (Hasher lst)) lf (unat (Size c)) (newTileFetcher (lst_Fetcher lst) (Size c))"
    "Hash c = root_of (HashChildren (Hasher lst)) lf (unat (Size c))"
    "Hash (LatestConsistent lst) = root_of (HashChildren (Hasher lst)) lf (unat (Size (LatestConsistent lst)))"
  shows "\<exists>p. Update RF P lst = (Inr (LatestConsistentRaw lst, p, cRaw),
    lst\<lparr>LatestConsistentRaw := cRaw, LatestConsistent := c, CheckpointNote := Some cn\<rparr>)"
proof (cases "0 < Size (LatestConsistent lst) \<and> Size (LatestConsistent lst) < Size c")
  case True
  let ?hc = "HashChildren (Hasher lst)" and ?m = "Size (LatestConsistent lst)"
  obtain pb where pb: "NewProofBuilder RF c ?hc (lst_Fetcher lst) = Inr pb" "builder_ok ?hc lf pb" "cp pb = c"
    using NewProofBuilder_cases [of RF ?hc "rep ?hc" lf c "lst_Fetcher lst"] assms(1,4,5) by auto
  have "0 < unat ?m" "0 < unat (Size c)" using True by (auto simp: word_less_nat_alt)
  then have roots: "Hash c = mth ?hc lf 0 (unat (Size c))" "Hash (LatestConsistent lst) = mth ?hc lf 0 (unat ?m)"
    using assms(5,6) by (simp_all add: root_of_def)
  obtain p pb' where "ConsistencyProof P pb ?m (Size c) = (Inr p, pb')"
    "VerifyConsistency P (Hasher lst) ?m (Size c) p (Hash (LatestConsistent lst)) (Hash c) = None"
    unfolding roots
    using merkle_proofs.ConsistencyProof_verifies [OF assms(2) pb(2), of ?m "Size c"] True pb(3)
    by (auto simp: less_imp_le)
  then show ?thesis using True assms(3) pb(1) by (simp add: Update_def Let_def)
next
  case False
  then show ?thesis using assms(3) by (auto simp: Update_def Let_def)
qed


text \<open>C21: Over tiles that hold the log, a tracker at an earlier root of the log always advances to the
  log's current checkpoint.\<close>

theorem Update_follows_log:
  assumes "\<And>h. compact_range (RF h) h (rep h)" "merkle_proofs P (Hasher lst)"
    "ConsensusCheckpoint lst (CpSigVerifier lst) (lst_Origin lst) = Inr (c, cRaw, cn)"
    "tiles_hold (HashChildren (Hasher lst)) lf (unat (Size c)) (newTileFetcher (lst_Fetcher lst) (Size c))"
    "Hash c = root_of (HashChildren (Hasher lst)) lf (unat (Size c))"
    "Hash (LatestConsistent lst) = root_of (HashChildren (Hasher lst)) lf (unat (Size (LatestConsistent lst)))"
  shows "\<exists>p. Update RF P lst = (Inr (LatestConsistentRaw lst, p, cRaw),
    lst\<lparr>LatestConsistentRaw := cRaw, LatestConsistent := c, CheckpointNote := Some cn\<rparr>)"
  using Update_advances [of RF rep P lst c cRaw cn lf] assms by blast

subsection \<open>Consistency of a list of checkpoints\<close>

text \<open>The pair the loop looks at in step \<open>i\<close>: step 0 looks at the first two checkpoints, step
  \<open>i + 1\<close> at numbers \<open>i\<close> and \<open>i + 1\<close>.\<close>

definition loop_pair :: "Checkpoint list \<Rightarrow> nat \<Rightarrow> Checkpoint \<times> Checkpoint" where
  "loop_pair cps i = (cps ! (i - 1), cps ! (i - 1 + 1))"

text \<open>When does a pair pass, for a builder over the tree \<open>lf\<close>: sizes and hashes equal, or the first
  empty, or the proof the builder makes verifies between the two hashes.\<close>

definition pair_ok :: "'n proof_lib \<Rightarrow> hasher \<Rightarrow> (nat \<Rightarrow> bytes) \<Rightarrow> Checkpoint \<Rightarrow> Checkpoint \<Rightarrow> bool" where
  "pair_ok P H lf a b \<longleftrightarrow>
     (if Size a = Size b then Hash a = Hash b
      else Size a = 0 \<or>
        (\<exists>ns p. Consistency P (Size a) (Size b) = Inr ns \<and>
           Rehash P ns (id_hashes (HashChildren H) lf (IDs P ns)) (HashChildren H) = Inr p \<and>
           VerifyConsistency P H (Size a) (Size b) p (Hash a) (Hash b) = None))"

context merkle_proofs
begin

lemma check_pair_ok:
  assumes "builder_ok (HashChildren H) lf pb" "Size a \<le> Size b" "Size b \<le> Size (cp pb)"
  shows "if pair_ok P H lf a b
    then \<exists>pb'. check_pair P H pb a b = Inr pb' \<and> builder_ok (HashChildren H) lf pb' \<and> cp pb' = cp pb
    else \<exists>e. check_pair P H pb a b = Inl e"
proof (cases "Size a = Size b \<or> Size a = 0")
  case True
  then show ?thesis using assms(1) by (auto simp: pair_ok_def check_pair_def)
next
  case False
  then have pos: "0 < Size a" by (simp add: word_gt_0)
  obtain ns where ns: "Consistency P (Size a) (Size b) = Inr ns" "ids_complete (unat (Size b)) (IDs P ns)"
    and re: "\<exists>p. Rehash P ns (id_hashes (HashChildren H) lf (IDs P ns)) (HashChildren H) = Inr p"
    using consistency [OF pos assms(2)] by blast
  obtain p where p: "Rehash P ns (id_hashes (HashChildren H) lf (IDs P ns)) (HashChildren H) = Inr p"
    using re by blast
  have "ids_complete (unat (Size (cp pb))) (IDs P ns)"
    using ns(2) assms(3) complete_mono by (fastforce simp: ids_complete_def word_le_nat_alt)
  from fetchNodes_ok [OF assms(1) this p] obtain pb' where
    f: "fetchNodes P pb ns = (Inr p, pb')" "builder_ok (HashChildren H) lf pb'" "cp pb' = cp pb" by blast
  then show ?thesis using False pos ns(1) p
    by (auto simp: pair_ok_def check_pair_def ConsistencyProof_def split: option.splits)
qed

lemma check_loop_ok:
  assumes "sorted_wrt (\<lambda>a b. Size a \<le> Size b) cps"
  shows "\<lbrakk>builder_ok (HashChildren H) lf pb; Size (last cps) \<le> Size (cp pb); (a, b) = loop_pair cps i\<rbrakk> \<Longrightarrow>
    is_ok (check_loop P H cps pb i a b) \<longleftrightarrow>
    (\<forall>j. i \<le> j \<and> j < length cps - 1 \<longrightarrow> (case loop_pair cps j of (a, b) \<Rightarrow> pair_ok P H lf a b))"
proof (induction "length cps - 1 - i" arbitrary: pb i a b)
  case 0
  then have "\<not> i < length cps - 1" by simp
  then show ?case by (subst check_loop.simps) auto
next
  case (Suc k)
  note 1 = Suc.hyps(1) Suc.prems
  have True: "i < length cps - 1" "k = length cps - 1 - (i + 1)" using Suc.hyps(2) by simp_all
  have ab: "a = cps ! (i - 1)" "b = cps ! (i - 1 + 1)" using 1(4) by (simp_all add: loop_pair_def)
  have "Size a \<le> Size b" unfolding ab
    using True by (intro sorted_wrt_nth_less [OF assms]) auto
  moreover have "Size b \<le> Size (last cps)"
  proof -
    have "Size (cps ! (i - 1 + 1)) \<le> Size (cps ! (length cps - 1))" if "i - 1 + 1 < length cps - 1"
      using True that by (intro sorted_wrt_nth_less [OF assms]) auto
    moreover have "i - 1 + 1 \<le> length cps - 1" "cps \<noteq> []" using True by auto
    ultimately show ?thesis unfolding ab by (cases "i - 1 + 1 = length cps - 1") (auto simp: last_conv_nth)
  qed
  ultimately have cpair: "if pair_ok P H lf a b
    then \<exists>pb'. check_pair P H pb a b = Inr pb' \<and> builder_ok (HashChildren H) lf pb' \<and> cp pb' = cp pb
    else \<exists>e. check_pair P H pb a b = Inl e"
    using 1(3) by (intro check_pair_ok [OF 1(2)]) auto
  have e: "i \<le> j \<longleftrightarrow> j = i \<or> i + 1 \<le> j" for j by auto
  have split: "(\<forall>j. i \<le> j \<and> j < length cps - 1 \<longrightarrow> Q j) \<longleftrightarrow>
      Q i \<and> (\<forall>j. i + 1 \<le> j \<and> j < length cps - 1 \<longrightarrow> Q j)" for Q
    unfolding e using True(1) by auto
  have Qi: "(case loop_pair cps i of (a, b) \<Rightarrow> pair_ok P H lf a b) = pair_ok P H lf a b"
    using 1(4) by (metis case_prod_conv)
  have unf: "check_loop P H cps pb i a b =
      (case check_pair P H pb a b of Inl e \<Rightarrow> Inl e
       | Inr pb' \<Rightarrow> check_loop P H cps pb' (i + 1) (cps ! i) (cps ! (i + 1)))"
    using True(1) by (subst check_loop.simps) simp
  have next_pair: "(cps ! i, cps ! (i + 1)) = loop_pair cps (i + 1)" by (simp add: loop_pair_def)
  show ?case
  proof (cases "pair_ok P H lf a b")
    case ok: True
    then obtain pb' where pb': "check_pair P H pb a b = Inr pb'" "builder_ok (HashChildren H) lf pb'"
      "cp pb' = cp pb" using cpair by auto
    have "is_ok (check_loop P H cps pb' (i + 1) (cps ! i) (cps ! (i + 1))) \<longleftrightarrow>
      (\<forall>j. i + 1 \<le> j \<and> j < length cps - 1 \<longrightarrow> (case loop_pair cps j of (a, b) \<Rightarrow> pair_ok P H lf a b))"
      using 1(1) [OF True(2) pb'(2) _ next_pair] 1(3) pb'(3) by simp
    then show ?thesis unfolding unf split [of "\<lambda>j. case loop_pair cps j of (a, b) \<Rightarrow> pair_ok P H lf a b"] Qi
      using pb'(1) ok by simp
  next
    case False
    then show ?thesis unfolding unf split [of "\<lambda>j. case loop_pair cps j of (a, b) \<Rightarrow> pair_ok P H lf a b"] Qi
      using cpair by auto
  qed
qed

end


lemma loop_pairs:
  "2 \<le> n \<Longrightarrow> (\<forall>j. 0 \<le> j \<and> j < n - 1 \<longrightarrow> (case loop_pair cps j of (a, b) \<Rightarrow> Q a b)) \<longleftrightarrow>
     Q (cps ! 0) (cps ! 1) \<and> (\<forall>i < n - 2. Q (cps ! i) (cps ! (i + 1)))"
proof -
  assume n: "2 \<le> n"
  have "(\<forall>j < n - 1. Q (cps ! (j - 1)) (cps ! (j - 1 + 1))) \<longleftrightarrow>
      Q (cps ! 0) (cps ! 1) \<and> (\<forall>i < n - 2. Q (cps ! i) (cps ! (i + 1)))" (is "?L = ?R")
  proof
    assume L: ?L
    have "Q (cps ! i) (cps ! (i + 1))" if "i < n - 2" for i using L [rule_format, of "i + 1"] that by simp
    then show ?R using L [rule_format, of 0] n by simp
  next
    assume R: ?R
    show ?L
    proof (intro allI impI)
      fix j assume "j < n - 1"
      then show "Q (cps ! (j - 1)) (cps ! (j - 1 + 1))"
        using R by (cases j) (auto dest: spec [of _ "j - 1"])
    qed
  qed
  then show ?thesis by (simp add: loop_pair_def)
qed

lemma CheckConsistency_pairs:
  assumes "\<And>h. compact_range (RF h) h (rep h)" "merkle_proofs P H" "sorts_by (\<lambda>a b. Size a < Size b) srt"
    "tiles_hold (HashChildren H) lf (unat (Size (last (srt cps)))) (newTileFetcher f (Size (last (srt cps))))"
  shows "is_ok (CheckConsistency RF P srt H f cps) \<longleftrightarrow>
    2 \<le> length cps \<and>
    Hash (last (srt cps)) = root_of (HashChildren H) lf (unat (Size (last (srt cps)))) \<and>
    pair_ok P H lf (srt cps ! 0) (srt cps ! 1) \<and>
    (\<forall>i < length cps - 2. pair_ok P H lf (srt cps ! i) (srt cps ! (i + 1)))"
proof (cases "2 \<le> length cps")
  case True
  let ?c = "last (srt cps)" and ?hc = "HashChildren H"
  have len: "length (srt cps) = length cps" and sorted: "sorted_wrt (\<lambda>a b. Size a \<le> Size b) (srt cps)"
    using sorts_byD [OF assms(3), of cps] by (auto simp: not_less)
  note nb = NewProofBuilder_cases [of RF ?hc "rep ?hc" lf ?c f, OF assms(1) assms(4)]
  show ?thesis
  proof (cases "Hash ?c = root_of ?hc lf (unat (Size ?c))")
    case root: True
    with nb obtain pb where pb: "NewProofBuilder RF ?c ?hc f = Inr pb" "builder_ok ?hc lf pb" "cp pb = ?c"
      by auto
    have "is_ok (check_loop P H (srt cps) pb 0 (srt cps ! 0) (srt cps ! 1)) \<longleftrightarrow>
      (\<forall>j. 0 \<le> j \<and> j < length (srt cps) - 1 \<longrightarrow> (case loop_pair (srt cps) j of (a, b) \<Rightarrow> pair_ok P H lf a b))"
      using pb by (intro merkle_proofs.check_loop_ok [OF assms(2) sorted]) (auto simp: loop_pair_def)
    then show ?thesis using True root pb(1) loop_pairs [OF True, of "pair_ok P H lf" "srt cps"]
      by (simp add: CheckConsistency_def Let_def len)
  next
    case False
    then show ?thesis using nb True by (simp add: CheckConsistency_def Let_def errorf_def)
  qed
qed (simp add: CheckConsistency_def)

text \<open>C22: Over tiles that hold the tree of the largest checkpoint, \<open>CheckConsistency\<close> accepts exactly
  when there are two checkpoints or more, the largest one carries the root of the tree, the two
  smallest are consistent, and, of the other neighbours in the order of size, all but the last pair
  are consistent.  So two checkpoints are checked as they should be, but with three or more the two largest are never compared,
  though the code means to go through the list pairwise: of three checkpoints, the smallest of the empty tree and the
  largest one correct, the middle one is accepted whatever its hash.\<close>

theorem CheckConsistency_accepts_iff:
  assumes "\<And>h. compact_range (RF h) h (rep h)" "merkle_proofs P H" "sorts_by (\<lambda>a b. Size a < Size b) srt"
    "tiles_hold (HashChildren H) lf (unat (Size (last (srt cps)))) (newTileFetcher f (Size (last (srt cps))))"
  shows "(is_ok (CheckConsistency RF P srt H f cps) \<longleftrightarrow>
      2 \<le> length cps \<and>
      Hash (last (srt cps)) = root_of (HashChildren H) lf (unat (Size (last (srt cps)))) \<and>
      pair_ok P H lf (srt cps ! 0) (srt cps ! 1) \<and>
      (\<forall>i < length cps - 2. pair_ok P H lf (srt cps ! i) (srt cps ! (i + 1)))) \<and>
    (length cps = 3 \<and> Size (srt cps ! 0) = 0 \<and> 0 < Size (srt cps ! 1) \<and>
      Hash (last (srt cps)) = root_of (HashChildren H) lf (unat (Size (last (srt cps)))) \<longrightarrow>
      is_ok (CheckConsistency RF P srt H f cps))"
proof -
  note eq = CheckConsistency_pairs [of RF rep P H srt lf cps f, OF assms]
  have "pair_ok P H lf (srt cps ! 0) (srt cps ! 1)" if "Size (srt cps ! 0) = 0" "0 < Size (srt cps ! 1)"
    using that by (auto simp: pair_ok_def)
  then show ?thesis using eq by (auto simp: less_Suc_eq)
qed

end
