(* ===== verification/Integrate.thy ===== *)
theory Integrate
  imports LogClientProofs "HOL-Library.AList"
begin

section \<open>serverless/pkg/log/integrate.go\<close>

text \<open>
  The storage interface of the log tooling, the cache of dirty tiles and \<^verbatim>\<open>Integrate\<close>, which
  adds the sequenced entries to the tree.
\<close>

text \<open>
  \<^verbatim>\<open>ScanSequenced\<close> is given by the calls it makes to its callback as long as that returns
  nil, in order, together with the count and error it then returns: the only callback in the
  repository, in \<^verbatim>\<open>Integrate\<close>, always returns nil.  A method that writes returns the storage
  it leaves behind, also when it fails.
\<close>

definition ErrDupeLeaf :: go_error where
  "ErrDupeLeaf = Sentinel ''duplicate leaf''"

record 's Storage =
  st_GetTile :: "'s \<Rightarrow> u64 \<Rightarrow> u64 \<Rightarrow> u64 \<Rightarrow> Tile res"
  st_StoreTile :: "'s \<Rightarrow> u64 \<Rightarrow> u64 \<Rightarrow> Tile \<Rightarrow> go_error option \<times> 's"
  st_WriteCheckpoint :: "'s \<Rightarrow> bytes \<Rightarrow> go_error option \<times> 's"
  st_Sequence :: "'s \<Rightarrow> bytes \<Rightarrow> bytes \<Rightarrow> (u64 \<times> go_error option) \<times> 's"
  st_ScanSequenced :: "'s \<Rightarrow> u64 \<Rightarrow> (u64 \<times> bytes) list \<times> u64 \<times> go_error option"

subsection \<open>The cache of dirty tiles\<close>

type_synonym tileKey = "u64 \<times> u64"

record tileCache =
  tc_m :: "(tileKey \<times> Tile) list"
  tc_getTile :: GetTileFunc

definition new_tile :: Tile where
  "new_tile = \<lparr>NumLeaves = 0, Nodes = []\<rparr>"

text \<open>Setting a node: the slice is extended with nil entries when the index is past its end.\<close>

definition set_node :: "Tile \<Rightarrow> u64 \<Rightarrow> u64 \<Rightarrow> bytes \<Rightarrow> Tile" where
  "set_node tile nodeLevel nodeIndex h =
     (let idx = unat (TileNodeKey nodeLevel nodeIndex);
          l = length (Nodes tile);
          nodes = (if l \<le> idx then Nodes tile @ replicate (idx - l + 1) None else Nodes tile);
          tile = tile\<lparr>Nodes := nodes[idx := Some h]\<rparr>
      in if nodeLevel = 0 \<and> NumLeaves tile \<le> nodeIndex then tile\<lparr>NumLeaves := nodeIndex + 1\<rparr> else tile)"

definition Visit :: "tileCache \<Rightarrow> node_id \<Rightarrow> bytes \<Rightarrow> tileCache res" where
  "Visit tc nID h =
     (let (tileLevel, tileIndex, nodeLevel, nodeIndex) = NodeCoordsToTileAddress (fst nID) (snd nID);
          key = (tileLevel, tileIndex);
          fetched =
            (case map_of (tc_m tc) key of
               Some tile \<Rightarrow> Inr tile
             | None \<Rightarrow>
                 (case tc_getTile tc tileLevel tileIndex of
                    Inr tile \<Rightarrow> Inr tile
                  | Inl err \<Rightarrow>
                      if is_panic err then Inl err
                      else if \<not> os_IsNotExist err then Inl (Panic ''getTile'')
                      else Inr new_tile))
      in case fetched of
           Inl e \<Rightarrow> Inl e
         | Inr tile \<Rightarrow> Inr (tc\<lparr>tc_m := AList.update key (set_node tile nodeLevel nodeIndex h) (tc_m tc)\<rparr>))"

fun visit_all :: "tileCache \<Rightarrow> visits \<Rightarrow> tileCache res" where
  "visit_all tc [] = Inr tc"
| "visit_all tc ((nID, h) # vs) = (case Visit tc nID h of Inl e \<Rightarrow> Inl e | Inr tc' \<Rightarrow> visit_all tc' vs)"

subsection \<open>Integrating the sequenced entries\<close>

text \<open>The callback of the scan, run over the entries: only a panic of \<^verbatim>\<open>Visit\<close> stops it.\<close>

fun append_entries :: "'r compact \<Rightarrow> hasher \<Rightarrow> 'r \<Rightarrow> tileCache \<Rightarrow> (u64 \<times> bytes) list \<Rightarrow> ('r \<times> tileCache) res" where
  "append_entries C h r tc [] = Inr (r, tc)"
| "append_entries C h r tc ((_, entry) # es) =
     (let (r', vs) = Append C r (HashLeaf h entry) in
      case visit_all tc vs of
        Inl e \<Rightarrow> Inl e
      | Inr tc' \<Rightarrow> append_entries C h r' tc' es)"

fun store_tiles :: "'s Storage \<Rightarrow> 's \<Rightarrow> (tileKey \<times> Tile) list \<Rightarrow> go_error option \<times> 's" where
  "store_tiles S s [] = (None, s)"
| "store_tiles S s (((level, index), t) # ts) =
     (case st_StoreTile S s level index t of
        (Some e, s') \<Rightarrow> (Some (wrapf ''failed to store tile'' e), s')
      | (None, s') \<Rightarrow> store_tiles S s' ts)"

text \<open>The result is a checkpoint, or nil when there is nothing to integrate.  \<open>iter\<close> is the order in
  which the range loop over the cache visits its tiles.\<close>

definition Integrate ::
    "(hash_fn \<Rightarrow> 'r compact) \<Rightarrow> ((tileKey \<times> Tile) list \<Rightarrow> (tileKey \<times> Tile) list) \<Rightarrow>
     's Storage \<Rightarrow> hasher \<Rightarrow> Checkpoint \<Rightarrow> 's \<Rightarrow> Checkpoint option res \<times> 's" where
  "Integrate RF iter S h checkpoint s =
     (let getTile = (\<lambda>l i. st_GetTile S s l i (Size checkpoint));
          rf = RF (HashChildren h)
      in case FetchRangeNodes rf (Size checkpoint) getTile of
           Inl e \<Rightarrow> (Inl (wrapf ''failed to fetch compact range nodes'' e), s)
         | Inr hashes \<Rightarrow>
           (case NewRange rf 0 (Size checkpoint) hashes of
              Inl e \<Rightarrow> (Inl (wrapf ''failed to create range covering existing log'' e), s)
            | Inr baseRange \<Rightarrow>
              (case GetRootHash rf baseRange of
                 Inl e \<Rightarrow> (Inl (wrapf ''invalid log state, unable to recalculate root'' e), s)
               | Inr _ \<Rightarrow>
                 (let newRange = NewEmptyRange rf (Size checkpoint);
                      tc = \<lparr>tc_m = [], tc_getTile = getTile\<rparr>;
                      (entries, n, err) = st_ScanSequenced S s (Size checkpoint)
                  in case append_entries rf h newRange tc entries of
                       Inl e \<Rightarrow> (Inl e, s)
                     | Inr (newRange, tc) \<Rightarrow>
                       (case err of
                          Some e \<Rightarrow> (Inl (wrapf ''error while integrating'' e), s)
                        | None \<Rightarrow>
                          if n = 0 then (Inr None, s)
                          else
                            (let (aerr, baseRange, vs) = AppendRange rf baseRange newRange
                             in case visit_all tc vs of
                                  Inl e \<Rightarrow> (Inl e, s)
                                | Inr tc \<Rightarrow>
                                  (case aerr of
                                     Some e \<Rightarrow> (Inl (wrapf ''failed to merge new range onto existing log'' e), s)
                                   | None \<Rightarrow>
                                     (case GetRootHash rf baseRange of
                                        Inl e \<Rightarrow> (Inl (wrapf ''failed to calculate new root hash'' e), s)
                                      | Inr (newRoot, _) \<Rightarrow>
                                        (case store_tiles S s (iter (tc_m tc)) of
                                           (Some e, s') \<Rightarrow> (Inl e, s')
                                         | (None, s') \<Rightarrow>
                                             (Inr (Some \<lparr>Origin = [], Size = End rf baseRange, Hash = newRoot\<rparr>), s'))))))))))"

end
