(* ===== verification/TileGood.thy ===== *)
theory TileGood
  imports Integrate
begin

section \<open>Which tiles hold a tree, and what visiting nodes does to them\<close>

text \<open>
  Tile \<open>(l, i)\<close> of a tree of \<open>n\<close> leaves has \<open>tile_width l i n\<close> leaves of its own.  A tile is
  good for a width when it holds the right hash for every node below that width.  Shown here: visiting
  the nodes that new leaves complete turns tiles good for the old tree into tiles good for the new
  one.
\<close>

definition tile_width :: "nat \<Rightarrow> nat \<Rightarrow> nat \<Rightarrow> nat" where
  "tile_width l i n = min 256 (n div 256 ^ l - 256 * i)"

lemma tile_width_le [simp]: "tile_width l i n \<le> 256"
  by (simp add: tile_width_def)

lemma tile_width_mono: "m \<le> n \<Longrightarrow> tile_width l i m \<le> tile_width l i n"
proof -
  assume "m \<le> n"
  then have "m div 256 ^ l \<le> n div 256 ^ l" by (rule div_le_mono)
  then show ?thesis unfolding tile_width_def by (intro min.mono diff_le_mono) simp_all
qed

lemma complete_width:
  assumes "nl < 8" "ni < 2 ^ (8 - nl)"
  shows "complete 0 n (8 * l + nl) (i * 2 ^ (8 - nl) + ni) \<longleftrightarrow> (ni + 1) * 2 ^ nl \<le> tile_width l i n"
proof -
  have p8: "(2 :: nat) ^ (8 - nl) * 2 ^ nl = 256"
    using assms(1) power_add [of "2 :: nat" "8 - nl" nl] by simp
  have le: "(ni + 1) * 2 ^ nl \<le> 256"
  proof -
    have "(ni + 1) * 2 ^ nl \<le> 2 ^ (8 - nl) * 2 ^ nl" using assms(2) by (intro mult_le_mono1) simp
    then show ?thesis using p8 by simp
  qed
  have p: "(2 :: nat) ^ (8 * l + nl) = 2 ^ nl * 256 ^ l"
    by (simp add: power_add power_mult)
  have "(i * 2 ^ (8 - nl) + ni + 1) * 2 ^ (8 * l + nl) = (i * (2 ^ (8 - nl) * 2 ^ nl) + (ni + 1) * 2 ^ nl) * 256 ^ l"
    unfolding p by (simp add: algebra_simps)
  then have "complete 0 n (8 * l + nl) (i * 2 ^ (8 - nl) + ni) \<longleftrightarrow>
      (i * 256 + (ni + 1) * 2 ^ nl) * 256 ^ l \<le> n"
    unfolding complete_def p8 by simp
  also have "\<dots> \<longleftrightarrow> i * 256 + (ni + 1) * 2 ^ nl \<le> n div 256 ^ l"
    by (simp add: less_eq_div_iff_mult_less_eq)
  also have "\<dots> \<longleftrightarrow> (ni + 1) * 2 ^ nl \<le> n div 256 ^ l - 256 * i"
  proof -
    have "0 < (ni + 1) * 2 ^ nl" by simp
    then show ?thesis by linarith
  qed
  also have "\<dots> \<longleftrightarrow> (ni + 1) * 2 ^ nl \<le> tile_width l i n" using le by (simp add: tile_width_def)
  finally show ?thesis .
qed

lemma partial_width:
  assumes "0 < tile_width l i n"
  shows "partial_size l i n = tile_width l i n mod 256"
proof (cases "i < n div 256 ^ l div 256")
  case True
  then have "i + 1 \<le> n div 256 ^ l div 256" by simp
  then have "(i + 1) * 256 \<le> n div 256 ^ l" by (simp only: less_eq_div_iff_mult_less_eq)
  then show ?thesis using True by (simp add: partial_size_def tile_width_def min_def)
next
  case False
  have pos: "256 * i < n div 256 ^ l" using assms by (simp add: tile_width_def)
  then have "i * 256 \<le> n div 256 ^ l" by simp
  then have "i \<le> n div 256 ^ l div 256" by (simp only: less_eq_div_iff_mult_less_eq)
  then have i: "i = n div 256 ^ l div 256" using False by simp
  have "n div 256 ^ l - 256 * i = n div 256 ^ l mod 256" unfolding i
    by (simp add: minus_mult_div_eq_mod)
  moreover have "n div 256 ^ l mod 256 < 256" by simp
  ultimately show ?thesis using False by (simp add: partial_size_def tile_width_def)
qed

lemma tile_width_leaf:
  assumes "ni < 256"
  shows "complete 0 n (8 * l) (i * 256 + ni) \<longleftrightarrow> ni < tile_width l i n"
  using complete_width [of 0 ni n l i] assms by (simp add: Suc_le_eq)

subsection \<open>Good tiles\<close>

definition has_node :: "Tile \<Rightarrow> nat \<Rightarrow> nat \<Rightarrow> bytes \<Rightarrow> bool" where
  "has_node t nl ni h \<longleftrightarrow> node_key nl ni < length (Nodes t) \<and> Nodes t ! node_key nl ni = Some h"

abbreviation tile_hash :: "hash_fn \<Rightarrow> (nat \<Rightarrow> bytes) \<Rightarrow> nat \<Rightarrow> nat \<Rightarrow> nat \<Rightarrow> nat \<Rightarrow> bytes" where
  "tile_hash hc lf l i nl ni \<equiv> node_hash hc lf (8 * l + nl) (i * 2 ^ (8 - nl) + ni)"

definition tile_good :: "hash_fn \<Rightarrow> (nat \<Rightarrow> bytes) \<Rightarrow> nat \<Rightarrow> nat \<Rightarrow> nat \<Rightarrow> Tile \<Rightarrow> bool" where
  "tile_good hc lf w l i t \<longleftrightarrow> unat (NumLeaves t) = w \<and> w \<le> 256 \<and>
     (\<forall>nl ni. nl < 8 \<and> ni < 2 ^ (8 - nl) \<and> (ni + 1) * 2 ^ nl \<le> w \<longrightarrow> has_node t nl ni (tile_hash hc lf l i nl ni))"

lemma tile_good_new: "tile_good hc lf 0 l i new_tile"
  by (simp add: tile_good_def new_tile_def)

lemma tile_good_width: "tile_good hc lf w l i t \<Longrightarrow> tile_good hc lf w' l i t \<Longrightarrow> w = w'"
  by (simp add: tile_good_def)

text \<open>A tile read back after it was written: empty nodes at the end are gone, nil nodes are empty.\<close>

definition reread :: "Tile \<Rightarrow> Tile" where
  "reread t = t\<lparr>Nodes := map (Some \<circ> node_bytes) (drop_trailing_empty (Nodes t))\<rparr>"

lemma has_node_reread:
  assumes "has_node t nl ni h" "h \<noteq> []"
  shows "has_node (reread t) nl ni h"
proof -
  let ?k = "node_key nl ni"
  obtain ks where ks: "Nodes t = drop_trailing_empty (Nodes t) @ ks" "\<forall>n \<in> set ks. node_bytes n = []"
    using drop_trailing_empty_split by blast
  have k: "?k < length (Nodes t)" "Nodes t ! ?k = Some h" using assms(1) by (auto simp: has_node_def)
  have lt: "?k < length (drop_trailing_empty (Nodes t))"
  proof (rule ccontr)
    assume n: "\<not> ?k < length (drop_trailing_empty (Nodes t))"
    have "Nodes t ! ?k = ks ! (?k - length (drop_trailing_empty (Nodes t)))"
      using n by (subst ks(1)) (simp only: nth_append if_False)
    moreover have "?k - length (drop_trailing_empty (Nodes t)) < length ks"
      using n k(1) arg_cong [OF ks(1), of length] by simp
    ultimately have "node_bytes (Some h) = []" using ks(2) k(2) by (metis nth_mem)
    then show False using assms(2) by (simp add: node_bytes_def)
  qed
  have "drop_trailing_empty (Nodes t) ! ?k = Some h"
    using k(2) lt by (subst (asm) ks(1)) (simp only: nth_append if_True)
  then show ?thesis using lt by (simp add: has_node_def reread_def node_bytes_def)
qed

lemma tile_good_reread:
  assumes "tile_good hc lf w l i t" "\<And>l i. node_hash hc lf l i \<noteq> []"
  shows "tile_good hc lf w l i (reread t)"
  using assms has_node_reread by (auto simp: tile_good_def reread_def)

subsection \<open>Setting one node\<close>

lemma has_node_set_node:
  assumes "unat nl < 8" "unat ni < 2 ^ (8 - unat nl)"
  shows "has_node (set_node t nl ni h) a b h' \<longleftrightarrow>
    (if a = unat nl \<and> b = unat ni then h' = h else has_node t a b h')"
proof -
  let ?k = "node_key (unat nl) (unat ni)"
  define ns where "ns = (if length (Nodes t) \<le> ?k then Nodes t @ replicate (?k - length (Nodes t) + 1) None else Nodes t)"
  have nodes: "Nodes (set_node t nl ni h) = ns[?k := Some h]"
    using TileNodeKey_unat [OF assms] by (simp add: set_node_def Let_def ns_def)
  have len: "?k < length ns" by (simp add: ns_def)
  have old: "node_key a b < length ns \<and> ns ! node_key a b = Some h' \<longleftrightarrow> has_node t a b h'"
  proof (cases "length (Nodes t) \<le> ?k \<and> \<not> node_key a b < length (Nodes t)")
    case True
    let ?r = "?k - length (Nodes t) + 1"
    have e: "ns = Nodes t @ replicate ?r None" using True by (simp only: ns_def if_True)
    have "ns ! node_key a b = None" if lt: "node_key a b < length ns"
    proof -
      have "ns ! node_key a b = replicate ?r None ! (node_key a b - length (Nodes t))"
        unfolding e using True by (simp only: nth_append if_False)
      also have "\<dots> = None" using lt True e by (intro nth_replicate) simp
      finally show ?thesis .
    qed
    then show ?thesis using True by (auto simp: has_node_def)
  next
    case False
    then show ?thesis by (auto simp: ns_def has_node_def nth_append)
  qed
  show ?thesis
  proof (cases "a = unat nl \<and> b = unat ni")
    case True
    then show ?thesis using len by (auto simp: has_node_def nodes)
  next
    case False
    then have "node_key a b \<noteq> ?k" using node_key_inj by metis
    then show ?thesis using False old unfolding has_node_def [of "set_node t nl ni h"] nodes by auto
  qed
qed

lemma NumLeaves_set_node:
  assumes "unat nl < 8" "unat ni < 2 ^ (8 - unat nl)"
  shows "unat (NumLeaves (set_node t nl ni h)) =
    (if nl = 0 then max (unat (NumLeaves t)) (unat ni + 1) else unat (NumLeaves t))"
proof -
  have "(2 :: nat) ^ (8 - unat nl) \<le> 2 ^ 8" by (rule power_increasing) simp_all
  then have "unat ni < 256" using assms(2) by simp
  then have "unat (ni + 1) = unat ni + 1" by (intro unat_Suc_u64) simp
  then show ?thesis by (auto simp: set_node_def Let_def word_le_nat_alt max_def)
qed


subsection \<open>Visiting the new nodes\<close>

text \<open>What the visits need of the tiles they read: a tile of the old tree is there and good for at
  least its old width and at most its new one.\<close>

definition gt_ok :: "hash_fn \<Rightarrow> (nat \<Rightarrow> bytes) \<Rightarrow> nat \<Rightarrow> nat \<Rightarrow> GetTileFunc \<Rightarrow> bool" where
  "gt_ok hc lf n m gt \<longleftrightarrow> (\<forall>l i. l < 8 \<and> i < 2 ^ 64 \<longrightarrow>
     (case gt (of_nat l) (of_nat i) of
        Inr t \<Rightarrow> \<exists>w. tile_width l i n \<le> w \<and> w \<le> tile_width l i m \<and> tile_good hc lf w l i t
      | Inl e \<Rightarrow> os_IsNotExist e \<longrightarrow> tile_width l i n = 0))"

text \<open>A cached tile after the nodes \<open>V\<close> were visited.\<close>

definition tile_state :: "hash_fn \<Rightarrow> (nat \<Rightarrow> bytes) \<Rightarrow> nat \<Rightarrow> nat \<Rightarrow> (nat \<times> nat) set \<Rightarrow> nat \<Rightarrow> nat \<Rightarrow> Tile \<Rightarrow> bool" where
  "tile_state hc lf n m V l i t \<longleftrightarrow>
     tile_width l i n \<le> unat (NumLeaves t) \<and> unat (NumLeaves t) \<le> tile_width l i m \<and>
     (\<forall>nl ni. nl < 8 \<and> ni < 2 ^ (8 - nl) \<and>
        ((ni + 1) * 2 ^ nl \<le> tile_width l i n \<or> (8 * l + nl, i * 2 ^ (8 - nl) + ni) \<in> V) \<longrightarrow>
        has_node t nl ni (tile_hash hc lf l i nl ni)) \<and>
     (\<forall>ni < 256. (8 * l, i * 256 + ni) \<in> V \<longrightarrow> ni < unat (NumLeaves t))"

definition in_tile :: "nat \<Rightarrow> nat \<Rightarrow> nat \<times> nat \<Rightarrow> bool" where
  "in_tile l i v \<longleftrightarrow> (\<exists>nl ni. nl < 8 \<and> ni < 2 ^ (8 - nl) \<and> v = (8 * l + nl, i * 2 ^ (8 - nl) + ni))"

lemma in_tile_addr:
  "in_tile l i (a, b) \<longleftrightarrow> (\<exists>nl ni. tile_addr a b = (l, i, nl, ni))"
proof
  assume "in_tile l i (a, b)"
  then show "\<exists>nl ni. tile_addr a b = (l, i, nl, ni)" using tile_addr_intro by (auto simp: in_tile_def)
next
  assume "\<exists>nl ni. tile_addr a b = (l, i, nl, ni)"
  then obtain nl ni where "tile_addr a b = (l, i, nl, ni)" by blast
  then show "in_tile l i (a, b)" using tile_addr_inverse [of a b l i nl ni] by (auto simp: in_tile_def)
qed

lemma tile_state_good:
  assumes "tile_good hc lf w l i t" "tile_width l i n \<le> w" "w \<le> tile_width l i m"
    "\<And>v. v \<in> V \<Longrightarrow> \<not> in_tile l i v"
  shows "tile_state hc lf n m V l i t"
proof -
  have "(8 * l + nl, i * 2 ^ (8 - nl) + ni) \<notin> V" if "nl < 8" "ni < 2 ^ (8 - nl)" for nl ni
    using assms(4) that by (auto simp: in_tile_def)
  moreover from this [of 0] have "(8 * l, i * 256 + ni) \<notin> V" if "ni < 256" for ni using that by simp
  ultimately show ?thesis using assms(1-3) unfolding tile_state_def tile_good_def by auto
qed

lemma tile_state_other:
  assumes "tile_state hc lf n m V l i t" "\<not> in_tile l i v"
  shows "tile_state hc lf n m (insert v V) l i t"
proof -
  have "v \<noteq> (8 * l + nl, i * 2 ^ (8 - nl) + ni)" if "nl < 8" "ni < 2 ^ (8 - nl)" for nl ni
    using assms(2) that by (auto simp: in_tile_def)
  moreover from this [of 0] have "v \<noteq> (8 * l, i * 256 + ni)" if "ni < 256" for ni using that by simp
  ultimately show ?thesis using assms(1) unfolding tile_state_def by auto
qed

lemma tile_state_set:
  assumes "tile_state hc lf n m V l i t" "unat nl < 8" "unat ni < 2 ^ (8 - unat nl)"
    "complete 0 m (8 * l + unat nl) (i * 2 ^ (8 - unat nl) + unat ni)"
  shows "tile_state hc lf n m (insert (8 * l + unat nl, i * 2 ^ (8 - unat nl) + unat ni) V) l i
    (set_node t nl ni (tile_hash hc lf l i (unat nl) (unat ni)))"
proof -
  let ?t = "set_node t nl ni (tile_hash hc lf l i (unat nl) (unat ni))"
  let ?v = "(8 * l + unat nl, i * 2 ^ (8 - unat nl) + unat ni)"
  note st = assms(1) [unfolded tile_state_def]
  have w: "(unat ni + 1) * 2 ^ unat nl \<le> tile_width l i m"
    using complete_width [OF assms(2,3)] assms(4) by blast
  have nz: "nl = 0 \<longleftrightarrow> unat nl = 0" by (simp add: unat_eq_0)
  have NL: "unat (NumLeaves ?t) = (if unat nl = 0 then max (unat (NumLeaves t)) (unat ni + 1) else unat (NumLeaves t))"
    unfolding NumLeaves_set_node [OF assms(2,3)] nz ..
  have uniq: "a = unat nl \<and> b = unat ni"
    if "a < 8" "b < 2 ^ (8 - a)" "(8 * l + a, i * 2 ^ (8 - a) + b) = ?v" for a b
  proof -
    have "tile_addr (8 * l + a) (i * 2 ^ (8 - a) + b) = tile_addr (8 * l + unat nl) (i * 2 ^ (8 - unat nl) + unat ni)"
      using that(3) by (metis prod.inject)
    then show ?thesis unfolding tile_addr_intro [OF that(1,2)] tile_addr_intro [OF assms(2,3)] by simp
  qed
  have "unat (NumLeaves ?t) \<le> tile_width l i m" using w st unfolding NL by auto
  moreover have "tile_width l i n \<le> unat (NumLeaves ?t)" using st unfolding NL by auto
  moreover have "has_node ?t a b (tile_hash hc lf l i a b)"
    if "a < 8" "b < 2 ^ (8 - a)"
      "(b + 1) * 2 ^ a \<le> tile_width l i n \<or> (8 * l + a, i * 2 ^ (8 - a) + b) \<in> insert ?v V" for a b
    using that st uniq [OF that(1,2)] unfolding has_node_set_node [OF assms(2,3)] by auto
  moreover have "b < unat (NumLeaves ?t)" if "b < 256" "(8 * l, i * 256 + b) \<in> insert ?v V" for b
    using that st uniq [of 0 b] unfolding NL by auto
  ultimately show ?thesis unfolding tile_state_def by blast
qed

text \<open>The cache: its tiles are in the right state, it holds the tile of every visited node and no tile
  without one.\<close>

definition cache_inv :: "hash_fn \<Rightarrow> (nat \<Rightarrow> bytes) \<Rightarrow> nat \<Rightarrow> nat \<Rightarrow> (nat \<times> nat) set \<Rightarrow> (tileKey \<times> Tile) list \<Rightarrow> bool" where
  "cache_inv hc lf n m V tm \<longleftrightarrow> distinct (map fst tm) \<and>
     (\<forall>x y t. map_of tm (x, y) = Some t \<longrightarrow>
        tile_state hc lf n m V (unat x) (unat y) t \<and> (\<exists>v \<in> V. in_tile (unat x) (unat y) v)) \<and>
     (\<forall>x y v. v \<in> V \<and> in_tile (unat x) (unat y) v \<longrightarrow> map_of tm (x, y) \<noteq> None)"

lemma cache_inv_empty: "cache_inv hc lf n m {} []"
  by (simp add: cache_inv_def)

lemma Visit_addr:
  assumes "l < 64" "i < 2 ^ 64"
  obtains tlv ti nl ni where "NodeCoordsToTileAddress (of_nat l) (of_nat i) = (tlv, ti, nl, ni)"
    "tile_addr l i = (unat tlv, unat ti, unat nl, unat ni)" "unat tlv < 8" "unat nl < 8"
    "unat ni < 2 ^ (8 - unat nl)" "l = 8 * unat tlv + unat nl" "i = unat ti * 2 ^ (8 - unat nl) + unat ni"
proof -
  obtain tlv ti nl ni where a: "NodeCoordsToTileAddress (of_nat l) (of_nat i) = (tlv, ti, nl, ni)"
    by (metis prod_cases4)
  have "unat (of_nat l :: u64) = l" "unat (of_nat i :: u64) = i"
    using assms by (simp_all add: unat_of_nat_u64)
  then have t: "tile_addr l i = (unat tlv, unat ti, unat nl, unat ni)" using NodeCoords_unat [OF a] by simp
  note inv = tile_addr_inverse [OF t]
  have "unat tlv < 8" using inv(1,3) assms(1) by linarith
  then show ?thesis using that a t inv by blast
qed

lemma Visit_step:
  assumes "cache_inv hc lf n m V (tc_m tc)" "gt_ok hc lf n m (tc_getTile tc)"
    "complete 0 m l i" "m < 2 ^ 64" "Visit tc (nid l i) (node_hash hc lf l i) = Inr tc'"
  shows "cache_inv hc lf n m (insert (l, i) V) (tc_m tc') \<and> tc_getTile tc' = tc_getTile tc"
proof -
  obtain tlv ti nl ni where a: "NodeCoordsToTileAddress (of_nat l) (of_nat i) = (tlv, ti, nl, ni)"
    and ta: "tile_addr l i = (unat tlv, unat ti, unat nl, unat ni)" and b: "unat tlv < 8" "unat nl < 8"
      "unat ni < 2 ^ (8 - unat nl)" and li: "l = 8 * unat tlv + unat nl" "i = unat ti * 2 ^ (8 - unat nl) + unat ni"
    using Visit_addr [OF complete_bounds [OF assms(3,4)]] by blast
  let ?k = "(tlv, ti)"
  note ci = assms(1) [unfolded cache_inv_def]
  obtain t where t: "tile_state hc lf n m V (unat tlv) (unat ti) t"
    and tc': "tc' = tc\<lparr>tc_m := AList.update ?k (set_node t nl ni (node_hash hc lf l i)) (tc_m tc)\<rparr>"
  proof (cases "map_of (tc_m tc) ?k")
    case (Some t)
    then show ?thesis using that [of t] ci assms(5) by (auto simp: Visit_def nid_def a Let_def)
  next
    case None
    have fresh: "\<not> in_tile (unat tlv) (unat ti) v" if "v \<in> V" for v using ci None that by blast
    have g: "case tc_getTile tc tlv ti of
        Inr t \<Rightarrow> \<exists>w. tile_width (unat tlv) (unat ti) n \<le> w \<and> w \<le> tile_width (unat tlv) (unat ti) m \<and>
          tile_good hc lf w (unat tlv) (unat ti) t
      | Inl e \<Rightarrow> os_IsNotExist e \<longrightarrow> tile_width (unat tlv) (unat ti) n = 0"
      using assms(2) b(1) unat_lt_u64 [of ti] unfolding gt_ok_def
      by (auto dest: spec2 [of _ "unat tlv" "unat ti"])
    show ?thesis
    proof (cases "tc_getTile tc tlv ti")
      case (Inr t)
      then show ?thesis using that [of t] g tile_state_good fresh None assms(5)
        by (fastforce simp: Visit_def nid_def a Let_def)
    next
      case (Inl e)
      then have "os_IsNotExist e" using assms(5) None
        by (auto simp: Visit_def nid_def a Let_def split: if_splits)
      then show ?thesis using that [of new_tile] Inl g None assms(5)
          tile_state_good [OF tile_good_new, of "unat tlv" "unat ti" n m V hc lf] fresh
        by (auto simp: Visit_def nid_def a Let_def split: if_splits)
    qed
  qed
  let ?t = "set_node t nl ni (node_hash hc lf l i)"
  have new: "tile_state hc lf n m (insert (l, i) V) (unat tlv) (unat ti) ?t"
    using tile_state_set [OF t b(2,3)] assms(3) unfolding li by blast
  have key: "in_tile (unat x) (unat y) (l, i) \<longleftrightarrow> (x, y) = ?k" for x y
    unfolding in_tile_addr ta by (auto simp: word_unat_eq_iff)
  have mp: "map_of (tc_m tc') = (map_of (tc_m tc))(?k \<mapsto> ?t)" by (simp add: tc' update_conv')
  have "tile_state hc lf n m (insert (l, i) V) (unat x) (unat y) t' \<and> (\<exists>v \<in> insert (l, i) V. in_tile (unat x) (unat y) v)"
    if "map_of (tc_m tc') (x, y) = Some t'" for x y t'
  proof (cases "(x, y) = ?k")
    case True
    then show ?thesis using that new key [of x y] by (simp add: mp)
  next
    case False
    then have "map_of (tc_m tc) (x, y) = Some t'" using that by (auto simp: mp split: if_splits)
    then show ?thesis using ci False key [of x y] tile_state_other by blast
  qed
  moreover have "map_of (tc_m tc') (x, y) \<noteq> None" if "v \<in> insert (l, i) V" "in_tile (unat x) (unat y) v" for x y v
  proof (cases "(x, y) = ?k")
    case True
    then show ?thesis by (simp add: mp)
  next
    case False
    then have "v \<in> V" using that key [of x y] by auto
    then have "map_of (tc_m tc) (x, y) \<noteq> None" using ci that(2) by blast
    then show ?thesis unfolding mp by (simp only: fun_upd_apply split: if_splits) simp
  qed
  moreover have "distinct (map fst (tc_m tc'))" using ci by (simp add: tc' distinct_update)
  moreover have "tc_getTile tc' = tc_getTile tc" by (simp add: tc')
  ultimately show ?thesis unfolding cache_inv_def by blast
qed


abbreviation new_nodes :: "nat \<Rightarrow> nat \<Rightarrow> (nat \<times> nat) set" where
  "new_nodes n m \<equiv> {(l, i). complete 0 m l i \<and> \<not> complete 0 n l i}"

lemma visit_all_map:
  "\<lbrakk>cache_inv hc lf n m V (tc_m tc); gt_ok hc lf n m (tc_getTile tc); m < 2 ^ 64;
    \<And>l i. (l, i) \<in> set us \<Longrightarrow> complete 0 m l i;
    visit_all tc (map (\<lambda>(l, i). (nid l i, node_hash hc lf l i)) us) = Inr tc'\<rbrakk> \<Longrightarrow>
   cache_inv hc lf n m (set us \<union> V) (tc_m tc')"
proof (induction us arbitrary: V tc)
  case (Cons u us)
  obtain l i where u: "u = (l, i)" by fastforce
  obtain tc1 where 1: "Visit tc (nid l i) (node_hash hc lf l i) = Inr tc1"
    "visit_all tc1 (map (\<lambda>(l, i). (nid l i, node_hash hc lf l i)) us) = Inr tc'"
    using Cons.prems(5) by (auto simp: u split: sum.splits)
  have "complete 0 m l i" using Cons.prems(4) u by simp
  from Visit_step [OF Cons.prems(1,2) this Cons.prems(3) 1(1)]
  have c: "cache_inv hc lf n m (insert (l, i) V) (tc_m tc1)" "gt_ok hc lf n m (tc_getTile tc1)"
    using Cons.prems(2) by auto
  have "cache_inv hc lf n m (set us \<union> insert (l, i) V) (tc_m tc')"
    using Cons.prems(4) by (intro Cons.IH [OF c Cons.prems(3) _ 1(2)]) auto
  then show ?case by (simp add: u)
qed simp

lemma visits_nodes_map:
  assumes "visits_nodes hc lf vs P" "\<And>l i. P l i \<Longrightarrow> complete 0 m l i" "m < 2 ^ 64"
  shows "\<exists>us. vs = map (\<lambda>(l, i). (nid l i, node_hash hc lf l i)) us \<and> set us = {(l, i). P l i}"
proof -
  let ?f = "\<lambda>(l, i). (nid l i, node_hash hc lf l i)"
  have "\<forall>v \<in> set vs. \<exists>u. ?f u = v \<and> (case u of (l, i) \<Rightarrow> P l i)"
    using assms(1) by (fastforce simp: visits_nodes_def)
  from bchoice [OF this] obtain g
    where "\<forall>v \<in> set vs. ?f (g v) = v \<and> (case g v of (l, i) \<Rightarrow> P l i)" by (rule exE)
  note g = bspec [OF this]
  have "vs = map ?f (map g vs)" 
  proof (rule nth_equalityI)
    fix j assume "j < length vs"
    then show "vs ! j = map ?f (map g vs) ! j" using g [of "vs ! j"] by (simp only: nth_map length_map nth_mem)
  qed simp
  moreover have "(l, i) \<in> g ` set vs" if "P l i" for l i
  proof -
    let ?v = "?f (l, i)"
    have v: "?v \<in> set vs" using assms(1) that by (auto simp: visits_nodes_def)
    obtain l' i' where g': "g ?v = (l', i')" by fastforce
    then have "P l' i'" "nid l i = nid l' i'" using g [OF v] by (simp_all only: prod.case prod.inject)
    then have "(l', i') = (l, i)" using nid_inj [OF assms(2) assms(2), of l i l' i'] that assms(3) by simp
    then show ?thesis using v g' by force
  qed
  then have "set (map g vs) = {(l, i). P l i}" using g by fastforce
  ultimately show ?thesis by blast
qed

lemma visit_all_nodes:
  assumes "visits_nodes hc lf vs (\<lambda>l i. complete 0 m l i \<and> \<not> complete 0 n l i)" "m < 2 ^ 64"
    "gt_ok hc lf n m gt" "visit_all \<lparr>tc_m = [], tc_getTile = gt\<rparr> vs = Inr tc"
  shows "cache_inv hc lf n m (new_nodes n m) (tc_m tc)"
proof -
  obtain us where us: "vs = map (\<lambda>(l, i). (nid l i, node_hash hc lf l i)) us" "set us = new_nodes n m"
    using visits_nodes_map [OF assms(1) _ assms(2)] by auto
  show ?thesis
    using visit_all_map [of hc lf n m "{}" "\<lparr>tc_m = [], tc_getTile = gt\<rparr>" us tc] cache_inv_empty assms us by auto
qed

lemma visit_all_append:
  "visit_all tc (vs @ ws) = (case visit_all tc vs of Inl e \<Rightarrow> Inl e | Inr tc' \<Rightarrow> visit_all tc' ws)"
  by (induction tc vs rule: visit_all.induct) (auto split: sum.splits)

lemma append_entries_all:
  "append_entries C h r tc es =
     (let (r', vs) = append_all C r (map (HashLeaf h \<circ> snd) es) in
      case visit_all tc vs of Inl e \<Rightarrow> Inl e | Inr tc' \<Rightarrow> Inr (r', tc'))"
  by (induction C h r tc es rule: append_entries.induct)
    (auto simp: visit_all_append Let_def split: sum.splits prod.splits)

lemma new_leaf:
  assumes "tile_width l i n < tile_width l i m"
  shows "(8 * l, i * 256 + (tile_width l i m - 1)) \<in> new_nodes n m"
    "tile_width l i m - 1 < 256" "in_tile l i (8 * l, i * 256 + (tile_width l i m - 1))"
proof -
  let ?w = "tile_width l i m - 1"
  show lt: "?w < 256" using tile_width_le [of l i m] assms by linarith
  show "(8 * l, i * 256 + ?w) \<in> new_nodes n m"
    using tile_width_leaf [OF lt, of m l i] tile_width_leaf [OF lt, of n l i] assms by auto
  show "in_tile l i (8 * l, i * 256 + ?w)" unfolding in_tile_def using lt
    by (intro exI [of _ 0] exI [of _ ?w]) simp
qed

lemma cache_final:
  assumes "cache_inv hc lf n m (new_nodes n m) tm" "map_of tm (x, y) = Some t"
  shows "tile_good hc lf (tile_width (unat x) (unat y) m) (unat x) (unat y) t"
    "0 < tile_width (unat x) (unat y) m"
proof -
  let ?l = "unat x" and ?i = "unat y"
  have st: "tile_state hc lf n m (new_nodes n m) ?l ?i t" and ex: "\<exists>v \<in> new_nodes n m. in_tile ?l ?i v"
    using assms by (auto simp: cache_inv_def)
  obtain nl ni where b: "nl < 8" "ni < 2 ^ (8 - nl)" "(8 * ?l + nl, ?i * 2 ^ (8 - nl) + ni) \<in> new_nodes n m"
    using ex by (auto simp: in_tile_def)
  then have lt: "tile_width ?l ?i n < tile_width ?l ?i m"
    using complete_width [OF b(1,2), of n ?l ?i] complete_width [OF b(1,2), of m ?l ?i] by auto
  then show "0 < tile_width ?l ?i m" by simp
  have "tile_width ?l ?i m - 1 < unat (NumLeaves t)"
    using st new_leaf [OF lt] unfolding tile_state_def by blast
  then have "unat (NumLeaves t) = tile_width ?l ?i m" using st by (auto simp: tile_state_def)
  moreover have "has_node t a c (tile_hash hc lf ?l ?i a c)"
    if "a < 8" "c < 2 ^ (8 - a)" "(c + 1) * 2 ^ a \<le> tile_width ?l ?i m" for a c
  proof -
    have "complete 0 m (8 * ?l + a) (?i * 2 ^ (8 - a) + c)" using complete_width [OF that(1,2)] that(3) by blast
    then have "(c + 1) * 2 ^ a \<le> tile_width ?l ?i n \<or> (8 * ?l + a, ?i * 2 ^ (8 - a) + c) \<in> new_nodes n m"
      using complete_width [OF that(1,2), of n ?l ?i] by auto
    then show ?thesis using st that(1,2) unfolding tile_state_def by blast
  qed
  ultimately show "tile_good hc lf (tile_width ?l ?i m) ?l ?i t" by (simp add: tile_good_def)
qed

lemma cache_untouched:
  assumes "cache_inv hc lf n m (new_nodes n m) tm" "map_of tm (x, y) = None" "n \<le> m"
  shows "tile_width (unat x) (unat y) m = tile_width (unat x) (unat y) n"
proof (rule ccontr)
  assume "tile_width (unat x) (unat y) m \<noteq> tile_width (unat x) (unat y) n"
  then have "tile_width (unat x) (unat y) n < tile_width (unat x) (unat y) m"
    using tile_width_mono [OF assms(3), of "unat x" "unat y"] by simp
  from new_leaf(1,3) [OF this] show False using assms(1,2) unfolding cache_inv_def by blast
qed

end
