(* ===== verification/IntegrateProofs.thy ===== *)
theory IntegrateProofs
  imports TileGood
begin

section \<open>Integration is correct\<close>

text \<open>
  The contract of a log's storage is the locale \<open>log_storage\<close>: \<open>tv s\<close> is what the tile files
  hold, by level, index and partial size, and \<open>entry s\<close> what is sequenced.  Any call may fail, and
  the contract says what a failed \<^verbatim>\<open>StoreTile\<close> may have done; \<open>healthy_storage\<close> adds
  that in some states nothing fails.  Over this contract \<^verbatim>\<open>Integrate\<close> returns the size and
  root of the tree of all sequenced entries, leaves tiles that hold that tree, and whether it succeeds
  or fails never takes a tree away that could be read before.
\<close>

type_synonym tile_view = "u64 \<Rightarrow> u64 \<Rightarrow> u64 \<Rightarrow> Tile option"

text \<open>No tile holds anything but hashes of the log, none is wider than the log of \<open>m\<close> entries, and
  each is at the place of its width, or is a full tile.\<close>

definition all_good :: "hash_fn \<Rightarrow> (nat \<Rightarrow> bytes) \<Rightarrow> nat \<Rightarrow> tile_view \<Rightarrow> bool" where
  "all_good hc lf m tv \<longleftrightarrow> (\<forall>x y ps t. tv x y ps = Some t \<longrightarrow>
     (\<exists>w \<le> tile_width (unat x) (unat y) m. tile_good hc lf w (unat x) (unat y) t \<and> 0 < w \<and>
        (w = 256 \<or> unat ps = w mod 256)))"

text \<open>The tiles of the tree of size \<open>n\<close> are there.\<close>

definition holds_tree :: "hash_fn \<Rightarrow> (nat \<Rightarrow> bytes) \<Rightarrow> nat \<Rightarrow> tile_view \<Rightarrow> bool" where
  "holds_tree hc lf n tv \<longleftrightarrow> (\<forall>x y. unat x < 8 \<and> 0 < tile_width (unat x) (unat y) n \<longrightarrow>
     (\<exists>t w. tv x y (of_nat (tile_width (unat x) (unat y) n mod 256)) = Some t \<and>
        tile_width (unat x) (unat y) n \<le> w \<and> tile_good hc lf w (unat x) (unat y) t))"

lemma tile_width_0: "tile_width l i 0 = 0"
  by (simp add: tile_width_def)

lemma holds_tree_empty: "holds_tree hc lf 0 tv"
  by (simp add: holds_tree_def tile_width_0)

lemma all_good_empty: "all_good hc lf n (\<lambda>x y ps. None)"
  by (simp add: all_good_def)

text \<open>The leaf hashes of the sequenced entries.\<close>

definition leaf_fn :: "hasher \<Rightarrow> (nat \<Rightarrow> bytes option) \<Rightarrow> nat \<Rightarrow> bytes" where
  "leaf_fn h ent k = HashLeaf h (case ent k of None \<Rightarrow> [] | Some e \<Rightarrow> e)"

definition log_length :: "(nat \<Rightarrow> bytes option) \<Rightarrow> nat \<Rightarrow> bool" where
  "log_length ent n \<longleftrightarrow> (\<forall>k < n. ent k \<noteq> None) \<and> ent n = None"

definition nonempty_hashes :: "hasher \<Rightarrow> bool" where
  "nonempty_hashes h \<longleftrightarrow> (\<forall>e. HashLeaf h e \<noteq> []) \<and> (\<forall>a b. HashChildren h a b \<noteq> [])"

lemma node_hash_nonempty:
  "nonempty_hashes h \<Longrightarrow> node_hash (HashChildren h) (leaf_fn h ent) l i \<noteq> []"
  by (cases l) (auto simp: nonempty_hashes_def leaf_fn_def)

subsection \<open>Reading the old tree\<close>

lemma gt_ok_node:
  assumes "gt_ok hc lf n m gt" "complete 0 n l i" "n < 2 ^ 64"
  obtains tlv ti nl ni where "NodeCoordsToTileAddress (of_nat l) (of_nat i) = (tlv, ti, nl, ni)"
    "tile_addr l i = (unat tlv, unat ti, unat nl, unat ni)" "unat nl < 8" "unat ni < 2 ^ (8 - unat nl)"
    "case gt tlv ti of Inr t \<Rightarrow> has_node t (unat nl) (unat ni) (node_hash hc lf l i) | Inl e \<Rightarrow> \<not> os_IsNotExist e"
proof (rule Visit_addr [OF complete_bounds [OF assms(2,3)]])
  fix tlv ti nl ni
  assume a: "NodeCoordsToTileAddress (of_nat l) (of_nat i) = (tlv, ti, nl, ni)"
    "tile_addr l i = (unat tlv, unat ti, unat nl, unat ni)"
    and b: "unat tlv < 8" "unat nl < 8" "unat ni < 2 ^ (8 - unat nl)"
    and li: "l = 8 * unat tlv + unat nl" "i = unat ti * 2 ^ (8 - unat nl) + unat ni"
  have w: "(unat ni + 1) * 2 ^ unat nl \<le> tile_width (unat tlv) (unat ti) n"
    using assms(2) complete_width [OF b(2,3)] unfolding li by blast
  have "0 < (unat ni + 1) * 2 ^ unat nl" by simp
  then have pos: "0 < tile_width (unat tlv) (unat ti) n" using w by linarith
  have g: "case gt tlv ti of
      Inr t \<Rightarrow> \<exists>w. tile_width (unat tlv) (unat ti) n \<le> w \<and> w \<le> tile_width (unat tlv) (unat ti) m \<and>
        tile_good hc lf w (unat tlv) (unat ti) t
    | Inl e \<Rightarrow> os_IsNotExist e \<longrightarrow> tile_width (unat tlv) (unat ti) n = 0"
    using assms(1) b(1) unat_lt_u64 [of ti] unfolding gt_ok_def
    by (auto dest: spec2 [of _ "unat tlv" "unat ti"])
  have "case gt tlv ti of Inr t \<Rightarrow> has_node t (unat nl) (unat ni) (node_hash hc lf l i) | Inl e \<Rightarrow> \<not> os_IsNotExist e"
  proof (cases "gt tlv ti")
    case (Inr t)
    then obtain v where v: "tile_width (unat tlv) (unat ti) n \<le> v" "tile_good hc lf v (unat tlv) (unat ti) t"
      using g by auto
    then have "(unat ni + 1) * 2 ^ unat nl \<le> v" using w by linarith
    then have "has_node t (unat nl) (unat ni) (node_hash hc lf l i)"
      using v(2) b(2,3) unfolding tile_good_def li by blast
    then show ?thesis using Inr by simp
  qed (use g pos in auto)
  then show thesis using a b(2,3) by (intro that)
qed

lemma lookup_node_gt_ok:
  assumes "gt_ok hc lf n m gt" "complete 0 n l i" "n < 2 ^ 64" "lookup_node Map.empty gt (nid l i) = Inr h"
  shows "h = node_hash hc lf l i"
proof (rule gt_ok_node [OF assms(1-3)])
  fix tlv ti nl ni
  assume a: "NodeCoordsToTileAddress (of_nat l) (of_nat i) = (tlv, ti, nl, ni)"
    and b: "unat nl < 8" "unat ni < 2 ^ (8 - unat nl)"
    and g: "case gt tlv ti of Inr t \<Rightarrow> has_node t (unat nl) (unat ni) (node_hash hc lf l i) | Inl e \<Rightarrow> \<not> os_IsNotExist e"
  show ?thesis using assms(4) g
    by (cases "gt tlv ti") (auto simp: lookup_node_def nid_def a tile_node_key [OF b] has_node_def)
qed

lemma gt_ok_tiles_hold:
  assumes "gt_ok hc lf n m gt" "n < 2 ^ 64" "\<And>x y e. gt x y = Inl e \<Longrightarrow> os_IsNotExist e"
  shows "tiles_hold hc lf n gt"
  unfolding tiles_hold_def
proof (intro allI impI)
  fix l i assume c: "complete 0 n l i"
  show "tile_has gt l i (node_hash hc lf l i)"
  proof (rule gt_ok_node [OF assms(1) c assms(2)])
    fix tlv ti nl ni
    assume ta: "tile_addr l i = (unat tlv, unat ti, unat nl, unat ni)"
      and g: "case gt tlv ti of Inr t \<Rightarrow> has_node t (unat nl) (unat ni) (node_hash hc lf l i) | Inl e \<Rightarrow> \<not> os_IsNotExist e"
    show ?thesis using g assms(3) [of tlv ti]
      by (cases "gt tlv ti") (auto simp: tile_has_def ta has_node_def)
  qed
qed

context compact_range
begin

lemma FetchRangeNodes_gt_ok:
  assumes "gt_ok hc lf (unat s) m gt" "FetchRangeNodes C s gt = Inr hs"
  shows "hs = id_hashes hc lf (RangeNodes C 0 s)"
proof -
  have "mapE (lookup_node Map.empty gt) (RangeNodes C 0 s) = Inr hs"
    using assms(2) get_nodes_lookup [OF cache_ok_new, of gt s "RangeNodes C 0 s"]
    by (simp add: FetchRangeNodes_def newNodeCache_def)
  then have "list_all2 (\<lambda>x y. lookup_node Map.empty gt x = Inr y) (RangeNodes C 0 s) hs"
    by (simp add: mapE_Inr_iff)
  then have "list_all2 (\<lambda>x y. (\<lambda>(l, i). node_hash hc lf (unat l) (unat i)) x = y) (RangeNodes C 0 s) hs"
  proof (rule list.rel_mono_strong)
    fix x y assume x: "x \<in> set (RangeNodes C 0 s)" and y: "lookup_node Map.empty gt x = Inr y"
    obtain l i where li: "x = (l, i)" by fastforce
    note rn = range_nodes_complete [of l i 0 s]
    show "(\<lambda>(l, i). node_hash hc lf (unat l) (unat i)) x = y"
      using lookup_node_gt_ok [OF assms(1), of "unat l" "unat i" y] rn x y li by simp
  qed
  then show ?thesis by (simp add: list_all2_conv_all_nth list_eq_iff_nth_eq)
qed

lemma integrate_visits:
  assumes "rep r lf 0 n" "n \<le> m" "m < 2 ^ 64"
    "append_all C (NewEmptyRange C (of_nat n)) (map lf [n..<m]) = (nr, vs1)"
    "AppendRange C r nr = (err, r', vs2)"
  shows "err = None \<and> rep r' lf 0 m \<and>
    visits_nodes hc lf (vs1 @ vs2) (\<lambda>l i. complete 0 m l i \<and> \<not> complete 0 n l i)"
proof -
  have un: "unat (of_nat n :: u64) = n" using assms(2,3) by (intro unat_of_nat_u64) simp
  have nr: "rep nr lf n m" "visits_nodes hc lf vs1 (\<lambda>l i. complete n m l i \<and> \<not> complete n n l i)"
    using append_all_rep [of "NewEmptyRange C (of_nat n)" lf n n "m - n" nr vs1] new_empty [of "of_nat n" lf]
      assms(2-4) by (auto simp: un)
  have ar: "err = None" "rep r' lf 0 m" "visits_nodes hc lf vs2 (\<lambda>l i. crossing 0 n m l i)"
    using append_range_rep [OF assms(1) nr(1) _ assms(2,3,5)] by auto
  have "(complete n m l i \<and> \<not> complete n n l i) \<or> crossing 0 n m l i \<longleftrightarrow>
      complete 0 m l i \<and> \<not> complete 0 n l i" for l i
  proof -
    have "complete n m l i \<Longrightarrow> complete 0 m l i \<and> \<not> complete 0 n l i"
    proof -
      assume "complete n m l i"
      moreover have "i * 2 ^ l < (i + 1) * 2 ^ l" by simp
      ultimately show ?thesis unfolding complete_def by linarith
    qed
    moreover have "crossing 0 n m l i \<Longrightarrow> complete 0 m l i \<and> \<not> complete 0 n l i"
      unfolding crossing_def complete_def by linarith
    moreover have "complete n m l i \<or> crossing 0 n m l i" if "complete 0 m l i" "\<not> complete 0 n l i"
      using that by (cases rule: complete_cases [of 0 m l i n]) auto
    ultimately show ?thesis by auto
  qed
  then show ?thesis using ar visits_nodes_cong [OF visits_nodes_append [OF nr(2) ar(3)]] by auto
qed

end


subsection \<open>The contract of the storage\<close>

text \<open>Storing a tile changes the file of its width, and, when the tile is full, may make the partial
  tiles of the same place read as the full tile.  This holds also for a call that fails half way.  It
  is promised where no partial tile is stored next to a full one.\<close>

definition tile_stored :: "u64 \<Rightarrow> u64 \<Rightarrow> Tile \<Rightarrow> tile_view \<Rightarrow> tile_view \<Rightarrow> bool" where
  "tile_stored x y t tv tv' \<longleftrightarrow> (\<forall>x' y' ps. tv' x' y' ps = tv x' y' ps \<or>
     (x' = x \<and> y' = y \<and> tv' x' y' ps = Some (reread t) \<and>
      (ps = NumLeaves t mod 256 \<or> NumLeaves t = 256 \<and> tv x y ps \<noteq> None)))"

locale log_storage =
  fixes S :: "'s Storage" and sinv :: "'s \<Rightarrow> bool" and tv :: "'s \<Rightarrow> tile_view"
    and entry :: "'s \<Rightarrow> nat \<Rightarrow> bytes option"
  assumes get_some: "\<lbrakk>sinv s; st_GetTile S s x y n = Inr t\<rbrakk> \<Longrightarrow> tv s x y (PartialTileSize x y n) = Some t"
    and get_none: "\<lbrakk>sinv s; st_GetTile S s x y n = Inl e; os_IsNotExist e\<rbrakk> \<Longrightarrow>
      tv s x y (PartialTileSize x y n) = None"
    and store: "\<lbrakk>sinv s; 0 < NumLeaves t; NumLeaves t \<le> 256; NumLeaves t = 256 \<or> tv s x y 0 = None;
        st_StoreTile S s x y t = (err, s')\<rbrakk> \<Longrightarrow>
      sinv s' \<and> entry s' = entry s \<and> tile_stored x y t (tv s) (tv s') \<and>
      (err = None \<longrightarrow> tv s' x y (NumLeaves t mod 256) = Some (reread t))"
    and scan: "\<lbrakk>sinv s; st_ScanSequenced S s b = (es, k, None)\<rbrakk> \<Longrightarrow>
      \<exists>m \<ge> unat b. es = map (\<lambda>i. (of_nat i, the (entry s i))) [unat b..<m] \<and>
        (\<forall>i. unat b \<le> i \<and> i < m \<longrightarrow> entry s i \<noteq> None) \<and> entry s m = None \<and> k = of_nat (m - unat b)"
    and entry_bound: "\<lbrakk>sinv s; entry s j \<noteq> None\<rbrakk> \<Longrightarrow> j < 2 ^ 64 - 1"
begin

lemma log_length_bound: "sinv s \<Longrightarrow> log_length (entry s) m \<Longrightarrow> m < 2 ^ 64"
  using entry_bound [of s "m - 1"] by (cases m) (auto simp: log_length_def)

lemma scan_all:
  assumes "sinv s" "log_length (entry s) m" "unat b \<le> m" "st_ScanSequenced S s b = (es, k, None)"
  shows "map (HashLeaf h \<circ> snd) es = map (leaf_fn h (entry s)) [unat b..<m]" "k = of_nat (m - unat b)"
proof -
  obtain j where j: "unat b \<le> j" "es = map (\<lambda>i. (of_nat i, the (entry s i))) [unat b..<j]"
    "\<And>i. unat b \<le> i \<Longrightarrow> i < j \<Longrightarrow> entry s i \<noteq> None" "entry s j = None" "k = of_nat (j - unat b)"
    using scan [OF assms(1,4)] by blast
  have "j = m" using assms(2,3) j(3) [of m] j(4) unfolding log_length_def by (metis linorder_neqE_nat)
  then show "k = of_nat (m - unat b)" using j(5) by simp
  show "map (HashLeaf h \<circ> snd) es = map (leaf_fn h (entry s)) [unat b..<m]"
    unfolding j(2) \<open>j = m\<close> map_map
  proof (rule map_cong [OF refl])
    fix i assume "i \<in> set [unat b..<m]"
    then have "entry s i \<noteq> None" using j(3) [of i] \<open>j = m\<close> by simp
    then show "((HashLeaf h \<circ> snd) \<circ> (\<lambda>i. (of_nat i, the (entry s i)))) i = leaf_fn h (entry s) i"
      by (auto simp: leaf_fn_def)
  qed
qed

lemma gt_ok_storage:
  assumes "sinv s" "all_good hc lf m (tv s)" "holds_tree hc lf (unat n) (tv s)" "unat n \<le> m"
  shows "gt_ok hc lf (unat n) m (\<lambda>x y. st_GetTile S s x y n)"
  unfolding gt_ok_def
proof (intro allI impI)
  fix l i :: nat assume li: "l < 8 \<and> i < 2 ^ 64"
  define x y where xy: "x = (of_nat l :: u64)" "y = (of_nat i :: u64)"
  have u: "unat x = l" "unat y = i" using li by (simp_all add: xy unat_of_nat_u64)
  have "x < 8" using u li by (simp add: word_less_nat_alt)
  from PartialTileSize_unat [OF this, of y n]
  have ps: "PartialTileSize x y n = of_nat (partial_size l i (unat n))"
    unfolding u by (metis unat_of_nat_u64 unat_lt_u64 word_unat_eq_iff)
  have h: "0 < tile_width l i (unat n) \<Longrightarrow> \<exists>t w. tv s x y (PartialTileSize x y n) = Some t \<and>
      tile_width l i (unat n) \<le> w \<and> tile_good hc lf w l i t"
    using assms(3) li partial_width [of l i "unat n"] unfolding holds_tree_def ps by (metis u)
  show "case st_GetTile S s (of_nat l) (of_nat i) n of
      Inr t \<Rightarrow> \<exists>w. tile_width l i (unat n) \<le> w \<and> w \<le> tile_width l i m \<and> tile_good hc lf w l i t
    | Inl e \<Rightarrow> os_IsNotExist e \<longrightarrow> tile_width l i (unat n) = 0"
  proof (cases "st_GetTile S s x y n")
    case (Inl e)
    then show ?thesis using get_none [OF assms(1) Inl] h by (cases "tile_width l i (unat n)") (auto simp: xy)
  next
    case (Inr t)
    note t = get_some [OF assms(1) Inr]
    obtain w where w: "w \<le> tile_width l i m" "tile_good hc lf w l i t"
      using assms(2) t li u unfolding all_good_def by blast
    have "tile_width l i (unat n) \<le> w" using h t w(2) tile_good_width by fastforce
    then show ?thesis using w Inr by (auto simp: xy)
  qed
qed

end

subsection \<open>Storing the tiles of the new tree\<close>

lemma tile_stored_refl: "tile_stored x y t tv tv"
  by (simp add: tile_stored_def)

lemma tile_stored_keeps:
  assumes "tile_stored x y t tv tv'" "tile_good hc lf (tile_width (unat x) (unat y) m) (unat x) (unat y) (reread t)"
    "0 < tile_width (unat x) (unat y) m"
  shows "all_good hc lf m tv \<Longrightarrow> all_good hc lf m tv'"
    and "holds_tree hc lf n tv \<Longrightarrow> n \<le> m \<Longrightarrow> holds_tree hc lf n tv'"
proof -
  show "all_good hc lf m tv'" if "all_good hc lf m tv"
    unfolding all_good_def
  proof (intro allI impI)
    fix x' y' ps t' assume t': "tv' x' y' ps = Some t'"
    let ?w = "tile_width (unat x) (unat y) m"
    have n: "unat (NumLeaves t) = ?w" using assms(2) by (simp add: tile_good_def reread_def)
    then have ps: "ps = NumLeaves t mod 256 \<Longrightarrow> unat ps = ?w mod 256" "NumLeaves t = 256 \<Longrightarrow> ?w = 256"
      by (simp_all add: unat_mod)
    consider "tv x' y' ps = Some t'"
      | "x' = x" "y' = y" "t' = reread t" "ps = NumLeaves t mod 256 \<or> NumLeaves t = 256"
      using assms(1) t' unfolding tile_stored_def by (metis option.inject)
    then show "\<exists>w \<le> tile_width (unat x') (unat y') m. tile_good hc lf w (unat x') (unat y') t' \<and> 0 < w \<and>
        (w = 256 \<or> unat ps = w mod 256)"
    proof cases
      case 1
      then show ?thesis using that t' unfolding all_good_def by blast
    next
      case 2
      then show ?thesis using assms(2,3) ps by (intro exI [of _ ?w]) auto
    qed
  qed
  show "holds_tree hc lf n tv'" if hold: "holds_tree hc lf n tv" and nm: "n \<le> m"
    unfolding holds_tree_def
  proof (intro allI impI)
    fix x' y' :: u64 assume w: "unat x' < 8 \<and> 0 < tile_width (unat x') (unat y') n"
    let ?ps = "of_nat (tile_width (unat x') (unat y') n mod 256) :: u64"
    obtain t0 w0 where t0: "tv x' y' ?ps = Some t0" "tile_width (unat x') (unat y') n \<le> w0"
      "tile_good hc lf w0 (unat x') (unat y') t0" using hold w unfolding holds_tree_def by blast
    have "tv' x' y' ?ps = Some t0 \<or> (x' = x \<and> y' = y \<and> tv' x' y' ?ps = Some (reread t))"
      using assms(1) t0(1) unfolding tile_stored_def by metis
    then show "\<exists>t w. tv' x' y' ?ps = Some t \<and> tile_width (unat x') (unat y') n \<le> w \<and>
        tile_good hc lf w (unat x') (unat y') t"
      using t0(2,3) assms(2) tile_width_mono [OF nm] by blast
  qed
qed

text \<open>The tiles of the cache as they are stored.\<close>

definition cache_good :: "hash_fn \<Rightarrow> (nat \<Rightarrow> bytes) \<Rightarrow> nat \<Rightarrow> (tileKey \<times> Tile) list \<Rightarrow> bool" where
  "cache_good hc lf m ts \<longleftrightarrow> (\<forall>x y t. ((x, y), t) \<in> set ts \<longrightarrow>
     tile_good hc lf (tile_width (unat x) (unat y) m) (unat x) (unat y) t \<and> 0 < tile_width (unat x) (unat y) m)"

lemma cache_good_NumLeaves:
  assumes "tile_good hc lf (tile_width (unat x) (unat y) m) (unat x) (unat y) t" "0 < tile_width (unat x) (unat y) m"
  shows "0 < NumLeaves t" "NumLeaves t \<le> 256"
    "NumLeaves t mod 256 = of_nat (tile_width (unat x) (unat y) m mod 256)"
proof -
  have n: "unat (NumLeaves t) = tile_width (unat x) (unat y) m" using assms(1) by (simp add: tile_good_def)
  show "0 < NumLeaves t" "NumLeaves t \<le> 256" using n assms(2) by (auto simp: word_less_nat_alt word_le_nat_alt)
  have "unat (NumLeaves t mod 256) = tile_width (unat x) (unat y) m mod 256" using n by (simp add: unat_mod)
  then show "NumLeaves t mod 256 = of_nat (tile_width (unat x) (unat y) m mod 256)"
    by (metis of_nat_unat ucast_id)
qed


lemma store_place:
  assumes "all_good hc lf m tv"
    "tile_good hc lf (tile_width (unat x) (unat y) m) (unat x) (unat y) t" "0 < tile_width (unat x) (unat y) m"
  shows "NumLeaves t = 256 \<or> tv x y 0 = None"
proof (cases "tv x y 0")
  case (Some t0)
  then obtain w where w: "w \<le> tile_width (unat x) (unat y) m" "0 < w" "w = 256 \<or> w mod 256 = 0"
    using assms(1) unfolding all_good_def by fastforce
  then have "\<not> w < 256" by auto
  then have "tile_width (unat x) (unat y) m = 256" using w(1) tile_width_le [of "unat x" "unat y" m] by linarith
  then have "unat (NumLeaves t) = 256" using assms(2) by (simp add: tile_good_def)
  then show ?thesis by (simp add: word_unat_eq_iff)
qed simp

context log_storage
begin

lemma store_tiles_keeps:
  assumes ne: "\<And>l i. node_hash hc lf l i \<noteq> []"
  shows "\<lbrakk>sinv s; all_good hc lf m (tv s); cache_good hc lf m ts; store_tiles S s ts = (err, s')\<rbrakk> \<Longrightarrow>
    sinv s' \<and> entry s' = entry s \<and> all_good hc lf m (tv s') \<and>
    (\<forall>n \<le> m. holds_tree hc lf n (tv s) \<longrightarrow> holds_tree hc lf n (tv s')) \<and>
    (\<forall>x y ps. (x, y) \<notin> fst ` set ts \<longrightarrow> tv s' x y ps = tv s x y ps)"
proof (induction ts arbitrary: s)
  case (Cons k ts)
  obtain x y t where k: "k = ((x, y), t)" by (metis prod.collapse)
  have g: "tile_good hc lf (tile_width (unat x) (unat y) m) (unat x) (unat y) t" "0 < tile_width (unat x) (unat y) m"
    and cg: "cache_good hc lf m ts"
    using Cons.prems(3) by (auto simp: cache_good_def k)
  obtain e1 s1 where 1: "st_StoreTile S s x y t = (e1, s1)" by fastforce
  note st = store [OF Cons.prems(1) cache_good_NumLeaves(1,2) [OF g] store_place [OF Cons.prems(2) g] 1]
  have keep: "all_good hc lf m (tv s1)"
    "holds_tree hc lf n (tv s) \<Longrightarrow> n \<le> m \<Longrightarrow> holds_tree hc lf n (tv s1)" for n
    using tile_stored_keeps [of x y t "tv s" "tv s1" hc lf m] st tile_good_reread [OF g(1) ne] g(2) Cons.prems(2)
    by auto
  have frame: "(x', y') \<noteq> (x, y) \<Longrightarrow> tv s1 x' y' ps = tv s x' y' ps" for x' y' ps
    using st unfolding tile_stored_def by blast
  show ?case
  proof (cases e1)
    case None
    then have "store_tiles S s1 ts = (err, s')" using Cons.prems(4) 1 by (simp add: k)
    from Cons.IH [OF _ keep(1) cg this] st keep frame show ?thesis by (auto simp: k)
  next
    case (Some e)
    then have "s' = s1" using Cons.prems(4) 1 by (simp add: k)
    then show ?thesis using st keep frame by (auto simp: k)
  qed
qed simp

lemma store_tiles_stored:
  assumes ne: "\<And>l i. node_hash hc lf l i \<noteq> []"
  shows "\<lbrakk>sinv s; all_good hc lf m (tv s); cache_good hc lf m ts; distinct (map fst ts); store_tiles S s ts = (None, s'); ((x, y), t) \<in> set ts\<rbrakk> \<Longrightarrow>
    tv s' x y (of_nat (tile_width (unat x) (unat y) m mod 256)) = Some (reread t)"
proof (induction ts arbitrary: s)
  case (Cons k ts)
  obtain x1 y1 t1 where k: "k = ((x1, y1), t1)" by (metis prod.collapse)
  have g: "tile_good hc lf (tile_width (unat x1) (unat y1) m) (unat x1) (unat y1) t1" "0 < tile_width (unat x1) (unat y1) m"
    and cg: "cache_good hc lf m ts"
    using Cons.prems(3) by (auto simp: cache_good_def k)
  obtain s1 where 1: "st_StoreTile S s x1 y1 t1 = (None, s1)" "store_tiles S s1 ts = (None, s')"
    using Cons.prems(5) by (auto simp: k split: prod.splits option.splits)
  note st = store [OF Cons.prems(1) cache_good_NumLeaves(1,2) [OF g] store_place [OF Cons.prems(2) g] 1(1)]
  have ag: "all_good hc lf m (tv s1)"
    using tile_stored_keeps(1) [of x1 y1 t1 "tv s" "tv s1" hc lf m] st tile_good_reread [OF g(1) ne] g(2) Cons.prems(2)
    by auto
  show ?case
  proof (cases "((x, y), t) \<in> set ts")
    case True
    then show ?thesis using Cons.IH [OF _ ag cg _ 1(2)] st Cons.prems(4) by auto
  next
    case False
    then have xy: "x = x1" "y = y1" "t = t1" using Cons.prems(6) by (auto simp: k)
    then have "(x, y) \<notin> fst ` set ts" using Cons.prems(4) by (auto simp: k)
    then have "tv s' x y ps = tv s1 x y ps" for ps using store_tiles_keeps [OF ne _ ag cg 1(2)] st by blast
    then show ?thesis using st cache_good_NumLeaves(3) [OF g] xy by simp
  qed
qed simp

lemma store_cache:
  assumes "\<And>l i. node_hash hc lf l i \<noteq> []" "sinv s" "cache_inv hc lf n m (new_nodes n m) tm" "n \<le> m"
    "holds_tree hc lf n (tv s)" "permutes iter" "store_tiles S s (iter tm) = (err, s')"
    "all_good hc lf m (tv s)"
  shows "sinv s' \<and> entry s' = entry s \<and> all_good hc lf m (tv s') \<and>
    (\<forall>n \<le> m. holds_tree hc lf n (tv s) \<longrightarrow> holds_tree hc lf n (tv s')) \<and>
    (err = None \<longrightarrow> holds_tree hc lf m (tv s'))"
proof -
  have d: "distinct (map fst tm)" using assms(3) by (simp add: cache_inv_def)
  have di: "distinct (map fst (iter tm))"
    using d permutesD(1) [OF assms(6), of tm] by (metis mset_eq_imp_distinct_iff mset_map)
  have cg: "cache_good hc lf m (iter tm)"
    using cache_final [OF assms(3)] d permutesD(2) [OF assms(6), of tm] by (auto simp: cache_good_def)
  note keeps = store_tiles_keeps [OF assms(1,2,8) cg assms(7)]
  have "holds_tree hc lf m (tv s')" if err: "err = None"
    unfolding holds_tree_def
  proof (intro allI impI)
    fix x y :: u64 assume w: "unat x < 8 \<and> 0 < tile_width (unat x) (unat y) m"
    let ?ps = "of_nat (tile_width (unat x) (unat y) m mod 256) :: u64"
    show "\<exists>t w. tv s' x y ?ps = Some t \<and> tile_width (unat x) (unat y) m \<le> w \<and>
        tile_good hc lf w (unat x) (unat y) t"
    proof (cases "map_of tm (x, y)")
      case (Some t)
      then have "((x, y), t) \<in> set (iter tm)" using permutesD(2) [OF assms(6), of tm] by (auto dest: map_of_SomeD)
      then have "tv s' x y ?ps = Some (reread t)"
        using store_tiles_stored [OF assms(1,2,8) cg di] assms(7) err by blast
      then show ?thesis using tile_good_reread [OF cache_final(1) [OF assms(3) Some] assms(1)] by blast
    next
      case None
      have eq: "tile_width (unat x) (unat y) m = tile_width (unat x) (unat y) n"
        by (rule cache_untouched [OF assms(3) None assms(4)])
      have "(x, y) \<notin> fst ` set (iter tm)"
        using None permutesD(2) [OF assms(6), of tm] by (auto simp: map_of_eq_None_iff)
      then have "tv s' x y ?ps = tv s x y ?ps" using keeps by blast
      then show ?thesis using assms(5) w eq unfolding holds_tree_def by auto
    qed
  qed
  then show ?thesis using keeps by blast
qed

end

text \<open>Where \<open>Integrate\<close> starts from: a log of \<open>m\<close> sequenced entries whose tiles hold the tree of
  the checkpoint and nothing foreign.\<close>

definition log_ready :: "('s \<Rightarrow> bool) \<Rightarrow> ('s \<Rightarrow> tile_view) \<Rightarrow> ('s \<Rightarrow> nat \<Rightarrow> bytes option) \<Rightarrow> hasher \<Rightarrow> nat \<Rightarrow> nat \<Rightarrow> 's \<Rightarrow> bool" where
  "log_ready sinv tv entry h n m s \<longleftrightarrow> sinv s \<and> log_length (entry s) m \<and> n \<le> m \<and>
     all_good (HashChildren h) (leaf_fn h (entry s)) m (tv s) \<and>
     holds_tree (HashChildren h) (leaf_fn h (entry s)) n (tv s)"

definition integrated ::
    "('s \<Rightarrow> bool) \<Rightarrow> ('s \<Rightarrow> tile_view) \<Rightarrow> ('s \<Rightarrow> nat \<Rightarrow> bytes option) \<Rightarrow> hasher \<Rightarrow> nat \<Rightarrow> nat \<Rightarrow> 's \<Rightarrow>
     Checkpoint option res \<Rightarrow> 's \<Rightarrow> bool" where
  "integrated sinv tv entry h n m s r s' \<longleftrightarrow> entry s' = entry s \<and>
     (\<forall>k \<le> m. log_ready sinv tv entry h k m s \<longrightarrow> log_ready sinv tv entry h k m s') \<and>
     (case r of
        Inl _ \<Rightarrow> True
      | Inr None \<Rightarrow> n = m \<and> s' = s
      | Inr (Some c) \<Rightarrow> n < m \<and> log_ready sinv tv entry h m m s' \<and>
          c = \<lparr>Origin = [], Size = of_nat m, Hash = mth (HashChildren h) (leaf_fn h (entry s)) 0 m\<rparr>)"

lemma integrated_same [simp]: "integrated sinv tv entry h n m s (Inl e) s"
  by (simp add: integrated_def)

lemma log_readyD:
  "log_ready sinv tv entry h n m s \<Longrightarrow> sinv s"
  "log_ready sinv tv entry h n m s \<Longrightarrow> log_length (entry s) m"
  "log_ready sinv tv entry h n m s \<Longrightarrow> n \<le> m"
  "log_ready sinv tv entry h n m s \<Longrightarrow> all_good (HashChildren h) (leaf_fn h (entry s)) m (tv s)"
  "log_ready sinv tv entry h n m s \<Longrightarrow> holds_tree (HashChildren h) (leaf_fn h (entry s)) n (tv s)"
  by (simp_all add: log_ready_def)


context log_storage
begin

lemma Integrate_sound:
  assumes "compact_range (RF (HashChildren h)) (HashChildren h) rep" "permutes iter" "nonempty_hashes h"
    "log_ready sinv tv entry h (unat (Size c)) m s" "Integrate RF iter S h c s = (r, s')"
  shows "integrated sinv tv entry h (unat (Size c)) m s r s'"
proof -
  let ?hc = "HashChildren h" and ?n = "unat (Size c)" and ?lf = "leaf_fn h (entry s)"
  let ?C = "RF ?hc" and ?gt = "\<lambda>l i. st_GetTile S s l i (Size c)"
  note ready = log_readyD [OF assms(4)]
  have m64: "m < 2 ^ 64" by (rule log_length_bound [OF ready(1,2)])
  have gok: "gt_ok ?hc ?lf ?n m ?gt" using gt_ok_storage [OF ready(1,4,5,3)] .
  obtain es k err where scan: "st_ScanSequenced S s (Size c) = (es, k, err)" by (metis prod_cases3)
  show ?thesis
  proof (cases "FetchRangeNodes ?C (Size c) ?gt")
    case (Inl e)
    then show ?thesis using assms(5) by (auto simp: Integrate_def Let_def)
  next
    case (Inr hs)
    have hs: "hs = id_hashes ?hc ?lf (RangeNodes ?C 0 (Size c))"
      by (rule compact_range.FetchRangeNodes_gt_ok [OF assms(1) gok Inr])
    obtain base where base: "NewRange ?C 0 (Size c) hs = Inr base" "rep base ?lf 0 ?n"
      using compact_range.new_range [OF assms(1), of 0 "Size c" ?lf] unfolding hs by auto
    obtain root0 where root0: "GetRootHash ?C base = Inr root0"
      using compact_range.range_root [OF assms(1) base(2) unat_lt_u64] by blast
    obtain nr vs1 where app: "append_all ?C (NewEmptyRange ?C (Size c)) (map (HashLeaf h \<circ> snd) es) = (nr, vs1)"
      by fastforce
    note entries = append_entries_all [of ?C h "NewEmptyRange ?C (Size c)" "\<lparr>tc_m = [], tc_getTile = ?gt\<rparr>" es,
        unfolded app Let_def prod.case]
    note rw = Integrate_def Let_def Inr base(1) root0 scan entries
    show ?thesis
    proof (cases "visit_all \<lparr>tc_m = [], tc_getTile = ?gt\<rparr> vs1")
      case (Inl e)
      then show ?thesis using assms(5) by (auto simp: rw)
    next
      case v1: (Inr tc1)
      show ?thesis
      proof (cases err)
        case (Some e)
        then show ?thesis using assms(5) v1 by (auto simp: rw)
      next
        case None
        note sc = scan_all [OF ready(1-3) scan [unfolded None]]
        show ?thesis
        proof (cases "k = 0")
          case True
          then have "of_nat (m - ?n) = (of_nat 0 :: u64)" using sc(2) by simp
          moreover have "m - ?n < 2 ^ 64" "(0 :: nat) < 2 ^ 64" using m64 by linarith simp
          ultimately have "m - ?n = 0" using of_nat_u64_eq_iff by blast
          then have "?n = m" using ready(3) by simp
          then show ?thesis using assms(5) v1 None True by (auto simp: rw integrated_def)
        next
          case False
          then have "?n < m" using sc(2) ready(3) by (cases "m = ?n") auto
          obtain aerr base' vs2 where ar: "AppendRange ?C base nr = (aerr, base', vs2)" by (metis prod_cases3)
          have iv: "aerr = None" "rep base' ?lf 0 m"
            "visits_nodes ?hc ?lf (vs1 @ vs2) (\<lambda>l i. complete 0 m l i \<and> \<not> complete 0 ?n l i)"
            using compact_range.integrate_visits [OF assms(1) base(2) ready(3) m64 _ ar, of vs1] app
            unfolding sc(1) by auto
          obtain vs3 where root: "GetRootHash ?C base' = Inr (mth ?hc ?lf 0 m, vs3)"
            using compact_range.root_rep [OF assms(1) iv(2) _ m64] \<open>?n < m\<close> by auto
          have "unat (End ?C base') = m" by (rule compact_range.end_rep [OF assms(1) iv(2) m64])
          then have End: "End ?C base' = of_nat m" by (metis of_nat_unat ucast_id)
          show ?thesis
          proof (cases "visit_all tc1 vs2")
            case (Inl e)
            then show ?thesis using assms(5) v1 None False ar by (auto simp: rw)
          next
            case v2: (Inr tc2)
            have "visit_all \<lparr>tc_m = [], tc_getTile = ?gt\<rparr> (vs1 @ vs2) = Inr tc2"
              using v1 v2 by (simp add: visit_all_append)
            then have ci: "cache_inv ?hc ?lf ?n m (new_nodes ?n m) (tc_m tc2)"
              using visit_all_nodes [OF iv(3) m64 gok] by blast
            obtain serr s1 where st: "store_tiles S s (iter (tc_m tc2)) = (serr, s1)" by fastforce
            note sc' = store_cache [OF node_hash_nonempty [OF assms(3)] ready(1) ci ready(3,5) assms(2) st ready(4)]
            have "s' = s1" "r = (case serr of Some e \<Rightarrow> Inl e
                | None \<Rightarrow> Inr (Some \<lparr>Origin = [], Size = of_nat m, Hash = mth ?hc ?lf 0 m\<rparr>))"
              using assms(5) v1 v2 None False ar iv(1) root End st by (auto simp: rw split: option.splits)
            then show ?thesis using sc' ready \<open>?n < m\<close>
              unfolding integrated_def log_ready_def by (cases serr) simp_all
          qed
        qed
      qed
    qed
  qed
qed

end


subsection \<open>Integration succeeds when nothing fails\<close>

locale healthy_storage = log_storage S sinv tv entry
  for S :: "'s Storage" and sinv :: "'s \<Rightarrow> bool" and tv :: "'s \<Rightarrow> tile_view"
    and entry :: "'s \<Rightarrow> nat \<Rightarrow> bytes option" +
  fixes healthy :: "'s \<Rightarrow> bool"
  assumes get_live: "\<lbrakk>sinv s; healthy s; st_GetTile S s x y n = Inl e\<rbrakk> \<Longrightarrow> e = ErrNotExist"
    and scan_live: "\<lbrakk>sinv s; healthy s; st_ScanSequenced S s b = (es, k, err)\<rbrakk> \<Longrightarrow> err = None"
    and store_live: "\<lbrakk>sinv s; healthy s; 0 < NumLeaves t; NumLeaves t \<le> 256; NumLeaves t = 256 \<or> tv s x y 0 = None;
        st_StoreTile S s x y t = (err, s')\<rbrakk> \<Longrightarrow>
      err = None \<and> healthy s'"

lemma visit_all_live:
  assumes "\<And>x y e. tc_getTile tc x y = Inl e \<Longrightarrow> e = ErrNotExist"
  shows "\<exists>tc'. visit_all tc vs = Inr tc' \<and> tc_getTile tc' = tc_getTile tc"
  using assms
proof (induction tc vs rule: visit_all.induct)
  case (2 tc nID h vs)
  obtain tlv ti nl ni where a: "NodeCoordsToTileAddress (fst nID) (snd nID) = (tlv, ti, nl, ni)"
    by (metis prod_cases4)
  have "\<exists>tc1. Visit tc nID h = Inr tc1 \<and> tc_getTile tc1 = tc_getTile tc"
    using 2(2) [of tlv ti]
    by (cases "map_of (tc_m tc) (tlv, ti)"; cases "tc_getTile tc tlv ti") (simp_all add: Visit_def a Let_def)
  then obtain tc1 where tc1: "Visit tc nID h = Inr tc1" "tc_getTile tc1 = tc_getTile tc" by blast
  then show ?case using 2(1) [OF tc1(1)] 2(2) by auto
qed simp

context healthy_storage
begin

lemma store_tiles_live:
  assumes ne: "\<And>l i. node_hash hc lf l i \<noteq> []"
  shows "\<lbrakk>sinv s; healthy s; all_good hc lf m (tv s); cache_good hc lf m ts; store_tiles S s ts = (err, s')\<rbrakk> \<Longrightarrow>
    err = None \<and> healthy s'"
proof (induction ts arbitrary: s)
  case (Cons k ts)
  obtain x y t where k: "k = ((x, y), t)" by (metis prod.collapse)
  have g: "tile_good hc lf (tile_width (unat x) (unat y) m) (unat x) (unat y) t" "0 < tile_width (unat x) (unat y) m"
    and cg: "cache_good hc lf m ts"
    using Cons.prems(4) by (auto simp: cache_good_def k)
  obtain e1 s1 where 1: "st_StoreTile S s x y t = (e1, s1)" by fastforce
  note pl = store_place [OF Cons.prems(3) g]
  have st: "e1 = None" "healthy s1" "sinv s1" "tile_stored x y t (tv s) (tv s1)"
    using store_live [OF Cons.prems(1,2) cache_good_NumLeaves(1,2) [OF g] pl 1]
      store [OF Cons.prems(1) cache_good_NumLeaves(1,2) [OF g] pl 1] by auto
  have "all_good hc lf m (tv s1)"
    using tile_stored_keeps(1) [OF st(4) tile_good_reread [OF g(1) ne] g(2) Cons.prems(3)] .
  then show ?case using Cons.IH [of s1] cg Cons.prems(5) 1 st by (simp add: k)
qed simp

lemma Integrate_live:
  assumes "compact_range (RF (HashChildren h)) (HashChildren h) rep" "permutes iter"
    "log_ready sinv tv entry h (unat (Size c)) m s" "healthy s" "Integrate RF iter S h c s = (r, s')"
    "nonempty_hashes h"
  shows "is_ok r \<and> healthy s'"
proof -
  let ?hc = "HashChildren h" and ?n = "unat (Size c)" and ?lf = "leaf_fn h (entry s)"
  let ?C = "RF ?hc" and ?gt = "\<lambda>l i. st_GetTile S s l i (Size c)"
  note ready = log_readyD [OF assms(3)]
  have m64: "m < 2 ^ 64" by (rule log_length_bound [OF ready(1,2)])
  have gok: "gt_ok ?hc ?lf ?n m ?gt" using gt_ok_storage [OF ready(1,4,5,3)] .
  have gl: "?gt x y = Inl e \<Longrightarrow> e = ErrNotExist" for x y e using get_live [OF ready(1) assms(4)] .
  have "tiles_hold ?hc ?lf ?n ?gt"
    using gt_ok_tiles_hold [OF gok unat_lt_u64] gl by fastforce
  from compact_range.stored_range [OF assms(1) this] obtain hs base where
    base: "FetchRangeNodes ?C (Size c) ?gt = Inr hs" "NewRange ?C 0 (Size c) hs = Inr base" "rep base ?lf 0 ?n"
    by blast
  obtain root0 where root0: "GetRootHash ?C base = Inr root0"
    using compact_range.range_root [OF assms(1) base(3) unat_lt_u64] by blast
  obtain es k where scan: "st_ScanSequenced S s (Size c) = (es, k, None)"
    using scan_live [OF ready(1) assms(4)] by (metis prod_cases3)
  obtain nr vs1 where app: "append_all ?C (NewEmptyRange ?C (Size c)) (map (HashLeaf h \<circ> snd) es) = (nr, vs1)"
    by fastforce
  obtain tc1 where v1: "visit_all \<lparr>tc_m = [], tc_getTile = ?gt\<rparr> vs1 = Inr tc1" "tc_getTile tc1 = ?gt"
    using visit_all_live [of "\<lparr>tc_m = [], tc_getTile = ?gt\<rparr>" vs1] gl by auto
  have entries: "append_entries ?C h (NewEmptyRange ?C (Size c)) \<lparr>tc_m = [], tc_getTile = ?gt\<rparr> es = Inr (nr, tc1)"
    unfolding append_entries_all app by (simp add: v1)
  note rw = Integrate_def Let_def base(1,2) root0 scan entries
  show ?thesis
  proof (cases "k = 0")
    case True
    then show ?thesis using assms(4,5) by (auto simp: rw)
  next
    case False
    note sc = scan_all [OF ready(1-3) scan]
    have "?n < m" using False sc(2) ready(3) by (cases "m = ?n") auto
    obtain aerr base' vs2 where ar: "AppendRange ?C base nr = (aerr, base', vs2)" by (metis prod_cases3)
    have iv: "aerr = None" "rep base' ?lf 0 m"
      "visits_nodes ?hc ?lf (vs1 @ vs2) (\<lambda>l i. complete 0 m l i \<and> \<not> complete 0 ?n l i)"
      using compact_range.integrate_visits [OF assms(1) base(3) ready(3) m64 _ ar, of vs1] app
      unfolding sc(1) by auto
    obtain vs3 where root: "GetRootHash ?C base' = Inr (mth ?hc ?lf 0 m, vs3)"
      using compact_range.root_rep [OF assms(1) iv(2) _ m64] \<open>?n < m\<close> by auto
    obtain tc2 where v2: "visit_all tc1 vs2 = Inr tc2"
      using visit_all_live [of tc1 vs2] gl v1(2) by auto
    have "visit_all \<lparr>tc_m = [], tc_getTile = ?gt\<rparr> (vs1 @ vs2) = Inr tc2"
      using v1 v2 by (simp add: visit_all_append)
    then have ci: "cache_inv ?hc ?lf ?n m (new_nodes ?n m) (tc_m tc2)"
      using visit_all_nodes [OF iv(3) m64 gok] by blast
    then have "distinct (map fst (tc_m tc2))" by (simp add: cache_inv_def)
    then have cg: "cache_good ?hc ?lf m (iter (tc_m tc2))"
      using cache_final [OF ci] permutesD(2) [OF assms(2), of "tc_m tc2"] by (auto simp: cache_good_def)
    obtain serr s1 where st: "store_tiles S s (iter (tc_m tc2)) = (serr, s1)" by fastforce
    then have "serr = None" "healthy s1" using store_tiles_live [OF node_hash_nonempty [OF assms(6)] ready(1) assms(4) ready(4) cg] by auto
    then show ?thesis using assms(5) v2 False ar iv(1) root st by (auto simp: rw)
  qed
qed

end

end
