(* ===== verification/Os.thy ===== *)
theory Os
  imports Filepath "HOL-Library.AList" "HOL-Library.List_Lexorder" "HOL-Library.Char_ord"
begin

section \<open>The file operations of the Go os package\<close>

text \<open>
  A file system is a finite association from path to directory, file or symbolic link.  A path is
  its cleaned list of components with a flag that says whether it is absolute; a relative path is
  looked up from the working directory, which does not change.  The root and the working directory
  exist.  A component that is not the last one must be a directory (directories reached through
  links are not modelled).  Reading follows links, up to the limit of 40 that Linux has; a relative
  link is looked up from the directory of the link.  Hard links are copies: no file that has a second
  name is ever written to.

  \<open>fault os op k\<close> says that the operation \<open>op\<close> on the path \<open>k\<close> fails with an I/O error; a write that
  fails leaves the file empty.
\<close>

datatype fnode = Dir | File bytes | Symlink string

type_synonym fkey = "bool \<times> string list"

datatype osop =
  OpStat | OpMkdir | OpRead | OpCreate | OpWrite | OpLink | OpRename | OpSymlink | OpRemove

record os =
  ents :: "(fkey \<times> fnode) list"
  fault :: "osop \<Rightarrow> fkey \<Rightarrow> bool"

definition key_of :: "string \<Rightarrow> fkey" where
  "key_of p = (is_rooted p, clean_comps p)"

definition ent :: "os \<Rightarrow> fkey \<Rightarrow> fnode option" where
  "ent f k = (if snd k = [] then Some Dir else map_of (ents f) k)"

definition put :: "fkey \<Rightarrow> fnode \<Rightarrow> os \<Rightarrow> os" where
  "put k n f = f\<lparr>ents := AList.update k n (ents f)\<rparr>"

definition del :: "fkey \<Rightarrow> os \<Rightarrow> os" where
  "del k f = f\<lparr>ents := AList.delete k (ents f)\<rparr>"

text \<open>Walking to the directory of a path: the first component that is not a directory decides.\<close>

definition dir_err :: "os \<Rightarrow> fkey \<Rightarrow> go_error option" where
  "dir_err f k =
     (case find (\<lambda>j. ent f (fst k, take j (snd k)) \<noteq> Some Dir) [0..<length (snd k)] of
        None \<Rightarrow> None
      | Some j \<Rightarrow> (case ent f (fst k, take j (snd k)) of None \<Rightarrow> Some ErrNotExist | Some _ \<Rightarrow> Some ErrIO))"

definition link_key :: "fkey \<Rightarrow> string \<Rightarrow> fkey" where
  "link_key k target =
     (if is_rooted target then key_of target
      else key_of (Join [path_of (fst k) (butlast (snd k)), target]))"

fun follow :: "nat \<Rightarrow> os \<Rightarrow> fkey \<Rightarrow> (fkey \<times> fnode) res" where
  "follow n f k =
     (case dir_err f k of
        Some e \<Rightarrow> Inl e
      | None \<Rightarrow>
          (case ent f k of
             None \<Rightarrow> Inl ErrNotExist
           | Some (Symlink t) \<Rightarrow> (case n of 0 \<Rightarrow> Inl ErrIO | Suc m \<Rightarrow> follow m f (link_key k t))
           | Some nd \<Rightarrow> Inr (k, nd)))"

definition os_ReadFile :: "os \<Rightarrow> string \<Rightarrow> bytes res" where
  "os_ReadFile f p =
     (if fault f OpRead (key_of p) then Inl ErrIO
      else case follow 40 f (key_of p) of
             Inl e \<Rightarrow> Inl e
           | Inr (_, File b) \<Rightarrow> Inr b
           | Inr _ \<Rightarrow> Inl ErrIO)"

text \<open>\<^verbatim>\<open>os.Stat\<close>, of which only \<^verbatim>\<open>IsDir\<close> is used.\<close>

definition os_Stat :: "os \<Rightarrow> string \<Rightarrow> bool res" where
  "os_Stat f p =
     (if fault f OpStat (key_of p) then Inl ErrIO
      else case follow 40 f (key_of p) of Inl e \<Rightarrow> Inl e | Inr (_, nd) \<Rightarrow> Inr (nd = Dir))"

fun mkdirs :: "os \<Rightarrow> fkey list \<Rightarrow> go_error option \<times> os" where
  "mkdirs f [] = (None, f)"
| "mkdirs f (k # ks) =
     (case ent f k of
        Some Dir \<Rightarrow> mkdirs f ks
      | Some _ \<Rightarrow> (Some ErrIO, f)
      | None \<Rightarrow> if fault f OpMkdir k then (Some ErrIO, f) else mkdirs (put k Dir f) ks)"

definition prefixes_of :: "fkey \<Rightarrow> fkey list" where
  "prefixes_of k = map (\<lambda>j. (fst k, take j (snd k))) [1..<Suc (length (snd k))]"

definition os_MkdirAll :: "os \<Rightarrow> string \<Rightarrow> go_error option \<times> os" where
  "os_MkdirAll f p = mkdirs f (prefixes_of (key_of p))"

text \<open>\<^verbatim>\<open>os.OpenFile\<close> with \<^verbatim>\<open>O_CREATE|O_EXCL\<close>, and a write to the new file.\<close>

definition os_CreateExcl :: "os \<Rightarrow> string \<Rightarrow> go_error option \<times> os" where
  "os_CreateExcl f p =
     (let k = key_of p in
      case dir_err f k of
        Some e \<Rightarrow> (Some e, f)
      | None \<Rightarrow>
          if ent f k \<noteq> None then (Some ErrExist, f)
          else if fault f OpCreate k then (Some ErrIO, f)
          else (None, put k (File []) f))"

definition os_Write :: "os \<Rightarrow> string \<Rightarrow> bytes \<Rightarrow> go_error option \<times> os" where
  "os_Write f p d = (if fault f OpWrite (key_of p) then (Some ErrIO, f) else (None, put (key_of p) (File d) f))"

text \<open>\<^verbatim>\<open>os.WriteFile\<close> follows a link to the file it truncates, also to one that does not exist.\<close>

fun write_key :: "nat \<Rightarrow> os \<Rightarrow> fkey \<Rightarrow> fkey res" where
  "write_key n f k =
     (case dir_err f k of
        Some e \<Rightarrow> Inl e
      | None \<Rightarrow>
          (case ent f k of
             Some Dir \<Rightarrow> Inl ErrIO
           | Some (Symlink t) \<Rightarrow> (case n of 0 \<Rightarrow> Inl ErrIO | Suc m \<Rightarrow> write_key m f (link_key k t))
           | _ \<Rightarrow> Inr k))"

definition os_WriteFile :: "os \<Rightarrow> string \<Rightarrow> bytes \<Rightarrow> go_error option \<times> os" where
  "os_WriteFile f p d =
     (case write_key 40 f (key_of p) of
        Inl e \<Rightarrow> (Some e, f)
      | Inr k \<Rightarrow>
          if fault f OpCreate k then (Some ErrIO, f)
          else if fault f OpWrite k then (Some ErrIO, put k (File []) f)
          else (None, put k (File d) f))"

definition os_Link :: "os \<Rightarrow> string \<Rightarrow> string \<Rightarrow> go_error option \<times> os" where
  "os_Link f old new =
     (case dir_err f (key_of old) of
        Some e \<Rightarrow> (Some e, f)
      | None \<Rightarrow>
          (case ent f (key_of old) of
             None \<Rightarrow> (Some ErrNotExist, f)
           | Some nd \<Rightarrow>
               (case dir_err f (key_of new) of
                  Some e \<Rightarrow> (Some e, f)
                | None \<Rightarrow>
                    if ent f (key_of new) \<noteq> None then (Some ErrExist, f)
                    else if nd = Dir \<or> fault f OpLink (key_of new) then (Some ErrIO, f)
                    else (None, put (key_of new) nd f))))"

text \<open>Only files and links are ever renamed.  Go reports a directory in the way as an existing file.\<close>

definition os_Rename :: "os \<Rightarrow> string \<Rightarrow> string \<Rightarrow> go_error option \<times> os" where
  "os_Rename f old new =
     (if dir_err f (key_of new) = None \<and> ent f (key_of new) = Some Dir then (Some ErrExist, f)
      else case dir_err f (key_of old) of
        Some e \<Rightarrow> (Some e, f)
      | None \<Rightarrow>
          (case ent f (key_of old) of
             None \<Rightarrow> (Some ErrNotExist, f)
           | Some nd \<Rightarrow>
               (case dir_err f (key_of new) of
                  Some e \<Rightarrow> (Some e, f)
                | None \<Rightarrow>
                    if nd = Dir \<or> fault f OpRename (key_of new) then (Some ErrIO, f)
                    else if key_of old = key_of new then (None, f)
                    else (None, put (key_of new) nd (del (key_of old) f)))))"

definition os_Symlink :: "os \<Rightarrow> string \<Rightarrow> string \<Rightarrow> go_error option \<times> os" where
  "os_Symlink f target new =
     (case dir_err f (key_of new) of
        Some e \<Rightarrow> (Some e, f)
      | None \<Rightarrow>
          if ent f (key_of new) \<noteq> None then (Some ErrExist, f)
          else if fault f OpSymlink (key_of new) then (Some ErrIO, f)
          else (None, put (key_of new) (Symlink target) f))"

text \<open>\<^verbatim>\<open>os.Remove\<close> of a file or link; its callers ignore the error.\<close>

definition os_Remove :: "os \<Rightarrow> string \<Rightarrow> os" where
  "os_Remove f p =
     (if dir_err f (key_of p) = None \<and> ent f (key_of p) \<noteq> Some Dir \<and> \<not> fault f OpRemove (key_of p)
      then del (key_of p) f else f)"

text \<open>\<^verbatim>\<open>filepath.Glob\<close> of a path that ends in \<open>.*\<close> and has no other metacharacter: the names
  in the directory that start with the name and a dot, in order.  I/O errors while reading the
  directory are ignored by \<^verbatim>\<open>Glob\<close>, and a directory that is missing matches nothing.\<close>

definition glob_dot_star :: "os \<Rightarrow> string \<Rightarrow> string list" where
  "glob_dot_star f p =
     (let k = key_of p; dir = butlast (snd k); base = last (snd k) in
      sort (map (\<lambda>(k', nd). path_of (fst k') (snd k'))
        (filter (\<lambda>(k', nd). fst k' = fst k \<and> snd k' \<noteq> [] \<and> butlast (snd k') = dir \<and>
           has_prefix (last (snd k')) (base @ ''.'')) (AList.clearjunk (ents f)))))"

declare follow.simps [simp del] write_key.simps [simp del]

subsection \<open>Looking things up after a change\<close>

lemma ent_put [simp]: "ent (put k n f) k' = (if k' = k \<and> snd k \<noteq> [] then Some n else ent f k')"
  by (auto simp: ent_def put_def update_conv')

lemma ent_del [simp]: "ent (del k f) k' = (if k' = k \<and> snd k \<noteq> [] then None else ent f k')"
  by (auto simp: ent_def del_def delete_conv')

lemma fault_put [simp]: "fault (put k n f) = fault f" "fault (del k f) = fault f"
  by (simp_all add: put_def del_def)

lemma ent_root [simp]: "ent f (r, []) = Some Dir"
  by (simp add: ent_def)

text \<open>The directories on the way to a path.\<close>

definition dirs_ok :: "os \<Rightarrow> fkey \<Rightarrow> bool" where
  "dirs_ok f k \<longleftrightarrow> (\<forall>j < length (snd k). ent f (fst k, take j (snd k)) = Some Dir)"

lemma dir_err_None: "dir_err f k = None \<longleftrightarrow> dirs_ok f k"
proof -
  have "dir_err f k = None \<longleftrightarrow>
      find (\<lambda>j. ent f (fst k, take j (snd k)) \<noteq> Some Dir) [0..<length (snd k)] = None"
    by (auto simp: dir_err_def split: option.splits)
  then show ?thesis by (simp add: find_None_iff dirs_ok_def)
qed

end
