(* ===== verification/FsStorage.thy ===== *)
theory FsStorage
  imports IntegrateProofs Os
begin

section \<open>serverless/internal/storage/fs/fs.go\<close>

text \<open>
  The file-system storage of a serverless log.  The state is the storage object and the file system;
  every function returns the file system it leaves behind, also on its error paths.
\<close>

record fsStorage =
  rootDir :: string
  nextSeq :: u64

text \<open>A temporary file is created first and then written: an error of the write leaves it there.\<close>

definition createExclusive :: "os \<Rightarrow> string \<Rightarrow> bytes \<Rightarrow> go_error option \<times> os" where
  "createExclusive f p d =
     (case os_CreateExcl f p of
        (Some e, f') \<Rightarrow> (Some (wrapf ''unable to create temporary file'' e), f')
      | (None, f') \<Rightarrow>
          (case os_Write f' p d of
             (Some e, f'') \<Rightarrow> (Some (wrapf ''unable to write leafdata to temporary file'' e), f'')
           | (None, f'') \<Rightarrow> (None, f'')))"

definition Load :: "os \<Rightarrow> string \<Rightarrow> u64 \<Rightarrow> fsStorage res" where
  "Load f root cpSize =
     (case os_Stat f root of
        Inl e \<Rightarrow> Inl (wrapf ''failed to stat'' e)
      | Inr isDir \<Rightarrow>
          if \<not> isDir then Inl (Errorf ''not a directory'')
          else Inr \<lparr>rootDir = root, nextSeq = cpSize\<rparr>)"

fun create_dirs :: "os \<Rightarrow> string \<Rightarrow> string list \<Rightarrow> go_error option \<times> os" where
  "create_dirs f root [] = (None, f)"
| "create_dirs f root (sfx # sfxs) =
     (case os_MkdirAll f (Join [root, sfx]) of
        (Some e, f') \<Rightarrow> (Some (wrapf ''failed to create directory'' e), f')
      | (None, f') \<Rightarrow> create_dirs f' root sfxs)"

definition Create :: "os \<Rightarrow> string \<Rightarrow> fsStorage res \<times> os" where
  "Create f root =
     (case os_Stat f root of
        Inr _ \<Rightarrow> (Inl (wrapf root ErrExist), f)
      | Inl _ \<Rightarrow>
          (case os_MkdirAll f root of
             (Some e, f') \<Rightarrow> (Inl (wrapf ''failed to create directory'' e), f')
           | (None, f') \<Rightarrow>
               (case create_dirs f' root [''leaves/pending'', ''seq'', ''tile''] of
                  (Some e, f'') \<Rightarrow> (Inl e, f'')
                | (None, f'') \<Rightarrow> (Inr \<lparr>rootDir = root, nextSeq = 0\<rparr>, f''))))"

subsection \<open>Sequencing\<close>

text \<open>The end of an iteration that found a free number: the file from leaf hash to number.  The
  deferred removal of \<^verbatim>\<open>leafTmp\<close> runs when the function returns.\<close>

definition write_leaf_index :: "os \<Rightarrow> string \<Rightarrow> u64 \<Rightarrow> (u64 \<times> go_error option) \<times> os" where
  "write_leaf_index f leafFQ seq =
     (let leafTmp = leafFQ @ ''.tmp'' in
      case createExclusive f leafTmp (format_uint 16 (unat seq)) of
        (Some e, f') \<Rightarrow> ((0, Some (wrapf ''couldn't create temporary leafhash file'' e)), f')
      | (None, f') \<Rightarrow>
          (case os_Link f' leafTmp leafFQ of
             (Some e, f'') \<Rightarrow>
               if \<not> errors_Is e ErrExist
               then ((0, Some (wrapf ''couldn't link temporary leafhash file in place'' e)), os_Remove f'' leafTmp)
               else ((seq, None), os_Remove f'' leafTmp)
           | (None, f'') \<Rightarrow> ((seq, None), os_Remove f'' leafTmp)))"

text \<open>The loop: \<open>None\<close> when it does not end, which happens only if every number is in use.\<close>

partial_function (option) sequence_loop ::
    "fsStorage \<Rightarrow> os \<Rightarrow> string \<Rightarrow> string \<Rightarrow> ((u64 \<times> go_error option) \<times> fsStorage \<times> os) option" where
  "sequence_loop st f tmp leafFQ =
     (let seq = nextSeq st; (seqDir, seqFile) = SeqPath (rootDir st) seq in
      case os_MkdirAll f seqDir of
        (Some e, f') \<Rightarrow> Some ((0, Some (wrapf ''failed to make seq directory structure'' e)), st, f')
      | (None, f') \<Rightarrow>
          (let seqPath = Join [seqDir, seqFile] in
           case os_Link f' tmp seqPath of
             (Some e, f'') \<Rightarrow>
               if errors_Is e ErrExist then sequence_loop (st\<lparr>nextSeq := seq + 1\<rparr>) f'' tmp leafFQ
               else Some ((0, Some (wrapf ''failed to link seq file'' e)), st, f'')
           | (None, f'') \<Rightarrow>
               (let (r, f3) = write_leaf_index f'' leafFQ seq in Some (r, st, f3))))"

definition Sequence ::
    "fsStorage \<Rightarrow> os \<Rightarrow> bytes \<Rightarrow> bytes \<Rightarrow> ((u64 \<times> go_error option) \<times> fsStorage \<times> os) option" where
  "Sequence st f leafhash leaf =
     (case LeafPath (rootDir st) leafhash of
        Inl e \<Rightarrow> Some ((0, Some e), st, f)
      | Inr (leafDir, leafFile) \<Rightarrow>
          (case os_MkdirAll f leafDir of
             (Some e, f1) \<Rightarrow> Some ((0, Some (wrapf ''failed to make leaf directory structure'' e)), st, f1)
           | (None, f1) \<Rightarrow>
               (let leafFQ = Join [leafDir, leafFile];
                    dupe = (\<lambda>seqString. case parse_uint seqString 16 64 of
                        Inl e \<Rightarrow> Some ((0, Some e), st, f1)
                      | Inr origSeq \<Rightarrow> Some ((of_nat origSeq, Some ErrDupeLeaf), st, f1))
                in case os_ReadFile f1 leafFQ of
                     Inr seqString \<Rightarrow> dupe seqString
                   | Inl err \<Rightarrow>
                       if \<not> os_IsNotExist err then dupe []
                       else
                         (let tmp = Join [rootDir st, ''leaves/pending/'' @ hex_bytes leafhash] in
                          case createExclusive f1 tmp leaf of
                            (Some e, f2) \<Rightarrow> Some ((0, Some (wrapf ''unable to write temporary file'' e)), st, f2)
                          | (None, f2) \<Rightarrow>
                              (case sequence_loop st f2 tmp leafFQ of
                                 None \<Rightarrow> None
                               | Some (r, st', f3) \<Rightarrow> Some (r, st', os_Remove f3 tmp))))))"

text \<open>The entries passed to the callback, and the count and error returned, as long as the callback
  returns nil; \<open>None\<close> when the loop does not end.\<close>

partial_function (option) scan_loop ::
    "string \<Rightarrow> os \<Rightarrow> u64 \<Rightarrow> u64 \<Rightarrow> (u64 \<times> bytes) list \<Rightarrow> ((u64 \<times> bytes) list \<times> u64 \<times> go_error option) option" where
  "scan_loop root f begn endd calls =
     (case os_ReadFile f (JoinPair (SeqPath root endd)) of
        Inl err \<Rightarrow>
          if errors_Is err ErrNotExist then Some (calls, endd - begn, None)
          else Some (calls, endd - begn, Some (wrapf ''failed to read leafdata at index'' err))
      | Inr entry \<Rightarrow> scan_loop root f begn (endd + 1) (calls @ [(endd, entry)]))"

definition ScanSequenced ::
    "fsStorage \<Rightarrow> os \<Rightarrow> u64 \<Rightarrow> ((u64 \<times> bytes) list \<times> u64 \<times> go_error option) option" where
  "ScanSequenced st f begn = scan_loop (rootDir st) f begn begn []"

subsection \<open>Tiles and checkpoints\<close>

definition GetTile :: "fsStorage \<Rightarrow> os \<Rightarrow> u64 \<Rightarrow> u64 \<Rightarrow> u64 \<Rightarrow> Tile res" where
  "GetTile st f level index lsize =
     (let tileSize = PartialTileSize level index lsize;
          p = JoinPair (TilePath (rootDir st) level index tileSize)
      in case os_ReadFile f p of
           Inl err \<Rightarrow> if \<not> errors_Is err ErrNotExist then Inl (wrapf ''failed to read tile'' err) else Inl err
         | Inr t \<Rightarrow>
             (case UnmarshalText t of
                Inl err \<Rightarrow> Inl (wrapf ''failed to parse tile'' err)
              | Inr tile \<Rightarrow> Inr tile))"

fun relink :: "os \<Rightarrow> string \<Rightarrow> string list \<Rightarrow> go_error option \<times> os" where
  "relink f tPath [] = (None, f)"
| "relink f tPath (p # ps) =
     (let tmp = tPath @ ''.link'' in
      case os_Symlink f tPath tmp of
        (Some e, f') \<Rightarrow> (Some (wrapf ''failed to create temp link to full tile'' e), f')
      | (None, f') \<Rightarrow>
          (case os_Rename f' tmp p of
             (Some e, f'') \<Rightarrow> (Some (wrapf ''failed to rename temp link over partial tile'' e), f'')
           | (None, f'') \<Rightarrow> relink f'' tPath ps))"

definition StoreTile :: "fsStorage \<Rightarrow> os \<Rightarrow> u64 \<Rightarrow> u64 \<Rightarrow> Tile \<Rightarrow> go_error option \<times> os" where
  "StoreTile st f level index tile =
     (let tileSize = NumLeaves tile in
      if tileSize = 0 \<or> 256 < tileSize then (Some (Errorf ''tileSize must be > 0 and <= 256''), f)
      else
        (let t = MarshalText tile;
             (tDir, tFile) = TilePath (rootDir st) level index (tileSize mod 256);
             tPath = Join [tDir, tFile];
             temp = tPath @ ''.temp''
         in case os_MkdirAll f tDir of
              (Some e, f1) \<Rightarrow> (Some (wrapf ''failed to create directory'' e), f1)
            | (None, f1) \<Rightarrow>
                (case os_WriteFile f1 temp t of
                   (Some e, f2) \<Rightarrow> (Some (wrapf ''failed to write temporary tile file'' e), f2)
                 | (None, f2) \<Rightarrow>
                     (case os_Rename f2 temp tPath of
                        (Some e, f3) \<Rightarrow> (Some (wrapf ''failed to rename temporary tile file'' e), f3)
                      | (None, f3) \<Rightarrow>
                          if tileSize = 256 then relink f3 tPath (glob_dot_star f3 tPath) else (None, f3)))))"

definition WriteCheckpoint :: "fsStorage \<Rightarrow> os \<Rightarrow> bytes \<Rightarrow> go_error option \<times> os" where
  "WriteCheckpoint st f newCPRaw =
     (let oPath = Join [rootDir st, CheckpointPath];
          tmp = oPath @ ''.tmp''
      in case createExclusive f tmp newCPRaw of
           (Some e, f') \<Rightarrow> (Some (wrapf ''failed to create temporary checkpoint file'' e), f')
         | (None, f') \<Rightarrow> os_Rename f' tmp oPath)"

definition ReadCheckpoint :: "os \<Rightarrow> string \<Rightarrow> bytes res" where
  "ReadCheckpoint f root = os_ReadFile f (Join [root, CheckpointPath])"

end
