(* ===== verification/FsKeys.thy ===== *)
theory FsKeys
  imports FsStorage
begin

section \<open>The names in a log's directory\<close>

text \<open>
  Keys of the files of a log below its root directory, and the fact that different things have
  different keys: sequenced entries, full tiles, and everything named after a full tile with a dot and
  a suffix (partial tiles, temporary files and temporary links).
\<close>

definition rk :: "string \<Rightarrow> string list \<Rightarrow> fkey" where
  "rk root cs = (is_rooted root, root_comps root @ cs)"

definition tile_dir :: "u64 \<Rightarrow> u64 \<Rightarrow> string list" where
  "tile_dir x y = [''tile'', sprintf_0x 2 (unat x), sprintf_0x 4 (unat (drop_bit 24 y)),
     sprintf_0x 2 (byte_at 16 y), sprintf_0x 2 (byte_at 8 y)]"

definition tile_base :: "u64 \<Rightarrow> string" where
  "tile_base y = sprintf_0x 2 (byte_at 0 y)"

definition full_key :: "string \<Rightarrow> u64 \<Rightarrow> u64 \<Rightarrow> fkey" where
  "full_key root x y = rk root (tile_dir x y @ [tile_base y])"

definition full_path :: "string \<Rightarrow> u64 \<Rightarrow> u64 \<Rightarrow> string" where
  "full_path root x y = path_of (is_rooted root) (root_comps root @ tile_dir x y @ [tile_base y])"

definition sfx_key :: "string \<Rightarrow> u64 \<Rightarrow> u64 \<Rightarrow> string \<Rightarrow> fkey" where
  "sfx_key root x y sfx = rk root (tile_dir x y @ [tile_base y @ ''.'' @ sfx])"

definition tile_key :: "string \<Rightarrow> u64 \<Rightarrow> u64 \<Rightarrow> u64 \<Rightarrow> fkey" where
  "tile_key root x y ps =
     (if ps = 0 then full_key root x y else sfx_key root x y (sprintf_0x 2 (unat ps)))"

definition seq_key :: "string \<Rightarrow> u64 \<Rightarrow> fkey" where
  "seq_key root q = rk root (seq_comps q)"

lemma key_of_path: "cleaned r cs \<Longrightarrow> key_of (path_of r cs) = (r, cs)"
  by (simp add: key_of_def is_rooted_path_of clean_comps_path_of)

lemma key_of_rk: "\<forall>c \<in> set cs. normal_comp c \<Longrightarrow>
    key_of (path_of (is_rooted root) (root_comps root @ cs)) = rk root cs"
  by (simp add: key_of_path cleaned_append_normal rk_def)

lemma join_with_snoc: "join_with sep (cs @ [c]) @ s = join_with sep (cs @ [c @ s])"
  by (induction cs) (auto simp: join_with_Cons)

lemma path_of_snoc: "c \<noteq> [] \<Longrightarrow> path_of r (cs @ [c]) @ s = path_of r (cs @ [c @ s])"
proof -
  assume "c \<noteq> []"
  then have "join_with ''/'' (cs @ [c]) \<noteq> []" by (cases "cs = []") (auto simp: join_with_append)
  moreover have e: "join_with ''/'' (cs @ [c @ s]) = join_with ''/'' (cs @ [c]) @ s" by (simp add: join_with_snoc)
  ultimately show ?thesis by (simp add: path_of_def Let_def)
qed

lemma tile_comps_dir:
  "tile_comps x y ps = tile_dir x y @ [tile_base y @ (if 0 < ps then ''.'' @ sprintf_0x 2 (unat ps) else [])]"
  by (simp add: tile_comps_def tile_dir_def tile_base_def)

lemma normal_tile_dir: "\<forall>c \<in> set (tile_dir x y). normal_comp c"
  by (simp add: tile_dir_def)

lemma normal_tile_base [simp]: "normal_comp (tile_base y)" "tile_base y \<noteq> []"
  by (simp_all add: tile_base_def)

lemma normal_base_suffix: "slash \<notin> set s \<Longrightarrow> normal_comp (tile_base y @ s)"
proof -
  assume s: "slash \<notin> set s"
  have d: "char_digit c \<noteq> None" if "c \<in> set (tile_base y)" for c
    using that sprintf_0x_digits [of c] by (simp add: tile_base_def)
  obtain a b where ab: "tile_base y = [a, b]"
    by (simp add: tile_base_def sprintf_byte)
  then have "a \<noteq> CHR ''.''" "slash \<notin> set (tile_base y)" using d [of a] d [of slash] by auto
  then show ?thesis using s ab by (auto simp: normal_comp_def)
qed

lemma no_slash_hex [simp]: "slash \<notin> set (sprintf_0x w n)"
  using sprintf_0x_digits [of slash w n] by auto

lemma no_dot_hex [simp]: "CHR ''.'' \<notin> set (sprintf_0x w n)"
  using sprintf_0x_digits [of "CHR ''.''" w n] by auto

lemma key_of_tile: "key_of (JoinPair (TilePath root x y ps)) = tile_key root x y ps"
proof -
  have "\<forall>c \<in> set (tile_comps x y ps). normal_comp c" using normal_tile_comps by blast
  then show ?thesis
    by (simp add: TilePath_comps key_of_rk tile_comps_dir tile_key_def full_key_def sfx_key_def word_gt_0)
qed

lemma key_of_seq: "key_of (JoinPair (SeqPath root q)) = seq_key root q"
  using normal_seq_comps by (simp add: SeqPath_comps key_of_rk seq_key_def)

lemma key_of_full: "key_of (full_path root x y) = full_key root x y"
  using normal_tile_dir by (simp add: full_path_def full_key_def key_of_rk)

lemma full_path_suffix:
  "slash \<notin> set s \<Longrightarrow> key_of (full_path root x y @ ''.'' @ s) = sfx_key root x y s"
proof -
  assume s: "slash \<notin> set s"
  have "full_path root x y @ ''.'' @ s =
      path_of (is_rooted root) (root_comps root @ tile_dir x y @ [tile_base y @ ''.'' @ s])"
    using path_of_snoc [of "tile_base y" "is_rooted root" "root_comps root @ tile_dir x y" "''.'' @ s"]
    by (simp add: full_path_def)
  moreover have "normal_comp (tile_base y @ ''.'' @ s)" using s by (intro normal_base_suffix) simp
  ultimately show ?thesis using normal_tile_dir [of x y] by (simp add: key_of_rk sfx_key_def)
qed

text \<open>The path a tile is stored under, and its temporary file.\<close>

lemma tile_path_full: "JoinPair (TilePath root x y 0) = full_path root x y"
  by (simp add: TilePath_comps tile_comps_dir full_path_def)

lemma key_of_temp:
  "key_of (JoinPair (TilePath root x y ps) @ ''.temp'') =
     sfx_key root x y (if ps = 0 then ''temp'' else sprintf_0x 2 (unat ps) @ ''.temp'')"
proof (cases "ps = 0")
  case True
  then show ?thesis using full_path_suffix [of "''temp''" root x y] by (simp add: tile_path_full)
next
  case False
  have "JoinPair (TilePath root x y ps) = full_path root x y @ ''.'' @ sprintf_0x 2 (unat ps)"
    using False path_of_snoc [of "tile_base y" "is_rooted root" "root_comps root @ tile_dir x y" "''.'' @ sprintf_0x 2 (unat ps)"]
    by (simp add: TilePath_comps tile_comps_dir full_path_def word_gt_0)
  then show ?thesis using False full_path_suffix [of "sprintf_0x 2 (unat ps) @ ''.temp''" root x y] by simp
qed

subsection \<open>Different things have different keys\<close>

lemma rk_eq [simp]: "rk root cs = rk root cs' \<longleftrightarrow> cs = cs'"
  by (simp add: rk_def)

lemma tile_dir_base: "tile_dir x y = tile_dir x' y' \<and> tile_base y = tile_base y' \<longleftrightarrow> x = x' \<and> y = y'"
proof
  assume e: "tile_dir x y = tile_dir x' y' \<and> tile_base y = tile_base y'"
  then have "tile_comps x y 0 = tile_comps x' y' 0" by (simp add: tile_comps_dir)
  then show "x = x' \<and> y = y'" by (simp add: tile_comps_inj)
qed simp

lemma take_base: "takeWhile (\<lambda>c. c \<noteq> CHR ''.'') (tile_base y @ CHR ''.'' # s) = tile_base y"
  "takeWhile (\<lambda>c. c \<noteq> CHR ''.'') (tile_base y) = tile_base y"
proof -
  have "\<And>c. c \<in> set (tile_base y) \<Longrightarrow> c \<noteq> CHR ''.''" using no_dot_hex by (fastforce simp: tile_base_def)
  then show "takeWhile (\<lambda>c. c \<noteq> CHR ''.'') (tile_base y @ CHR ''.'' # s) = tile_base y"
    "takeWhile (\<lambda>c. c \<noteq> CHR ''.'') (tile_base y) = tile_base y"
    by (simp_all add: takeWhile_append2)
qed

lemma sfx_key_eq [simp]: "sfx_key root x y s = sfx_key root x' y' s' \<longleftrightarrow> x = x' \<and> y = y' \<and> s = s'"
proof
  assume "sfx_key root x y s = sfx_key root x' y' s'"
  then have e: "tile_dir x y = tile_dir x' y'" "tile_base y @ CHR ''.'' # s = tile_base y' @ CHR ''.'' # s'"
    by (simp_all add: sfx_key_def)
  then have "tile_base y = tile_base y'" using take_base by metis
  then show "x = x' \<and> y = y' \<and> s = s'" using e tile_dir_base by auto
qed simp

lemma full_key_eq [simp]: "full_key root x y = full_key root x' y' \<longleftrightarrow> x = x' \<and> y = y'"
  using tile_dir_base [of x y x' y'] by (auto simp: full_key_def)

lemma full_sfx [simp]: "full_key root x y \<noteq> sfx_key root x' y' s" "sfx_key root x' y' s \<noteq> full_key root x y"
proof -
  have "CHR ''.'' \<notin> set (tile_base y)" by (simp add: tile_base_def)
  then have "tile_base y \<noteq> tile_base y' @ CHR ''.'' # s" by (metis in_set_conv_decomp)
  then show "full_key root x y \<noteq> sfx_key root x' y' s" "sfx_key root x' y' s \<noteq> full_key root x y"
    by (auto simp: full_key_def sfx_key_def)
qed

lemma seq_tile [simp]:
  "seq_key root q \<noteq> full_key root x y" "full_key root x y \<noteq> seq_key root q"
  "seq_key root q \<noteq> sfx_key root x y s" "sfx_key root x y s \<noteq> seq_key root q"
  by (simp_all add: seq_key_def full_key_def sfx_key_def seq_comps_def tile_dir_def)

lemma tile_key_eq [simp]: "tile_key root x y ps = tile_key root x' y' ps' \<longleftrightarrow> x = x' \<and> y = y' \<and> ps = ps'"
  by (auto simp: tile_key_def word_unat_eq_iff)

lemma tile_key_sfx: "tile_key root x y ps = sfx_key root x' y' s \<longleftrightarrow>
    x = x' \<and> y = y' \<and> ps \<noteq> 0 \<and> s = sprintf_0x 2 (unat ps)"
  by (auto simp: tile_key_def)

lemma tile_key_full: "tile_key root x y ps = full_key root x' y' \<longleftrightarrow> x = x' \<and> y = y' \<and> ps = 0"
  by (auto simp: tile_key_def)

text \<open>Directories the storage makes are shorter than the paths of its files.\<close>

lemma prefix_keys:
  assumes "k \<in> set (prefixes_of (rk root cs))" "length cs < length ds"
  shows "k \<noteq> rk root ds"
proof -
  have "length (snd k) \<le> length (root_comps root) + length cs"
    using assms(1) by (auto simp: prefixes_of_def rk_def)
  then show ?thesis using assms(2) by (auto simp: rk_def)
qed

text \<open>The name of the checkpoint is none of them.\<close>

definition cp_key :: "string \<Rightarrow> fkey" where
  "cp_key root = rk root [CheckpointPath]"

lemma cp_key_other [simp]:
  "cp_key root \<noteq> sfx_key root x y s" "cp_key root \<noteq> full_key root x y" "cp_key root \<noteq> seq_key root q" "cp_key root \<noteq> tile_key root x y ps"
  by (simp_all add: cp_key_def seq_key_def tile_key_def full_key_def sfx_key_def seq_comps_def tile_dir_def)

text \<open>Names below the root but outside the tile directory.\<close>

definition off_tile :: "string \<Rightarrow> fkey \<Rightarrow> bool" where
  "off_tile root k \<longleftrightarrow> (\<exists>cs. k = rk root cs \<and> cs \<noteq> [] \<and> hd cs \<noteq> ''tile'')"

lemma off_tile_cp [simp]: "off_tile root (cp_key root)"
  unfolding off_tile_def cp_key_def by (intro exI [of _ "[CheckpointPath]"]) (simp add: CheckpointPath_def)

lemma off_tile_other [simp]:
  assumes "off_tile root k"
  shows "k \<noteq> sfx_key root x y s" "k \<noteq> full_key root x y" "k \<noteq> tile_key root x y ps"
  using assms by (auto simp: off_tile_def tile_key_def full_key_def sfx_key_def tile_dir_def)

lemma off_tile_prefix:
  assumes "off_tile root k"
  shows "k \<notin> set (prefixes_of (rk root (tile_dir x y)))"
proof
  assume "k \<in> set (prefixes_of (rk root (tile_dir x y)))"
  then obtain j where j: "snd k = take j (root_comps root @ tile_dir x y)"
    unfolding prefixes_of_def rk_def set_map snd_conv by (elim imageE) (simp only: snd_conv)
  obtain cs where cs: "k = rk root cs" "cs \<noteq> []" "hd cs \<noteq> ''tile''" using assms by (auto simp: off_tile_def)
  then have e: "root_comps root @ cs = take j (root_comps root) @ take (j - length (root_comps root)) (tile_dir x y)"
    using j by (simp add: rk_def)
  have "length (root_comps root) < length (root_comps root @ cs)" using cs(2) by simp
  then have "length (root_comps root) < j" unfolding e by (auto simp: not_less split: if_splits)
  then have "cs = take (j - length (root_comps root)) (tile_dir x y)" using e by simp
  then show False using cs(2,3) by (auto simp: tile_dir_def take_Cons split: nat.splits)
qed

lemma cp_key_prefix:
  assumes "k \<in> set (prefixes_of (rk root cs))" "take 1 cs \<noteq> [CheckpointPath]"
  shows "k \<noteq> cp_key root"
proof
  assume k: "k = cp_key root"
  obtain j where j: "snd k = take j (root_comps root @ cs)"
    using assms(1) unfolding prefixes_of_def rk_def set_map snd_conv by (elim imageE) (simp only: snd_conv)
  have e: "take j (root_comps root @ cs) = root_comps root @ [CheckpointPath]" using j k by (simp add: cp_key_def rk_def)
  have "take (Suc (length (root_comps root))) (take j (root_comps root @ cs)) = root_comps root @ [CheckpointPath]" unfolding e by simp
  moreover have "Suc (length (root_comps root)) \<le> j" using arg_cong [OF e, of length] by simp
  ultimately have "take (Suc (length (root_comps root))) (root_comps root @ cs) = root_comps root @ [CheckpointPath]"
    by (simp add: min_absorb1)
  then show False using assms(2) by simp
qed

end
