(* ===== verification/FsTree.thy ===== *)
theory FsTree
  imports FsKeys
begin

section \<open>The directory tree stays a tree\<close>

text \<open>Every entry has a cleaned path and lies in a directory; the operations keep this.\<close>

definition tree :: "os \<Rightarrow> bool" where
  "tree f \<longleftrightarrow> (\<forall>k. ent f k \<noteq> None \<longrightarrow> cleaned (fst k) (snd k) \<and> dirs_ok f k)"

lemma cleaned_take: "cleaned r cs \<Longrightarrow> cleaned r (take j cs)"
proof -
  assume "cleaned r cs"
  then obtain k ns where cs: "cs = replicate k ''..'' @ ns" "\<forall>c \<in> set ns. normal_comp c" "r \<longrightarrow> k = 0"
    by (auto simp: cleaned_def)
  then have "take j cs = replicate (min j k) ''..'' @ take (j - k) ns" by (simp add: min_def)
  moreover have "\<forall>c \<in> set (take (j - k) ns). normal_comp c" using cs(2) by (meson in_set_takeD)
  ultimately show ?thesis unfolding cleaned_def using cs(3)
    by (intro exI [of _ "min j k"] exI [of _ "take (j - k) ns"]) simp
qed

lemma key_of_cleaned [simp]: "cleaned (fst (key_of p)) (snd (key_of p))"
  by (simp add: key_of_def cleaned_clean_comps)

lemma tree_put:
  assumes "tree f" "ent f k \<noteq> Some Dir" "cleaned (fst k) (snd k)" "dirs_ok f k"
  shows "tree (put k n f)"
proof -
  have "dirs_ok (put k n f) k'" if "dirs_ok f k'" for k'
    unfolding dirs_ok_def
  proof (intro allI impI)
    fix j assume "j < length (snd k')"
    then have "ent f (fst k', take j (snd k')) = Some Dir" using that by (simp add: dirs_ok_def)
    then show "ent (put k n f) (fst k', take j (snd k')) = Some Dir" using assms(2) by auto
  qed
  then show ?thesis using assms unfolding tree_def by (auto split: if_splits)
qed

lemma tree_put_Dir:
  assumes "tree f" "cleaned (fst k) (snd k)" "dirs_ok f k"
  shows "tree (put k Dir f)"
proof -
  have "dirs_ok (put k Dir f) k'" if "dirs_ok f k'" for k' using that by (auto simp: dirs_ok_def)
  then show ?thesis using assms unfolding tree_def by (auto split: if_splits)
qed

lemma tree_del:
  assumes "tree f" "ent f k \<noteq> Some Dir"
  shows "tree (del k f)"
proof -
  have "dirs_ok (del k f) k'" if "dirs_ok f k'" for k'
    unfolding dirs_ok_def
  proof (intro allI impI)
    fix j assume "j < length (snd k')"
    then have "ent f (fst k', take j (snd k')) = Some Dir" using that by (simp add: dirs_ok_def)
    then show "ent (del k f) (fst k', take j (snd k')) = Some Dir" using assms(2) by auto
  qed
  then show ?thesis using assms unfolding tree_def by (auto split: if_splits)
qed

subsection \<open>Making directories\<close>

lemma mkdirs_ent:
  "mkdirs f ks = (err, f') \<Longrightarrow> fault f' = fault f \<and>
     (\<forall>k. ent f' k = ent f k \<or> (k \<in> set ks \<and> ent f k = None \<and> ent f' k = Some Dir)) \<and>
     (err = None \<longrightarrow> (\<forall>k \<in> set ks. ent f' k = Some Dir))"
proof (induction ks arbitrary: f)
  case (Cons k ks)
  show ?case
  proof (cases "ent f k")
    case None
    show ?thesis
    proof (cases "fault f OpMkdir k")
      case True
      then show ?thesis using Cons.prems None by auto
    next
      case False
      then have "mkdirs (put k Dir f) ks = (err, f')" using Cons.prems None by simp
      note IH = Cons.IH [OF this]
      have nz: "snd k \<noteq> []" using None by (auto simp: ent_def split: if_splits)
      have "ent f' k = Some Dir" using IH nz by (metis ent_put option.distinct(1))
      then show ?thesis using IH None nz by (auto split: if_splits)
    qed
  next
    case (Some nd)
    show ?thesis
    proof (cases "nd = Dir")
      case True
      then have "mkdirs f ks = (err, f')" using Cons.prems Some by simp
      note IH = Cons.IH [OF this]
      have "ent f' k = Some Dir" using IH Some True by (metis option.distinct(1))
      then show ?thesis using IH by auto
    next
      case False
      then show ?thesis using Cons.prems Some by (cases nd) auto
    qed
  qed
qed simp

lemma dirs_ok_step:
  assumes "tree f" "ent f (r, take i cs) = Some Dir" "i < length cs"
  shows "dirs_ok f (r, take (Suc i) cs)"
  unfolding dirs_ok_def
proof (intro allI impI)
  fix j assume j: "j < length (snd (r, take (Suc i) cs))"
  have d: "dirs_ok f (r, take i cs)" using assms(1,2) by (auto simp: tree_def)
  show "ent f (fst (r, take (Suc i) cs), take j (snd (r, take (Suc i) cs))) = Some Dir"
  proof (cases "j = i")
    case True
    then show ?thesis using assms(2,3) by simp
  next
    case False
    then have "j < i" using j assms(3) by simp
    then show ?thesis using d assms(3) by (auto simp: dirs_ok_def min_def)
  qed
qed

lemma mkdirs_tree:
  "\<lbrakk>tree f; cleaned r cs; ent f (r, take i cs) = Some Dir; i + n \<le> length cs;
    mkdirs f (map (\<lambda>j. (r, take j cs)) [Suc i..<Suc i + n]) = (err, f')\<rbrakk> \<Longrightarrow> tree f'"
proof (induction n arbitrary: i f)
  case (Suc n)
  let ?k = "(r, take (Suc i) cs)"
  have upt: "[Suc i..<Suc i + Suc n] = Suc i # [Suc (Suc i)..<Suc (Suc i) + n]" by (simp add: upt_rec)
  have d: "dirs_ok f ?k" using dirs_ok_step [OF Suc.prems(1,3)] Suc.prems(4) by simp
  have c: "cleaned (fst ?k) (snd ?k)" using cleaned_take [OF Suc.prems(2)] by simp
  show ?case
  proof (cases "ent f ?k")
    case None
    then show ?thesis using Suc.prems Suc.IH [of "put ?k Dir f" "Suc i"] tree_put_Dir [OF Suc.prems(1) c d]
      unfolding upt by (auto split: if_splits)
  next
    case (Some nd)
    then show ?thesis using Suc.prems Suc.IH [of f "Suc i"] unfolding upt by (cases nd) auto
  qed
qed simp

lemma MkdirAll_sound:
  assumes "tree f" "os_MkdirAll f p = (err, f')"
  shows "tree f'" "fault f' = fault f"
    "ent f' k = ent f k \<or> (k \<in> set (prefixes_of (key_of p)) \<and> ent f k = None \<and> ent f' k = Some Dir)"
    "err = None \<Longrightarrow> k \<in> set (prefixes_of (key_of p)) \<Longrightarrow> ent f' k = Some Dir"
proof -
  let ?r = "fst (key_of p)" and ?cs = "snd (key_of p)"
  have m: "mkdirs f (prefixes_of (key_of p)) = (err, f')" using assms(2) by (simp add: os_MkdirAll_def)
  then show "fault f' = fault f"
    "ent f' k = ent f k \<or> (k \<in> set (prefixes_of (key_of p)) \<and> ent f k = None \<and> ent f' k = Some Dir)"
    "err = None \<Longrightarrow> k \<in> set (prefixes_of (key_of p)) \<Longrightarrow> ent f' k = Some Dir"
    using mkdirs_ent [OF m] by blast+
  have "mkdirs f (map (\<lambda>j. (?r, take j ?cs)) [Suc 0..<Suc 0 + length ?cs]) = (err, f')"
    using m by (simp add: prefixes_of_def)
  from mkdirs_tree [OF assms(1) key_of_cleaned _ _ this] show "tree f'" by simp
qed

lemma prefixes_of_dirs_ok:
  assumes "\<And>k. k \<in> set (prefixes_of (r, cs)) \<Longrightarrow> ent f k = Some Dir"
  shows "dirs_ok f (r, cs @ [c])"
  unfolding dirs_ok_def
proof (intro allI impI)
  fix j assume j: "j < length (snd (r, cs @ [c]))"
  show "ent f (fst (r, cs @ [c]), take j (snd (r, cs @ [c]))) = Some Dir"
  proof (cases "j = 0")
    case False
    then have "(r, take j cs) \<in> set (prefixes_of (r, cs))" using j by (auto simp: prefixes_of_def)
    then show ?thesis using assms j by simp
  qed simp
qed

end
