(* ===== verification/FsProofs.thy ===== *)
theory FsProofs
  imports FsTree
begin

section \<open>The file-system storage keeps the storage contract\<close>

text \<open>
  \<open>fs_ok\<close> is the invariant of a log's directory, for an absolute root directory: tile files parse,
  symbolic links stand next to the full tile they lead to, sequenced entries are files and the last
  sequence number is free.  \<open>fs_tv\<close> and \<open>fs_entry\<close> are the tiles and entries the directory holds.
\<close>

definition parse_tile :: "bytes \<Rightarrow> Tile option" where
  "parse_tile raw = (case UnmarshalText raw of Inr t \<Rightarrow> Some t | Inl _ \<Rightarrow> None)"

definition tile_file :: "fnode option \<Rightarrow> bool" where
  "tile_file n \<longleftrightarrow> (\<exists>raw t. n = Some (File raw) \<and> parse_tile raw = Some t)"

definition fs_ok :: "string \<Rightarrow> os \<Rightarrow> bool" where
  "fs_ok root f \<longleftrightarrow> is_rooted root \<and> tree f \<and>
     (\<forall>q. ent f (seq_key root q) = None \<or> (\<exists>b. ent f (seq_key root q) = Some (File b))) \<and>
     ent f (seq_key root (- 1)) = None \<and>
     (\<forall>x y. ent f (full_key root x y) = None \<or> tile_file (ent f (full_key root x y))) \<and>
     (\<forall>x y sfx tgt. ent f (sfx_key root x y sfx) = Some (Symlink tgt) \<longrightarrow>
        tgt = full_path root x y \<and> ent f (full_key root x y) \<noteq> None \<and> sfx \<noteq> ''temp'') \<and>
     (\<forall>x y n. let e = ent f (sfx_key root x y (sprintf_0x 2 n)) in
        e = None \<or> tile_file e \<or> (\<exists>tgt. e = Some (Symlink tgt)))"

lemma fs_okD:
  assumes "fs_ok root f"
  shows "is_rooted root" "tree f"
    "ent f (seq_key root q) = None \<or> (\<exists>b. ent f (seq_key root q) = Some (File b))"
    "ent f (seq_key root (- 1)) = None"
    "ent f (full_key root x y) = None \<or> tile_file (ent f (full_key root x y))"
    "ent f (sfx_key root x y sfx) = Some (Symlink tgt) \<Longrightarrow>
       tgt = full_path root x y \<and> tile_file (ent f (full_key root x y)) \<and> sfx \<noteq> ''temp''"
    "ent f (tile_key root x y ps) = None \<or> tile_file (ent f (tile_key root x y ps)) \<or>
       (ent f (tile_key root x y ps) = Some (Symlink (full_path root x y)) \<and> tile_file (ent f (full_key root x y)))"
proof -
  note f = assms [unfolded fs_ok_def Let_def]
  show "is_rooted root" "tree f" "ent f (seq_key root (- 1)) = None"
    "ent f (seq_key root q) = None \<or> (\<exists>b. ent f (seq_key root q) = Some (File b))" using f by blast+
  show full: "ent f (full_key root x y) = None \<or> tile_file (ent f (full_key root x y))" using f by blast
  show sl: "tgt = full_path root x y \<and> tile_file (ent f (full_key root x y)) \<and> sfx \<noteq> ''temp''"
    if "ent f (sfx_key root x y sfx) = Some (Symlink tgt)" for sfx tgt
    using f that full by blast
  show "ent f (tile_key root x y ps) = None \<or> tile_file (ent f (tile_key root x y ps)) \<or>
       (ent f (tile_key root x y ps) = Some (Symlink (full_path root x y)) \<and> tile_file (ent f (full_key root x y)))"
  proof (cases "ps = 0")
    case True
    then show ?thesis using full by (auto simp: tile_key_def)
  next
    case False
    let ?e = "ent f (sfx_key root x y (sprintf_0x 2 (unat ps)))"
    have "?e = None \<or> tile_file ?e \<or> (\<exists>tgt. ?e = Some (Symlink tgt))" using f by blast
    then show ?thesis using False sl by (auto simp: tile_key_def)
  qed
qed

definition fs_tv :: "string \<Rightarrow> os \<Rightarrow> tile_view" where
  "fs_tv root f x y ps =
     (case ent f (tile_key root x y ps) of
        Some (File raw) \<Rightarrow> parse_tile raw
      | Some (Symlink _) \<Rightarrow>
          (case ent f (full_key root x y) of Some (File raw) \<Rightarrow> parse_tile raw | _ \<Rightarrow> None)
      | _ \<Rightarrow> None)"

definition fs_entry :: "string \<Rightarrow> os \<Rightarrow> nat \<Rightarrow> bytes option" where
  "fs_entry root f k =
     (if k < 2 ^ 64 then (case ent f (seq_key root (of_nat k)) of Some (File b) \<Rightarrow> Some b | _ \<Rightarrow> None) else None)"

lemma fs_tv_None: "fs_ok root f \<Longrightarrow> fs_tv root f x y ps = None \<longleftrightarrow> ent f (tile_key root x y ps) = None"
  using fs_okD(7) [of root f x y ps] by (auto simp: fs_tv_def tile_file_def)

subsection \<open>Reading\<close>

lemma follow_plain:
  assumes "tree f" "ent f k = Some n" "\<And>t. n \<noteq> Symlink t"
  shows "follow m f k = Inr (k, n)"
proof -
  have "dir_err f k = None" using assms(1,2) unfolding dir_err_None tree_def by blast
  then show ?thesis using assms(2,3) by (cases n) (auto simp: follow.simps [of m])
qed

lemma follow_link:
  assumes "tree f" "ent f k = Some (Symlink t)" "ent f (link_key k t) = Some (File raw)"
  shows "follow (Suc m) f k = Inr (link_key k t, File raw)"
proof -
  have "dir_err f k = None" using assms(1,2) unfolding dir_err_None tree_def by blast
  then show ?thesis using assms(2) follow_plain [OF assms(1,3), of m] by (simp add: follow.simps [of "Suc m" f k])
qed

lemma follow_none:
  "ent f k = None \<Longrightarrow> follow m f k = Inl (case dir_err f k of Some e \<Rightarrow> e | None \<Rightarrow> ErrNotExist)"
  by (simp add: follow.simps split: option.splits)

lemma link_key_full: "is_rooted root \<Longrightarrow> link_key k (full_path root x y) = full_key root x y"
proof -
  assume r: "is_rooted root"
  have "is_rooted (full_path root x y)"
    using r cleaned_append_normal [OF cleaned_root_comps, of "tile_dir x y @ [tile_base y]" root] normal_tile_dir [of x y]
    unfolding full_path_def by (subst is_rooted_path_of) auto
  then show ?thesis by (simp add: link_key_def key_of_full)
qed

lemma read_tile:
  assumes "fs_ok root f" "\<not> fault f OpRead (tile_key root x y ps)"
  shows "case fs_tv root f x y ps of
      Some t \<Rightarrow> \<exists>raw. os_ReadFile f (JoinPair (TilePath root x y ps)) = Inr raw \<and> UnmarshalText raw = Inr t
    | None \<Rightarrow> os_ReadFile f (JoinPair (TilePath root x y ps)) =
        Inl (case dir_err f (tile_key root x y ps) of Some e \<Rightarrow> e | None \<Rightarrow> ErrNotExist)"
proof -
  let ?k = "tile_key root x y ps"
  note ok = fs_okD [OF assms(1)]
  have parse: "parse_tile raw = Some t \<Longrightarrow> UnmarshalText raw = Inr t" for raw t
    by (auto simp: parse_tile_def split: sum.splits)
  consider "ent f ?k = None" | "tile_file (ent f ?k)"
    | "ent f ?k = Some (Symlink (full_path root x y))" "tile_file (ent f (full_key root x y))"
    using ok(7) [of x y ps] by auto
  then show ?thesis
  proof cases
    case 1
    then show ?thesis using assms(2) by (simp add: fs_tv_def os_ReadFile_def key_of_tile follow_none)
  next
    case 2
    then obtain raw t where r: "ent f ?k = Some (File raw)" "parse_tile raw = Some t" by (auto simp: tile_file_def)
    then show ?thesis using assms(2) follow_plain [OF ok(2) r(1)] parse
      by (simp add: fs_tv_def os_ReadFile_def key_of_tile)
  next
    case 3
    then obtain raw t where r: "ent f (full_key root x y) = Some (File raw)" "parse_tile raw = Some t"
      by (auto simp: tile_file_def)
    have "follow 40 f ?k = Inr (full_key root x y, File raw)"
      using follow_link [OF ok(2) 3(1), of raw 39] r(1) link_key_full [OF ok(1)] by simp
    then show ?thesis using assms(2) 3(1) r parse by (simp add: fs_tv_def os_ReadFile_def key_of_tile)
  qed
qed

lemma GetTile_fs:
  assumes "fs_ok (rootDir st) f"
  shows "GetTile st f x y n = Inr t \<Longrightarrow> fs_tv (rootDir st) f x y (PartialTileSize x y n) = Some t"
    and "GetTile st f x y n = Inl e \<Longrightarrow> os_IsNotExist e \<Longrightarrow> fs_tv (rootDir st) f x y (PartialTileSize x y n) = None"
proof -
  let ?ps = "PartialTileSize x y n" and ?p = "JoinPair (TilePath (rootDir st) x y (PartialTileSize x y n))"
  have io: "os_ReadFile f ?p = Inl ErrIO" if "fault f OpRead (tile_key (rootDir st) x y ?ps)"
    using that by (simp add: os_ReadFile_def key_of_tile)
  note rd = read_tile [OF assms, of x y ?ps]
  show "fs_tv (rootDir st) f x y ?ps = Some t" if "GetTile st f x y n = Inr t"
  proof (cases "fault f OpRead (tile_key (rootDir st) x y ?ps)")
    case True
    then show ?thesis using that io by (simp add: GetTile_def)
  next
    case False
    then show ?thesis using rd that
      by (cases "fs_tv (rootDir st) f x y ?ps") (auto simp: GetTile_def Let_def split: if_splits)
  qed
  show "fs_tv (rootDir st) f x y ?ps = None" if g: "GetTile st f x y n = Inl e" "os_IsNotExist e"
  proof (cases "fault f OpRead (tile_key (rootDir st) x y ?ps)")
    case True
    then show ?thesis using g io by (auto simp: GetTile_def Let_def wrapf_def)
  next
    case False
    then show ?thesis using rd g
      by (cases "fs_tv (rootDir st) f x y ?ps") (auto simp: GetTile_def Let_def)
  qed
qed


subsection \<open>Scanning\<close>

lemma fs_entry_unat:
  "fs_entry root f (unat q) = (case ent f (seq_key root q) of Some (File b) \<Rightarrow> Some b | _ \<Rightarrow> None)"
  by (simp add: fs_entry_def)

lemma fs_entry_bound: "fs_ok root f \<Longrightarrow> fs_entry root f k \<noteq> None \<Longrightarrow> k < 2 ^ 64 - 1"
proof -
  assume ok: "fs_ok root f" and k: "fs_entry root f k \<noteq> None"
  have lt: "k < 2 ^ 64" using k by (auto simp: fs_entry_def split: if_splits)
  have "k \<noteq> 2 ^ 64 - 1"
  proof
    assume e: "k = 2 ^ 64 - 1"
    have "(of_nat k :: u64) + 1 = of_nat (2 ^ 64)" unfolding e by simp
    also have "\<dots> = 0" by simp
    finally have "(of_nat k :: u64) = - 1" by (simp add: eq_neg_iff_add_eq_0)
    then show False using k fs_okD(4) [OF ok] by (simp add: fs_entry_def split: if_splits)
  qed
  then show ?thesis using lt by linarith
qed

lemma dir_err_cases: "dir_err f k = None \<or> dir_err f k = Some ErrNotExist \<or> dir_err f k = Some ErrIO"
  by (auto simp: dir_err_def split: option.splits)

lemma read_seq:
  assumes "fs_ok root f"
  shows "case os_ReadFile f (JoinPair (SeqPath root q)) of
      Inr b \<Rightarrow> fs_entry root f (unat q) = Some b
    | Inl e \<Rightarrow> errors_Is e ErrNotExist \<longrightarrow> fs_entry root f (unat q) = None"
proof -
  note ok = fs_okD [OF assms]
  show ?thesis
  proof (cases "fault f OpRead (seq_key root q)")
    case True
    then show ?thesis by (simp add: os_ReadFile_def key_of_seq)
  next
    case False
    consider "ent f (seq_key root q) = None" | b where "ent f (seq_key root q) = Some (File b)"
      using ok(3) [of q] by auto
    then show ?thesis
    proof cases
      case 1
      then show ?thesis using False by (simp add: os_ReadFile_def key_of_seq follow_none fs_entry_unat)
    next
      case 2
      then show ?thesis using False follow_plain [OF ok(2) 2] by (simp add: os_ReadFile_def key_of_seq fs_entry_unat)
    qed
  qed
qed

lemma scan_loop_returns:
  assumes "fs_ok root f"
  shows "\<exists>m es n err. scan_loop root f b q calls = Some (es, n, err) \<and> unat q \<le> m \<and> m < 2 ^ 64 \<and>
     es = calls @ map (\<lambda>i. (of_nat i, the (fs_entry root f i))) [unat q..<m] \<and>
     (\<forall>i. unat q \<le> i \<and> i < m \<longrightarrow> fs_entry root f i \<noteq> None) \<and> n = of_nat m - b \<and>
     (err = None \<longrightarrow> fs_entry root f m = None) \<and>
     (err \<noteq> None \<longrightarrow> (\<exists>e. os_ReadFile f (JoinPair (SeqPath root (of_nat m))) = Inl e \<and> \<not> errors_Is e ErrNotExist))"
proof (induction "2 ^ 64 - unat q" arbitrary: q calls rule: less_induct)
  case less
  note rd = read_seq [OF assms, of q]
  show ?case
  proof (cases "os_ReadFile f (JoinPair (SeqPath root q))")
    case (Inl e)
    then show ?thesis using rd
      by (intro exI [of _ "unat q"]) (auto simp: scan_loop.simps [of root f b q])
  next
    case (Inr entry)
    then have ent: "fs_entry root f (unat q) = Some entry" using rd by simp
    then have lt: "unat q + 1 < 2 ^ 64" using fs_entry_bound [OF assms, of "unat q"] by simp
    have q1: "unat (q + 1) = unat q + 1" by (rule unat_Suc_u64 [OF lt])
    have "2 ^ 64 - unat (q + 1) < 2 ^ 64 - unat q" using lt q1 by linarith
    from less [OF this, of "calls @ [(q, entry)]"] obtain m es n err where
      IH: "scan_loop root f b (q + 1) (calls @ [(q, entry)]) = Some (es, n, err)" "unat q + 1 \<le> m" "m < 2 ^ 64"
      "es = (calls @ [(q, entry)]) @ map (\<lambda>i. (of_nat i, the (fs_entry root f i))) [unat q + 1..<m]"
      "\<forall>i. unat q + 1 \<le> i \<and> i < m \<longrightarrow> fs_entry root f i \<noteq> None" "n = of_nat m - b"
      "err = None \<longrightarrow> fs_entry root f m = None"
      "err \<noteq> None \<longrightarrow> (\<exists>e. os_ReadFile f (JoinPair (SeqPath root (of_nat m))) = Inl e \<and> \<not> errors_Is e ErrNotExist)"
      unfolding q1 by blast
    have upt: "[unat q..<m] = unat q # [unat q + 1..<m]" using IH(2) by (simp add: upt_rec)
    have "fs_entry root f i \<noteq> None" if "unat q \<le> i" "i < m" for i
      using IH(5) ent that by (cases "i = unat q") auto
    moreover have "scan_loop root f b q calls = Some (es, n, err)"
      using Inr IH(1) by (simp add: scan_loop.simps [of root f b q])
    moreover have "es = calls @ map (\<lambda>i. (of_nat i, the (fs_entry root f i))) [unat q..<m]"
      unfolding upt using IH(4) ent by simp
    moreover have "unat q \<le> m" using IH(2) by simp
    ultimately show ?thesis using IH(3,6,7,8) by blast
  qed
qed

end
