(* ===== verification/FsStore.thy ===== *)
theory FsStore
  imports FsProofs
begin

section \<open>Storing a tile on the file system\<close>

text \<open>Each step of \<open>StoreTile\<close> (directories, temporary file, rename, relinking of partial tiles) keeps
  the invariant, and the tiles read afterwards differ only as the storage contract allows.\<close>

lemma keys_not_Nil [simp]:
  "snd (sfx_key root x y s) \<noteq> []" "snd (full_key root x y) \<noteq> []" "snd (seq_key root q) \<noteq> []"
  "snd (tile_key root x y ps) \<noteq> []"
  by (simp_all add: sfx_key_def full_key_def seq_key_def rk_def seq_comps_def tile_key_def)

lemma hex_digits: "c \<in> set (sprintf_0x w n) \<Longrightarrow> \<exists>d < 16. c = digit_char d"
proof -
  have z: "\<exists>d < 16. CHR ''0'' = digit_char d" by (rule exI [of _ 0]) simp
  assume "c \<in> set (sprintf_0x w n)"
  then show ?thesis using set_format_uint [of 16 n] z by (auto simp: sprintf_0x_def pad0_def)
qed

lemma hex_char_digit: "c \<in> set (sprintf_0x w n) \<Longrightarrow> \<exists>d < 16. char_digit c = Some d"
proof -
  assume "c \<in> set (sprintf_0x w n)"
  then obtain d where d: "d < 16" "c = digit_char d" using hex_digits by blast
  then have "d < 36" by simp
  then show ?thesis using d by auto
qed

lemma hex_not_words [simp]:
  "sprintf_0x w n \<noteq> ''temp''" "''temp'' \<noteq> sprintf_0x w n"
  "sprintf_0x w n \<noteq> ''link''" "''link'' \<noteq> sprintf_0x w n"
  "sprintf_0x w n \<noteq> a @ ''.temp''" "a @ ''.temp'' \<noteq> sprintf_0x w n"
proof -
  have "CHR ''t'' \<notin> set (sprintf_0x w n)" "CHR ''l'' \<notin> set (sprintf_0x w n)"
    using hex_char_digit [of "CHR ''t''" w n] hex_char_digit [of "CHR ''l''" w n] by (auto simp: char_digit_def)
  moreover have "CHR ''.'' \<notin> set (sprintf_0x w n)" by simp
  ultimately show "sprintf_0x w n \<noteq> ''temp''" "''temp'' \<noteq> sprintf_0x w n"
    "sprintf_0x w n \<noteq> ''link''" "''link'' \<noteq> sprintf_0x w n"
    "sprintf_0x w n \<noteq> a @ ''.temp''" "a @ ''.temp'' \<noteq> sprintf_0x w n"
    by (metis list.set_intros, metis list.set_intros, metis list.set_intros, metis list.set_intros,
        metis in_set_conv_decomp append_Cons append_assoc append_Nil, metis in_set_conv_decomp append_Cons append_assoc append_Nil)
qed

definition is_hex :: "string \<Rightarrow> bool" where
  "is_hex s \<longleftrightarrow> (\<exists>n. s = sprintf_0x 2 n)"

lemma is_hex_simps [simp]:
  "is_hex (sprintf_0x 2 n)" "\<not> is_hex ''temp''" "\<not> is_hex ''link''" "\<not> is_hex (a @ ''.temp'')"
  by (auto simp: is_hex_def)

subsection \<open>Changes that no tile and no entry depends on\<close>

definition same_files :: "string \<Rightarrow> os \<Rightarrow> os \<Rightarrow> bool" where
  "same_files root f g \<longleftrightarrow> (\<forall>x y. ent g (full_key root x y) = ent f (full_key root x y)) \<and>
     (\<forall>q. ent g (seq_key root q) = ent f (seq_key root q)) \<and>
     (\<forall>x y s. ent g (sfx_key root x y s) = ent f (sfx_key root x y s) \<or>
        (\<not> is_hex s \<and> (\<forall>t. ent g (sfx_key root x y s) \<noteq> Some (Symlink t))))"

lemma same_files_tile: "same_files root f g \<Longrightarrow> ent g (tile_key root x y ps) = ent f (tile_key root x y ps)"
proof -
  assume s: "same_files root f g"
  have "ent g (sfx_key root x y u) = ent f (sfx_key root x y u)" if "is_hex u" for u
    using s that unfolding same_files_def by blast
  then show ?thesis using s by (simp add: tile_key_def same_files_def)
qed

lemma same_files_ok:
  assumes "fs_ok root f" "same_files root f g" "tree g"
  shows "fs_ok root g \<and> fs_tv root g = fs_tv root f \<and> fs_entry root g = fs_entry root f"
proof -
  note t = same_files_tile [OF assms(2)] and s = assms(2) [unfolded same_files_def]
  have full: "ent g (full_key root x y) = ent f (full_key root x y)" for x y using s by blast
  have seq: "ent g (seq_key root q) = ent f (seq_key root q)" for q using s by blast
  have hex: "ent g (sfx_key root x y (sprintf_0x 2 n)) = ent f (sfx_key root x y (sprintf_0x 2 n))" for x y n
    using s is_hex_simps(1) by metis
  have link: "ent f (sfx_key root x y u) = Some (Symlink tg)" if "ent g (sfx_key root x y u) = Some (Symlink tg)" for x y u tg
    using s that by metis
  have "fs_ok root g"
    using assms(1,3) link unfolding fs_ok_def full seq hex Let_def by blast
  moreover have "fs_tv root g = fs_tv root f" unfolding fun_eq_iff fs_tv_def t full by blast
  moreover have "fs_entry root g = fs_entry root f" unfolding fun_eq_iff fs_entry_def seq by blast
  ultimately show ?thesis by blast
qed

lemma mkdir_tile_dir:
  assumes "fs_ok root f" "os_MkdirAll f (fst (TilePath root x y ps)) = (err, f')"
  shows "fs_ok root f'" "fs_tv root f' = fs_tv root f" "fs_entry root f' = fs_entry root f" "fault f' = fault f"
    "ent f' (sfx_key root a b s) = ent f (sfx_key root a b s)" "ent f' (full_key root a b) = ent f (full_key root a b)"
    "err = None \<Longrightarrow> dirs_ok f' (sfx_key root x y s) \<and> dirs_ok f' (full_key root x y)"
    "off_tile root k \<Longrightarrow> ent f' k = ent f k"
proof -
  have path: "fst (TilePath root x y ps) = path_of (is_rooted root) (root_comps root @ tile_dir x y)"
    using Join_root [of "tile_dir x y" root] normal_tile_dir [of x y]
    by (simp add: TilePath_def tile_dir_def Let_def)
  have key: "key_of (fst (TilePath root x y ps)) = rk root (tile_dir x y)"
    unfolding path using normal_tile_dir by (simp add: key_of_rk)
  note mk = MkdirAll_sound [OF fs_okD(2) [OF assms(1)] assms(2), unfolded key]
  have len: "length (tile_dir x y) < length (tile_dir a b @ [c])" "length (tile_dir x y) < length (seq_comps q)"
    for a b c q by (simp_all add: tile_dir_def seq_comps_def)
  show "off_tile root k \<Longrightarrow> ent f' k = ent f k" using mk(3) [of k] off_tile_prefix [of root k x y] by blast
  have e1: "ent f' (sfx_key root a b s) = ent f (sfx_key root a b s)" for a b s
    using mk(3) [of "sfx_key root a b s"] prefix_keys [OF _ len(1)] unfolding sfx_key_def by metis
  have e2: "ent f' (full_key root a b) = ent f (full_key root a b)" for a b
    using mk(3) [of "full_key root a b"] prefix_keys [OF _ len(1)] unfolding full_key_def by metis
  have e3: "ent f' (seq_key root q) = ent f (seq_key root q)" for q
    using mk(3) [of "seq_key root q"] prefix_keys [OF _ len(2)] unfolding seq_key_def by metis
  show "ent f' (sfx_key root a b s) = ent f (sfx_key root a b s)" "ent f' (full_key root a b) = ent f (full_key root a b)"
    "fault f' = fault f" by (fact e1 e2 mk(2))+
  have "same_files root f f'" by (simp add: same_files_def e1 e2 e3)
  from same_files_ok [OF assms(1) this mk(1)]
  show "fs_ok root f'" "fs_tv root f' = fs_tv root f" "fs_entry root f' = fs_entry root f" by auto
  have "dirs_ok f' (rk root (tile_dir x y @ [c]))" if "err = None" for c
    using prefixes_of_dirs_ok [of "is_rooted root" "root_comps root @ tile_dir x y" f' c] mk(4) [OF that]
    by (simp add: rk_def)
  then show "err = None \<Longrightarrow> dirs_ok f' (sfx_key root x y s) \<and> dirs_ok f' (full_key root x y)"
    by (simp add: sfx_key_def full_key_def)
qed


subsection \<open>The temporary file\<close>

lemma WriteFile_plain:
  assumes "\<And>t. ent f (key_of p) \<noteq> Some (Symlink t)" "os_WriteFile f p d = (err, f')"
  shows "(f' = f \<and> err \<noteq> None) \<or>
    (\<exists>b. f' = put (key_of p) (File b) f \<and> ent f (key_of p) \<noteq> Some Dir \<and> dirs_ok f (key_of p) \<and> (err = None \<longrightarrow> b = d))"
proof (cases "write_key 40 f (key_of p)")
  case (Inl e)
  then have "err = Some e" "f' = f" using assms(2) unfolding os_WriteFile_def by simp_all
  then show ?thesis by simp
next
  case (Inr k)
  have "k = key_of p \<and> ent f (key_of p) \<noteq> Some Dir \<and> dirs_ok f (key_of p)"
    using Inr assms(1) by (auto simp: write_key.simps [of 40] dir_err_None [symmetric] split: option.splits fnode.splits)
  then show ?thesis using assms(2) Inr by (auto simp: os_WriteFile_def split: if_splits)
qed

lemma write_temp:
  assumes "fs_ok root f" "key_of p = sfx_key root x y s" "\<not> is_hex s"
    "\<And>t. ent f (sfx_key root x y s) \<noteq> Some (Symlink t)" "os_WriteFile f p d = (err, f')"
  shows "same_files root f f'" "tree f'" "fault f' = fault f" "err = None \<Longrightarrow> ent f' (sfx_key root x y s) = Some (File d)"
    "k \<noteq> sfx_key root x y s \<Longrightarrow> ent f' k = ent f k"
proof -
  let ?k = "sfx_key root x y s"
  have c: "cleaned (fst ?k) (snd ?k)" using key_of_cleaned [of p] assms(2) by simp
  note t = fs_okD(2) [OF assms(1)]
  have w: "(f' = f \<and> err \<noteq> None) \<or>
    (\<exists>b. f' = put ?k (File b) f \<and> ent f ?k \<noteq> Some Dir \<and> dirs_ok f ?k \<and> (err = None \<longrightarrow> b = d))"
    using WriteFile_plain [of f p d err f'] assms(2,4,5) by simp
  then show "same_files root f f'" using assms(3) by (auto simp: same_files_def split: if_splits)
  show "tree f'" using w t tree_put [OF t _ c] by auto
  show "fault f' = fault f" "err = None \<Longrightarrow> ent f' ?k = Some (File d)" "k \<noteq> ?k \<Longrightarrow> ent f' k = ent f k"
    using w by auto
qed

subsection \<open>Renaming into place\<close>

lemma Rename_cases:
  assumes "os_Rename f old new = (err, f')"
  shows "(f' = f \<and> (err = None \<longrightarrow> key_of old = key_of new)) \<or>
    (\<exists>nd. err = None \<and> key_of old \<noteq> key_of new \<and> ent f (key_of old) = Some nd \<and> nd \<noteq> Dir \<and>
       ent f (key_of new) \<noteq> Some Dir \<and> dirs_ok f (key_of new) \<and> f' = put (key_of new) nd (del (key_of old) f))"
  using assms by (auto simp: os_Rename_def dir_err_None [symmetric] split: if_splits option.splits)

definition tile_step :: "string \<Rightarrow> u64 \<Rightarrow> u64 \<Rightarrow> Tile \<Rightarrow> os \<Rightarrow> os \<Rightarrow> bool" where
  "tile_step root x y t f f' \<longleftrightarrow> fs_ok root f' \<and> fault f' = fault f \<and> fs_entry root f' = fs_entry root f \<and>
     (\<forall>k. off_tile root k \<longrightarrow> ent f' k = ent f k) \<and> tile_stored x y t (fs_tv root f) (fs_tv root f')"

lemma tile_stored_trans:
  assumes "tile_stored x y t tv tv'" "tile_stored x y t tv' tv''"
  shows "tile_stored x y t tv tv''"
  unfolding tile_stored_def
proof (intro allI)
  fix a b ps
  show "tv'' a b ps = tv a b ps \<or> (a = x \<and> b = y \<and> tv'' a b ps = Some (reread t) \<and>
      (ps = NumLeaves t mod 256 \<or> NumLeaves t = 256 \<and> tv x y ps \<noteq> None))"
    using assms unfolding tile_stored_def by metis
qed

lemma tile_step_trans: "tile_step root x y t f g \<Longrightarrow> tile_step root x y t g h \<Longrightarrow> tile_step root x y t f h"
  unfolding tile_step_def using tile_stored_trans by auto

lemma tile_step_same:
  "fs_ok root f \<Longrightarrow> same_files root f g \<Longrightarrow> tree g \<Longrightarrow> fault g = fault f \<Longrightarrow>
     (\<forall>k. off_tile root k \<longrightarrow> ent g k = ent f k) \<Longrightarrow> tile_step root x y t f g"
  using same_files_ok [of root f g] tile_stored_refl by (simp add: tile_step_def)

lemma mod256_zero: "0 < (n :: u64) \<Longrightarrow> n \<le> 256 \<Longrightarrow> n mod 256 = 0 \<longleftrightarrow> n = 256"
proof
  assume n: "0 < n" "n \<le> 256" "n mod 256 = 0"
  have "unat (n mod 256) = unat n mod 256" by (simp add: unat_mod)
  then have m: "unat n mod 256 = 0" using n(3) by simp
  have b: "0 < unat n" "unat n \<le> 256" using n by (simp_all add: word_less_nat_alt word_le_nat_alt)
  have "\<not> unat n < 256"
  proof
    assume "unat n < 256"
    then show False using m b(1) by simp
  qed
  then have "unat n = 256" using b(2) by linarith
  then show "n = 256" by (simp add: word_unat_eq_iff)
qed simp


lemma fs_tv_cong:
  "\<lbrakk>ent g (tile_key root x y ps) = ent f (tile_key root x y ps); ent g (full_key root x y) = ent f (full_key root x y)\<rbrakk> \<Longrightarrow>
     fs_tv root g x y ps = fs_tv root f x y ps"
  unfolding fs_tv_def by (simp only:)

text \<open>The new tile file: the temporary name is gone, the tile's name has the new contents.\<close>

lemma put_tile:
  assumes "fs_ok root f" "0 < NumLeaves t" "NumLeaves t \<le> 256" "parse_tile raw = Some (reread t)"
    "\<not> is_hex s" "ent f (sfx_key root x y s) \<noteq> Some Dir"
    "ent f (tile_key root x y (NumLeaves t mod 256)) \<noteq> Some Dir" "dirs_ok f (tile_key root x y (NumLeaves t mod 256))"
    "cleaned (is_rooted root) (snd (tile_key root x y (NumLeaves t mod 256)))"
    "NumLeaves t = 256 \<or> ent f (full_key root x y) = None"
    "f' = put (tile_key root x y (NumLeaves t mod 256)) (File raw) (del (sfx_key root x y s) f)"
  shows "tile_step root x y t f f'" "fs_tv root f' x y (NumLeaves t mod 256) = Some (reread t)"
    "ent f' (sfx_key root x y s) = None"
proof -
  let ?ps = "NumLeaves t mod 256" and ?tk = "sfx_key root x y s"
  let ?kp = "tile_key root x y ?ps"
  note ok = fs_okD [OF assms(1)] and z = mod256_zero [OF assms(2,3)]
  have ne: "?kp \<noteq> ?tk" using assms(5) by (auto simp: tile_key_sfx)
  have fstk: "fst ?kp = is_rooted root" by (simp add: tile_key_def full_key_def sfx_key_def rk_def)
  have e: "ent f' k = (if k = ?kp then Some (File raw) else if k = ?tk then None else ent f k)" for k
    by (simp add: assms(11))
  show "ent f' ?tk = None" using ne by (simp add: e)
  have "tree (del ?tk f)" using tree_del [OF ok(2) assms(6)] .
  moreover have "dirs_ok (del ?tk f) ?kp"
    using assms(6,8) by (auto simp: dirs_ok_def)
  ultimately have tr: "tree f'" unfolding assms(11) using assms(7,9) fstk by (intro tree_put) auto
  have tf: "tile_file (Some (File raw))" using assms(4) by (simp add: tile_file_def)
  have full: "ent f' (full_key root a b) = (if a = x \<and> b = y \<and> ?ps = 0 then Some (File raw) else ent f (full_key root a b))" for a b
  proof -
    have "full_key root a b = ?kp \<longleftrightarrow> a = x \<and> b = y \<and> ?ps = 0" by (metis tile_key_full)
    then show ?thesis by (simp only: e full_sfx if_False)
  qed
  have seq: "ent f' (seq_key root q) = ent f (seq_key root q)" for q by (auto simp: e tile_key_def)
  have tile: "ent f' (tile_key root a b p) = (if a = x \<and> b = y \<and> p = ?ps then Some (File raw) else ent f (tile_key root a b p))" for a b p
    using assms(5) by (auto simp: e tile_key_sfx)
  have link: "ent f (sfx_key root a b u) = Some (Symlink tg)" if "ent f' (sfx_key root a b u) = Some (Symlink tg)" for a b u tg
    using that by (auto simp: e split: if_splits)
  have okf': "fs_ok root f'"
    unfolding fs_ok_def Let_def
  proof (intro conjI allI impI)
    fix a b n
    let ?e = "ent f' (sfx_key root a b (sprintf_0x 2 n))"
    have "?e = Some (File raw) \<or> ?e = ent f (sfx_key root a b (sprintf_0x 2 n))"
      using assms(5) by (auto simp: e)
    then show "?e = None \<or> tile_file ?e \<or> (\<exists>tgt. ?e = Some (Symlink tgt))"
      using assms(1) tf unfolding fs_ok_def Let_def by metis
  next
    fix a b show "ent f' (full_key root a b) = None \<or> tile_file (ent f' (full_key root a b))"
      using ok(5) [of a b] tf by (auto simp: full)
  next
    fix a b u tg assume l: "ent f' (sfx_key root a b u) = Some (Symlink tg)"
    note old = ok(6) [OF link [OF l]]
    show "tg = full_path root a b" "u \<noteq> ''temp''" using old by auto
    show "ent f' (full_key root a b) \<noteq> None" using old by (auto simp: full tile_file_def)
  qed (use ok seq tr in auto)
  have "tile_stored x y t (fs_tv root f) (fs_tv root f')"
    unfolding tile_stored_def
  proof (intro allI)
    fix a b p
    show "fs_tv root f' a b p = fs_tv root f a b p \<or> (a = x \<and> b = y \<and> fs_tv root f' a b p = Some (reread t) \<and>
        (p = ?ps \<or> NumLeaves t = 256 \<and> fs_tv root f x y p \<noteq> None))"
    proof (cases "a = x \<and> b = y")
      case False
      have "ent f' (tile_key root a b p) = ent f (tile_key root a b p)" using False unfolding tile by auto
      moreover have "ent f' (full_key root a b) = ent f (full_key root a b)" using False unfolding full by auto
      ultimately have "fs_tv root f' a b p = fs_tv root f a b p" by (rule fs_tv_cong)
      then show ?thesis by simp
    next
      case True
      show ?thesis
      proof (cases "p = ?ps")
        case True
        then show ?thesis using \<open>a = x \<and> b = y\<close> assms(4) by (simp add: fs_tv_def tile)
      next
        case False
        show ?thesis
        proof (cases "?ps = 0 \<and> ent f (tile_key root x y p) = Some (Symlink (full_path root x y))")
          case True
          then show ?thesis using \<open>a = x \<and> b = y\<close> False assms(4) z ok(7) [of x y p]
            by (auto simp: fs_tv_def tile full tile_file_def)
        next
          case nl: False
          then have "fs_tv root f' x y p = fs_tv root f x y p"
            using False ok(7) [of x y p] by (auto simp: fs_tv_def tile full tile_file_def)
          then show ?thesis using \<open>a = x \<and> b = y\<close> by simp
        qed
      qed
    qed
  qed
  then show "tile_step root x y t f f'" using okf' seq assms(11)
    by (simp add: tile_step_def fs_entry_def fun_eq_iff)
  show "fs_tv root f' x y ?ps = Some (reread t)" using assms(4) by (simp add: fs_tv_def tile)
qed


subsection \<open>Relinking partial tiles\<close>

lemma put_link:
  assumes "fs_ok root f" "NumLeaves t = 256" "fs_tv root f x y 0 = Some (reread t)" "s \<noteq> ''temp''"
    "is_hex s \<Longrightarrow> ent f (sfx_key root x y s) \<noteq> None"
    "ent f (sfx_key root x y s) \<noteq> Some Dir" "dirs_ok f (sfx_key root x y s)"
    "cleaned (is_rooted root) (snd (sfx_key root x y s))"
    "f' = put (sfx_key root x y s) (Symlink (full_path root x y)) f"
  shows "tile_step root x y t f f'" "fs_tv root f' x y 0 = Some (reread t)"
proof -
  let ?k = "sfx_key root x y s"
  note ok = fs_okD [OF assms(1)]
  have fstk: "fst ?k = is_rooted root" by (simp add: sfx_key_def rk_def)
  have e: "ent f' k = (if k = ?k then Some (Symlink (full_path root x y)) else ent f k)" for k
    by (simp add: assms(9))
  have full: "ent f' (full_key root a b) = ent f (full_key root a b)" for a b by (simp add: e)
  have seq: "ent f' (seq_key root q) = ent f (seq_key root q)" for q by (simp add: e)
  have there: "tile_file (ent f (full_key root x y))"
    using fs_tv_None [OF assms(1), of x y 0] assms(3) ok(5) [of x y] by (auto simp: tile_key_def)
  have tr: "tree f'" unfolding assms(9) using assms(6-8) fstk ok(2) by (intro tree_put) auto
  have okf': "fs_ok root f'"
    unfolding fs_ok_def Let_def
  proof (intro conjI allI impI)
    fix a b n
    let ?e = "ent f' (sfx_key root a b (sprintf_0x 2 n))"
    have "?e = Some (Symlink (full_path root x y)) \<or> ?e = ent f (sfx_key root a b (sprintf_0x 2 n))" by (auto simp: e)
    then show "?e = None \<or> tile_file ?e \<or> (\<exists>tgt. ?e = Some (Symlink tgt))"
      using assms(1) unfolding fs_ok_def Let_def by metis
  next
    fix a b u tg assume l: "ent f' (sfx_key root a b u) = Some (Symlink tg)"
    have "tg = full_path root a b \<and> tile_file (ent f (full_key root a b)) \<and> u \<noteq> ''temp''"
    proof (cases "sfx_key root a b u = ?k")
      case True
      then show ?thesis using l there assms(4) by (simp add: e)
    next
      case False
      then show ?thesis using l ok(6) [of a b u tg] by (auto simp: e split: if_splits)
    qed
    then show "tg = full_path root a b" "u \<noteq> ''temp''" "ent f' (full_key root a b) \<noteq> None"
      by (auto simp: full tile_file_def)
  qed (use ok seq full tr in auto)
  have full_tv: "fs_tv root f' x y p = Some (reread t)" if "ent f' (tile_key root x y p) = Some (Symlink (full_path root x y))" for p
    using that assms(3) there by (auto simp: fs_tv_def full tile_key_def tile_file_def split: if_splits)
  have "tile_stored x y t (fs_tv root f) (fs_tv root f')"
    unfolding tile_stored_def
  proof (intro allI)
    fix a b p
    show "fs_tv root f' a b p = fs_tv root f a b p \<or> (a = x \<and> b = y \<and> fs_tv root f' a b p = Some (reread t) \<and>
        (p = NumLeaves t mod 256 \<or> NumLeaves t = 256 \<and> fs_tv root f x y p \<noteq> None))"
    proof (cases "tile_key root a b p = ?k")
      case True
      then have k: "a = x" "b = y" "p \<noteq> 0" "s = sprintf_0x 2 (unat p)" by (simp_all add: tile_key_sfx)
      then have "ent f (tile_key root x y p) \<noteq> None" using assms(5) True by auto
      then have "fs_tv root f x y p \<noteq> None" using fs_tv_None [OF assms(1)] by simp
      moreover have "fs_tv root f' x y p = Some (reread t)" using full_tv [of p] True k by (simp add: e)
      ultimately show ?thesis using k assms(2) by simp
    next
      case False
      then have "fs_tv root f' a b p = fs_tv root f a b p" using full by (intro fs_tv_cong) (auto simp: e)
      then show ?thesis by simp
    qed
  qed
  then show "tile_step root x y t f f'" using okf' seq assms(9)
    by (simp add: tile_step_def fs_entry_def fun_eq_iff)
  have "fs_tv root f' x y 0 = fs_tv root f x y 0" using full by (intro fs_tv_cong) (auto simp: tile_key_def)
  then show "fs_tv root f' x y 0 = Some (reread t)" using assms(3) by simp
qed

lemma del_sfx:
  assumes "fs_ok root f" "\<not> is_hex s" "ent f (sfx_key root x y s) \<noteq> Some Dir"
  shows "same_files root f (del (sfx_key root x y s) f)" "tree (del (sfx_key root x y s) f)"
  using tree_del [OF fs_okD(2) [OF assms(1)] assms(3)] assms(2) by (auto simp: same_files_def)

lemma cleaned_sfx: "slash \<notin> set s \<Longrightarrow> cleaned (is_rooted root) (snd (sfx_key root x y s))"
proof -
  assume "slash \<notin> set s"
  then have "cleaned (fst (sfx_key root x y s)) (snd (sfx_key root x y s))"
    using key_of_cleaned [of "full_path root x y @ ''.'' @ s"] full_path_suffix [of s root x y] by metis
  then show ?thesis by (simp add: sfx_key_def rk_def)
qed

text \<open>What the loop over the partial tiles may be given: names next to the full tile, other than its
  temporary file, of files that exist if they are partial tiles.\<close>

definition relinkable :: "string \<Rightarrow> u64 \<Rightarrow> u64 \<Rightarrow> os \<Rightarrow> string \<Rightarrow> bool" where
  "relinkable root x y f p \<longleftrightarrow> (\<exists>s. key_of p = sfx_key root x y s \<and> s \<noteq> ''temp'' \<and>
     (is_hex s \<longrightarrow> ent f (sfx_key root x y s) \<noteq> None))"

lemma relink_step:
  assumes "fs_ok root f" "NumLeaves t = 256" "fs_tv root f x y 0 = Some (reread t)"
    "relink f (full_path root x y) ps = (err, f')" "\<And>p. p \<in> set ps \<Longrightarrow> relinkable root x y f p"
  shows "tile_step root x y t f f' \<and> fs_tv root f' x y 0 = Some (reread t)"
  using assms
proof (induction ps arbitrary: f)
  case Nil
  then show ?case by (simp add: tile_step_def tile_stored_refl)
next
  case (Cons p ps)
  let ?lk = "sfx_key root x y ''link''" and ?tmp = "full_path root x y @ ''.link''"
  have lk: "key_of ?tmp = ?lk" using full_path_suffix [of "''link''" root x y] by simp
  obtain s where s: "key_of p = sfx_key root x y s" "s \<noteq> ''temp''" "is_hex s \<longrightarrow> ent f (sfx_key root x y s) \<noteq> None"
    using Cons.prems(5) [of p] by (auto simp: relinkable_def)
  obtain e1 g where 1: "os_Symlink f (full_path root x y) ?tmp = (e1, g)" by fastforce
  show ?case
  proof (cases e1)
    case (Some e)
    then have "f' = f" using 1 Cons.prems(4) by (auto simp: os_Symlink_def lk split: option.splits if_splits)
    then show ?thesis using Cons.prems(1,3) by (simp add: tile_step_def tile_stored_refl)
  next
    case None
    then have g: "g = put ?lk (Symlink (full_path root x y)) f" "ent f ?lk = None" "dirs_ok f ?lk"
      using 1 by (auto simp: os_Symlink_def lk dir_err_None [symmetric] split: option.splits if_splits)
    have st1: "tile_step root x y t f g" "fs_tv root g x y 0 = Some (reread t)"
      using put_link [OF Cons.prems(1-3) _ _ _ g(3) _ g(1)] g(2) cleaned_sfx by auto
    then have okg: "fs_ok root g" by (simp add: tile_step_def)
    obtain e2 h where 2: "os_Rename g ?tmp p = (e2, h)" by fastforce
    have step: "tile_step root x y t g h \<and> fs_tv root h x y 0 = Some (reread t)"
    proof (cases "h = g")
      case True
      then show ?thesis using st1(2) okg by (simp add: tile_step_def tile_stored_refl)
    next
      case False
      then obtain nd where r: "key_of ?tmp \<noteq> key_of p" "ent g (key_of ?tmp) = Some nd"
        "ent g (key_of p) \<noteq> Some Dir" "dirs_ok g (key_of p)" "h = put (key_of p) nd (del (key_of ?tmp) g)"
        using Rename_cases [OF 2] by blast
      have nd: "nd = Symlink (full_path root x y)" using r(2) by (simp add: lk g(1))
      let ?d = "del ?lk g"
      have nd': "ent g ?lk \<noteq> Some Dir" by (simp add: g(1))
      have d: "fs_ok root ?d" "fs_tv root ?d = fs_tv root g" "fs_entry root ?d = fs_entry root g"
        using same_files_ok [OF okg del_sfx [OF okg _ nd']] by auto
      have stg: "tile_step root x y t g ?d" using d by (simp add: tile_step_def tile_stored_refl)
      have ne: "sfx_key root x y s \<noteq> ?lk" using r(1) s(1) lk by simp
      have dd: "dirs_ok ?d (sfx_key root x y s)" using r(4) s(1) nd' by (auto simp: dirs_ok_def)
      have cl: "cleaned (is_rooted root) (snd (sfx_key root x y s))"
        using key_of_cleaned [of p] s(1) by (simp add: sfx_key_def rk_def)
      have "tile_step root x y t ?d h" "fs_tv root h x y 0 = Some (reread t)"
        using put_link [OF d(1) Cons.prems(2) _ s(2) _ _ dd cl, of h] st1(2) d(2) s(1,3) r(3,5) nd ne lk g(1)
        by auto
      then show ?thesis using tile_step_trans [OF stg] by blast
    qed
    have fh: "tile_step root x y t f h" using tile_step_trans [OF st1(1)] step by blast
    have keep: "ent h (sfx_key root x y u) \<noteq> None" if "is_hex u" "ent f (sfx_key root x y u) \<noteq> None" for u
    proof -
      have "ent g (sfx_key root x y u) \<noteq> None" using that by (simp add: g(1))
      moreover have "sfx_key root x y u \<noteq> ?lk" using that(1) by auto
      ultimately show ?thesis using Rename_cases [OF 2] lk by auto
    qed
    show ?thesis
    proof (cases e2)
      case (Some e)
      then have "f' = h" using Cons.prems(4) 1 None 2 by simp
      then show ?thesis using fh step by simp
    next
      case e2: None
      then have rl: "relink h (full_path root x y) ps = (err, f')" using Cons.prems(4) 1 None 2 by simp
      have "relinkable root x y h q" if "q \<in> set ps" for q
        using Cons.prems(5) [of q] that keep unfolding relinkable_def by auto
      then have "tile_step root x y t h f' \<and> fs_tv root f' x y 0 = Some (reread t)"
        using Cons.IH [OF _ Cons.prems(2) _ rl] step by (auto simp: tile_step_def)
      then show ?thesis using tile_step_trans [OF fh] by blast
    qed
  qed
qed


lemma glob_names:
  assumes "tree f" "p \<in> set (glob_dot_star f (full_path root x y))"
  shows "\<exists>s. key_of p = sfx_key root x y s \<and> ent f (sfx_key root x y s) \<noteq> None"
proof -
  have full: "butlast (snd (full_key root x y)) = root_comps root @ tile_dir x y"
    "last (snd (full_key root x y)) = tile_base y" "fst (full_key root x y) = is_rooted root"
    by (simp_all add: full_key_def rk_def butlast_append)
  from assms(2) obtain k nd where k: "p = path_of (fst k) (snd k)" "(k, nd) \<in> set (AList.clearjunk (ents f))"
    "fst k = is_rooted root" "snd k \<noteq> []" "butlast (snd k) = root_comps root @ tile_dir x y"
    "has_prefix (last (snd k)) (tile_base y @ ''.'')"
    unfolding glob_dot_star_def key_of_full full Let_def by auto
  obtain s where s: "last (snd k) = tile_base y @ ''.'' @ s" using k(6) by (auto simp: has_prefix_iff)
  have "snd k = butlast (snd k) @ [last (snd k)]" using k(4) by simp
  then have ks: "k = sfx_key root x y s" using k(3,5) s by (simp add: sfx_key_def rk_def prod_eq_iff)
  have "map_of (ents f) k = Some nd"
    using k(2) by (metis distinct_clearjunk map_of_clearjunk map_of_is_SomeI)
  then have e: "ent f k \<noteq> None" using k(4) by (simp add: ent_def)
  then have "cleaned (fst k) (snd k)" using assms(1) by (simp add: tree_def)
  then have "key_of p = k" unfolding k(1) by (simp add: key_of_path)
  then show ?thesis using ks e by auto
qed

lemma parse_MarshalText:
  assumes "NumLeaves t \<le> 256"
  shows "parse_tile (MarshalText t) = Some (reread t)"
proof -
  have "unat (NumLeaves t) \<le> 256" using assms by (simp add: word_le_nat_alt)
  then show ?thesis by (simp add: parse_tile_def UnmarshalText_MarshalText reread_def)
qed

lemma tile_key_cleaned: "cleaned (is_rooted root) (snd (tile_key root x y ps))"
proof -
  have "cleaned (fst (tile_key root x y ps)) (snd (tile_key root x y ps))"
    using key_of_cleaned [of "JoinPair (TilePath root x y ps)"] unfolding key_of_tile .
  then show ?thesis by (simp add: tile_key_def full_key_def sfx_key_def rk_def split: if_splits)
qed

text \<open>Storing a tile, on every path through the function.\<close>

lemma StoreTile_fs:
  assumes "fs_ok (rootDir st) f" "0 < NumLeaves t" "NumLeaves t \<le> 256"
    "NumLeaves t = 256 \<or> fs_tv (rootDir st) f x y 0 = None" "StoreTile st f x y t = (err, f')"
  shows "tile_step (rootDir st) x y t f f' \<and>
    (err = None \<longrightarrow> fs_tv (rootDir st) f' x y (NumLeaves t mod 256) = Some (reread t))"
proof -
  let ?root = "rootDir st" and ?ps = "NumLeaves t mod 256"
  let ?tp = "JoinPair (TilePath ?root x y ?ps)"
  let ?s = "if ?ps = 0 then ''temp'' else sprintf_0x 2 (unat ?ps) @ ''.temp''"
  let ?tk = "sfx_key ?root x y ?s"
  obtain tDir tFile where tf: "TilePath ?root x y ?ps = (tDir, tFile)" by fastforce
  then have tp: "Join [tDir, tFile] = ?tp" "fst (TilePath ?root x y ?ps) = tDir" by (simp_all add: JoinPair_def)
  have nz: "NumLeaves t \<noteq> 0" "\<not> 256 < NumLeaves t" using assms(2,3) by auto
  obtain e1 f1 where 1: "os_MkdirAll f (fst (TilePath ?root x y ?ps)) = (e1, f1)" by fastforce
  note m = mkdir_tile_dir [OF assms(1) 1]
  have st1: "tile_step ?root x y t f f1" using m(1-4,8) by (simp add: tile_step_def tile_stored_refl)
  obtain e2 f2 where 2: "os_WriteFile f1 (?tp @ ''.temp'') (MarshalText t) = (e2, f2)" by fastforce
  obtain e3 f3 where 3: "os_Rename f2 (?tp @ ''.temp'') ?tp = (e3, f3)" by fastforce
  have run: "StoreTile st f x y t = (case e1 of Some e \<Rightarrow> (Some (wrapf ''failed to create directory'' e), f1)
      | None \<Rightarrow> (case e2 of Some e \<Rightarrow> (Some (wrapf ''failed to write temporary tile file'' e), f2)
        | None \<Rightarrow> (case e3 of Some e \<Rightarrow> (Some (wrapf ''failed to rename temporary tile file'' e), f3)
          | None \<Rightarrow> if NumLeaves t = 256 then relink f3 ?tp (glob_dot_star f3 ?tp) else (None, f3))))"
    using nz 1 2 3 by (cases e1; cases e2; cases e3) (simp_all only: StoreTile_def Let_def tf prod.case tp
        disj_not1 if_False option.case simp_thms fst_conv)
  have fullnone: "NumLeaves t = 256 \<or> ent f1 (full_key ?root x y) = None"
    using assms(4) fs_tv_None [OF assms(1), of x y 0] m(6) by (simp add: tile_key_def)
  have hexs: "\<not> is_hex ?s" by simp
  have nolink: "ent f1 ?tk \<noteq> Some (Symlink tg)" for tg
  proof
    assume l: "ent f1 ?tk = Some (Symlink tg)"
    note old = fs_okD(6) [OF m(1) l]
    then have "?ps \<noteq> 0" by (metis (full_types))
    moreover have "ent f1 (full_key ?root x y) \<noteq> None" using old by (auto simp: tile_file_def)
    ultimately show False using fullnone mod256_zero [OF assms(2,3)] by simp
  qed
  note w = write_temp [OF m(1) key_of_temp hexs nolink 2]
  note okf2 = same_files_ok [OF m(1) w(1,2)]
  have st2: "tile_step ?root x y t f f2"
    using w(5) by (intro tile_step_trans [OF st1 tile_step_same [OF m(1) w(1,2,3)]]) simp
  show ?thesis
  proof (cases "e1 = None \<and> e2 = None \<and> e3 = None")
    case False
    have "tile_step ?root x y t f f3" if "e3 \<noteq> None" using Rename_cases [OF 3] st2 that by auto
    then show ?thesis using run assms(5) False st1 st2 by (auto split: option.splits)
  next
    case True
    then have d1: "dirs_ok f1 (tile_key ?root x y ?ps)" using m(7) by (simp add: tile_key_def)
    have tk: "ent f2 ?tk = Some (File (MarshalText t))" using w(4) True by simp
    have ne: "?tk \<noteq> tile_key ?root x y ?ps"
    proof
      assume "?tk = tile_key ?root x y ?ps"
      then have "tile_key ?root x y ?ps = ?tk" by (rule sym)
      then have "?s = sprintf_0x 2 (unat ?ps)" unfolding tile_key_sfx by blast
      then have "is_hex ?s" unfolding is_hex_def by blast
      then show False using hexs by blast
    qed
    from Rename_cases [OF 3] True ne tk obtain
      r: "ent f2 (tile_key ?root x y ?ps) \<noteq> Some Dir" "dirs_ok f2 (tile_key ?root x y ?ps)"
      "f3 = put (tile_key ?root x y ?ps) (File (MarshalText t)) (del ?tk f2)"
      by (auto simp: key_of_temp key_of_tile)
    have fn2: "NumLeaves t = 256 \<or> ent f2 (full_key ?root x y) = None" using fullnone w(5) by simp
    have tkD: "ent f2 ?tk \<noteq> Some Dir" using tk by simp
    note pt = put_tile [OF conjunct1 [OF okf2] assms(2,3) parse_MarshalText [OF assms(3)] hexs tkD r(1,2)
        tile_key_cleaned fn2 r(3)]
    have st3: "tile_step ?root x y t f f3" using tile_step_trans [OF st2 pt(1)] .
    show ?thesis
    proof (cases "NumLeaves t = 256")
      case False
      then show ?thesis using run assms(5) True st3 pt(2) by simp
    next
      case 256: True
      have ok3: "fs_ok ?root f3" using st3 by (simp add: tile_step_def)
      have path: "?tp = full_path ?root x y" using 256 by (simp add: tile_path_full)
      have rl: "relink f3 (full_path ?root x y) (glob_dot_star f3 (full_path ?root x y)) = (err, f')"
        using run assms(5) True 256 path by simp
      have "relinkable ?root x y f3 p" if "p \<in> set (glob_dot_star f3 (full_path ?root x y))" for p
      proof -
        obtain s where s: "key_of p = sfx_key ?root x y s" "ent f3 (sfx_key ?root x y s) \<noteq> None"
          using glob_names [OF fs_okD(2) [OF ok3] \<open>p \<in> _\<close>] by blast
        then have "s \<noteq> ''temp''" using pt(3) 256 by auto
        then show ?thesis using s by (auto simp: relinkable_def)
      qed
      from relink_step [OF ok3 256 _ rl this] pt(2) 256
      have "tile_step ?root x y t f3 f' \<and> fs_tv ?root f' x y 0 = Some (reread t)" by simp
      then show ?thesis using tile_step_trans [OF st3] 256 by auto
    qed
  qed
qed

end
