(* ===== verification/FsLive.thy ===== *)
theory FsLive
  imports FsStore
begin

section \<open>The file-system storage works when nothing is in its way\<close>

text \<open>
  A healthy directory: no operation fails, no file stands where a directory of the layout belongs and
  no directory where a tile belongs, and there is no temporary link left over.  Reading, scanning and
  storing then succeed and leave it healthy; with that the file-system storage is an instance of both
  storage contracts.
\<close>

definition layout_dirs :: "string \<Rightarrow> fkey set" where
  "layout_dirs root = {k. \<exists>x y. k \<in> set (prefixes_of (rk root (tile_dir x y)))} \<union>
     {k. \<exists>q. k \<in> set (prefixes_of (rk root (butlast (seq_comps q))))}"

definition fs_healthy :: "string \<Rightarrow> os \<Rightarrow> bool" where
  "fs_healthy root f \<longleftrightarrow> (\<forall>p k. \<not> fault f p k) \<and>
     (\<forall>k \<in> layout_dirs root. ent f k = None \<or> ent f k = Some Dir) \<and>
     (\<forall>x y s. ent f (sfx_key root x y s) \<noteq> Some Dir) \<and> (\<forall>x y. ent f (sfx_key root x y ''link'') = None)"

lemma layout_dirs_keys:
  assumes "k \<in> layout_dirs root"
  shows "k \<noteq> sfx_key root x y s" "k \<noteq> full_key root x y" "k \<noteq> tile_key root x y ps"
proof -
  have len: "length (tile_dir a b) < length (tile_dir x y @ [c])"
    "length (butlast (seq_comps q)) < length (tile_dir x y @ [c])" for a b c q
    by (simp_all add: tile_dir_def seq_comps_def)
  have "k \<noteq> rk root (tile_dir x y @ [c])" for c
    using assms prefix_keys [OF _ len(1)] prefix_keys [OF _ len(2)] unfolding layout_dirs_def by blast
  then show "k \<noteq> sfx_key root x y s" "k \<noteq> full_key root x y" "k \<noteq> tile_key root x y ps"
    by (simp_all add: sfx_key_def full_key_def tile_key_def)
qed

lemma dir_err_live:
  assumes "\<And>j. 0 < j \<Longrightarrow> j < length cs \<Longrightarrow> ent f (r, take j cs) = None \<or> ent f (r, take j cs) = Some Dir"
  shows "dir_err f (r, cs) = None \<or> dir_err f (r, cs) = Some ErrNotExist"
proof (cases "find (\<lambda>j. ent f (r, take j cs) \<noteq> Some Dir) [0..<length cs]")
  case None
  then show ?thesis by (simp add: dir_err_def)
next
  case (Some j)
  then have j: "j < length cs" "ent f (r, take j cs) \<noteq> Some Dir" by (auto simp: find_Some_iff)
  then have "0 < j" by (cases j) simp_all
  then show ?thesis using assms [of j] j Some by (auto simp: dir_err_def)
qed

lemma dir_err_prefixes:
  assumes "\<And>k. k \<in> set (prefixes_of (rk root cs)) \<Longrightarrow> ent f k = None \<or> ent f k = Some Dir"
  shows "dir_err f (rk root (cs @ [c])) = None \<or> dir_err f (rk root (cs @ [c])) = Some ErrNotExist"
proof -
  let ?p = "root_comps root @ cs"
  have "ent f (is_rooted root, take j (?p @ [c])) = None \<or> ent f (is_rooted root, take j (?p @ [c])) = Some Dir"
    if "0 < j" "j < length (?p @ [c])" for j
  proof -
    have "(is_rooted root, take j ?p) \<in> set (prefixes_of (rk root cs))"
      unfolding prefixes_of_def rk_def set_map fst_conv snd_conv by (rule imageI) (use that in auto)
    moreover have "take j (?p @ [c]) = take j ?p" using that by simp
    ultimately show ?thesis using assms by metis
  qed
  from dir_err_live [OF this] show ?thesis by (simp add: rk_def)
qed

lemma healthyD:
  assumes "fs_healthy root f"
  shows "\<not> fault f p k" "k \<in> layout_dirs root \<Longrightarrow> ent f k = None \<or> ent f k = Some Dir"
    "ent f (sfx_key root x y s) \<noteq> Some Dir" "ent f (sfx_key root x y ''link'') = None"
  using assms unfolding fs_healthy_def by blast+

lemma GetTile_live:
  assumes "fs_ok (rootDir st) f" "fs_healthy (rootDir st) f" "GetTile st f x y n = Inl e"
  shows "e = ErrNotExist"
proof -
  let ?root = "rootDir st" and ?ps = "PartialTileSize x y n"
  have d: "k \<in> set (prefixes_of (rk ?root (tile_dir x y))) \<Longrightarrow> ent f k = None \<or> ent f k = Some Dir" for k
    using healthyD(2) [OF assms(2), of k] by (auto simp: layout_dirs_def)
  have "dir_err f (tile_key ?root x y ?ps) = None \<or> dir_err f (tile_key ?root x y ?ps) = Some ErrNotExist"
    using dir_err_prefixes [OF d, where c = "tile_base y"]
      dir_err_prefixes [OF d, where c = "tile_base y @ ''.'' @ sprintf_0x 2 (unat ?ps)"]
    by (auto simp: tile_key_def full_key_def sfx_key_def)
  then show ?thesis using read_tile [OF assms(1) healthyD(1) [OF assms(2)], of x y ?ps] assms(3)
    by (cases "fs_tv ?root f x y ?ps") (auto simp: GetTile_def Let_def)
qed

lemma ScanSequenced_live:
  assumes "fs_ok (rootDir st) f" "fs_healthy (rootDir st) f" "ScanSequenced st f b = Some (es, k, err)"
  shows "err = None"
proof (rule ccontr)
  let ?root = "rootDir st"
  assume "err \<noteq> None"
  then obtain m e where m: "os_ReadFile f (JoinPair (SeqPath ?root (of_nat m))) = Inl e" "\<not> errors_Is e ErrNotExist"
    using scan_loop_returns [OF assms(1), of b b "[]"] assms(3) by (auto simp: ScanSequenced_def)
  let ?q = "of_nat m :: u64"
  have sc: "seq_comps ?q = butlast (seq_comps ?q) @ [last (seq_comps ?q)]" by (simp add: seq_comps_def)
  have d: "k \<in> set (prefixes_of (rk ?root (butlast (seq_comps ?q)))) \<Longrightarrow> ent f k = None \<or> ent f k = Some Dir" for k
    using healthyD(2) [OF assms(2), of k] by (auto simp: layout_dirs_def)
  have de: "dir_err f (seq_key ?root ?q) = None \<or> dir_err f (seq_key ?root ?q) = Some ErrNotExist"
    using dir_err_prefixes [OF d, where c = "last (seq_comps ?q)"] sc unfolding seq_key_def by metis
  note ok = fs_okD [OF assms(1)]
  consider "ent f (seq_key ?root ?q) = None" | c where "ent f (seq_key ?root ?q) = Some (File c)"
    using ok(3) [of ?q] by auto
  then show False
  proof cases
    case 1
    then show False using m de healthyD(1) [OF assms(2)]
      by (auto simp: os_ReadFile_def key_of_seq follow_none)
  next
    case 2
    then show False using m follow_plain [OF ok(2) 2] healthyD(1) [OF assms(2)]
      by (simp add: os_ReadFile_def key_of_seq)
  qed
qed

subsection \<open>Storing\<close>

lemma mkdirs_live:
  "\<lbrakk>\<And>k. k \<in> set ks \<Longrightarrow> ent f k = None \<or> ent f k = Some Dir; \<And>p k. \<not> fault f p k; mkdirs f ks = (err, f')\<rbrakk> \<Longrightarrow> err = None"
proof (induction ks arbitrary: f)
  case (Cons k ks)
  show ?case
  proof (cases "ent f k = None")
    case True
    have "mkdirs (put k Dir f) ks = (err, f')" using Cons.prems True by simp
    then show ?thesis using Cons.IH [of "put k Dir f"] Cons.prems(1,2) by auto
  next
    case False
    then have "ent f k = Some Dir" using Cons.prems(1) [of k] by auto
    then show ?thesis using Cons.IH [of f] Cons.prems by simp
  qed
qed simp

lemma healthy_mkdir:
  assumes "fs_healthy root f" "fs_ok root f" "os_MkdirAll f (fst (TilePath root x y ps)) = (err, f')"
  shows "err = None" "fs_healthy root f'"
proof -
  have path: "fst (TilePath root x y ps) = path_of (is_rooted root) (root_comps root @ tile_dir x y)"
    using Join_root [of "tile_dir x y" root] normal_tile_dir [of x y]
    by (simp add: TilePath_def tile_dir_def Let_def)
  have key: "key_of (fst (TilePath root x y ps)) = rk root (tile_dir x y)"
    unfolding path using normal_tile_dir by (simp add: key_of_rk)
  have "k \<in> set (prefixes_of (rk root (tile_dir x y))) \<Longrightarrow> k \<in> layout_dirs root" for k
    by (auto simp: layout_dirs_def)
  then show "err = None" using mkdirs_live [of "prefixes_of (rk root (tile_dir x y))" f err f'] assms(3) healthyD(1,2) [OF assms(1)]
    unfolding os_MkdirAll_def key by blast
  note m = mkdir_tile_dir [OF assms(2,3)] and mk = MkdirAll_sound [OF fs_okD(2) [OF assms(2)] assms(3)]
  show "fs_healthy root f'" unfolding fs_healthy_def m(4,5)
    using healthyD [OF assms(1)] mk(3) by metis
qed


lemma dirs_ok_snoc: "dirs_ok f (rk root (cs @ [c])) = dirs_ok f (rk root (cs @ [d]))"
  by (simp add: dirs_ok_def rk_def)

lemma dirs_ok_sfx: "dirs_ok f (sfx_key root x y s) = dirs_ok f (full_key root x y)"
  unfolding sfx_key_def full_key_def by (rule dirs_ok_snoc)

lemma dirs_ok_tile: "dirs_ok f (tile_key root x y ps) = dirs_ok f (full_key root x y)"
  by (simp add: tile_key_def dirs_ok_sfx)

lemma dirs_ok_put:
  "dirs_ok f k \<Longrightarrow> ent f k' \<noteq> Some Dir \<Longrightarrow> dirs_ok (put k' n f) k" "dirs_ok f k \<Longrightarrow> ent f k' \<noteq> Some Dir \<Longrightarrow> dirs_ok (del k' f) k"
  by (auto simp: dirs_ok_def)

lemma healthy_put:
  assumes "fs_healthy root f" "n \<noteq> Dir" "k = tile_key root x y ps \<or> (k = sfx_key root x y s \<and> s \<noteq> ''link'')"
  shows "fs_healthy root (put k n f)"
proof -
  have "k' \<noteq> k" if "k' \<in> layout_dirs root" for k' using layout_dirs_keys [OF that] assms(3) by blast
  moreover have "sfx_key root a b ''link'' \<noteq> k" for a b
    using assms(3) tile_key_sfx [of root x y ps a b "''link''"] by auto
  ultimately show ?thesis using assms(1,2) unfolding fs_healthy_def by auto
qed

lemma healthy_del: "fs_healthy root f \<Longrightarrow> fs_healthy root (del (sfx_key root x y s) f)"
  unfolding fs_healthy_def by auto

lemma relink_live:
  "\<lbrakk>fs_healthy root f; dirs_ok f (full_key root x y);
    \<And>p. p \<in> set ps \<Longrightarrow> \<exists>s. key_of p = sfx_key root x y s \<and> s \<noteq> ''link'';
    relink f (full_path root x y) ps = (err, f')\<rbrakk> \<Longrightarrow> err = None \<and> fs_healthy root f'"
proof (induction ps arbitrary: f)
  case (Cons p ps)
  let ?lk = "sfx_key root x y ''link''" and ?tmp = "full_path root x y @ ''.link''"
  let ?sl = "Symlink (full_path root x y)"
  have lk: "key_of ?tmp = ?lk" using full_path_suffix [of "''link''" root x y] by simp
  obtain s where s: "key_of p = sfx_key root x y s" "s \<noteq> ''link''" using Cons.prems(3) [of p] by auto
  note hd = healthyD [OF Cons.prems(1)]
  let ?g = "put ?lk ?sl f" and ?k = "sfx_key root x y s"
  have 1: "os_Symlink f (full_path root x y) ?tmp = (None, ?g)"
  proof -
    have "dir_err f ?lk = None" using Cons.prems(2) by (simp add: dir_err_None dirs_ok_sfx)
    then show ?thesis using hd(1,4) unfolding os_Symlink_def lk by simp
  qed
  have dg: "dirs_ok ?g (full_key root x y)" using Cons.prems(2) hd(4) by (intro dirs_ok_put) auto
  let ?h = "put ?k ?sl (del ?lk ?g)"
  have dg': "dir_err ?g ?k = None" "dir_err ?g ?lk = None" using dg by (simp_all add: dir_err_None dirs_ok_sfx)
  have eg: "ent ?g ?k \<noteq> Some Dir" "ent ?g ?lk = Some ?sl" "?lk \<noteq> ?k" using hd(3) [of x y s] s(2) by auto
  have 2: "os_Rename ?g ?tmp p = (None, ?h)"
    using dg' eg hd(1) unfolding os_Rename_def lk s(1) by simp
  have "fs_healthy root ?h"
  proof -
    have "ent ?h j = (if j = ?k then Some ?sl else ent f j)" for j using hd(4) [of x y] by auto
    then show ?thesis using Cons.prems(1) s(2) layout_dirs_keys(1) [of _ root x y s] unfolding fs_healthy_def by auto
  qed
  moreover have "dirs_ok ?h (full_key root x y)" using dg eg Cons.prems(2) hd(4) by (intro dirs_ok_put) auto
  ultimately show ?case using Cons.IH [of ?h] Cons.prems(3,4) 1 2 by simp
qed simp

lemma StoreTile_live:
  assumes "fs_ok (rootDir st) f" "fs_healthy (rootDir st) f" "0 < NumLeaves t" "NumLeaves t \<le> 256"
    "NumLeaves t = 256 \<or> fs_tv (rootDir st) f x y 0 = None" "StoreTile st f x y t = (err, f')"
  shows "err = None \<and> fs_healthy (rootDir st) f'"
proof -
  let ?root = "rootDir st" and ?ps = "NumLeaves t mod 256"
  let ?tp = "JoinPair (TilePath ?root x y ?ps)"
  define s where "s = (if ?ps = 0 then ''temp'' else sprintf_0x 2 (unat ?ps) @ ''.temp'')"
  let ?tk = "sfx_key ?root x y s" and ?raw = "MarshalText t" and ?kp = "tile_key ?root x y ?ps"
  have hexs: "\<not> is_hex s" "s \<noteq> ''link''" by (simp_all add: s_def)
  have keys: "key_of (?tp @ ''.temp'') = ?tk" "key_of ?tp = ?kp"
    using key_of_temp [of ?root x y ?ps] key_of_tile by (auto simp: s_def)
  obtain tDir tFile where tf: "TilePath ?root x y ?ps = (tDir, tFile)" by fastforce
  then have tp: "Join [tDir, tFile] = ?tp" "fst (TilePath ?root x y ?ps) = tDir" by (simp_all add: JoinPair_def)
  obtain e1 f1 where 1: "os_MkdirAll f tDir = (e1, f1)" by fastforce
  note m = mkdir_tile_dir [OF assms(1) 1 [folded tp(2)]] and hm = healthy_mkdir [OF assms(2,1) 1 [folded tp(2)]]
  have d1: "dirs_ok f1 (full_key ?root x y)" using m(7) [OF hm(1)] by blast
  have fullnone: "NumLeaves t = 256 \<or> ent f1 (full_key ?root x y) = None"
    using assms(5) fs_tv_None [OF assms(1), of x y 0] m(6) by (simp add: tile_key_def)
  have nolink: "ent f1 ?tk \<noteq> Some (Symlink tg)" for tg
  proof
    assume l: "ent f1 ?tk = Some (Symlink tg)"
    note old = fs_okD(6) [OF m(1) l]
    have "?ps \<noteq> 0" using old unfolding s_def by (metis (full_types))
    moreover have "ent f1 (full_key ?root x y) \<noteq> None" using old by (auto simp: tile_file_def)
    ultimately show False using fullnone mod256_zero [OF assms(3,4)] by simp
  qed
  have noD: "ent f1 ?tk \<noteq> Some Dir" "ent f1 ?kp \<noteq> Some Dir"
    using healthyD(3) [OF hm(2)] fs_okD(7) [OF m(1), of x y ?ps] by (auto simp: tile_file_def)
  let ?f2 = "put ?tk (File ?raw) f1"
  have wk: "write_key 40 f1 ?tk = Inr ?tk"
  proof -
    have "dir_err f1 ?tk = None" using d1 by (simp add: dir_err_None dirs_ok_sfx)
    then show ?thesis using nolink noD(1) by (simp add: write_key.simps split: option.splits fnode.splits)
  qed
  have 2: "os_WriteFile f1 (?tp @ ''.temp'') ?raw = (None, ?f2)"
    using wk healthyD(1) [OF hm(2)] unfolding os_WriteFile_def keys by simp
  let ?f3 = "put ?kp (File ?raw) (del ?tk ?f2)"
  have ne: "?kp \<noteq> ?tk" using hexs(1) by (auto simp: tile_key_sfx)
  have d2: "dirs_ok ?f2 (full_key ?root x y)" using d1 noD(1) by (intro dirs_ok_put)
  have noD2: "ent ?f2 ?kp \<noteq> Some Dir" "ent ?f2 ?tk = Some (File ?raw)" using noD(2) ne by simp_all
  have de2: "dir_err ?f2 ?kp = None" "dir_err ?f2 ?tk = None"
    using d2 by (simp_all add: dir_err_None dirs_ok_sfx dirs_ok_tile)
  have 3: "os_Rename ?f2 (?tp @ ''.temp'') ?tp = (None, ?f3)"
    using noD2 de2 ne healthyD(1) [OF hm(2)] unfolding os_Rename_def keys by auto
  have run: "StoreTile st f x y t = (if NumLeaves t = 256 then relink ?f3 ?tp (glob_dot_star ?f3 ?tp) else (None, ?f3))"
  proof -
    have nz: "NumLeaves t \<noteq> 0" "\<not> 256 < NumLeaves t" using assms(3,4) by auto
    show ?thesis using nz
      by (simp only: StoreTile_def Let_def tf prod.case tp 1 hm(1) 2 [unfolded tf] 3 [unfolded tf] option.case disj_not1 simp_thms if_False)
  qed
  have h3: "fs_healthy ?root ?f3"
    using hexs(2) by (intro healthy_put healthy_del hm(2)) auto
  show ?thesis
  proof (cases "NumLeaves t = 256")
    case False
    then show ?thesis using run assms(6) h3 by simp
  next
    case True
    have path: "?tp = full_path ?root x y" using True by (simp add: tile_path_full)
    have tr: "tree ?f3"
    proof -
      have t2: "tree ?f2" using write_temp(2) [OF m(1) keys(1) hexs(1) nolink 2] .
      have td: "tree (del ?tk ?f2)" using tree_del [OF t2] noD2(2) by simp
      have eD: "ent (del ?tk ?f2) ?kp \<noteq> Some Dir" using noD2(1) by auto
      have fk: "fst ?kp = is_rooted ?root" by (simp add: tile_key_def full_key_def sfx_key_def rk_def)
      have "dirs_ok (del ?tk ?f2) ?kp" using d1 noD(1) by (intro dirs_ok_put) (auto simp: dirs_ok_tile)
      then show ?thesis using tree_put [OF td eD] tile_key_cleaned [of ?root x y ?ps] fk by simp
    qed
    have d3: "dirs_ok ?f3 (full_key ?root x y)" using d1 noD ne by (intro dirs_ok_put) auto
    have names: "\<exists>u. key_of p = sfx_key ?root x y u \<and> u \<noteq> ''link''"
      if "p \<in> set (glob_dot_star ?f3 (full_path ?root x y))" for p
      using glob_names [OF tr that] healthyD(4) [OF h3, of x y] by fastforce
    have rl: "relink ?f3 (full_path ?root x y) (glob_dot_star ?f3 (full_path ?root x y)) = (err, f')"
      using trans [OF sym [OF run [unfolded if_P [OF True] path]] assms(6)] .
    show ?thesis by (rule relink_live [OF h3 d3 names rl])
  qed
qed


subsection \<open>The storage interface\<close>

text \<open>A call that does not return is not an answer of the interface; the lemmas above show that it
  does not happen here.\<close>

definition fs_storage :: "(fsStorage \<times> os) Storage" where
  "fs_storage = \<lparr>
     st_GetTile = (\<lambda>(st, f) level index lsize. GetTile st f level index lsize),
     st_StoreTile = (\<lambda>(st, f) level index t. map_prod id (Pair st) (StoreTile st f level index t)),
     st_WriteCheckpoint = (\<lambda>(st, f) raw. map_prod id (Pair st) (WriteCheckpoint st f raw)),
     st_Sequence = (\<lambda>(st, f) leafhash leaf.
       case Sequence st f leafhash leaf of
         Some (r, st', f') \<Rightarrow> (r, st', f')
       | None \<Rightarrow> ((0, Some (Panic ''no return'')), st, f)),
     st_ScanSequenced = (\<lambda>(st, f) b.
       case ScanSequenced st f b of Some r \<Rightarrow> r | None \<Rightarrow> ([], 0, Some (Panic ''no return'')))\<rparr>"

definition fs_inv :: "fsStorage \<times> os \<Rightarrow> bool" where
  "fs_inv s = fs_ok (rootDir (fst s)) (snd s)"

definition fs_view :: "fsStorage \<times> os \<Rightarrow> tile_view" where
  "fs_view s = fs_tv (rootDir (fst s)) (snd s)"

definition fs_entries :: "fsStorage \<times> os \<Rightarrow> nat \<Rightarrow> bytes option" where
  "fs_entries s = fs_entry (rootDir (fst s)) (snd s)"

lemmas fs_storage_defs = fs_storage_def fs_inv_def fs_view_def fs_entries_def

interpretation fs: log_storage fs_storage fs_inv fs_view fs_entries
proof (unfold_locales, goal_cases)
  case (1 s x y n t)
  then show ?case using GetTile_fs(1) [of "fst s" "snd s" x y n t]
    by (simp add: fs_storage_defs case_prod_beta)
next
  case (2 s x y n e)
  then show ?case using GetTile_fs(2) [of "fst s" "snd s" x y n e]
    by (simp add: fs_storage_defs case_prod_beta)
next
  case (3 s t x y err s')
  then obtain f' where f': "StoreTile (fst s) (snd s) x y t = (err, f')" "s' = (fst s, f')"
    by (cases "StoreTile (fst s) (snd s) x y t") (auto simp: fs_storage_def case_prod_beta)
  then show ?case using 3 StoreTile_fs [of "fst s" "snd s" t x y err f']
    by (auto simp: fs_storage_defs tile_step_def)
next
  case (4 s b es k)
  obtain m es' n err where m: "scan_loop (rootDir (fst s)) (snd s) b b [] = Some (es', n, err)"
    "unat b \<le> m" "m < 2 ^ 64" "es' = map (\<lambda>i. (of_nat i, the (fs_entries s i))) [unat b..<m]"
    "\<forall>i. unat b \<le> i \<and> i < m \<longrightarrow> fs_entries s i \<noteq> None" "n = of_nat m - b"
    "err = None \<longrightarrow> fs_entries s m = None"
    using scan_loop_returns [of "rootDir (fst s)" "snd s" b b "[]"] 4(1) unfolding fs_inv_def fs_entries_def by auto
  have r: "es = es'" "k = n" "err = None"
    using 4(2) m(1) by (auto simp: fs_storage_def ScanSequenced_def case_prod_beta)
  have "of_nat m - b = (of_nat (m - unat b) :: u64)" using m(2) by (simp add: of_nat_diff)
  then show ?case using m r by (intro exI [of _ m]) auto
next
  case (5 s j)
  then show ?case using fs_entry_bound by (simp add: fs_inv_def fs_entries_def)
qed

interpretation fs: healthy_storage fs_storage fs_inv fs_view fs_entries "\<lambda>s. fs_healthy (rootDir (fst s)) (snd s)"
proof (unfold_locales, goal_cases)
  case (1 s x y n e)
  then show ?case using GetTile_live [of "fst s" "snd s" x y n e]
    by (simp add: fs_storage_defs case_prod_beta)
next
  case (2 s b es k err)
  obtain r where r: "ScanSequenced (fst s) (snd s) b = Some r"
    using scan_loop_returns [of "rootDir (fst s)" "snd s" b b "[]"] 2(1) by (auto simp: fs_inv_def ScanSequenced_def)
  then show ?case using 2 ScanSequenced_live [of "fst s" "snd s" b es k err]
    by (simp add: fs_storage_defs case_prod_beta)
next
  case (3 s t x y err s')
  then obtain f' where f': "StoreTile (fst s) (snd s) x y t = (err, f')" "s' = (fst s, f')"
    by (cases "StoreTile (fst s) (snd s) x y t") (auto simp: fs_storage_def case_prod_beta)
  then show ?case using 3 StoreTile_live [of "fst s" "snd s" t x y err f']
    by (auto simp: fs_storage_defs)
qed

end
