(* ===== verification/FsTheorems.thy ===== *)
theory FsTheorems
  imports FsLive
begin

section \<open>Integrating a log on the file system, and reading it back\<close>

text \<open>C4: \<open>Integrate\<close> on the file-system storage, for a checkpoint of size \<open>n\<close> and \<open>m\<close> sequenced
  entries: if it returns a checkpoint, its size is \<open>m\<close> and its hash is the RFC 6962 root of the
  sequenced entries, and the tiles then hold the tree of size \<open>m\<close>; it returns nil only if there is
  nothing to integrate and then changes nothing; and whatever it returns, errors at any file operation
  included, every tree that could be read before can be read afterwards and the entries are
  unchanged.\<close>

theorem Integrate_fs_correct:
  assumes "compact_range (RF (HashChildren h)) (HashChildren h) rep" "permutes iter" "nonempty_hashes h"
    "log_ready fs_inv fs_view fs_entries h (unat (Size c)) m s" "Integrate RF iter fs_storage h c s = (r, s')"
  shows "integrated fs_inv fs_view fs_entries h (unat (Size c)) m s r s'"
  by (rule fs.Integrate_sound [OF assms])

text \<open>C5: On a healthy directory \<open>Integrate\<close> succeeds, and leaves the directory healthy.\<close>

theorem Integrate_fs_succeeds:
  assumes "compact_range (RF (HashChildren h)) (HashChildren h) rep" "permutes iter" "nonempty_hashes h"
    "log_ready fs_inv fs_view fs_entries h (unat (Size c)) m s" "fs_healthy (rootDir (fst s)) (snd s)"
    "Integrate RF iter fs_storage h c s = (r, s')"
  shows "is_ok r \<and> fs_healthy (rootDir (fst s')) (snd s')"
  by (rule fs.Integrate_live [OF assms(1,2,4,5,6,3)])

subsection \<open>The client reads what the storage wrote\<close>

text \<open>A client that fetches files from a directory.\<close>

definition dir_fetcher :: "os \<Rightarrow> string \<Rightarrow> Fetcher" where
  "dir_fetcher f root = (\<lambda>p. os_ReadFile f (Join [root, p]))"

lemma Join_relative:
  assumes "cs \<noteq> []" "\<forall>c \<in> set cs. normal_comp c"
  shows "Join [root, path_of False cs] = path_of (is_rooted root) (root_comps root @ cs)"
proof -
  obtain c cs' where cs: "cs = c # cs'" "c \<noteq> []" using assms by (cases cs) (auto simp: normal_comp_def)
  have ne: "join_with ''/'' cs \<noteq> []" using cs by (cases "cs' = []") (simp_all add: join_with_Cons)
  then have p: "path_of False cs = join_with ''/'' cs" by (simp add: path_of_def Let_def)
  have "Join [root, join_with ''/'' cs] = Join (root # cs)"
  proof (cases "root = []")
    case True
    have "Join [[], join_with ''/'' cs] = Clean (join_with ''/'' cs)" using ne by (simp add: Join_def)
    moreover have "Join ([] # cs) = Clean (join_with ''/'' cs)" using cs by (simp add: Join_def)
    ultimately show ?thesis using True by simp
  next
    case False
    then show ?thesis using assms(1) by (simp add: Join_def join_with_Cons)
  qed
  then show ?thesis unfolding p using Join_root [OF assms] by simp
qed

lemma client_GetTile: "newTileFetcher (dir_fetcher f (rootDir st)) n x y = GetTile st f x y n"
proof -
  have "Join [rootDir st, JoinPair (TilePath [] x y ps)] = JoinPair (TilePath (rootDir st) x y ps)" for ps
  proof -
    have nil: "is_rooted [] = False" "root_comps [] = []"
      by (simp_all add: is_rooted_def has_prefix_def root_comps_def)
    show ?thesis using normal_tile_comps [of _ x y ps]
      unfolding TilePath_comps nil append_Nil by (intro Join_relative) (auto simp: tile_comps_dir)
  qed
  then show ?thesis by (simp add: newTileFetcher_def GetTile_def dir_fetcher_def Let_def)
qed

text \<open>A client that reads tiles as files below the log's root directory gets, for every level,
  index and log size, exactly what the storage's own \<open>GetTile\<close> returns, errors included.\<close>

theorem client_tile_equals_storage:
  "newTileFetcher (dir_fetcher f (rootDir st)) n = (\<lambda>x y. GetTile st f x y n)"
  by (intro ext) (rule client_GetTile)

lemma client_tiles_hold:
  assumes "log_ready fs_inv fs_view fs_entries h (unat n) m (st, f)" "fs_healthy (rootDir st) f"
  shows "tiles_hold (HashChildren h) (leaf_fn h (fs_entries (st, f))) (unat n)
    (newTileFetcher (dir_fetcher f (rootDir st)) n)"
proof -
  note ready = log_readyD [OF assms(1)]
  have ok: "fs_ok (rootDir st) f" using ready(1) by (simp add: fs_inv_def)
  have "gt_ok (HashChildren h) (leaf_fn h (fs_entries (st, f))) (unat n) m (\<lambda>x y. GetTile st f x y n)"
    using fs.gt_ok_storage [OF ready(1,4,5,3)] by (simp add: fs_storage_def)
  moreover have "GetTile st f x y n = Inl e \<Longrightarrow> os_IsNotExist e" for x y e
    using GetTile_live [OF ok assms(2)] by fastforce
  ultimately show ?thesis
    unfolding client_GetTile [abs_def] by (intro gt_ok_tiles_hold) auto
qed

text \<open>C1: End to end: a log is integrated on a healthy directory and a client reads that directory.
  For every entry of the log the client's proof builder accepts the new checkpoint and makes an
  inclusion proof that verifies the leaf hash of that entry against the checkpoint.\<close>

theorem integrated_log_serves_proofs:
  assumes "\<And>g. compact_range (RF g) g (rep g)" "merkle_proofs P h" "permutes iter" "nonempty_hashes h"
    "log_ready fs_inv fs_view fs_entries h (unat (Size c)) m s" "fs_healthy (rootDir (fst s)) (snd s)"
    "unat (Size c) < m" "i < m"
  shows "\<exists>c' st f pb p pb'. Integrate RF iter fs_storage h c s = (Inr (Some c'), st, f) \<and> unat (Size c') = m \<and>
    NewProofBuilder RF c' (HashChildren h) (dir_fetcher f (rootDir st)) = Inr pb \<and>
    InclusionProof P pb (of_nat i) = (Inr p, pb') \<and>
    VerifyInclusion P h (of_nat i) (Size c') (leaf_fn h (fs_entries s) i) p (Hash c') = None"
proof -
  let ?hc = "HashChildren h" and ?lf = "leaf_fn h (fs_entries s)"
  obtain r st f where run: "Integrate RF iter fs_storage h c s = (r, st, f)" by (metis prod_cases3)
  note sound = fs.Integrate_sound [OF assms(1,3,4,5) run]
  note live = fs.Integrate_live [OF assms(1,3,5,6) run assms(4)]
  have m64: "m < 2 ^ 64" using fs.log_length_bound log_readyD(1,2) [OF assms(5)] by blast
  obtain c' where c': "r = Inr (Some c')" "c' = \<lparr>Origin = [], Size = of_nat m, Hash = mth ?hc ?lf 0 m\<rparr>"
    and rd: "log_ready fs_inv fs_view fs_entries h m m (st, f)" and ent: "fs_entries (st, f) = fs_entries s"
    using sound live assms(7) by (cases r; cases "projr r") (auto simp: integrated_def)
  have size: "unat (Size c') = m" using m64 by (simp add: c'(2) unat_of_nat_u64)
  have hold: "tiles_hold ?hc ?lf (unat (Size c')) (newTileFetcher (dir_fetcher f (rootDir st)) (Size c'))"
    using client_tiles_hold [of h "Size c'" m st f] rd live size ent by simp
  have i64: "i < 2 ^ 64" using assms(8) m64 by linarith
  then have ui: "unat (of_nat i :: u64) = i" by (rule unat_of_nat_u64)
  have "0 < m" using assms(8) by simp
  then have root: "Hash c' = root_of ?hc ?lf (unat (Size c'))" using size by (simp add: c'(2) root_of_def)
  obtain pb where pb: "NewProofBuilder RF c' ?hc (dir_fetcher f (rootDir st)) = Inr pb" "builder_ok ?hc ?lf pb" "cp pb = c'"
    using NewProofBuilder_cases [of RF ?hc "rep ?hc" ?lf c' "dir_fetcher f (rootDir st)"] assms(1) hold root by auto
  have "of_nat i < Size (cp pb)" using pb(3) size ui assms(8) by (simp add: word_less_nat_alt)
  from merkle_proofs.InclusionProof_verifies [OF assms(2) pb(2) this]
  obtain p pb' where "InclusionProof P pb (of_nat i) = (Inr p, pb')"
    "VerifyInclusion P h (of_nat i) (Size c') (?lf i) p (mth ?hc ?lf 0 m) = None"
    using pb(3) size ui by auto
  then show ?thesis using run c' size pb(1) by auto
qed

end
