(* ===== verification/Examples.thy ===== *)
theory Examples
  imports FsTheorems
begin

section \<open>A small log: the properties at concrete inputs\<close>

text \<open>A hash function that keeps its arguments, a directory with one sequenced entry, and a tree of
  two leaves in one tile.\<close>

definition demo_hasher :: hasher where
  "demo_hasher = \<lparr>HashLeaf = (\<lambda>e. ''L'' @ e), HashChildren = (\<lambda>a b. ''N'' @ a @ b), EmptyRoot = ''E''\<rparr>"

definition demo_fs :: os where
  "demo_fs = \<lparr>ents =
     [((True, [''l'']), Dir), ((True, [''l'', ''seq'']), Dir), ((True, [''l'', ''seq'', ''00'']), Dir),
      ((True, [''l'', ''seq'', ''00'', ''00'']), Dir), ((True, [''l'', ''seq'', ''00'', ''00'', ''00'']), Dir),
      ((True, [''l'', ''seq'', ''00'', ''00'', ''00'', ''00'']), Dir),
      ((True, [''l'', ''seq'', ''00'', ''00'', ''00'', ''00'', ''00'']), File ''x'')],
     fault = (\<lambda>_ _. False)\<rparr>"

definition demo_st :: fsStorage where
  "demo_st = \<lparr>rootDir = ''/l'', nextSeq = 0\<rparr>"

lemma demo_nonempty: "nonempty_hashes demo_hasher"
  by (simp add: nonempty_hashes_def demo_hasher_def)

lemma demo_rk: "rk ''/l'' cs = (True, ''l'' # cs)"
  by (simp add: rk_def is_rooted_def has_prefix_def root_comps_def clean_comps_def clean_push_def)

lemma seq_comps_0: "seq_comps 0 = [''seq'', ''00'', ''00'', ''00'', ''00'', ''00'']"
  by (simp add: seq_comps_def byte_at_eq sprintf_byte)

lemma demo_ent_short: "length (snd k) \<le> 6 \<Longrightarrow> ent demo_fs k = None \<or> ent demo_fs k = Some Dir"
  by (auto simp: ent_def demo_fs_def)

lemma demo_ent_long: "length (snd k) = 7 \<Longrightarrow>
    ent demo_fs k = (if k = rk ''/l'' (seq_comps 0) then Some (File ''x'') else None)"
  by (auto simp: ent_def demo_fs_def demo_rk seq_comps_0)

lemma demo_keys:
  "ent demo_fs (sfx_key ''/l'' x y s) = None" "ent demo_fs (full_key ''/l'' x y) = None"
  "ent demo_fs (seq_key ''/l'' q) = (if q = 0 then Some (File ''x'') else None)"
proof -
  have l: "length (snd (sfx_key ''/l'' x y s)) = 7" "length (snd (full_key ''/l'' x y)) = 7"
    "length (snd (seq_key ''/l'' q)) = 7"
    by (simp_all add: sfx_key_def full_key_def seq_key_def demo_rk tile_dir_def seq_comps_def)
  show "ent demo_fs (sfx_key ''/l'' x y s) = None" "ent demo_fs (full_key ''/l'' x y) = None"
    unfolding demo_ent_long [OF l(1)] demo_ent_long [OF l(2)]
    by (simp_all add: sfx_key_def full_key_def tile_dir_def seq_comps_def)
  show "ent demo_fs (seq_key ''/l'' q) = (if q = 0 then Some (File ''x'') else None)"
    using demo_ent_long [OF l(3)] by (simp add: seq_key_def seq_comps_inj)
qed

abbreviation demo_path :: "string list" where
  "demo_path \<equiv> [''l'', ''seq'', ''00'', ''00'', ''00'', ''00'', ''00'']"

lemma demo_names: "map fst (ents demo_fs) = map (\<lambda>j. (True, take j demo_path)) [1..<8]"
  by (simp add: demo_fs_def upt_rec)

lemma demo_dirs: "j < 7 \<Longrightarrow> ent demo_fs (r, take j demo_path) = (if j = 0 \<or> r then Some Dir else None)"
  using demo_ent_short [of "(r, take j demo_path)"]
  by (auto simp: ent_def demo_fs_def less_Suc_eq numeral_eq_Suc)

lemma demo_tree: "tree demo_fs"
  unfolding tree_def
proof (intro allI impI)
  fix k assume k: "ent demo_fs k \<noteq> None"
  show "cleaned (fst k) (snd k) \<and> dirs_ok demo_fs k"
  proof (cases "snd k = []")
    case True
    then show ?thesis by (simp add: cleaned_def dirs_ok_def)
  next
    case False
    then have "k \<in> set (map fst (ents demo_fs))"
      using k by (metis (no_types, lifting) ent_def list.set_map map_of_eq_None_iff)
    then obtain j where j: "k = (True, take j demo_path)" "j < 8" unfolding demo_names by auto
    have "\<forall>c \<in> set demo_path. normal_comp c" by (simp add: normal_comp_def)
    then have "\<forall>c \<in> set (take j demo_path). normal_comp c" by (meson in_set_takeD)
    then have "cleaned True (take j demo_path)"
      unfolding cleaned_def by (intro exI [of _ 0] exI [of _ "take j demo_path"]) simp
    moreover have "dirs_ok demo_fs k" unfolding dirs_ok_def
    proof (intro allI impI)
      fix i assume i: "i < length (snd k)"
      then have "i < 7" "i < j" using j by auto
      then have "i < 7" "take i (snd k) = take i demo_path" using j(1) by (simp_all add: min_absorb1)
      then show "ent demo_fs (fst k, take i (snd k)) = Some Dir" using demo_dirs [of i True] j by simp
    qed
    ultimately show ?thesis using j by simp
  qed
qed

lemma demo_ok: "fs_inv (demo_st, demo_fs)"
  using demo_tree by (simp add: fs_inv_def demo_st_def fs_ok_def demo_keys is_rooted_def has_prefix_def)

lemma demo_healthy: "fs_healthy (rootDir demo_st) demo_fs"
proof -
  have "length (snd k) \<le> 6" if "k \<in> layout_dirs ''/l''" for k
    using that by (auto simp: layout_dirs_def prefixes_of_def demo_rk tile_dir_def seq_comps_def)
  then show ?thesis using demo_ent_short
    by (auto simp: fs_healthy_def demo_st_def demo_keys) (simp_all add: demo_fs_def)
qed

lemma demo_ready: "log_ready fs_inv fs_view fs_entries demo_hasher 0 1 (demo_st, demo_fs)"
proof -
  have "fs_view (demo_st, demo_fs) = (\<lambda>x y ps. None)"
    by (simp add: fun_eq_iff fs_view_def demo_st_def fs_tv_def tile_key_def demo_keys)
  moreover have "log_length (fs_entries (demo_st, demo_fs)) 1"
    by (simp add: log_length_def fs_entries_def demo_st_def fs_entry_def demo_keys)
  ultimately show ?thesis using demo_ok all_good_empty holds_tree_empty by (simp add: log_ready_def)
qed

theorem Integrate_fs_correct_witness:
  "integrated fs_inv fs_view fs_entries demo_hasher 0 1 (demo_st, demo_fs)
     (fst (Integrate ref_compact id fs_storage demo_hasher zero_checkpoint (demo_st, demo_fs)))
     (snd (Integrate ref_compact id fs_storage demo_hasher zero_checkpoint (demo_st, demo_fs)))"
  using Integrate_fs_correct [of ref_compact demo_hasher "ref_rep (HashChildren demo_hasher)" id zero_checkpoint 1
      "(demo_st, demo_fs)", OF ref.compact_range_axioms permutes_id(1) demo_nonempty _ prod.collapse [symmetric]]
    demo_ready by (simp add: zero_checkpoint_def)

theorem Integrate_fs_succeeds_witness:
  "is_ok (fst (Integrate ref_compact id fs_storage demo_hasher zero_checkpoint (demo_st, demo_fs)))"
  using Integrate_fs_succeeds [of ref_compact demo_hasher "ref_rep (HashChildren demo_hasher)" id zero_checkpoint 1
      "(demo_st, demo_fs)", OF ref.compact_range_axioms permutes_id(1) demo_nonempty _ _ prod.collapse [symmetric]]
    demo_ready demo_healthy by (simp add: zero_checkpoint_def)

theorem integrated_log_serves_proofs_witness:
  "\<exists>c' st f pb p pb'. Integrate ref_compact id fs_storage demo_hasher zero_checkpoint (demo_st, demo_fs) =
      (Inr (Some c'), st, f) \<and> unat (Size c') = 1 \<and>
    NewProofBuilder ref_compact c' (HashChildren demo_hasher) (dir_fetcher f (rootDir st)) = Inr pb \<and>
    InclusionProof rfc6962_proofs pb (of_nat 0) = (Inr p, pb') \<and>
    VerifyInclusion rfc6962_proofs demo_hasher (of_nat 0) (Size c')
      (leaf_fn demo_hasher (fs_entries (demo_st, demo_fs)) 0) p (Hash c') = None"
  by (rule integrated_log_serves_proofs [where rep = ref_rep, OF ref.compact_range_axioms rfc.merkle_proofs_axioms
        permutes_id(1) demo_nonempty])
    (use demo_ready demo_healthy in \<open>simp_all add: zero_checkpoint_def\<close>)


subsection \<open>A tree of two leaves\<close>

definition demo_lf :: "nat \<Rightarrow> bytes" where
  "demo_lf k = (if k = 0 then ''La'' else ''Lb'')"

definition demo_tile :: Tile where
  "demo_tile = \<lparr>NumLeaves = 2, Nodes = [Some ''La'', Some ''NLaLb'', Some ''Lb'']\<rparr>"

definition demo_fetch :: Fetcher where
  "demo_fetch p = Inr (MarshalText demo_tile)"

definition demo_cp :: "nat \<Rightarrow> Checkpoint" where
  "demo_cp n = \<lparr>Origin = [], Size = of_nat n, Hash = mth (HashChildren demo_hasher) demo_lf 0 n\<rparr>"

lemma demo_fetcher: "newTileFetcher demo_fetch n x y = Inr demo_tile"
  by (simp add: newTileFetcher_def demo_fetch_def Let_def UnmarshalText_MarshalText)
    (simp add: demo_tile_def drop_trailing_empty_def node_bytes_def)

lemma complete_2:
  assumes "complete 0 2 l i"
  shows "(l, i) = (0, 0) \<or> (l, i) = (0, 1) \<or> (l, i) = (1, 0)"
proof -
  have le: "(i + 1) * 2 ^ l \<le> 2" using assms by (simp add: complete_def)
  have "(2 :: nat) ^ l \<le> (i + 1) * 2 ^ l" by simp
  then have "(2 :: nat) ^ l \<le> 2 ^ 1" using le by (simp only: power_one_right) 
  then have "l \<le> 1" using power_le_imp_le_exp [of "2 :: nat" l 1] by simp
  then consider "l = 0" | "l = 1" by linarith
  then show ?thesis using le by cases auto
qed

lemma demo_tiles_hold: "n \<le> 2 \<Longrightarrow> tiles_hold (HashChildren demo_hasher) demo_lf n (newTileFetcher demo_fetch s)"
proof -
  assume n: "n \<le> 2"
  have "tile_has (newTileFetcher demo_fetch s) l i (node_hash (HashChildren demo_hasher) demo_lf l i)"
    if "complete 0 n l i" for l i
    using complete_2 [OF complete_mono [OF that n]]
    by (auto simp: tile_has_def tile_addr_def demo_fetcher demo_tile_def node_key_def demo_hasher_def demo_lf_def)
  then show ?thesis by (simp add: tiles_hold_def)
qed

lemma demo_cp_simps [simp]: "n < 2 ^ 64 \<Longrightarrow> unat (Size (demo_cp n)) = n"
  "Size (demo_cp (Suc 0)) = 1" "Size (demo_cp 2) = 2"
  "Hash (demo_cp n) = mth (HashChildren demo_hasher) demo_lf 0 n"
  by (simp_all add: demo_cp_def unat_of_nat_u64)

lemma demo_hold: "tiles_hold (HashChildren demo_hasher) demo_lf (unat (Size (demo_cp 2)))
    (newTileFetcher demo_fetch (Size (demo_cp 2)))"
  using demo_tiles_hold [of 2] by simp

theorem NewProofBuilder_accepts_iff_root_witness:
  "is_ok (NewProofBuilder ref_compact (demo_cp 2) (HashChildren demo_hasher) demo_fetch)"
  using NewProofBuilder_accepts_iff_root [of ref_compact "HashChildren demo_hasher" _ demo_lf "demo_cp 2" demo_fetch,
      OF ref.compact_range_axioms demo_hold]
  by (simp add: root_of_def)

theorem InclusionProof_correct_witness:
  "\<exists>pb p pb'. NewProofBuilder ref_compact (demo_cp 2) (HashChildren demo_hasher) demo_fetch = Inr pb \<and>
    InclusionProof rfc6962_proofs pb 1 = (Inr p, pb') \<and>
    VerifyInclusion rfc6962_proofs demo_hasher 1 (Size (demo_cp 2)) (demo_lf (unat 1)) p (Hash (demo_cp 2)) = None"
  using InclusionProof_correct [where RF = ref_compact and rep = ref_rep and P = rfc6962_proofs and i = 1,
      OF ref.compact_range_axioms rfc.merkle_proofs_axioms demo_hold]
  by (simp add: word_less_nat_alt)

text \<open>A tracker at size 1 of a log that has grown to size 2.\<close>

definition demo_lst :: "Checkpoint \<Rightarrow> Checkpoint \<Rightarrow> unit LogStateTracker" where
  "demo_lst old new = \<lparr>Hasher = demo_hasher, lst_Fetcher = demo_fetch, lst_Origin = ''o'',
     ConsensusCheckpoint = (\<lambda>_ _. Inr (new, ''new'', \<lparr>NoteText = [], Sigs = [], UnverifiedSigs = []\<rparr>)),
     LatestConsistentRaw = ''old'', LatestConsistent = old, CheckpointNote = None, CpSigVerifier = ()\<rparr>"

lemma demo_update:
  "\<exists>p. Update ref_compact rfc6962_proofs (demo_lst (demo_cp 1) (demo_cp 2)) =
     (Inr (''old'', p, ''new''), (demo_lst (demo_cp 1) (demo_cp 2))\<lparr>LatestConsistentRaw := ''new'',
        LatestConsistent := demo_cp 2, CheckpointNote := Some \<lparr>NoteText = [], Sigs = [], UnverifiedSigs = []\<rparr>\<rparr>)"
  using Update_advances [where RF = ref_compact and rep = ref_rep and P = rfc6962_proofs and lf = demo_lf
      and lst = "demo_lst (demo_cp 1) (demo_cp 2)" and c = "demo_cp 2" and cRaw = "''new''"
      and cn = "\<lparr>NoteText = [], Sigs = [], UnverifiedSigs = []\<rparr>", OF ref.compact_range_axioms rfc.merkle_proofs_axioms]
    demo_hold by (simp add: demo_lst_def root_of_def)

theorem Update_growth_verified_witness:
  "\<exists>p. VerifyConsistency rfc6962_proofs demo_hasher 1 2 p (Hash (demo_cp 1)) (Hash (demo_cp 2)) = None"
proof -
  obtain p where "Update ref_compact rfc6962_proofs (demo_lst (demo_cp 1) (demo_cp 2)) =
     (Inr (''old'', p, ''new''), (demo_lst (demo_cp 1) (demo_cp 2))\<lparr>LatestConsistentRaw := ''new'',
        LatestConsistent := demo_cp 2, CheckpointNote := Some \<lparr>NoteText = [], Sigs = [], UnverifiedSigs = []\<rparr>\<rparr>)"
    using demo_update by blast
  then show ?thesis
    using Update_growth_verified [where RF = ref_compact and P = rfc6962_proofs and lst = "demo_lst (demo_cp 1) (demo_cp 2)"]
    by (auto simp: demo_lst_def word_less_nat_alt)
qed

theorem Update_shrink_unchecked_witness:
  "LatestConsistent (snd (Update ref_compact rfc6962_proofs
     (demo_lst (demo_cp 2) \<lparr>Origin = [], Size = 1, Hash = ''forged''\<rparr>))) = \<lparr>Origin = [], Size = 1, Hash = ''forged''\<rparr>"
  using Update_shrink_unchecked [where lst = "demo_lst (demo_cp 2) \<lparr>Origin = [], Size = 1, Hash = ''forged''\<rparr>"
      and RF = ref_compact and P = rfc6962_proofs and c = "\<lparr>Origin = [], Size = 1, Hash = ''forged''\<rparr>"]
  by (simp add: demo_lst_def word_le_nat_alt)

theorem Update_follows_log_witness:
  "is_ok (fst (Update ref_compact rfc6962_proofs (demo_lst (demo_cp 1) (demo_cp 2))))"
  using Update_follows_log [where RF = ref_compact and rep = ref_rep and P = rfc6962_proofs and lf = demo_lf
      and lst = "demo_lst (demo_cp 1) (demo_cp 2)" and c = "demo_cp 2" and cRaw = "''new''"
      and cn = "\<lparr>NoteText = [], Sigs = [], UnverifiedSigs = []\<rparr>", OF ref.compact_range_axioms rfc.merkle_proofs_axioms]
    demo_hold by (auto simp: demo_lst_def root_of_def)

lemma demo_pair: "pair_ok rfc6962_proofs demo_hasher demo_lf (demo_cp 1) (demo_cp 2)"
  using rfc.consistency [of 1 2 demo_hasher] by (auto simp: pair_ok_def word_less_nat_alt)

lemma demo_sort: "sort_key Size [demo_cp 2, demo_cp 1] = [demo_cp 1, demo_cp 2]"
  by (simp add: word_less_nat_alt word_le_nat_alt)

lemma demo_sort_forged: "sort_key Size [zero_checkpoint, \<lparr>Origin = [], Size = 1, Hash = ''forged''\<rparr>, demo_cp 2] =
    [zero_checkpoint, \<lparr>Origin = [], Size = 1, Hash = ''forged''\<rparr>, demo_cp 2]"
  by (simp add: zero_checkpoint_def word_less_nat_alt word_le_nat_alt)

theorem CheckConsistency_accepts_iff_witness:
  "is_ok (CheckConsistency ref_compact rfc6962_proofs (sort_key Size) demo_hasher demo_fetch [demo_cp 2, demo_cp 1]) \<and>
   is_ok (CheckConsistency ref_compact rfc6962_proofs (sort_key Size) demo_hasher demo_fetch
     [zero_checkpoint, \<lparr>Origin = [], Size = 1, Hash = ''forged''\<rparr>, demo_cp 2])"
proof
  note iff = CheckConsistency_accepts_iff [where RF = ref_compact and rep = ref_rep and lf = demo_lf and f = demo_fetch,
      OF ref.compact_range_axioms rfc.merkle_proofs_axioms [of demo_hasher] sorts_by_sort_key [of Size]]
  show "is_ok (CheckConsistency ref_compact rfc6962_proofs (sort_key Size) demo_hasher demo_fetch [demo_cp 2, demo_cp 1])"
    using iff [of "[demo_cp 2, demo_cp 1]"] demo_hold demo_pair unfolding demo_sort by (simp add: root_of_def)
  show "is_ok (CheckConsistency ref_compact rfc6962_proofs (sort_key Size) demo_hasher demo_fetch
     [zero_checkpoint, \<lparr>Origin = [], Size = 1, Hash = ''forged''\<rparr>, demo_cp 2])"
    using iff [of "[zero_checkpoint, \<lparr>Origin = [], Size = 1, Hash = ''forged''\<rparr>, demo_cp 2]", THEN conjunct2] demo_hold
    unfolding demo_sort_forged by (simp add: root_of_def zero_checkpoint_def)
qed

end
