(* ===== verification/LayoutTheorems.thy ===== *)
theory LayoutTheorems
  imports TileState
begin

section \<open>The storage layout: its paths, tile addresses and tile texts\<close>

text \<open>
  The contract of \<^verbatim>\<open>serverless/api\<close>: no two objects of a log share a path, a sequence number
  can be read back from its path, every tree node has one address, and a tile survives its text form.
\<close>

text \<open>C24: The checkpoint, the sequenced entries, the leaf-hash entries (of hashes longer than three
  bytes) and the tiles of a log never share a path: two objects have the same path below a root
  directory only if they are the same object.\<close>

theorem layout_paths_distinct:
  assumes "object_ok a" "object_ok b"
  shows "object_path root a = object_path root b \<longleftrightarrow> a = b"
  by (rule object_path_eq_iff [OF assms])

theorem layout_paths_distinct_witness:
  "object_path ''/log'' (SeqObj 258) \<noteq> object_path ''/log'' (TileObj 0 1 2)"
  using layout_paths_distinct [of "SeqObj 258" "TileObj 0 1 2" "''/log''"] by simp

text \<open>C26: \<open>SeqFromPath\<close> undoes \<open>SeqPath\<close> for every root directory and every sequence number below
  $2^{40}$; from $2^{40}$ on the first path element has more than two digits and \<open>SeqFromPath\<close>
  rejects the path.\<close>

theorem SeqFromPath_SeqPath:
  "SeqFromPath root (JoinPair (SeqPath root seq)) =
     (if seq < 2 ^ 40 then Inr seq else Inl (Errorf ''seqPath format invalid''))"
  by (simp add: SeqFromPath_small SeqFromPath_large)

text \<open>A tile is read back from its text with the same number of leaves and the same nodes, up to
  trailing empty nodes, exactly if its number of leaves fits in the 16 bits that \<open>UnmarshalText\<close>
  parses; otherwise unmarshalling fails with a range error.\<close>

theorem Tile_text_roundtrip:
  "UnmarshalText (MarshalText t) =
     (if unat (NumLeaves t) < 2 ^ 16
      then Inr (t\<lparr>Nodes := map (Some \<circ> node_bytes) (drop_trailing_empty (Nodes t))\<rparr>)
      else Inl (Wrapf ''unable to parse numLeaves'' (Sentinel ''strconv.ErrRange'')))"
  by (rule UnmarshalText_MarshalText)

text \<open>C27: \<open>NodeCoordsToTileAddress\<close> gives every node of the tree its own address, the node level is
  below eight and the node index is within its row of the tile; no step wraps around.\<close>

theorem NodeCoordsToTileAddress_bijective:
  "(NodeCoordsToTileAddress l i = NodeCoordsToTileAddress l' i' \<longleftrightarrow> l = l' \<and> i = i') \<and>
   (case NodeCoordsToTileAddress l i of (tlv, ti, nl, ni) \<Rightarrow>
      unat l = 8 * unat tlv + unat nl \<and> unat i = unat ti * 2 ^ (8 - unat nl) + unat ni \<and>
      nl < 8 \<and> unat ni < 2 ^ (8 - unat nl))"
proof -
  obtain a b c d where e: "NodeCoordsToTileAddress l i = (a, b, c, d)" by (metis prod_cases4)
  note addr = NodeCoords_unat [OF e, symmetric]
  have "l = l' \<and> i = i'" if "NodeCoordsToTileAddress l' i' = (a, b, c, d)"
    using addr NodeCoords_unat [OF that] tile_addr_inj by (simp add: word_unat_eq_iff)
  then show ?thesis using e tile_addr_inverse [OF addr] by (auto simp: word_less_nat_alt)
qed

text \<open>\<open>PartialTileSize\<close> is below 256 for all arguments; on the eight tile levels of a 64-bit
  tree it is zero for a full tile and otherwise the number of the tile's leaves that a tree of the
  given size has, so a tile to the left of the tree's last one at its level is always full.\<close>

theorem PartialTileSize_bounds:
  "PartialTileSize level index n < 256 \<and>
   (level < 8 \<longrightarrow> unat (PartialTileSize level index n) =
      (if unat index < unat n div 256 ^ (unat level + 1) then 0
       else unat n div 256 ^ unat level mod 256))"
  using PartialTileSize_lt PartialTileSize_unat
  by (simp add: partial_size_def div_mult2_eq [symmetric] mult.commute)

theorem PartialTileSize_bounds_witness:
  "unat (PartialTileSize 1 0 1000) = (if unat (0 :: u64) < unat (1000 :: u64) div 256 ^ (unat (1 :: u64) + 1) then 0
     else unat (1000 :: u64) div 256 ^ unat (1 :: u64) mod 256)"
proof -
  have "(1 :: u64) < 8" by simp
  then show ?thesis using PartialTileSize_bounds [of 1 0 1000] by simp
qed

lemma split_on_length: "length (split_on c s) \<le> Suc 0 \<longleftrightarrow> c \<notin> set s"
proof
  assume "length (split_on c s) \<le> Suc 0"
  then obtain x where "split_on c s = [x]" using split_on_not_Nil [of c s] by (cases "split_on c s") auto
  then show "c \<notin> set s"
    by (induction s arbitrary: x) (auto split: if_splits list.splits)
qed (simp add: split_on_no_sep)

text \<open>\<open>UnmarshalText\<close> reads its second line without looking whether there is one: it panics
  exactly on the texts of a single line that gives the hash size 32, such as \<^verbatim>\<open>32\<close>, and
  returns a tile or an error on every other text.\<close>

theorem UnmarshalText_panics_iff:
  "((\<exists>m. UnmarshalText raw = Inl (Panic m)) \<longleftrightarrow>
      newline \<notin> set (trim_space raw) \<and> parse_uint (trim_space raw) 10 16 = Inr 32) \<and>
   UnmarshalText ''32'' = Inl (Panic ''index out of range'')"
proof
  show "(\<exists>m. UnmarshalText raw = Inl (Panic m)) \<longleftrightarrow>
      newline \<notin> set (trim_space raw) \<and> parse_uint (trim_space raw) 10 16 = Inr 32"
    by (cases "newline \<in> set (trim_space raw)")
      (auto simp: UnmarshalText_def Let_def split_on_no_sep split_on_length split: sum.splits if_splits)
  show "UnmarshalText ''32'' = Inl (Panic ''index out of range'')"
    by (simp add: UnmarshalText_def Let_def trim_space_def space_runes_def has_prefix_def parse_uint_def char_digit_def)
qed

end
