(* ===== verification/WitnessStore.thy ===== *)
theory WitnessStore
  imports NoteLib "HOL-Library.AList"
begin

section \<open>Persistence of the witness\<close>

text \<open>
  \<^verbatim>\<open>witness/golang/internal/persistence\<close>: the interface \<open>LogStatePersistence\<close> with its read and
  write operations, the in-memory implementation, and the implementation over
  \<^verbatim>\<open>database/sql\<close>.  A handle \<open>'h\<close> is the object that \<open>ReadOps\<close> or \<open>WriteOps\<close> returns; an
  operation on a handle takes the state of the persistence at the time of the call, so that other
  calls may come in between.  The database is a parameter.

  The contract of the interface is the locale \<open>log_state_persistence\<close>: a successful \<open>Set\<close> replaced
  exactly what the handle had read.  It is interpreted on the in-memory implementation, and on the
  SQL implementation for every database with serializable transactions (locale \<open>sql_table\<close>).
\<close>

type_synonym log_entry = "bytes \<times> bytes option"  \<comment> \<open>raw checkpoint, compact range (or nil)\<close>

record ('p, 'h) LogStatePersistence =
  lsp_Init :: "'p \<Rightarrow> go_error option \<times> 'p"
  lsp_Logs :: "'p \<Rightarrow> string list res"
  lsp_ReadOps :: "'p \<Rightarrow> string \<Rightarrow> 'h res"
  lsp_WriteOps :: "'p \<Rightarrow> string \<Rightarrow> 'h res \<times> 'p"
  lsp_GetLatest :: "'p \<Rightarrow> 'h \<Rightarrow> log_entry res \<times> 'h"
  lsp_Set :: "'p \<Rightarrow> 'h \<Rightarrow> bytes \<Rightarrow> bytes option \<Rightarrow> go_error option \<times> 'p \<times> 'h"
  lsp_Close :: "'p \<Rightarrow> 'h \<Rightarrow> 'p"

subsection \<open>In memory\<close>

record checkpointState =
  rawChkpt :: bytes
  compactRange :: "bytes option"

type_synonym inMemoryPersistence = "(string \<times> checkpointState) list"

text \<open>The closure in \<open>write\<close> is known by the log it was made for; it is nil in a read handle.\<close>

record readWriter =
  rw_write :: "string option"
  rw_read :: "checkpointState option"
  rw_toStore :: "checkpointState option"

definition im_NewPersistence :: inMemoryPersistence where
  "im_NewPersistence = []"

definition im_Init :: "inMemoryPersistence \<Rightarrow> go_error option \<times> inMemoryPersistence" where
  "im_Init p = (None, p)"

definition im_Logs :: "(string list \<Rightarrow> string list) \<Rightarrow> inMemoryPersistence \<Rightarrow> string list res" where
  "im_Logs iter p = Inr (iter (map fst p))"

definition im_ReadOps :: "inMemoryPersistence \<Rightarrow> string \<Rightarrow> readWriter res" where
  "im_ReadOps p logID = Inr \<lparr>rw_write = None, rw_read = map_of p logID, rw_toStore = None\<rparr>"

definition im_WriteOps :: "inMemoryPersistence \<Rightarrow> string \<Rightarrow> readWriter res \<times> inMemoryPersistence" where
  "im_WriteOps p logID = (Inr \<lparr>rw_write = Some logID, rw_read = map_of p logID, rw_toStore = None\<rparr>, p)"

definition expectAndWrite ::
    "inMemoryPersistence \<Rightarrow> string \<Rightarrow> checkpointState option \<Rightarrow> checkpointState
     \<Rightarrow> go_error option \<times> inMemoryPersistence" where
  "expectAndWrite p logID old new =
     (case (old, map_of p logID) of
        (Some old, None) \<Rightarrow> (Some (Errorf ''expected old state but no state found when updating log''), p)
      | (Some old, Some got) \<Rightarrow>
          if old \<noteq> got then (Some (Errorf ''expected old state but got another when updating log''), p)
          else (None, AList.update logID new p)
      | (None, Some got) \<Rightarrow> (Some (Errorf ''expected no state but found one when updating log''), p)
      | (None, None) \<Rightarrow> (None, AList.update logID new p))"

definition rw_GetLatest :: "readWriter \<Rightarrow> log_entry res" where
  "rw_GetLatest rw =
     (case rw_read rw of
        None \<Rightarrow> Inl (Status NotFound ''no checkpoint found'')
      | Some st \<Rightarrow> Inr (rawChkpt st, compactRange st))"

definition rw_Set ::
    "inMemoryPersistence \<Rightarrow> readWriter \<Rightarrow> bytes \<Rightarrow> bytes option
     \<Rightarrow> go_error option \<times> inMemoryPersistence \<times> readWriter" where
  "rw_Set p rw c rng =
     (let st = \<lparr>rawChkpt = c, compactRange = rng\<rparr>; rw' = rw\<lparr>rw_toStore := Some st\<rparr>
      in case rw_write rw' of
           None \<Rightarrow> (Some (Panic ''nil function''), p, rw')
         | Some logID \<Rightarrow>
             (let (err, p') = expectAndWrite p logID (rw_read rw') st in (err, p', rw')))"

definition rw_Close :: "inMemoryPersistence \<Rightarrow> readWriter \<Rightarrow> inMemoryPersistence" where
  "rw_Close p rw = p"

definition inmemory :: "(string list \<Rightarrow> string list) \<Rightarrow> (inMemoryPersistence, readWriter) LogStatePersistence" where
  "inmemory iter =
     \<lparr>lsp_Init = im_Init, lsp_Logs = im_Logs iter, lsp_ReadOps = im_ReadOps, lsp_WriteOps = im_WriteOps,
      lsp_GetLatest = (\<lambda>p rw. (rw_GetLatest rw, rw)), lsp_Set = rw_Set, lsp_Close = rw_Close\<rparr>"

subsection \<open>In a SQL database\<close>

text \<open>A row as \<^verbatim>\<open>QueryRow\<close> returns it: the error of the query, and what scanning the two
  columns gives, \<^verbatim>\<open>sql.ErrNoRows\<close> for no row.\<close>

type_synonym sql_row = "go_error option \<times> log_entry res"

definition ErrNoRows :: go_error where
  "ErrNoRows = Sentinel ''sql: no rows in result set''"

text \<open>The statements that the code sends, as operations of the database \<open>'d\<close> and its transactions
  \<open>'t\<close>.\<close>

record ('d, 't) sql_db =
  db_CreateTable :: "'d \<Rightarrow> go_error option \<times> 'd"
  db_SelectIDs :: "'d \<Rightarrow> (string res list \<times> go_error option) res"
  db_SelectRow :: "'d \<Rightarrow> string \<Rightarrow> sql_row"
  db_Begin :: "'d \<Rightarrow> 't res \<times> 'd"
  tx_SelectRow :: "'d \<Rightarrow> 't \<Rightarrow> string \<Rightarrow> sql_row \<times> 't"
  tx_InsertOrReplace :: "'d \<Rightarrow> 't \<Rightarrow> string \<Rightarrow> bytes \<Rightarrow> bytes option \<Rightarrow> go_error option \<times> 't"
  tx_Commit :: "'d \<Rightarrow> 't \<Rightarrow> go_error option \<times> 'd"
  tx_Rollback :: "'d \<Rightarrow> 't \<Rightarrow> 'd"

text \<open>A reader has a database, a writer a transaction.\<close>

datatype 't sql_handle = reader string | writer string 't

definition sql_Init :: "('d, 't) sql_db \<Rightarrow> 'd \<Rightarrow> go_error option \<times> 'd" where
  "sql_Init D d = db_CreateTable D d"

fun sql_scan_ids :: "string res list \<Rightarrow> go_error option \<Rightarrow> string list \<Rightarrow> string list res" where
  "sql_scan_ids [] err logs = (case err of Some e \<Rightarrow> Inl e | None \<Rightarrow> Inr logs)"
| "sql_scan_ids (r # rs) err logs = (case r of Inl e \<Rightarrow> Inl e | Inr logID \<Rightarrow> sql_scan_ids rs err (logs @ [logID]))"

definition sql_Logs :: "('d, 't) sql_db \<Rightarrow> 'd \<Rightarrow> string list res" where
  "sql_Logs D d = (case db_SelectIDs D d of Inl e \<Rightarrow> Inl e | Inr (rows, err) \<Rightarrow> sql_scan_ids rows err [])"

definition sql_ReadOps :: "'d \<Rightarrow> string \<Rightarrow> 't sql_handle res" where
  "sql_ReadOps d logID = Inr (reader logID)"

definition sql_WriteOps :: "('d, 't) sql_db \<Rightarrow> 'd \<Rightarrow> string \<Rightarrow> 't sql_handle res \<times> 'd" where
  "sql_WriteOps D d logID =
     (case db_Begin D d of
        (Inl e, d') \<Rightarrow> (Inl (errorf ''tx.Begin()'' e), d')
      | (Inr tx, d') \<Rightarrow> (Inr (writer logID tx), d'))"

definition getLatestCheckpoint :: "sql_row \<Rightarrow> log_entry res" where
  "getLatestCheckpoint row =
     (case row of
        (Some e, _) \<Rightarrow> Inl e
      | (None, Inl e) \<Rightarrow> if e = ErrNoRows then Inl (Status NotFound ''no checkpoint for log'') else Inl e
      | (None, Inr x) \<Rightarrow> Inr x)"

fun sql_GetLatest :: "('d, 't) sql_db \<Rightarrow> 'd \<Rightarrow> 't sql_handle \<Rightarrow> log_entry res \<times> 't sql_handle" where
  "sql_GetLatest D d (reader logID) = (getLatestCheckpoint (db_SelectRow D d logID), reader logID)"
| "sql_GetLatest D d (writer logID tx) =
     (let (row, tx') = tx_SelectRow D d tx logID in (getLatestCheckpoint row, writer logID tx'))"

fun sql_Set ::
    "('d, 't) sql_db \<Rightarrow> 'd \<Rightarrow> 't sql_handle \<Rightarrow> bytes \<Rightarrow> bytes option \<Rightarrow> go_error option \<times> 'd \<times> 't sql_handle" where
  "sql_Set D d (writer logID tx) c rng =
     (case tx_InsertOrReplace D d tx logID c rng of
        (Some e, tx') \<Rightarrow> (Some (errorf ''Exec()'' e), d, writer logID tx')
      | (None, tx') \<Rightarrow> (let (err, d') = tx_Commit D d tx' in (err, d', writer logID tx')))"
| "sql_Set D d (reader logID) c rng = (Some (Panic ''no method Set''), d, reader logID)"

fun sql_Close :: "('d, 't) sql_db \<Rightarrow> 'd \<Rightarrow> 't sql_handle \<Rightarrow> 'd" where
  "sql_Close D d (writer logID tx) = tx_Rollback D d tx"
| "sql_Close D d (reader logID) = d"

definition sqlLogPersistence :: "('d, 't) sql_db \<Rightarrow> ('d, 't sql_handle) LogStatePersistence" where
  "sqlLogPersistence D =
     \<lparr>lsp_Init = sql_Init D, lsp_Logs = sql_Logs D, lsp_ReadOps = sql_ReadOps, lsp_WriteOps = sql_WriteOps D,
      lsp_GetLatest = sql_GetLatest D, lsp_Set = sql_Set D, lsp_Close = sql_Close D\<rparr>"

subsection \<open>The contract\<close>

text \<open>
  \<open>view\<close> is the entry of each log.  \<open>h_log h\<close> is the log a write handle is for and
  \<open>h_saw h\<close> what the handle has read, once it has.  Whatever the other users of the persistence do
  between two calls, a successful \<open>Set\<close> finds the entry that the handle has read and replaces it.
\<close>

locale log_state_persistence =
  fixes L :: "('p, 'h) LogStatePersistence"
    and view :: "'p \<Rightarrow> string \<Rightarrow> log_entry option"
    and h_log :: "'h \<Rightarrow> string" and h_saw :: "'h \<Rightarrow> log_entry option option"
  assumes init: "lsp_Init L p = (err, p') \<Longrightarrow> view p' = view p"
    and read_latest: "\<lbrakk>lsp_ReadOps L p i = Inr h; lsp_GetLatest L p h = (r, h')\<rbrakk> \<Longrightarrow>
      (\<forall>x. r = Inr x \<longrightarrow> view p i = Some x) \<and> (\<forall>e. r = Inl e \<and> status_Code e = NotFound \<longrightarrow> view p i = None)"
    and write_ops: "lsp_WriteOps L p i = (wr, p') \<Longrightarrow> view p' = view p \<and> (\<forall>h. wr = Inr h \<longrightarrow> h_log h = i)"
    and write_latest: "\<lbrakk>lsp_WriteOps L p0 i = (Inr h, p0'); lsp_GetLatest L p h = (r, h')\<rbrakk> \<Longrightarrow>
      h_log h' = i \<and> (\<forall>x. r = Inr x \<longrightarrow> h_saw h' = Some (Some x)) \<and>
      (\<forall>e. r = Inl e \<and> status_Code e = NotFound \<longrightarrow> h_saw h' = Some None)"
    and fresh_latest: "\<lbrakk>lsp_WriteOps L p0 i = (Inr h, p); lsp_GetLatest L p h = (Inr x0, h')\<rbrakk> \<Longrightarrow> view p i = Some x0"
    and set_ok: "\<lbrakk>lsp_Set L p h c rng = (None, p', h'); h_saw h = Some x\<rbrakk> \<Longrightarrow>
      view p (h_log h) = x \<and> view p' = (view p)(h_log h \<mapsto> (c, rng))"
    and set_err: "lsp_Set L p h c rng = (Some e, p', h') \<Longrightarrow> view p' = view p"
    and close: "view (lsp_Close L p h) = view p"

text \<open>In memory the log's entry is the map entry, and a handle has read it when it is made.\<close>

definition im_view :: "inMemoryPersistence \<Rightarrow> string \<Rightarrow> log_entry option" where
  "im_view p i = map_option (\<lambda>st. (rawChkpt st, compactRange st)) (map_of p i)"

definition rw_log :: "readWriter \<Rightarrow> string" where
  "rw_log rw = the (rw_write rw)"

definition rw_saw :: "readWriter \<Rightarrow> log_entry option option" where
  "rw_saw rw = Some (map_option (\<lambda>st. (rawChkpt st, compactRange st)) (rw_read rw))"

lemma im_view_update:
  "im_view (AList.update i \<lparr>rawChkpt = c, compactRange = r\<rparr> p) = (im_view p)(i \<mapsto> (c, r))"
  by (auto simp: im_view_def fun_eq_iff update_conv)

lemma expectAndWrite_ok:
  "expectAndWrite p i old new = (None, p') \<Longrightarrow> map_of p i = old \<and> p' = AList.update i new p"
  by (auto simp: expectAndWrite_def split: option.splits if_splits)

lemma expectAndWrite_err: "expectAndWrite p i old new = (Some e, p') \<Longrightarrow> p' = p"
  by (auto simp: expectAndWrite_def split: option.splits if_splits)

lemma rw_Set_ok:
  assumes "rw_Set p rw c r = (None, p', rw')"
  shows "map_of p (rw_log rw) = rw_read rw" "p' = AList.update (rw_log rw) \<lparr>rawChkpt = c, compactRange = r\<rparr> p"
  using assms expectAndWrite_ok [of p _ "rw_read rw"]
  by (auto simp: rw_Set_def rw_log_def Let_def split: option.splits prod.splits)

lemma rw_Set_err: "rw_Set p rw c r = (Some e, p', rw') \<Longrightarrow> p' = p"
  using expectAndWrite_err by (auto simp: rw_Set_def Let_def split: option.splits prod.splits)

interpretation im: log_state_persistence "inmemory iter" im_view rw_log rw_saw for iter
proof
  fix p h c r p' h' x
  assume "lsp_Set (inmemory iter) p h c r = (None, p', h')" "rw_saw h = Some x"
  then show "im_view p (rw_log h) = x \<and> im_view p' = (im_view p)(rw_log h \<mapsto> (c, r))"
    using rw_Set_ok [of p h c r p' h']
    by (auto simp: inmemory_def rw_saw_def im_view_update) (auto simp: im_view_def)
qed (auto simp: inmemory_def im_Init_def im_ReadOps_def im_WriteOps_def rw_GetLatest_def rw_Close_def
    im_view_def rw_log_def rw_saw_def dest: rw_Set_err split: option.splits)

subsection \<open>The SQL implementation, for a database with serializable transactions\<close>

text \<open>
  \<open>tbl\<close> is the table \<^verbatim>\<open>chkpts\<close>, whose primary key is the log.  \<open>t_saw\<close> is the row that a
  transaction has read and \<open>t_new\<close> the row it has written.  Transactions are atomic and serializable: a
  commit that succeeds found the row that the transaction has read, and a statement that fails, a
  failed commit and a rollback leave the table as it is.
\<close>

locale sql_table =
  fixes D :: "('d, 't) sql_db"
    and tbl :: "'d \<Rightarrow> string \<Rightarrow> log_entry option"
    and t_saw :: "'t \<Rightarrow> string \<Rightarrow> log_entry option option" and t_new :: "'t \<Rightarrow> (string \<times> log_entry) option"
  assumes create: "db_CreateTable D d = (err, d') \<Longrightarrow> tbl d' = tbl d"
    and row: "db_SelectRow D d i = (None, r) \<Longrightarrow>
      (\<forall>x. r = Inr x \<longrightarrow> tbl d i = Some x) \<and> (r = Inl ErrNoRows \<longrightarrow> tbl d i = None)"
    and row_code: "db_SelectRow D d i = (Some e, r) \<or> db_SelectRow D d i = (e', Inl e) \<Longrightarrow> status_Code e \<noteq> NotFound"
    and begin_tx: "db_Begin D d = (tr, d') \<Longrightarrow> tbl d' = tbl d"
    and tx_row: "tx_SelectRow D d t i = ((None, r), t') \<Longrightarrow>
      (\<forall>x. r = Inr x \<longrightarrow> t_saw t' i = Some (Some x)) \<and> (r = Inl ErrNoRows \<longrightarrow> t_saw t' i = Some None)"
    and tx_row_code: "tx_SelectRow D d t i = ((Some e, r), t') \<or> tx_SelectRow D d t i = ((e', Inl e), t') \<Longrightarrow>
      status_Code e \<noteq> NotFound"
    and tx_fresh: "\<lbrakk>db_Begin D d0 = (Inr t, d); tx_SelectRow D d t i = ((None, Inr v), t')\<rbrakk> \<Longrightarrow> tbl d i = Some v"
    and tx_replace: "tx_InsertOrReplace D d t i c rng = (None, t') \<Longrightarrow> t_saw t' = t_saw t \<and> t_new t' = Some (i, c, rng)"
    and commit_ok: "\<lbrakk>tx_Commit D d t = (None, d'); t_new t = Some (i, v); t_saw t i = Some x\<rbrakk> \<Longrightarrow>
      tbl d i = x \<and> tbl d' = (tbl d)(i \<mapsto> v)"
    and commit_err: "tx_Commit D d t = (Some e, d') \<Longrightarrow> tbl d' = tbl d"
    and rollback: "tbl (tx_Rollback D d t) = tbl d"
begin

lemma getLatest_row:
  assumes "getLatestCheckpoint rw = r" "\<And>e x. rw = (Some e, x) \<Longrightarrow> status_Code e \<noteq> NotFound"
    "\<And>e' e. rw = (e', Inl e) \<Longrightarrow> status_Code e \<noteq> NotFound"
  shows "r = Inr x \<longleftrightarrow> rw = (None, Inr x)"
    "r = Inl e \<and> status_Code e = NotFound \<Longrightarrow> rw = (None, Inl ErrNoRows)"
  using assms by (auto simp: getLatestCheckpoint_def split: prod.splits option.splits sum.splits if_splits)

end

fun sql_log :: "'t sql_handle \<Rightarrow> string" where
  "sql_log (reader i) = i"
| "sql_log (writer i t) = i"

fun sql_saw :: "('t \<Rightarrow> string \<Rightarrow> log_entry option option) \<Rightarrow> 't sql_handle \<Rightarrow> log_entry option option" where
  "sql_saw t_saw (reader i) = None"
| "sql_saw t_saw (writer i t) = t_saw t i"

sublocale sql_table \<subseteq> sql: log_state_persistence "sqlLogPersistence D" tbl sql_log "sql_saw t_saw"
proof
  fix p i h r h'
  assume "lsp_ReadOps (sqlLogPersistence D) p i = Inr h" "lsp_GetLatest (sqlLogPersistence D) p h = (r, h')"
  then have r: "getLatestCheckpoint (db_SelectRow D p i) = r"
    by (auto simp: sqlLogPersistence_def sql_ReadOps_def)
  show "(\<forall>x. r = Inr x \<longrightarrow> tbl p i = Some x) \<and> (\<forall>e. r = Inl e \<and> status_Code e = NotFound \<longrightarrow> tbl p i = None)"
    using getLatest_row [OF r] row [of p i] row_code [of p i] by metis
next
  fix p0 i h p0' p r h'
  assume "lsp_WriteOps (sqlLogPersistence D) p0 i = (Inr h, p0')" "lsp_GetLatest (sqlLogPersistence D) p h = (r, h')"
  then obtain t t' rw where h: "h = writer i t" "h' = writer i t'" "tx_SelectRow D p t i = (rw, t')"
    and r: "getLatestCheckpoint rw = r"
    by (auto simp: sqlLogPersistence_def sql_WriteOps_def split: prod.splits sum.splits)
  show "sql_log h' = i \<and> (\<forall>x. r = Inr x \<longrightarrow> sql_saw t_saw h' = Some (Some x)) \<and>
      (\<forall>e. r = Inl e \<and> status_Code e = NotFound \<longrightarrow> sql_saw t_saw h' = Some None)"
    using getLatest_row [OF r] tx_row [of p t i _ t'] tx_row_code [of p t i _ _ t'] h by (metis sql_log.simps(2) sql_saw.simps(2))
next
  fix p0 i h p x0 h'
  assume "lsp_WriteOps (sqlLogPersistence D) p0 i = (Inr h, p)" "lsp_GetLatest (sqlLogPersistence D) p h = (Inr x0, h')"
  then obtain t t' rw where "db_Begin D p0 = (Inr t, p)" "tx_SelectRow D p t i = (rw, t')" "getLatestCheckpoint rw = Inr x0"
    by (auto simp: sqlLogPersistence_def sql_WriteOps_def split: prod.splits sum.splits)
  then show "tbl p i = Some x0" using tx_fresh [of p0 t p i x0 t']
    by (auto simp: getLatestCheckpoint_def split: prod.splits option.splits sum.splits if_splits)
next
  fix p h c r p' h' x
  assume s: "lsp_Set (sqlLogPersistence D) p h c r = (None, p', h')" and x: "sql_saw t_saw h = Some x"
  from x obtain i t where h: "h = writer i t" "t_saw t i = Some x" by (cases h) auto
  with s obtain t' where "tx_InsertOrReplace D p t i c r = (None, t')" "tx_Commit D p t' = (None, p')"
    by (auto simp: sqlLogPersistence_def Let_def split: prod.splits option.splits)
  then show "tbl p (sql_log h) = x \<and> tbl p' = (tbl p)(sql_log h \<mapsto> (c, r))"
    using tx_replace [of p t i c r t'] commit_ok [of p t' p' i "(c, r)" x] h by auto
next
  fix p h c r e p' h'
  assume "lsp_Set (sqlLogPersistence D) p h c r = (Some e, p', h')"
  then show "tbl p' = tbl p" using commit_err
    by (cases h) (auto simp: sqlLogPersistence_def Let_def split: prod.splits option.splits)
next
  fix p h show "tbl (lsp_Close (sqlLogPersistence D) p h) = tbl p"
    using rollback by (cases h) (simp_all add: sqlLogPersistence_def)
qed (auto simp: sqlLogPersistence_def sql_Init_def sql_WriteOps_def dest: create begin_tx
    split: prod.splits sum.splits)

text \<open>A database that satisfies the laws: a table, and transactions that are validated when they
  commit.\<close>

definition ref_row :: "(string \<times> log_entry) list \<Rightarrow> string \<Rightarrow> sql_row" where
  "ref_row d i = (None, case map_of d i of None \<Rightarrow> Inl ErrNoRows | Some x \<Rightarrow> Inr x)"

type_synonym ref_tx = "(string \<times> log_entry option) list \<times> (string \<times> log_entry) option"

definition ref_db :: "((string \<times> log_entry) list, ref_tx) sql_db" where
  "ref_db =
     \<lparr>db_CreateTable = (\<lambda>d. (None, d)), db_SelectIDs = (\<lambda>d. Inr (map (Inr \<circ> fst) d, None)),
      db_SelectRow = ref_row, db_Begin = (\<lambda>d. (Inr ([], None), d)),
      tx_SelectRow = (\<lambda>d (saw, new) i. (ref_row d i, (AList.update i (map_of d i) saw, new))),
      tx_InsertOrReplace = (\<lambda>d (saw, new) i c r. (None, (saw, Some (i, c, r)))),
      tx_Commit = (\<lambda>d (saw, new). case new of
           None \<Rightarrow> (None, d)
         | Some (i, v) \<Rightarrow>
             if map_of saw i \<in> {None, Some (map_of d i)} then (None, AList.update i v d)
             else (Some (Errorf ''database is locked''), d)),
      tx_Rollback = (\<lambda>d t. d)\<rparr>"

interpretation ref_sql: sql_table ref_db map_of "\<lambda>t. map_of (fst t)" snd
  by unfold_locales
    (auto simp: ref_db_def ref_row_def ErrNoRows_def update_conv' split: option.splits if_splits)

end
