(* ===== verification/Witness.thy ===== *)
theory Witness
  imports WitnessStore GoBase64
begin

section \<open>The witness\<close>

text \<open>
  \<^verbatim>\<open>witness/golang/internal/witness\<close>: the text form of proofs (\<^verbatim>\<open>proof.go\<close>) and the witness
  itself (\<^verbatim>\<open>witness.go\<close>).  \<open>Update\<close> is split where it calls the persistence: \<open>update_decide\<close>
  is everything between reading the latest checkpoint and \<open>write.Set\<close>, and touches no state.
\<close>

subsection \<open>Proofs as text\<close>

definition Proof_Marshal :: "bytes list \<Rightarrow> string" where
  "Proof_Marshal p = concat (map (\<lambda>l. encode l @ [CHR 0x0A]) p)"

definition Proof_Unmarshal :: "bytes \<Rightarrow> bytes list res" where
  "Proof_Unmarshal data =
     (if \<not> has_suffix data [CHR 0x0A] then Inl (Errorf ''data should have trailing newline on last hash too'')
      else (case mapE decode (butlast (split_on (CHR 0x0A) data)) of
              Inl e \<Rightarrow> Inl (wrapf ''failed to decode proof line'' e)
            | Inr r \<Rightarrow> Inr r))"

subsection \<open>The witness and its logs\<close>

record 'v LogInfo =
  li_SigV :: 'v
  li_Origin :: string
  li_Hasher :: hasher
  UseCompact :: bool

record ('v, 's, 'p, 'h) Opts =
  o_Persistence :: "('p, 'h) LogStatePersistence"
  o_Signer :: 's
  o_KnownLogs :: "string \<Rightarrow> 'v LogInfo option"

record ('v, 's, 'p, 'h) Witness =
  lsp :: "('p, 'h) LogStatePersistence"
  w_Signer :: 's
  w_Logs :: "string \<Rightarrow> 'v LogInfo option"

definition witness_New :: "('v, 's, 'p, 'h) Opts \<Rightarrow> 'p \<Rightarrow> ('v, 's, 'p, 'h) Witness res \<times> 'p" where
  "witness_New wo p =
     (case lsp_Init (o_Persistence wo) p of
        (Some e, p') \<Rightarrow> (Inl (errorf ''Persistence.Init()'' e), p')
      | (None, p') \<Rightarrow> (Inr \<lparr>lsp = o_Persistence wo, w_Signer = o_Signer wo, w_Logs = o_KnownLogs wo\<rparr>, p'))"

definition witness_parse ::
    "('v, 's) note_lib \<Rightarrow> ('v, 's, 'p, 'h) Witness \<Rightarrow> bytes \<Rightarrow> string \<Rightarrow> (Checkpoint \<times> Note) res" where
  "witness_parse N w chkptRaw logID =
     (case w_Logs w logID of
        None \<Rightarrow> Inl (Errorf ''log not found'')
      | Some logInfo \<Rightarrow> ParseCheckpoint N chkptRaw (li_Origin logInfo) (li_SigV logInfo) [])"

definition witness_GetLogs :: "('v, 's, 'p, 'h) Witness \<Rightarrow> 'p \<Rightarrow> string list res" where
  "witness_GetLogs w p = lsp_Logs (lsp w) p"

definition witness_GetCheckpoint :: "('v, 's, 'p, 'h) Witness \<Rightarrow> 'p \<Rightarrow> string \<Rightarrow> bytes res" where
  "witness_GetCheckpoint w p logID =
     (case lsp_ReadOps (lsp w) p logID of
        Inl e \<Rightarrow> Inl (errorf ''ReadOps()'' e)
      | Inr rd \<Rightarrow> (case fst (lsp_GetLatest (lsp w) p rd) of Inl e \<Rightarrow> Inl e | Inr (chkpt, _) \<Rightarrow> Inr chkpt))"

definition signChkpt :: "('v, 's) note_lib \<Rightarrow> ('v, 's, 'p, 'h) Witness \<Rightarrow> Note \<Rightarrow> bytes res" where
  "signChkpt N w n =
     (case note_Sign N n [w_Signer w] of
        Inl e \<Rightarrow> Inl (errorf ''couldn't sign checkpoint'' e)
      | Inr cosigned \<Rightarrow> Inr cosigned)"

definition verifyRangeHash :: "'r compact \<Rightarrow> bytes \<Rightarrow> 'r \<Rightarrow> go_error option" where
  "verifyRangeHash C rootHash rng =
     (case GetRootHash C rng of
        Inl e \<Rightarrow> Some (errorf ''can't get root hash for range'' e)
      | Inr (h, _) \<Rightarrow> if rootHash \<noteq> h then Some (Errorf ''hashes aren't equal'') else None)"

text \<open>The error that \<open>AppendRange\<close> returns is not looked at.\<close>

definition verifyRange ::
    "(hash_fn \<Rightarrow> 'r compact) \<Rightarrow> Checkpoint \<Rightarrow> Checkpoint \<Rightarrow> hasher \<Rightarrow> bytes list \<Rightarrow> bytes list \<Rightarrow> bytes list res" where
  "verifyRange RF next prev h rngRaw deltaRaw =
     (let rf = RF (HashChildren h) in
      case NewRange rf 0 (Size prev) rngRaw of
        Inl e \<Rightarrow> Inl (errorf ''can't form current compact range'' e)
      | Inr rng \<Rightarrow>
        (case verifyRangeHash rf (Hash prev) rng of
           Some e \<Rightarrow> Inl (errorf ''old root hash doesn't verify'' e)
         | None \<Rightarrow>
           (case NewRange rf (Size prev) (Size next) deltaRaw of
              Inl e \<Rightarrow> Inl (errorf ''can't form delta compact range'' e)
            | Inr delta \<Rightarrow>
              (let (_, rng', _) = AppendRange rf rng delta in
               case verifyRangeHash rf (Hash next) rng' of
                 Some e \<Rightarrow> Inl (errorf ''new root hash doesn't verify'' e)
               | None \<Rightarrow> Inr (Hashes rf rng')))))"

text \<open>What \<open>setInitChkptData\<close> stores as the range, if it comes to storing.\<close>

definition init_range :: "(hash_fn \<Rightarrow> 'r compact) \<Rightarrow> 'v LogInfo \<Rightarrow> Checkpoint \<Rightarrow> bytes list \<Rightarrow> bytes option res" where
  "init_range RF logInfo c rngRaw =
     (if UseCompact logInfo then
        (let rf = RF (HashChildren (li_Hasher logInfo)) in
         case NewRange rf 0 (Size c) rngRaw of
           Inl e \<Rightarrow> Inl (errorf ''can't form compact range'' e)
         | Inr rng \<Rightarrow>
           (case verifyRangeHash rf (Hash c) rng of
              Some e \<Rightarrow> Inl (errorf ''input root hash doesn't verify'' e)
            | None \<Rightarrow> Inr (Some (Proof_Marshal rngRaw))))
      else Inr None)"

definition setInitChkptData ::
    "(hash_fn \<Rightarrow> 'r compact) \<Rightarrow> ('p, 'h) LogStatePersistence \<Rightarrow> 'p \<Rightarrow> 'h \<Rightarrow> 'v LogInfo \<Rightarrow> Checkpoint \<Rightarrow> bytes
     \<Rightarrow> bytes list \<Rightarrow> go_error option \<times> 'p \<times> 'h" where
  "setInitChkptData RF L p wr logInfo c cRaw rngRaw =
     (case init_range RF logInfo c rngRaw of
        Inl e \<Rightarrow> (Some e, p, wr)
      | Inr r \<Rightarrow> lsp_Set L p wr cRaw r)"

subsection \<open>Updating the checkpoint of a log\<close>

type_synonym update_result = "bytes option \<times> go_error option"

datatype update_step =
    Reply update_result                    \<comment> \<open>return without writing\<close>
  | TofuSet bytes                          \<comment> \<open>\<open>setInitChkptData\<close> with the signed checkpoint\<close>
  | StoreSet bytes "bytes option"          \<comment> \<open>\<open>write.Set\<close>\<close>

definition update_decide ::
    "(hash_fn \<Rightarrow> 'r compact) \<Rightarrow> 'n proof_lib \<Rightarrow> ('v, 's) note_lib \<Rightarrow> ('v, 's, 'p, 'h) Witness \<Rightarrow> string \<Rightarrow>
     'v LogInfo \<Rightarrow> Checkpoint \<Rightarrow> Note \<Rightarrow> bytes list \<Rightarrow> log_entry res \<Rightarrow> update_step" where
  "update_decide RF P N w logID logInfo next nextNote cProof latest =
     (let cosigned = signChkpt N w nextNote;
          sign_err = (\<lambda>e. Reply (None, Some (statusf Internal ''couldn't sign input checkpoint'' e)))
      in case latest of
        Inl err \<Rightarrow>
          if status_Code err = NotFound
          then (case cosigned of Inl e \<Rightarrow> sign_err e | Inr sg \<Rightarrow> TofuSet sg)
          else Reply (None, Some (statusf Internal ''couldn't retrieve latest checkpoint'' err))
      | Inr (prevRaw, rangeRaw) \<Rightarrow>
        (case witness_parse N w prevRaw logID of
           Inl e \<Rightarrow> Reply (None, Some (statusf Internal ''couldn't parse stored checkpoint'' e))
         | Inr (prev, _) \<Rightarrow>
           (case (if UseCompact logInfo then Proof_Unmarshal (case rangeRaw of None \<Rightarrow> [] | Some b \<Rightarrow> b) else Inr []) of
              Inl e \<Rightarrow> Reply (None, Some (statusf InvalidArgument ''couldn't unmarshal proof'' e))
            | Inr prevRange \<Rightarrow>
              if Size next < Size prev
              then Reply (Some prevRaw, Some (Status AlreadyExists ''cannot prove consistency backwards''))
              else if Size next = Size prev
              then (if Hash next \<noteq> Hash prev
                    then Reply (Some prevRaw, Some (Status FailedPrecondition ''checkpoint for same size log with differing hash''))
                    else Reply (Some prevRaw, None))
              else if UseCompact logInfo
              then (case verifyRange RF next prev (li_Hasher logInfo) prevRange cProof of
                      Inl e \<Rightarrow> Reply (Some prevRaw, Some (statusf FailedPrecondition ''failed to verify compact range'' e))
                    | Inr nextRange \<Rightarrow>
                        (case cosigned of Inl e \<Rightarrow> sign_err e | Inr sg \<Rightarrow> StoreSet sg (Some (Proof_Marshal nextRange))))
              else (case VerifyConsistency P (li_Hasher logInfo) (Size prev) (Size next) cProof (Hash prev) (Hash next) of
                      Some e \<Rightarrow> Reply (Some prevRaw, Some (statusf FailedPrecondition ''failed to verify consistency proof'' e))
                    | None \<Rightarrow> (case cosigned of Inl e \<Rightarrow> sign_err e | Inr sg \<Rightarrow> StoreSet sg None)))))"

text \<open>The end of an update, at the time the decision is carried out; \<open>write.Close\<close> is deferred.\<close>

definition update_finish ::
    "(hash_fn \<Rightarrow> 'r compact) \<Rightarrow> ('p, 'h) LogStatePersistence \<Rightarrow> 'v LogInfo \<Rightarrow> Checkpoint \<Rightarrow> bytes list \<Rightarrow>
     'p \<Rightarrow> 'h \<Rightarrow> update_step \<Rightarrow> update_result \<times> 'p" where
  "update_finish RF L logInfo next cProof p wr step =
     (case step of
        Reply r \<Rightarrow> (r, lsp_Close L p wr)
      | TofuSet sg \<Rightarrow>
          (case setInitChkptData RF L p wr logInfo next sg cProof of
             (Some e, p', wr') \<Rightarrow> ((None, Some (statusf Internal ''couldn't set TOFU checkpoint'' e)), lsp_Close L p' wr')
           | (None, p', wr') \<Rightarrow> ((Some sg, None), lsp_Close L p' wr'))
      | StoreSet sg r \<Rightarrow>
          (case lsp_Set L p wr sg r of
             (Some e, p', wr') \<Rightarrow> ((None, Some (statusf Internal ''failed to store new checkpoint'' e)), lsp_Close L p' wr')
           | (None, p', wr') \<Rightarrow> ((Some sg, None), lsp_Close L p' wr')))"

definition witness_Update ::
    "(hash_fn \<Rightarrow> 'r compact) \<Rightarrow> 'n proof_lib \<Rightarrow> ('v, 's) note_lib \<Rightarrow> ('v, 's, 'p, 'h) Witness \<Rightarrow> 'p \<Rightarrow> string \<Rightarrow>
     bytes \<Rightarrow> bytes list \<Rightarrow> update_result \<times> 'p" where
  "witness_Update RF P N w p logID nextRaw cProof =
     (case w_Logs w logID of
        None \<Rightarrow> ((None, Some (Status NotFound ''log not found'')), p)
      | Some logInfo \<Rightarrow>
        (case witness_parse N w nextRaw logID of
           Inl e \<Rightarrow> ((None, Some (statusf InvalidArgument ''couldn't parse input checkpoint'' e)), p)
         | Inr (next, nextNote) \<Rightarrow>
           (case lsp_WriteOps (lsp w) p logID of
              (Inl e, p') \<Rightarrow> ((None, Some (errorf ''WriteOps()'' e)), p')
            | (Inr wr, p') \<Rightarrow>
                (let (latest, wr') = lsp_GetLatest (lsp w) p' wr
                 in update_finish RF (lsp w) logInfo next cProof p' wr'
                      (update_decide RF P N w logID logInfo next nextNote cProof latest)))))"

end
