(* ===== verification/WitnessTheorems.thy ===== *)
theory WitnessTheorems
  imports WitnessProofs MerkleRef ProofLib
begin

section \<open>Properties of the witness\<close>

text \<open>The contract of \<open>Update\<close> and of the persistence as statements about the two implementations,
  and a small witness at which they are evaluated.\<close>

subsection \<open>One call\<close>

context log_state_persistence
begin

lemma update_finish_view:
  assumes "phase_ok RF P N w (Decided info nx cProof wr step)"
    "update_finish RF L info nx cProof p wr step = ((res, err), p')"
  shows "(\<forall>r. step = Reply r \<longrightarrow> r = (res, err) \<and> view p' = view p) \<and>
    ((\<forall>r. step \<noteq> Reply r) \<longrightarrow> (if err = None then \<exists>sg rg. res = Some sg \<and> view p' = (view p)(h_log wr \<mapsto> (sg, rg))
       else view p' = view p))"
proof (cases step)
  case (Reply x)
  then show ?thesis using assms(2) close by (auto simp: update_finish_def)
next
  case (TofuSet sg)
  then have "h_saw wr = Some None" using assms(1) by (simp add: phase_ok_def)
  then show ?thesis using assms(2) set_ok [of p wr sg] set_err [of p wr sg] close
    by (auto simp: TofuSet update_finish_def setInitChkptData_def split: prod.splits sum.splits option.splits)
next
  case (StoreSet sg rg)
  then obtain e where "h_saw wr = Some (Some e)" using assms(1) by (auto simp: phase_ok_def)
  then show ?thesis using assms(2) set_ok [of p wr sg rg] set_err [of p wr sg rg] close
    by (auto simp: StoreSet update_finish_def split: prod.splits option.splits)
qed

lemma update_decide_accepts:
  "update_decide RF P N w i info nx nn cProof latest = Reply (res, None) \<Longrightarrow>
     \<exists>raw rg. latest = Inr (raw, rg) \<and> res = Some raw"
  by (auto simp: update_decide_def Let_def split: decide_splits)

lemma Update_view:
  assumes "lsp w = L" "witness_Update RF P N w p i nextRaw cProof = ((res, err), p')"
  shows "if err = None then \<exists>raw rg. res = Some raw \<and> view p' = (view p)(i \<mapsto> (raw, rg)) else view p' = view p"
proof (cases "w_Logs w i")
  case (Some info)
  show ?thesis
  proof (cases "witness_parse N w nextRaw i")
    case (Inr x)
    then obtain nx nn where nx: "witness_parse N w nextRaw i = Inr (nx, nn)" by (cases x) auto
    obtain ro p1 where wo: "lsp_WriteOps L p i = (ro, p1)" by fastforce
    note v1 = write_ops [OF wo]
    show ?thesis
    proof (cases ro)
      case (Inl e)
      then show ?thesis using assms Some nx wo v1 by (auto simp: witness_Update_def)
    next
      case (Inr wr)
      obtain latest wr' where gl: "lsp_GetLatest L p1 wr = (latest, wr')" by fastforce
      let ?step = "update_decide RF P N w i info nx nn cProof latest"
      have ph: "phase_ok RF P N w (Decided info nx cProof wr' ?step)"
        using Some nx wo Inr gl by (intro phase_ok_decide) (auto simp: phase_ok_def)
      have fin: "update_finish RF L info nx cProof p1 wr' ?step = ((res, err), p')"
        using assms Some nx wo Inr gl by (simp add: witness_Update_def)
      have log: "h_log wr' = i" using write_latest [OF wo [unfolded Inr] gl] by simp
      have "view p' = (view p)(i \<mapsto> (raw, rg))" if "?step = Reply (res, None)" "latest = Inr (raw, rg)" for raw rg
        using that update_finish_view [OF ph fin] fresh_latest [OF wo [unfolded Inr], of "(raw, rg)" wr'] gl v1 by auto
      then show ?thesis
        using update_finish_view [OF ph fin] log v1 update_decide_accepts [of RF P N w i info nx nn cProof latest res]
        by (cases ?step) (auto split: if_splits)
    qed
  qed (use assms Some in \<open>auto simp: witness_Update_def\<close>)
qed (use assms in \<open>auto simp: witness_Update_def\<close>)

end

text \<open>C6: However many \<open>Update\<close> calls run at the same time on a witness with in-memory persistence and
  however their steps interleave, the checkpoints stored for a log form a chain: the first one is
  signed by the log, and every later one was verified, by a consistency proof or a compact range, to
  extend the one it replaces.\<close>

theorem witness_concurrent_chain:
  assumes "lsp w = inmemory iter" "(witness_step RF P N w)\<^sup>*\<^sup>* (p, all_idle) (p', ths)"
  shows "witness_chain RF P N w i (im_view p i) (im_view p' i)"
  using im.witness_run_chain [OF assms(2,1)] .

context sql_table
begin

lemma sql_contract: "log_state_persistence (sqlLogPersistence D) tbl sql_log (sql_saw t_saw)"
  by (rule sql.log_state_persistence_axioms)

end

text \<open>C7: The SQL persistence keeps the contract of \<open>LogStatePersistence\<close> over every database with
  serializable transactions, so the chain property holds for it too.\<close>

theorem witness_sql_chain:
  assumes "sql_table D tbl t_saw t_new" "lsp w = sqlLogPersistence D"
    "(witness_step RF P N w)\<^sup>*\<^sup>* (d, all_idle) (d', ths)"
  shows "log_state_persistence (sqlLogPersistence D) tbl sql_log (sql_saw t_saw) \<and>
    witness_chain RF P N w i (tbl d i) (tbl d' i)"
  using log_state_persistence.witness_run_chain [OF sql_table.sql_contract [OF assms(1)] assms(3,2)]
    sql_table.sql_contract [OF assms(1)] by simp

text \<open>With in-memory persistence, a call of \<open>Update\<close> that returns an error changes nothing, and
  one that returns no error returns the checkpoint that is then stored for the log, the other logs
  unchanged; \<open>GetCheckpoint\<close> returns it from then on.\<close>

theorem witness_Update_outcome:
  assumes "lsp w = inmemory iter" "witness_Update RF P N w p i nextRaw cProof = ((res, err), p')"
  shows "if err = None
    then \<exists>raw rg. res = Some raw \<and> im_view p' = (im_view p)(i \<mapsto> (raw, rg)) \<and> witness_GetCheckpoint w p' i = Inr raw
    else im_view p' = im_view p"
proof -
  have "witness_GetCheckpoint w p' i = Inr raw" if "im_view p' = v(i \<mapsto> (raw, rg))" for v raw rg
  proof -
    have "im_view p' i = Some (raw, rg)" using that by simp
    then show ?thesis using assms(1)
      by (auto simp: witness_GetCheckpoint_def inmemory_def im_ReadOps_def rw_GetLatest_def im_view_def)
  qed
  then show ?thesis using im.Update_view [OF assms] by (auto split: if_splits)
qed

subsection \<open>Compact ranges\<close>

text \<open>The hashes of the compact range of the leaves \<open>[b, e)\<close>.\<close>

definition compact_hashes :: "'r compact \<Rightarrow> hash_fn \<Rightarrow> (nat \<Rightarrow> bytes) \<Rightarrow> u64 \<Rightarrow> u64 \<Rightarrow> bytes list" where
  "compact_hashes C hc lf b e = map (\<lambda>(l, i). node_hash hc lf (unat l) (unat i)) (RangeNodes C b e)"

context compact_range
begin

lemma compact_hashes_not_Nil: "0 < e \<Longrightarrow> compact_hashes C hc lf 0 e \<noteq> []"
proof -
  assume "0 < e"
  then have "1 \<le> unat e" using unat_gt_0 [of e] by (auto simp: word_neq_0_conv)
  then obtain l where "2 ^ l \<le> unat e" "unat e < 2 ^ (l + 1)" using ex_power_ivl1 [of 2 "unat e"] by auto
  then have "maximal (unat (0 :: u64)) (unat e) l 0" by (simp add: maximal_def complete_def)
  then have "nid l 0 \<in> set (RangeNodes C 0 e)" unfolding range_nodes by blast
  then show ?thesis by (auto simp: compact_hashes_def)
qed

lemma verifyRangeHash_rep:
  "\<lbrakk>rep r lf 0 (unat e); 0 < (e :: u64)\<rbrakk> \<Longrightarrow> verifyRangeHash C root r =
     (if root = mth hc lf 0 (unat e) then None else Some (Errorf ''hashes aren't equal''))"
  using root_rep [of r lf "unat e", OF _ _ unat_lt_u64] unat_gt_0 [of e] by (auto simp: verifyRangeHash_def word_neq_0_conv)

lemma NewRange_hashes:
  assumes "x \<le> y"
  obtains r where "NewRange C x y (compact_hashes C hc lf x y) = Inr r" "rep r lf (unat x) (unat y)"
  using new_range [OF assms, of lf] unfolding compact_hashes_def by blast

lemma verifyRange_honest:
  assumes "RF (HashChildren h) = C" "0 < Size prev" "Size prev < Size nx" "Hash prev = mth hc lf 0 (unat (Size prev))"
  shows "verifyRange RF nx prev h (compact_hashes C hc lf 0 (Size prev)) (compact_hashes C hc lf (Size prev) (Size nx)) =
    (if Hash nx = mth hc lf 0 (unat (Size nx)) then Inr (compact_hashes C hc lf 0 (Size nx))
     else Inl (Errorf ''new root hash doesn't verify''))"
proof -
  obtain r where r: "NewRange C 0 (Size prev) (compact_hashes C hc lf 0 (Size prev)) = Inr r" "rep r lf 0 (unat (Size prev))"
    using NewRange_hashes [of 0 "Size prev" lf] by auto
  obtain d where d: "NewRange C (Size prev) (Size nx) (compact_hashes C hc lf (Size prev) (Size nx)) = Inr d"
    "rep d lf (unat (Size prev)) (unat (Size nx))"
    using NewRange_hashes [OF less_imp_le [OF assms(3)]] by blast
  obtain err r' vs where a: "AppendRange C r d = (err, r', vs)" by (metis prod_cases3)
  have "unat (Size prev) \<le> unat (Size nx)" using assms(3) by (simp add: word_less_nat_alt)
  then have r': "rep r' lf 0 (unat (Size nx))"
    using append_range_rep [OF r(2) d(2) _ _ unat_lt_u64 a] by simp
  have nx: "0 < Size nx" using assms(2,3) by (rule less_trans)
  have "Hashes C r' = compact_hashes C hc lf 0 (Size nx)"
    using hashes_rep [OF r' _ unat_lt_u64] by (simp add: compact_hashes_def)
  then show ?thesis using verifyRangeHash_rep [OF r(2) assms(2)] verifyRangeHash_rep [OF r' nx] assms(1,4) r(1) d(1) a
    by (simp add: verifyRange_def Let_def errorf_def)
qed

end

subsection \<open>A small witness\<close>

text \<open>The raw form of a checkpoint is its hash, of the size of its length; signing keeps it.\<close>

definition wit_notes :: "(unit, unit) note_lib" where
  "wit_notes = \<lparr>note_Open = (\<lambda>_ _. OpenFailed ErrIO), note_Sign = (\<lambda>n _. Inr (NoteText n)), KeyHash = (\<lambda>_. 0),
     ParseCheckpoint = (\<lambda>raw _ _ _. Inr (\<lparr>Origin = [], Size = of_nat (length raw), Hash = raw\<rparr>,
       \<lparr>NoteText = raw, Sigs = [], UnverifiedSigs = []\<rparr>)), MarshalCheckpoint = Hash\<rparr>"

definition wit_hasher :: hasher where
  "wit_hasher = \<lparr>HashLeaf = id, HashChildren = (@), EmptyRoot = []\<rparr>"

definition wit_info :: "bool \<Rightarrow> unit LogInfo" where
  "wit_info cmp = \<lparr>li_SigV = (), li_Origin = [], li_Hasher = wit_hasher, UseCompact = cmp\<rparr>"

definition wit :: "('p, 'h) LogStatePersistence \<Rightarrow> bool \<Rightarrow> (unit, unit, 'p, 'h) Witness" where
  "wit L cmp = \<lparr>lsp = L, w_Signer = (), w_Logs = (\<lambda>i. if i = ''log'' then Some (wit_info cmp) else None)\<rparr>"

definition wit_update :: "('p, 'h) LogStatePersistence \<Rightarrow> 'p \<Rightarrow> bytes \<Rightarrow> update_result \<times> 'p" where
  "wit_update L p raw = witness_Update ref_compact rfc6962_proofs wit_notes (wit L False) p ''log'' raw []"

lemmas wit_defs = wit_update_def wit_def wit_notes_def wit_info_def witness_parse_def signChkpt_def

lemma wit_tofu:
  "wit_update (inmemory id) [] ''a'' = ((Some ''a'', None), [(''log'', \<lparr>rawChkpt = ''a'', compactRange = None\<rparr>)])"
  by (simp add: wit_defs witness_Update_def update_decide_def update_finish_def setInitChkptData_def init_range_def
      inmemory_def im_WriteOps_def rw_GetLatest_def rw_Set_def expectAndWrite_def rw_Close_def Let_def)

lemma wit_tofu_sql:
  "wit_update (sqlLogPersistence ref_db) [] ''a'' = ((Some ''a'', None), [(''log'', (''a'', None))])"
  by (simp add: wit_defs witness_Update_def update_decide_def update_finish_def setInitChkptData_def init_range_def
      sqlLogPersistence_def sql_WriteOps_def getLatestCheckpoint_def ref_db_def ref_row_def ErrNoRows_def Let_def)

theorem witness_concurrent_chain_witness:
  "witness_chain ref_compact rfc6962_proofs wit_notes (wit (inmemory id) False) ''log'' None (Some (''a'', None))"
proof -
  have "(witness_step ref_compact rfc6962_proofs wit_notes (wit (inmemory id) False))\<^sup>*\<^sup>* ([], all_idle)
     ([(''log'', \<lparr>rawChkpt = ''a'', compactRange = None\<rparr>)], all_idle)"
    using wit_tofu unfolding wit_update_def by (rule witness_Update_is_run)
  from witness_concurrent_chain [OF _ this, of id "''log''"] show ?thesis by (simp add: im_view_def wit_def)
qed

theorem witness_sql_chain_witness:
  "witness_chain ref_compact rfc6962_proofs wit_notes (wit (sqlLogPersistence ref_db) False) ''log'' None (Some (''a'', None))"
proof -
  have "(witness_step ref_compact rfc6962_proofs wit_notes (wit (sqlLogPersistence ref_db) False))\<^sup>*\<^sup>* ([], all_idle)
     ([(''log'', (''a'', None))], all_idle)"
    using wit_tofu_sql unfolding wit_update_def by (rule witness_Update_is_run)
  then show ?thesis
    using witness_sql_chain [OF ref_sql.sql_table_axioms, of "wit (sqlLogPersistence ref_db) False" ref_compact rfc6962_proofs
      wit_notes "[]" "[(''log'', (''a'', None))]" all_idle "''log''"]
    by (simp add: wit_def)
qed

theorem witness_Update_outcome_witness:
  "witness_GetCheckpoint (wit (inmemory id) False) (snd (wit_update (inmemory id) [] ''a'')) ''log'' = Inr ''a''"
  using witness_Update_outcome [of "wit (inmemory id) False" id, OF _ wit_tofu [unfolded wit_update_def]] wit_tofu
  by (auto simp: wit_def)

end
