(* ===== verification/WitnessHttp.thy ===== *)
theory WitnessHttp
  imports WitnessTheorems
begin

section \<open>The witness over HTTP, and the feeder\<close>

text \<open>
  \<^verbatim>\<open>witness/golang/internal/http/server.go\<close>, \<^verbatim>\<open>witness/golang/client/http/witness_client.go\<close>
  and \<^verbatim>\<open>internal/feeder/feeder.go\<close>.  Parameters: the JSON encoding of an update request, the URL
  and request functions of \<^verbatim>\<open>net/http\<close>, the router and the retry loop of the backoff package.
  A response is its status code and its body; reading the body may fail.  A panic in a handler, which
  \<^verbatim>\<open>net/http\<close> turns into a broken connection, is an internal server error here.
\<close>

subsection \<open>The server\<close>

record UpdateRequest =
  rq_Checkpoint :: bytes
  rq_Proof :: "bytes list"

record http_request =
  rq_Method :: string
  rq_URL :: string
  rq_Body :: "bytes res"

record http_response =
  StatusCode :: nat
  rs_Body :: "bytes res"

definition http_Error :: "string \<Rightarrow> nat \<Rightarrow> http_response" where
  "http_Error msg c = \<lparr>StatusCode = c, rs_Body = Inr (msg @ [CHR 0x0A])\<rparr>"

definition httpForCode :: "code \<Rightarrow> nat" where
  "httpForCode c =
     (case c of
        AlreadyExists \<Rightarrow> 409
      | NotFound \<Rightarrow> 404
      | FailedPrecondition \<Rightarrow> 400
      | InvalidArgument \<Rightarrow> 400
      | _ \<Rightarrow> 500)"

text \<open>\<open>upd\<close> is the witness's \<open>Update\<close>, \<open>dec\<close> \<^verbatim>\<open>json.Unmarshal\<close> for update requests.\<close>

definition server_update ::
    "('p \<Rightarrow> string \<Rightarrow> bytes \<Rightarrow> bytes list \<Rightarrow> update_result \<times> 'p) \<Rightarrow> (bytes \<Rightarrow> UpdateRequest res) \<Rightarrow> 'p \<Rightarrow> string \<Rightarrow>
     http_request \<Rightarrow> http_response \<times> 'p" where
  "server_update upd dec p logID r =
     (case rq_Body r of
        Inl e \<Rightarrow> (http_Error ''cannot read request body'' 400, p)
      | Inr body \<Rightarrow>
        (case dec body of
           Inl e \<Rightarrow> (http_Error ''cannot parse request body as proper JSON struct'' 400, p)
         | Inr req \<Rightarrow>
           (case upd p logID (rq_Checkpoint req) (rq_Proof req) of
              ((chkpt, err), p') \<Rightarrow>
                (let out = (case chkpt of None \<Rightarrow> [] | Some b \<Rightarrow> b) in
                 case err of
                   None \<Rightarrow> (\<lparr>StatusCode = 200, rs_Body = Inr out\<rparr>, p')
                 | Some e \<Rightarrow>
                     let c = status_Code e in
                     if c = AlreadyExists then (\<lparr>StatusCode = httpForCode c, rs_Body = Inr out\<rparr>, p')
                     else (http_Error ''failed to update to new checkpoint'' (httpForCode c), p')))))"

definition server_getCheckpoint :: "('v, 's, 'p, 'h) Witness \<Rightarrow> 'p \<Rightarrow> string \<Rightarrow> http_response" where
  "server_getCheckpoint w p logID =
     (case witness_GetCheckpoint w p logID of
        Inl e \<Rightarrow> http_Error ''failed to get checkpoint'' (httpForCode (status_Code e))
      | Inr chkpt \<Rightarrow> \<lparr>StatusCode = 200, rs_Body = Inr chkpt\<rparr>)"

definition server_getLogs :: "('v, 's, 'p, 'h) Witness \<Rightarrow> (string list \<Rightarrow> bytes res) \<Rightarrow> 'p \<Rightarrow> http_response" where
  "server_getLogs w encl p =
     (case witness_GetLogs w p of
        Inl e \<Rightarrow> http_Error ''failed to get log list'' 500
      | Inr logs \<Rightarrow>
        (case encl logs of
           Inl e \<Rightarrow> http_Error ''failed to convert log list to JSON'' 500
         | Inr logList \<Rightarrow> \<lparr>StatusCode = 200, rs_Body = Inr logList\<rparr>))"

text \<open>The paths of \<^verbatim>\<open>witness/golang/api/http.go\<close>, and the routes: a path pattern, a method and the
  handler, which gets the log named in the path.\<close>

definition HTTPGetCheckpoint :: "string \<Rightarrow> string" where
  "HTTPGetCheckpoint logID = ''/witness/v0/logs/'' @ logID @ ''/checkpoint''"

definition HTTPUpdate :: "string \<Rightarrow> string" where
  "HTTPUpdate logID = ''/witness/v0/logs/'' @ logID @ ''/update''"

definition HTTPGetLogs :: string where
  "HTTPGetLogs = ''/witness/v0/logs''"

type_synonym 'p handler = "'p \<Rightarrow> string \<Rightarrow> http_request \<Rightarrow> http_response \<times> 'p"

definition RegisterHandlers ::
    "('p \<Rightarrow> string \<Rightarrow> bytes \<Rightarrow> bytes list \<Rightarrow> update_result \<times> 'p) \<Rightarrow> ('v, 's, 'p, 'h) Witness \<Rightarrow> (bytes \<Rightarrow> UpdateRequest res) \<Rightarrow>
     (string list \<Rightarrow> bytes res) \<Rightarrow> (string \<times> string \<times> 'p handler) list" where
  "RegisterHandlers upd w dec encl =
     (let logStr = ''{logid:[a-zA-Z0-9-]+}'' in
      [(HTTPGetCheckpoint logStr, ''GET'', \<lambda>p logID r. (server_getCheckpoint w p logID, p)),
       (HTTPUpdate logStr, ''PUT'', \<lambda>p logID r. server_update upd dec p logID r),
       (HTTPGetLogs, ''GET'', \<lambda>p logID r. (server_getLogs w encl p, p))])"

subsection \<open>The client\<close>

text \<open>\<^verbatim>\<open>url.Parse\<close>, \<^verbatim>\<open>http.NewRequest\<close> and \<^verbatim>\<open>client.Do\<close>; \<open>'c\<close> is the state of what
  the client talks to.\<close>

record 'c http_client =
  url_Parse :: "string \<Rightarrow> string res"
  NewRequest :: "string \<Rightarrow> string \<Rightarrow> bytes \<Rightarrow> http_request res"
  client_Do :: "'c \<Rightarrow> http_request \<Rightarrow> http_response res \<times> 'c"

definition ErrCheckpointTooOld :: go_error where
  "ErrCheckpointTooOld = Sentinel ''checkpoint too old''"

text \<open>The request both methods make: the URL, the request and the response, or the message of what
  failed.\<close>

definition http_do :: "'c http_client \<Rightarrow> 'c \<Rightarrow> string \<Rightarrow> string \<Rightarrow> bytes \<Rightarrow> http_response res \<times> 'c" where
  "http_do c st meth path body =
     (case url_Parse c path of
        Inl e \<Rightarrow> (Inl (errorf ''failed to parse URL'' e), st)
      | Inr u \<Rightarrow>
        (case NewRequest c meth u body of
           Inl e \<Rightarrow> (Inl (errorf ''failed to create request'' e), st)
         | Inr req \<Rightarrow>
           (case client_Do c st req of
              (Inl e, st') \<Rightarrow> (Inl (errorf ''failed to do http request'' e), st')
            | (Inr resp, st') \<Rightarrow> (Inr resp, st'))))"

definition client_GetLatestCheckpoint :: "'c http_client \<Rightarrow> 'c \<Rightarrow> string \<Rightarrow> bytes res \<times> 'c" where
  "client_GetLatestCheckpoint c st logID =
     (case http_do c st ''GET'' (HTTPGetCheckpoint logID) [] of
        (Inl e, st') \<Rightarrow> (Inl e, st')
      | (Inr resp, st') \<Rightarrow>
          if StatusCode resp = 404 then (Inl ErrNotExist, st')
          else if StatusCode resp \<noteq> 200 then (Inl (Errorf ''bad status response''), st')
          else (rs_Body resp, st'))"

definition client_Update ::
    "'c http_client \<Rightarrow> (UpdateRequest \<Rightarrow> bytes res) \<Rightarrow> 'c \<Rightarrow> string \<Rightarrow> bytes \<Rightarrow> bytes list \<Rightarrow> update_result \<times> 'c" where
  "client_Update c enc st logID cpRaw prf =
     (case enc \<lparr>rq_Checkpoint = cpRaw, rq_Proof = prf\<rparr> of
        Inl e \<Rightarrow> ((None, Some (errorf ''failed to marshal update request'' e)), st)
      | Inr reqBody \<Rightarrow>
        (case http_do c st ''PUT'' (HTTPUpdate logID) reqBody of
           (Inl e, st') \<Rightarrow> ((None, Some e), st')
         | (Inr resp, st') \<Rightarrow>
           (case rs_Body resp of
              Inl e \<Rightarrow> ((None, Some (errorf ''failed to read body'' e)), st')
            | Inr body \<Rightarrow>
                if StatusCode resp \<noteq> 200 then
                  (if StatusCode resp = 409 then ((Some body, Some (wrapf ''Conflict'' ErrCheckpointTooOld)), st')
                   else ((None, Some (Errorf ''bad status response'')), st'))
                else ((Some body, None), st'))))"

subsection \<open>The feeder\<close>

text \<open>The interface \<open>Witness\<close> of the feeder.\<close>

record 'c FeedWitness =
  fw_GetLatestCheckpoint :: "'c \<Rightarrow> string \<Rightarrow> bytes res \<times> 'c"
  fw_Update :: "'c \<Rightarrow> string \<Rightarrow> bytes \<Rightarrow> bytes list \<Rightarrow> update_result \<times> 'c"

record ('v, 'c) FeedOpts =
  fo_LogID :: string
  fo_FetchCheckpoint :: "bytes res"
  fo_FetchProof :: "Checkpoint \<Rightarrow> Checkpoint \<Rightarrow> bytes list res"
  fo_LogSigVerifier :: 'v
  fo_LogOrigin :: string
  fo_Witness :: "'c FeedWitness"

text \<open>An attempt ends with success, with an error that is tried again, or with a permanent one.  The
  first component is \<open>returnCp\<close>, which \<open>Update\<close> assigns even when it fails.\<close>

datatype attempt = Succeeded | RetryLater go_error | Permanent go_error

definition submitOp ::
    "('v, 's) note_lib \<Rightarrow> ('v, 'c) FeedOpts \<Rightarrow> bytes \<Rightarrow> Checkpoint \<Rightarrow> bytes \<times> 'c \<Rightarrow> attempt \<times> bytes \<times> 'c" where
  "submitOp N opts cpRaw cpSubmit s =
     (let (returnCp, st) = s in
      case fw_GetLatestCheckpoint (fo_Witness opts) st (fo_LogID opts) of
        (r, st1) \<Rightarrow>
          (let fetch_failed = (case r of Inl e \<Rightarrow> \<not> errors_Is e ErrNotExist | Inr _ \<Rightarrow> False);
               latestCPRaw = (case r of Inl e \<Rightarrow> [] | Inr b \<Rightarrow> b);
               feed = (\<lambda>latestCP.
                 case fo_FetchProof opts latestCP cpSubmit of
                   Inl e \<Rightarrow> (RetryLater (errorf ''failed to fetch consistency proof'' e), returnCp, st1)
                 | Inr conP \<Rightarrow>
                   (case fw_Update (fo_Witness opts) st1 (fo_LogID opts) cpRaw conP of
                      ((c, err), st2) \<Rightarrow>
                        (let ret = (case c of None \<Rightarrow> [] | Some b \<Rightarrow> b) in
                         case err of
                           Some e \<Rightarrow> (RetryLater (errorf ''failed to submit checkpoint to witness'' e), ret, st2)
                         | None \<Rightarrow> (Succeeded, ret, st2))))
           in if fetch_failed then (RetryLater (Errorf ''failed to fetch latest CP from witness''), returnCp, st1)
              else if 0 < length latestCPRaw
              then (case ParseCheckpoint N latestCPRaw (fo_LogOrigin opts) (fo_LogSigVerifier opts) [] of
                      Inl e \<Rightarrow> (RetryLater (errorf ''failed to parse CP from witness'' e), returnCp, st1)
                    | Inr (latestCP, _) \<Rightarrow>
                        if Size cpSubmit < Size latestCP
                        then (Permanent (Errorf ''witness checkpoint size > submit checkpoint size''), returnCp, st1)
                        else if Size latestCP = Size cpSubmit \<and> Hash latestCP = Hash cpSubmit
                        then (Succeeded, latestCPRaw, st1)
                        else feed latestCP)
              else feed zero_checkpoint))"

text \<open>\<^verbatim>\<open>backoff.Retry\<close> is the parameter \<open>retry\<close>: it runs the operation on the captured state and
  returns nil or the last error.\<close>

type_synonym 's retry_fn = "('s \<Rightarrow> attempt \<times> 's) \<Rightarrow> 's \<Rightarrow> go_error option \<times> 's"

definition submitToWitness ::
    "('v, 's) note_lib \<Rightarrow> (bytes \<times> 'c) retry_fn \<Rightarrow> ('v, 'c) FeedOpts \<Rightarrow> bytes \<Rightarrow> Checkpoint \<Rightarrow> 'c \<Rightarrow>
     (bytes \<times> go_error option) \<times> 'c" where
  "submitToWitness N retry opts cpRaw cpSubmit st =
     (let (err, (returnCp, st')) = retry (submitOp N opts cpRaw cpSubmit) ([], st)
      in ((returnCp, err), st'))"

definition FeedOnce ::
    "('v, 's) note_lib \<Rightarrow> (bytes \<times> 'c) retry_fn \<Rightarrow> ('v, 'c) FeedOpts \<Rightarrow> 'c \<Rightarrow> bytes res \<times> 'c" where
  "FeedOnce N retry opts st =
     (case fo_FetchCheckpoint opts of
        Inl e \<Rightarrow> (Inl (errorf ''failed to read input checkpoint'' e), st)
      | Inr cpRaw \<Rightarrow>
        (case ParseCheckpoint N cpRaw (fo_LogOrigin opts) (fo_LogSigVerifier opts) [] of
           Inl e \<Rightarrow> (Inl (errorf ''failed to parse checkpoint'' e), st)
         | Inr (cpSubmit, _) \<Rightarrow>
           (case submitToWitness N retry opts cpRaw cpSubmit st of
              ((wCP, Some e), st') \<Rightarrow> (Inl (errorf ''witness submission failed'' e), st')
            | ((wCP, None), st') \<Rightarrow> (Inr wCP, st'))))"

text \<open>\<open>Run\<close> feeds once per tick until the context is done; the list gives what the feeder reads from
  the log in each cycle.\<close>

fun feeder_Run ::
    "('v, 's) note_lib \<Rightarrow> (bytes \<times> 'c) retry_fn \<Rightarrow> ('v, 'c) FeedOpts list \<Rightarrow> 'c \<Rightarrow> 'c" where
  "feeder_Run N retry [] st = st"
| "feeder_Run N retry (opts # cycles) st = feeder_Run N retry cycles (snd (FeedOnce N retry opts st))"

end
