(* ===== verification/WitnessFeed.thy ===== *)
theory WitnessFeed
  imports WitnessHttp
begin

section \<open>Feeding a witness over HTTP\<close>

text \<open>
  The composition of the feeder, the HTTP client, the HTTP server, the witness and its persistence.
  The interfaces to code outside the repository are the locales \<open>backoff_retry\<close> and
  \<open>witness_endpoint\<close>; both are interpreted on a concrete instance.  Shown: what \<open>FeedOnce\<close> returns
  is what the witness then holds, and that the server maps the witness's errors to HTTP and the client
  maps them back.
\<close>

subsection \<open>The retry loop\<close>

text \<open>Any number of attempts: it ends with the first success or permanent error, or gives up with some
  error after a failed attempt.\<close>

inductive attempts :: "('s \<Rightarrow> attempt \<times> 's) \<Rightarrow> 's \<Rightarrow> go_error option \<Rightarrow> 's \<Rightarrow> bool" for op where
  succeeds: "op s = (Succeeded, s') \<Longrightarrow> attempts op s None s'"
| permanent: "op s = (Permanent e, s') \<Longrightarrow> attempts op s (Some e) s'"
| gives_up: "op s = (RetryLater e, s') \<Longrightarrow> attempts op s (Some e') s'"
| again: "\<lbrakk>op s = (RetryLater e, s'); attempts op s' r s''\<rbrakk> \<Longrightarrow> attempts op s r s''"

locale backoff_retry =
  fixes retry :: "'s retry_fn"
  assumes retry_attempts: "retry op s = (r, s') \<Longrightarrow> attempts op s r s'"
begin

lemma retry_succeeds:
  "retry op s = (None, s') \<Longrightarrow> \<exists>s0. op s0 = (Succeeded, s')"
proof -
  have "attempts op s r s' \<Longrightarrow> r = None \<Longrightarrow> \<exists>s0. op s0 = (Succeeded, s')" for r
    by (induction rule: attempts.induct) auto
  then show "retry op s = (None, s') \<Longrightarrow> ?thesis" using retry_attempts by blast
qed

lemma retry_preserves:
  assumes "retry op s = (r, s')" "R s s" "\<And>a b x y. R s a \<Longrightarrow> op a = (x, b) \<Longrightarrow> R s b"
  shows "R s s'"
proof -
  have "attempts op a r b \<Longrightarrow> R s a \<Longrightarrow> R s b" for a r b
    by (induction rule: attempts.induct) (auto intro: assms(3))
  then show ?thesis using retry_attempts [OF assms(1)] assms(2) by blast
qed

end

text \<open>At most \<open>n + 1\<close> attempts.\<close>

primrec retry_n :: "nat \<Rightarrow> 's retry_fn" where
  "retry_n 0 op s =
     (case op s of
        (Succeeded, s') \<Rightarrow> (None, s') | (Permanent e, s') \<Rightarrow> (Some e, s') | (RetryLater e, s') \<Rightarrow> (Some e, s'))"
| "retry_n (Suc n) op s =
     (case op s of
        (Succeeded, s') \<Rightarrow> (None, s') | (Permanent e, s') \<Rightarrow> (Some e, s') | (RetryLater e, s') \<Rightarrow> retry_n n op s')"

interpretation retry_n: backoff_retry "retry_n n"
proof
  fix op :: "'a \<Rightarrow> attempt \<times> 'a" and s r s'
  show "retry_n n op s = (r, s') \<Longrightarrow> attempts op s r s'"
    by (induction n arbitrary: s) (auto intro: attempts.intros split: prod.splits attempt.splits)
qed

subsection \<open>The HTTP endpoint\<close>

text \<open>A client that is connected to the server of a witness: a response is the server's, and after a
  failed request the update may or may not have reached the witness.  The JSON encoding of an update
  request can be read back.\<close>

locale witness_endpoint = log_state_persistence "lsp w" view h_log h_saw
  for w :: "('v, 's, 'p, 'h) Witness" and view h_log h_saw +
  fixes upd :: "'p \<Rightarrow> string \<Rightarrow> bytes \<Rightarrow> bytes list \<Rightarrow> update_result \<times> 'p"
    and c :: "'p http_client" and enc :: "UpdateRequest \<Rightarrow> bytes res" and dec :: "bytes \<Rightarrow> UpdateRequest res"
    and valid_log :: "string \<Rightarrow> bool"
  assumes json: "enc rq = Inr b \<Longrightarrow> dec b = Inr rq"
    and upd_view: "upd p i raw prf = ((res, err), p') \<Longrightarrow>
      if err = None then \<exists>raw rg. res = Some raw \<and> view p' = (view p)(i \<mapsto> (raw, rg)) else view p' = view p"
    and get: "\<lbrakk>valid_log i; http_do c p ''GET'' (HTTPGetCheckpoint i) b = (r, p')\<rbrakk> \<Longrightarrow>
      p' = p \<and> (\<forall>resp. r = Inr resp \<longrightarrow> StatusCode resp = StatusCode (server_getCheckpoint w p i) \<and>
        (is_ok (rs_Body resp) \<longrightarrow> rs_Body resp = rs_Body (server_getCheckpoint w p i)))"
    and put: "\<lbrakk>valid_log i; http_do c p ''PUT'' (HTTPUpdate i) b = (r, p')\<rbrakk> \<Longrightarrow>
      \<exists>u resp0 p0. server_update upd dec p i \<lparr>rq_Method = ''PUT'', rq_URL = u, rq_Body = Inr b\<rparr> = (resp0, p0) \<and>
        (\<forall>resp. r = Inr resp \<longrightarrow> p' = p0 \<and> StatusCode resp = StatusCode resp0 \<and>
          (is_ok (rs_Body resp) \<longrightarrow> rs_Body resp = rs_Body resp0)) \<and> (\<not> is_ok r \<longrightarrow> p' \<in> {p, p0})"
begin

text \<open>The client's view of the stored checkpoint.\<close>

lemma client_get_view:
  assumes "valid_log i" "client_GetLatestCheckpoint c p i = (r, p')"
  shows "p' = p" "r = Inr raw \<Longrightarrow> \<exists>rg. view p i = Some (raw, rg)"
proof -
  obtain r0 p0 where d: "http_do c p ''GET'' (HTTPGetCheckpoint i) [] = (r0, p0)" by fastforce
  note g = get [OF assms(1) d]
  show "p' = p" using assms(2) d g by (auto simp: client_GetLatestCheckpoint_def split: sum.splits if_splits)
  show "\<exists>rg. view p i = Some (raw, rg)" if raw: "r = Inr raw"
  proof -
    obtain resp where resp: "r0 = Inr resp" "StatusCode resp = 200" "rs_Body resp = Inr raw"
      using assms(2) [unfolded client_GetLatestCheckpoint_def d raw] by (cases r0) (simp_all split: if_splits)
    then have "StatusCode (server_getCheckpoint w p i) = 200" "rs_Body (server_getCheckpoint w p i) = Inr raw"
      using g by (metis is_ok_simps(1))+
    then have "witness_GetCheckpoint w p i = Inr raw"
      by (auto simp: server_getCheckpoint_def http_Error_def httpForCode_def split: sum.splits code.splits)
    then obtain h where "lsp_ReadOps (lsp w) p i = Inr h" "\<exists>rg h'. lsp_GetLatest (lsp w) p h = (Inr (raw, rg), h')"
      by (auto simp: witness_GetCheckpoint_def split: sum.splits prod.splits) (metis fst_conv surj_pair)
    then show ?thesis using read_latest by blast
  qed
qed

lemma server_update_200:
  assumes "server_update upd dec p i r = (resp, p')" "StatusCode resp = 200" "rs_Body resp = Inr body"
  shows "\<exists>rg. view p' i = Some (body, rg)"
  using assms upd_view [of p i] 
  by (auto simp: server_update_def Let_def http_Error_def httpForCode_def split: sum.splits prod.splits option.splits if_splits code.splits)
    fastforce+


lemma client_update_view:
  assumes "valid_log i" "client_Update c enc p i raw prf = ((res, None), p')"
  shows "\<exists>body rg. res = Some body \<and> view p' i = Some (body, rg)"
proof -
  obtain b where b: "enc \<lparr>rq_Checkpoint = raw, rq_Proof = prf\<rparr> = Inr b"
    using assms(2) by (auto simp: client_Update_def split: sum.splits)
  obtain r p1 where d: "http_do c p ''PUT'' (HTTPUpdate i) b = (r, p1)" by fastforce
  obtain resp body where ok: "r = Inr resp" "p1 = p'" "StatusCode resp = 200" "rs_Body resp = Inr body" "res = Some body"
    using assms(2) b d by (cases r; cases "rs_Body (projr r)") (auto simp: client_Update_def split: if_splits)
  obtain u resp0 p0 where s: "server_update upd dec p i \<lparr>rq_Method = ''PUT'', rq_URL = u, rq_Body = Inr b\<rparr> = (resp0, p0)"
    "p' = p0" "StatusCode resp0 = 200" "rs_Body resp0 = Inr body"
    using put [OF assms(1) d] ok by auto
  then show ?thesis using server_update_200 [OF s(1,3,4)] ok(5) by auto
qed

text \<open>An attempt that succeeds leaves \<open>returnCp\<close> equal to what the witness holds.\<close>

definition http_witness :: "'p FeedWitness" where
  "http_witness = \<lparr>fw_GetLatestCheckpoint = client_GetLatestCheckpoint c, fw_Update = client_Update c enc\<rparr>"

lemma submitOp_stored:
  assumes "valid_log (fo_LogID opts)" "fo_Witness opts = http_witness"
    "submitOp N opts cpRaw cpSubmit s = (Succeeded, cp', p')"
  shows "\<exists>rg. view p' (fo_LogID opts) = Some (cp', rg)"
proof -
  obtain r0 p where s: "s = (r0, p)" by fastforce
  let ?i = "fo_LogID opts"
  obtain r p1 where g: "client_GetLatestCheckpoint c p ?i = (r, p1)" by fastforce
  note view = client_get_view [OF assms(1) g]
  have upd: "\<exists>rg. view p' ?i = Some (cp', rg)"
    if "client_Update c enc p1 ?i cpRaw conP = ((res, None), p')" "cp' = (case res of None \<Rightarrow> [] | Some b \<Rightarrow> b)" for conP res
    using client_update_view [OF assms(1) that(1)] that(2) by auto
  show ?thesis
  proof (cases "\<exists>res conP. client_Update c enc p1 ?i cpRaw conP = ((res, None), p') \<and> cp' = (case res of None \<Rightarrow> [] | Some b \<Rightarrow> b)")
    case False
    then have "r = Inr cp' \<and> p' = p1"
      using assms(3) g unfolding s
      by (auto simp: submitOp_def assms(2) http_witness_def Let_def split: sum.splits prod.splits option.splits if_splits)
    then show ?thesis using view by simp
  qed (use upd in blast)
qed

lemma FeedOnce_returns_stored:
  assumes "backoff_retry retry" "valid_log (fo_LogID opts)" "fo_Witness opts = http_witness"
    "FeedOnce N retry opts p = (Inr wCP, p')"
  shows "\<exists>rg. view p' (fo_LogID opts) = Some (wCP, rg)"
proof -
  obtain cpRaw cpSubmit where "retry (submitOp N opts cpRaw cpSubmit) ([], p) = (None, wCP, p')"
    using assms(4) by (auto simp: FeedOnce_def submitToWitness_def Let_def split: sum.splits prod.splits option.splits)
  then show ?thesis using backoff_retry.retry_succeeds [OF assms(1)] submitOp_stored [OF assms(2,3)] by blast
qed

end

subsection \<open>A direct connection\<close>

text \<open>A client whose requests go straight to the handlers of the server, with the log taken from the
  path, and an encoding of update requests as lines of base64.\<close>

definition path_log :: "string \<Rightarrow> string \<Rightarrow> string" where
  "path_log sfx u = take (length u - 17 - length sfx) (drop 17 u)"

definition loopback ::
    "('p \<Rightarrow> string \<Rightarrow> bytes \<Rightarrow> bytes list \<Rightarrow> update_result \<times> 'p) \<Rightarrow> ('v, 's, 'p, 'h) Witness \<Rightarrow>
     (bytes \<Rightarrow> UpdateRequest res) \<Rightarrow> 'p http_client" where
  "loopback upd w dec =
     \<lparr>url_Parse = Inr, NewRequest = (\<lambda>m u b. Inr \<lparr>rq_Method = m, rq_URL = u, rq_Body = Inr b\<rparr>),
      client_Do = (\<lambda>p r.
        if rq_Method r = ''PUT''
        then (let (resp, p') = server_update upd dec p (path_log ''/update'' (rq_URL r)) r in (Inr resp, p'))
        else (Inr (server_getCheckpoint w p (path_log ''/checkpoint'' (rq_URL r))), p))\<rparr>"

definition lines_enc :: "UpdateRequest \<Rightarrow> bytes res" where
  "lines_enc r = Inr (Proof_Marshal (rq_Checkpoint r # rq_Proof r))"

definition lines_dec :: "bytes \<Rightarrow> UpdateRequest res" where
  "lines_dec b =
     (case Proof_Unmarshal b of Inl e \<Rightarrow> Inl e | Inr ls \<Rightarrow> Inr \<lparr>rq_Checkpoint = hd ls, rq_Proof = tl ls\<rparr>)"

lemma lines_roundtrip: "lines_enc r = Inr b \<Longrightarrow> lines_dec b = Inr r"
  by (auto simp: lines_enc_def lines_dec_def Proof_Unmarshal_def Proof_Marshal_suffix split_on_proof mapE_decode_encode)

lemma path_log [simp]:
  "path_log ''/update'' (HTTPUpdate i) = i" "path_log ''/checkpoint'' (HTTPGetCheckpoint i) = i"
  by (simp_all add: path_log_def HTTPUpdate_def HTTPGetCheckpoint_def)

lemma http_do_loopback:
  "http_do (loopback upd w dec) p ''GET'' (HTTPGetCheckpoint i) b = (Inr (server_getCheckpoint w p i), p)"
  "http_do (loopback upd w dec) p ''PUT'' (HTTPUpdate i) b =
     (let (resp, p') = server_update upd dec p i \<lparr>rq_Method = ''PUT'', rq_URL = HTTPUpdate i, rq_Body = Inr b\<rparr> in (Inr resp, p'))"
  by (simp_all add: http_do_def loopback_def Let_def split: prod.splits)

interpretation loop: witness_endpoint "w\<lparr>lsp := inmemory iter\<rparr>" im_view rw_log rw_saw
  "witness_Update RF P N (w\<lparr>lsp := inmemory iter\<rparr>)"
  "loopback (witness_Update RF P N (w\<lparr>lsp := inmemory iter\<rparr>)) (w\<lparr>lsp := inmemory iter\<rparr>) lines_dec"
  lines_enc lines_dec "\<lambda>_. True" for w iter RF P N
proof (intro witness_endpoint.intro witness_endpoint_axioms.intro)
  show "log_state_persistence (lsp (w\<lparr>lsp := inmemory iter\<rparr>)) im_view rw_log rw_saw"
    using im.log_state_persistence_axioms by simp
next
  fix p i raw pf res err p'
  assume "witness_Update RF P N (w\<lparr>lsp := inmemory iter\<rparr>) p i raw pf = ((res, err), p')"
  then show "if err = None then \<exists>raw rg. res = Some raw \<and> im_view p' = (im_view p)(i \<mapsto> (raw, rg)) else im_view p' = im_view p"
    using im.Update_view [of "w\<lparr>lsp := inmemory iter\<rparr>" iter RF P N p i raw pf res err p'] by simp
qed (auto simp: http_do_loopback split: prod.splits dest: lines_roundtrip)

text \<open>C28: Feeder, HTTP client, HTTP server, witness and persistence together: when \<open>FeedOnce\<close> returns a
  checkpoint without error, the witness at the other end of the connection holds exactly that
  checkpoint for the log, whatever the number of retries and lost responses.\<close>

theorem FeedOnce_witness_holds:
  assumes "witness_endpoint w view h_log h_saw upd c enc dec valid_log" "backoff_retry retry" "valid_log (fo_LogID opts)"
    "fo_Witness opts = \<lparr>fw_GetLatestCheckpoint = client_GetLatestCheckpoint c, fw_Update = client_Update c enc\<rparr>"
    "FeedOnce N retry opts p = (Inr wCP, p')"
  shows "\<exists>rg. view p' (fo_LogID opts) = Some (wCP, rg)"
  using witness_endpoint.FeedOnce_returns_stored [OF assms(1-3) _ assms(5)] assms(4)
  by (simp add: witness_endpoint.http_witness_def [OF assms(1)])

lemma client_Update_loopback:
  "client_Update (loopback upd w lines_dec) lines_enc p i raw prf =
     (case upd p i raw prf of
        ((cpt, None), p') \<Rightarrow> ((Some (case cpt of None \<Rightarrow> [] | Some b \<Rightarrow> b), None), p')
      | ((cpt, Some e), p') \<Rightarrow>
          if status_Code e = AlreadyExists
          then ((Some (case cpt of None \<Rightarrow> [] | Some b \<Rightarrow> b), Some (Wrapf ''Conflict'' ErrCheckpointTooOld)), p')
          else ((None, Some (Errorf ''bad status response'')), p'))"
proof -
  obtain b where b: "lines_enc \<lparr>rq_Checkpoint = raw, rq_Proof = prf\<rparr> = Inr b" by (simp add: lines_enc_def)
  have code: "httpForCode x \<noteq> 200" "httpForCode x = 409 \<longleftrightarrow> x = AlreadyExists" for x
    by (cases x; simp add: httpForCode_def)+
  show ?thesis
    by (simp add: client_Update_def b http_do_loopback server_update_def lines_roundtrip [OF b] Let_def http_Error_def code
        wrapf_def ErrCheckpointTooOld_def split: prod.splits option.splits)
qed

text \<open>Feeding the small witness its first checkpoint.\<close>

definition feed_opts :: "(unit, inMemoryPersistence) FeedOpts" where
  "feed_opts =
     (let w = wit (inmemory id) False;
          c = loopback (witness_Update ref_compact rfc6962_proofs wit_notes w) w lines_dec
      in \<lparr>fo_LogID = ''log'', fo_FetchCheckpoint = Inr ''a'', fo_FetchProof = (\<lambda>_ _. Inr []), fo_LogSigVerifier = (),
          fo_LogOrigin = [], fo_Witness = \<lparr>fw_GetLatestCheckpoint = client_GetLatestCheckpoint c, fw_Update = client_Update c lines_enc\<rparr>\<rparr>)"

lemma feed_first:
  "FeedOnce wit_notes (retry_n 0) feed_opts [] = (Inr ''a'', [(''log'', \<lparr>rawChkpt = ''a'', compactRange = None\<rparr>)])"
proof -
  let ?w = "wit (inmemory id) False"
  let ?c = "loopback (witness_Update ref_compact rfc6962_proofs wit_notes ?w) ?w lines_dec"
  have get: "client_GetLatestCheckpoint ?c [] ''log'' = (Inl ErrNotExist, [])"
    by (simp add: client_GetLatestCheckpoint_def http_do_loopback server_getCheckpoint_def witness_GetCheckpoint_def wit_def
        inmemory_def im_ReadOps_def rw_GetLatest_def http_Error_def httpForCode_def)
  have upd: "client_Update ?c lines_enc [] ''log'' ''a'' [] =
      ((Some ''a'', None), [(''log'', \<lparr>rawChkpt = ''a'', compactRange = None\<rparr>)])"
    unfolding client_Update_loopback using wit_tofu [unfolded wit_update_def] by simp
  have parse: "\<exists>n. ParseCheckpoint wit_notes raw og v vs = Inr (\<lparr>Origin = [], Size = of_nat (length raw), Hash = raw\<rparr>, n)" for raw og v vs
    by (simp add: wit_notes_def)
  then obtain n where parse: "ParseCheckpoint wit_notes ''a'' [] () [] = Inr (\<lparr>Origin = [], Size = of_nat (length ''a''), Hash = ''a''\<rparr>, n)"
    by blast
  show ?thesis
    by (simp add: FeedOnce_def feed_opts_def Let_def submitToWitness_def submitOp_def get upd parse)
qed

theorem FeedOnce_witness_holds_witness:
  "\<exists>rg. im_view (snd (FeedOnce wit_notes (retry_n 0) feed_opts [])) ''log'' = Some (''a'', rg)"
proof -
  have w: "(wit (inmemory id) False)\<lparr>lsp := inmemory id\<rparr> = wit (inmemory id) False" by (simp add: wit_def)
  show ?thesis
    using FeedOnce_witness_holds [OF loop.witness_endpoint_axioms [where w = "wit (inmemory id) False" and iter = id and
          RF = ref_compact and P = rfc6962_proofs and N = wit_notes, unfolded w] retry_n.backoff_retry_axioms [of 0] TrueI _ feed_first]
    unfolding feed_first by (simp add: feed_opts_def Let_def)
qed

end
