(* ===== verification/Notes.thy ===== *)
theory Notes
  imports NoteLib LogClient "HOL-Library.AList"
begin

section \<open>Signatures: verifiers, combined checkpoints and consensus\<close>

text \<open>
  \<^verbatim>\<open>internal/note/note_verifier.go\<close>, \<^verbatim>\<open>formats/checkpoints/combine_signatures.go\<close> and
  \<^verbatim>\<open>serverless/client/witness/consensus.go\<close>.  The cryptography (SHA-256, ECDSA, the parser of public
  keys) and the note library are parameters.  Shown: exactly which keys make a verifier; that a
  combined checkpoint carries one signature per witness, sorted, after the log's; and that consensus
  picks the largest checkpoint with enough signatures.
\<close>

subsection \<open>Note verifiers\<close>

text \<open>The crypto packages: SHA-256, the parser of public keys, the ECDSA keys among them, signature
  verification, and the note library's own verifiers.\<close>

record verifier =
  v_name :: string
  v_keyHash :: u32
  v_v :: "bytes \<Rightarrow> bytes \<Rightarrow> bool"

record ('k, 'e) crypto_lib =
  Sum256 :: "bytes \<Rightarrow> bytes"
  ParsePKIXPublicKey :: "bytes \<Rightarrow> 'k res"
  as_ecdsa :: "'k \<Rightarrow> 'e option"
  VerifyASN1 :: "'e \<Rightarrow> bytes \<Rightarrow> bytes \<Rightarrow> bool"
  sdb_NewVerifier :: "string \<Rightarrow> verifier res"

text \<open>\<^verbatim>\<open>binary.BigEndian.Uint32\<close> of the first four bytes.\<close>

definition big_endian :: "bytes \<Rightarrow> nat" where
  "big_endian bs = foldl (\<lambda>n c. n * 256 + of_char c) 0 (take 4 bs)"

definition keyHash :: "('k, 'e) crypto_lib \<Rightarrow> bytes \<Rightarrow> u32" where
  "keyHash C i = of_nat (big_endian (Sum256 C i))"

definition NewECDSAVerifier :: "('k, 'e) crypto_lib \<Rightarrow> string \<Rightarrow> verifier res" where
  "NewECDSAVerifier C key =
     (let parts = splitN (CHR ''+'') 3 key in
      if length parts \<noteq> 3 then Inl (Errorf ''key has wrong number of parts'')
      else case decode (parts ! 2) of
        Inl e \<Rightarrow> Inl (errorf ''key has invalid base64'' e)
      | Inr keyBytes \<Rightarrow>
        if length keyBytes < 2 then Inl (Errorf ''invalid key, key bytes too short'')
        else if keyBytes ! 0 \<noteq> CHR 0x02 then Inl (Errorf ''key has incorrect type'')
        else let der = drop 1 keyBytes; kh = keyHash C der in
          (case parse_uint (parts ! 1) 16 32 of
             Inl e \<Rightarrow> Inl (errorf ''invalid key, couldn't parse keyhash'' e)
           | Inr khProvided \<Rightarrow>
             if (of_nat khProvided :: u32) \<noteq> kh then Inl (Errorf ''invalid keyhash'')
             else (case ParsePKIXPublicKey C der of
                     Inl e \<Rightarrow> Inl (errorf ''couldn't parse public key'' e)
                   | Inr k \<Rightarrow>
                     (case as_ecdsa C k of
                        None \<Rightarrow> Inl (Errorf ''key is not an ECDSA key'')
                      | Some ek \<Rightarrow>
                        Inr \<lparr>v_name = parts ! 0, v_keyHash = kh,
                             v_v = (\<lambda>msg sig. VerifyASN1 C ek (Sum256 C msg) sig)\<rparr>))))"

definition NewVerifier :: "('k, 'e) crypto_lib \<Rightarrow> string \<Rightarrow> string \<Rightarrow> verifier res" where
  "NewVerifier C keyType key =
     (if keyType = ''ecdsa'' then NewECDSAVerifier C key
      else if keyType = [] then sdb_NewVerifier C key
      else Inl (Errorf ''unknown key type''))"

text \<open>The key text that the comment of \<open>NewECDSAVerifier\<close> describes.\<close>

definition ecdsa_key_text :: "('k, 'e) crypto_lib \<Rightarrow> string \<Rightarrow> bytes \<Rightarrow> string" where
  "ecdsa_key_text C name der =
     name @ ''+'' @ pad0 8 (format_uint 16 (unat (keyHash C der))) @ ''+'' @ encode (CHR 0x02 # der)"

lemma splitN_plus3:
  assumes "CHR ''+'' \<notin> set a" "CHR ''+'' \<notin> set b"
  shows "splitN (CHR ''+'') 3 (a @ CHR ''+'' # b @ CHR ''+'' # c) = [a, b, c]"
proof -
  have "dropWhile (\<lambda>x. x \<noteq> CHR ''+'') (a @ CHR ''+'' # r) = CHR ''+'' # r \<and>
      takeWhile (\<lambda>x. x \<noteq> CHR ''+'') (a @ CHR ''+'' # r) = a" if "CHR ''+'' \<notin> set a" for a r :: string
    using that by (induction a) auto
  then show ?thesis using assms by (simp add: numeral_3_eq_3)
qed

lemma pad0_no_plus: "CHR ''+'' \<notin> set (pad0 8 (format_uint 16 n))"
  using pad0_digits [of 16 "CHR ''+''" 8 n] by (auto simp: char_digit_def)

text \<open>The key text of a public key that the crypto packages accept as an ECDSA key makes a verifier
  with the name, the hash and the signature check of that key, for every name without a plus sign.\<close>

theorem NewVerifier_ecdsa:
  assumes "CHR ''+'' \<notin> set name" "der \<noteq> []" "ParsePKIXPublicKey C der = Inr k" "as_ecdsa C k = Some ek"
  shows "NewVerifier C ''ecdsa'' (ecdsa_key_text C name der) =
    Inr \<lparr>v_name = name, v_keyHash = keyHash C der, v_v = (\<lambda>msg sig. VerifyASN1 C ek (Sum256 C msg) sig)\<rparr>"
proof -
  have "unat (keyHash C der) < 2 ^ 32" using unsigned_less [of "keyHash C der"] by simp
  then have p: "parse_uint (pad0 8 (format_uint 16 (unat (keyHash C der)))) 16 32 = Inr (unat (keyHash C der))"
    by (intro parse_uint_pad0) simp_all
  have l: "\<not> length (CHR 0x02 # der) < 2" using assms(2) by (cases der) simp_all
  show ?thesis using assms(3,4) p l
    by (simp add: NewVerifier_def NewECDSAVerifier_def ecdsa_key_text_def splitN_plus3 [OF assms(1) pad0_no_plus]
        Let_def del: encode.simps)
qed

subsection \<open>Combining the signatures of checkpoints\<close>

text \<open>The loop over the checkpoints: the note to return (nil before the first) and the witness
  signatures by key hash.\<close>

fun combine_loop ::
    "('v, 's) note_lib \<Rightarrow> 'v \<Rightarrow> 'v list \<Rightarrow> bytes list \<Rightarrow> Note option \<Rightarrow> (u32 \<times> Signature) list \<Rightarrow>
     (Note option \<times> (u32 \<times> Signature) list) res" where
  "combine_loop N logSigV witSigVs [] ret sigs = Inr (ret, sigs)"
| "combine_loop N logSigV witSigVs (raw # raws) ret sigs =
     (case note_Open N raw [logSigV] of
        UnverifiedNote _ \<Rightarrow> Inl (Errorf ''checkpoint is not signed by log'')
      | OpenFailed e \<Rightarrow> Inl (errorf ''checkpoint is not signed by log'' e)
      | Opened candN \<Rightarrow>
        if ret = None \<and> Sigs candN = [] then Inl (Panic ''index out of range'')
        else
          (let ret1 = (case ret of None \<Rightarrow> candN\<lparr>Sigs := [hd (Sigs candN)], UnverifiedSigs := []\<rparr> | Some n \<Rightarrow> n);
               cand = (case note_Open N raw witSigVs of
                         OpenFailed e \<Rightarrow> Inl (errorf ''failed to open checkpoint'' e)
                       | UnverifiedNote n \<Rightarrow> Inr n
                       | Opened n \<Rightarrow> Inr n)
           in case cand of
                Inl e \<Rightarrow> Inl e
              | Inr n \<Rightarrow>
                  if NoteText n \<noteq> NoteText ret1 then Inl (Errorf ''checkpoint has differing content'')
                  else combine_loop N logSigV witSigVs raws (Some ret1)
                         (foldl (\<lambda>m s. AList.update (SigHash s) s m) sigs (Sigs n))))"

text \<open>The comparison that is passed to \<^verbatim>\<open>sort.Slice\<close>.\<close>

definition sig_less :: "u32 \<Rightarrow> Signature \<Rightarrow> Signature \<Rightarrow> bool" where
  "sig_less kh a b = (SigHash a = kh \<or> (SigHash b \<noteq> kh \<and> SigHash a < SigHash b))"

text \<open>\<open>iter\<close> is the order of the range loop over the map and \<open>srt\<close> is \<^verbatim>\<open>sort.Slice\<close>.\<close>

definition Combine ::
    "('v, 's) note_lib \<Rightarrow> (Signature list \<Rightarrow> Signature list) \<Rightarrow> (u32 \<Rightarrow> Signature list \<Rightarrow> Signature list) \<Rightarrow>
     bytes list \<Rightarrow> 'v \<Rightarrow> 'v list \<Rightarrow> bytes res" where
  "Combine N iter srt raws logSigV witSigVs =
     (case combine_loop N logSigV witSigVs raws None [] of
        Inl e \<Rightarrow> Inl e
      | Inr (None, sigs) \<Rightarrow> Inl (Panic ''nil pointer dereference'')
      | Inr (Some ret, sigs) \<Rightarrow>
          note_Sign N (ret\<lparr>Sigs := srt (KeyHash N logSigV) (Sigs ret @ iter (map snd sigs))\<rparr>) [])"

text \<open>What the code relies on: an opened note has at least one signature, every signature in \<open>Sigs\<close> is
  by one of the given verifiers, and opening does not change the text; \<^verbatim>\<open>sort.Slice\<close> sorts by a
  comparison that is a strict order on its input, which \<open>sig_less\<close> is when the key hashes differ.\<close>

locale note_open =
  fixes N :: "('v, 's) note_lib"
  assumes opened_sigs: "note_Open N raw vs = Opened n \<Longrightarrow> Sigs n \<noteq> [] \<and> (\<forall>s \<in> set (Sigs n). \<exists>v \<in> set vs. SigHash s = KeyHash N v)"
    and unverified_sigs: "note_Open N raw vs = UnverifiedNote n \<Longrightarrow> Sigs n = []"
    and same_text: "\<lbrakk>note_Open N raw vs = r; note_Open N raw vs' = r'; r \<in> {Opened n, UnverifiedNote n};
      r' \<in> {Opened n', UnverifiedNote n'}\<rbrakk> \<Longrightarrow> NoteText n = NoteText n'"

definition sorts_sigs :: "(u32 \<Rightarrow> Signature list \<Rightarrow> Signature list) \<Rightarrow> bool" where
  "sorts_sigs srt \<longleftrightarrow> (\<forall>kh xs. mset (srt kh xs) = mset xs \<and>
     (distinct (map SigHash xs) \<longrightarrow> sorted_wrt (\<lambda>x y. \<not> sig_less kh y x) (srt kh xs)))"

text \<open>The signatures by witnesses on one checkpoint.\<close>

definition wit_sigs :: "('v, 's) note_lib \<Rightarrow> 'v list \<Rightarrow> bytes \<Rightarrow> Signature list" where
  "wit_sigs N witVs raw = (case note_Open N raw witVs of Opened n \<Rightarrow> Sigs n | UnverifiedNote n \<Rightarrow> Sigs n | OpenFailed e \<Rightarrow> [])"

definition text_of :: "('v, 's) note_lib \<Rightarrow> 'v \<Rightarrow> bytes \<Rightarrow> string option" where
  "text_of N v raw = (case note_Open N raw [v] of Opened n \<Rightarrow> Some (NoteText n) | _ \<Rightarrow> None)"

lemma foldl_sigs:
  "distinct (map fst m) \<and> (\<forall>(k, s) \<in> set m. SigHash s = k) \<Longrightarrow>
     let m' = foldl (\<lambda>m s. AList.update (SigHash s) s m) m ss in
     distinct (map fst m') \<and> (\<forall>(k, s) \<in> set m'. SigHash s = k) \<and> fst ` set m' = fst ` set m \<union> SigHash ` set ss"
proof (induction ss arbitrary: m)
  case (Cons s ss)
  let ?m = "AList.update (SigHash s) s m"
  have "distinct (map fst ?m)" "fst ` set ?m = insert (SigHash s) (fst ` set m)"
    using Cons.prems by (simp_all add: distinct_update dom_update)
  moreover have "\<forall>(k, s) \<in> set ?m. SigHash s = k"
    using Cons.prems by (induction m) (auto split: if_splits)
  ultimately show ?case using Cons.IH [of ?m] by (auto simp: Let_def)
qed (auto simp: Let_def)

context note_open
begin

lemma wit_sigs_hash: "s \<in> set (wit_sigs N witVs raw) \<Longrightarrow> \<exists>v \<in> set witVs. SigHash s = KeyHash N v"
  using opened_sigs unverified_sigs by (fastforce simp: wit_sigs_def split: open_result.splits)

text \<open>A run of the loop that ends well.\<close>

lemma combine_loop_ok:
  assumes "combine_loop N logV witVs raws ret sigs = Inr (ret', sigs')"
    "distinct (map fst sigs)" "\<forall>(k, s) \<in> set sigs. SigHash s = k" "\<forall>n. ret = Some n \<longrightarrow> P n"
    "\<forall>raw n. note_Open N raw [logV] = Opened n \<longrightarrow> P (n\<lparr>Sigs := [hd (Sigs n)], UnverifiedSigs := []\<rparr>)"
  shows "distinct (map fst sigs') \<and> (\<forall>(k, s) \<in> set sigs'. SigHash s = k) \<and>
    fst ` set sigs' = fst ` set sigs \<union> (\<Union>raw \<in> set raws. SigHash ` set (wit_sigs N witVs raw)) \<and>
    (\<forall>n. ret' = Some n \<longrightarrow> P n \<and> (\<forall>raw \<in> set raws. text_of N logV raw = Some (NoteText n))) \<and>
    (\<forall>n. ret = Some n \<longrightarrow> ret' = Some n) \<and> (raws \<noteq> [] \<longrightarrow> ret' \<noteq> None)"
  using assms(1-4)
proof (induction raws arbitrary: ret sigs)
  case (Cons raw raws)
  obtain c where c: "note_Open N raw [logV] = Opened c"
    using Cons.prems(1) by (auto split: open_result.splits)
  let ?r = "case ret of None \<Rightarrow> c\<lparr>Sigs := [hd (Sigs c)], UnverifiedSigs := []\<rparr> | Some n \<Rightarrow> n"
  obtain n where n: "note_Open N raw witVs \<in> {Opened n, UnverifiedNote n}" "NoteText n = NoteText ?r"
    and rest: "combine_loop N logV witVs raws (Some ?r) (foldl (\<lambda>m s. AList.update (SigHash s) s m) sigs (Sigs n)) = Inr (ret', sigs')"
    using Cons.prems(1) c by (auto simp: Let_def split: open_result.splits sum.splits if_splits)
  have ws: "wit_sigs N witVs raw = Sigs n" using n(1) by (auto simp: wit_sigs_def)
  have nt: "NoteText c = NoteText ?r" using same_text [OF c refl, where n = c and n' = n and vs' = witVs] n by auto
  have P: "P ?r" using Cons.prems(4) assms(5) c by (cases ret) auto
  note f = foldl_sigs [of sigs "Sigs n", unfolded Let_def]
  show ?case
    using Cons.IH [OF rest] f Cons.prems(2,3) P ws nt c by (auto simp: text_of_def)
qed auto

text \<open>The signatures of the combined checkpoint.\<close>

lemma sorted_combined:
  assumes "sorts_sigs srt" "SigHash L = kh" "kh \<notin> SigHash ` set ws" "distinct (map SigHash ws)"
  shows "\<exists>ws'. srt kh (L # ws) = L # ws' \<and> mset ws' = mset ws \<and> sorted_wrt (\<lambda>a b. SigHash a < SigHash b) ws'"
proof -
  let ?xs = "srt kh (L # ws)"
  have d: "distinct (map SigHash (L # ws))" using assms by auto
  have m: "mset ?xs = mset (L # ws)" and s: "sorted_wrt (\<lambda>x y. \<not> sig_less kh y x) ?xs"
    using assms(1) d unfolding sorts_sigs_def by blast+
  then obtain x xs where xs: "?xs = x # xs" by (cases ?xs) auto
  have "x = L"
  proof (rule ccontr)
    assume "x \<noteq> L"
    moreover have "L \<in> set ?xs" using m by (metis list.set_intros(1) mset_eq_setD)
    ultimately have "L \<in> set xs" by (simp add: xs)
    then show False using s assms(2) by (auto simp: xs sig_less_def)
  qed
  then have mw: "mset xs = mset ws" using m by (simp add: xs)
  then have "set xs = set ws" "distinct (map SigHash xs)"
    using assms(4) by (auto dest: mset_eq_setD) (metis mset_map mset_eq_imp_distinct_iff)
  moreover have "sorted_wrt (\<lambda>x y. \<not> sig_less kh y x) xs" using s by (simp add: xs)
  ultimately have "sorted_wrt (\<lambda>a b. SigHash a < SigHash b) xs"
    using assms(3)
  proof (induction xs arbitrary: ws)
    case (Cons y ys)
    have "SigHash y < SigHash z" if "z \<in> set ys" for z
    proof -
      have "SigHash z \<noteq> SigHash y" using Cons.prems(2) that by (auto simp: image_iff)
      moreover have "SigHash y \<noteq> kh" "SigHash z \<noteq> kh" using Cons.prems(1,4) that by auto
      moreover have "\<not> sig_less kh z y" using Cons.prems(3) that by simp
      ultimately show ?thesis by (auto simp: sig_less_def)
    qed
    moreover have "sorted_wrt (\<lambda>a b. SigHash a < SigHash b) ys"
      using Cons.IH [of ys] Cons.prems by auto
    ultimately show ?case by simp
  qed simp
  then show ?thesis using xs \<open>x = L\<close> mw by auto
qed

lemma Combine_result:
  assumes "permutes iter" "sorts_sigs srt" "KeyHash N logV \<notin> KeyHash N ` set witVs"
    "Combine N iter srt raws logV witVs = Inr out"
  shows "\<exists>n L ws. note_Sign N n [] = Inr out \<and> UnverifiedSigs n = [] \<and> Sigs n = L # ws \<and> SigHash L = KeyHash N logV \<and>
    sorted_wrt (\<lambda>a b. SigHash a < SigHash b) ws \<and>
    SigHash ` set ws = (\<Union>raw \<in> set raws. SigHash ` set (wit_sigs N witVs raw)) \<and>
    (\<forall>raw \<in> set raws. text_of N logV raw = Some (NoteText n))"
proof -
  let ?P = "\<lambda>n. \<exists>L. Sigs n = [L] \<and> UnverifiedSigs n = [] \<and> SigHash L = KeyHash N logV"
  obtain ret sigs where l: "combine_loop N logV witVs raws None [] = Inr (Some ret, sigs)"
    and out: "note_Sign N (ret\<lparr>Sigs := srt (KeyHash N logV) (Sigs ret @ iter (map snd sigs))\<rparr>) [] = Inr out"
    using assms(4) by (auto simp: Combine_def split: sum.splits option.splits prod.splits)
  have init: "\<forall>raw n. note_Open N raw [logV] = Opened n \<longrightarrow> ?P (n\<lparr>Sigs := [hd (Sigs n)], UnverifiedSigs := []\<rparr>)"
    using opened_sigs by (auto dest!: opened_sigs)
  note ok = combine_loop_ok [where P = ?P, OF l _ _ _ init, simplified]
  obtain L where L: "Sigs ret = [L]" "UnverifiedSigs ret = []" "SigHash L = KeyHash N logV" using ok by auto
  let ?ws = "iter (map snd sigs)"
  have key: "\<forall>(k, s) \<in> set sigs. SigHash s = k" and dist: "distinct (map fst sigs)" using ok by auto
  have hash: "map SigHash (map snd sigs) = map fst sigs" using key by auto
  have set: "set ?ws = snd ` set sigs" using permutesD(2) [OF assms(1)] by simp
  have img: "SigHash ` set ?ws = fst ` set sigs" unfolding set using key by force
  have uni: "fst ` set sigs = (\<Union>raw \<in> set raws. SigHash ` set (wit_sigs N witVs raw))" using ok by auto
  have "mset (map SigHash ?ws) = mset (map fst sigs)" using permutesD(1) [OF assms(1)] hash by (metis mset_map)
  then have "distinct (map SigHash ?ws)" using dist by (metis mset_eq_imp_distinct_iff)
  moreover have "KeyHash N logV \<notin> SigHash ` set ?ws" unfolding img uni using assms(3) wit_sigs_hash by fastforce
  ultimately obtain ws where ws: "srt (KeyHash N logV) (L # ?ws) = L # ws" "mset ws = mset ?ws"
    "sorted_wrt (\<lambda>a b. SigHash a < SigHash b) ws"
    using sorted_combined [OF assms(2) L(3)] by blast
  have "SigHash ` set ws = (\<Union>raw \<in> set raws. SigHash ` set (wit_sigs N witVs raw))"
    using ws(2) img uni by (metis mset_eq_setD)
  then show ?thesis using out L ws ok by (intro exI [of _ "ret\<lparr>Sigs := srt (KeyHash N logV) (Sigs ret @ ?ws)\<rparr>"]) auto
qed

end

text \<open>C36: A combined checkpoint has the text that all inputs have, the log's signature first, and then
  exactly one signature for every known witness that signed any of the inputs, in ascending order of
  key hash; unverified signatures are dropped.  All inputs are signed by the log.\<close>

theorem Combine_signatures:
  assumes "note_open N" "permutes iter" "sorts_sigs srt" "KeyHash N logV \<notin> KeyHash N ` set witVs"
    "Combine N iter srt raws logV witVs = Inr out"
  shows "\<exists>n L ws. note_Sign N n [] = Inr out \<and> UnverifiedSigs n = [] \<and> Sigs n = L # ws \<and> SigHash L = KeyHash N logV \<and>
    sorted_wrt (\<lambda>a b. SigHash a < SigHash b) ws \<and>
    SigHash ` set ws = (\<Union>raw \<in> set raws. SigHash ` set (wit_sigs N witVs raw)) \<and>
    (\<forall>raw \<in> set raws. text_of N logV raw = Some (NoteText n))"
  by (rule note_open.Combine_result [OF assms])

text \<open>\<open>Combine\<close> of no checkpoints does not return an error: it dereferences a nil note and panics.\<close>

theorem Combine_empty_panics:
  "Combine N iter srt [] logV witVs = Inl (Panic ''nil pointer dereference'')"
  by (simp add: Combine_def)

subsection \<open>Consensus of distributors\<close>

definition format_int :: "int \<Rightarrow> string" where
  "format_int n = (if n < 0 then CHR ''-'' # format_uint 10 (nat (- n)) else format_uint 10 (nat n))"

definition getCheckpointN ::
    "('v, 's) note_lib \<Rightarrow> Fetcher \<Rightarrow> string \<Rightarrow> int \<Rightarrow> 'v \<Rightarrow> string \<Rightarrow> 'v list \<Rightarrow> (Checkpoint \<times> Note \<times> bytes) res" where
  "getCheckpointN N f logID n logSigV origin witSigVs =
     (case f (Join [''logs'', logID, ''checkpoint.'' @ format_int n]) of
        Inl e \<Rightarrow> Inl (errorf ''failed to fetch from distributor'' e)
      | Inr cpRaw \<Rightarrow>
        (case ParseCheckpoint N cpRaw origin logSigV witSigVs of
           Inl e \<Rightarrow> Inl (errorf ''error parsing Checkpoint'' e)
         | Inr (c, nt) \<Rightarrow> Inr (c, nt, cpRaw)))"

text \<open>The loop over the channel: candidates with too few witness signatures are skipped.\<close>

fun best_checkpoint ::
    "int \<Rightarrow> (Checkpoint \<times> Note \<times> bytes) list \<Rightarrow> (Checkpoint \<times> Note \<times> bytes) option \<Rightarrow> (Checkpoint \<times> Note \<times> bytes) option" where
  "best_checkpoint n [] best = best"
| "best_checkpoint n ((c, nt, raw) # cs) best =
     (if int (length (Sigs nt)) - 1 < n then best_checkpoint n cs best
      else if (case best of None \<Rightarrow> True | Some (b, _) \<Rightarrow> Size b < Size c) then best_checkpoint n cs (Some (c, nt, raw))
      else best_checkpoint n cs best)"

text \<open>A goroutine per distributor; \<open>arrive\<close> is the order in which their results reach the channel.  A
  fetch that fails because another one made the group cancel the context is a failed fetch.\<close>

definition CheckpointNConsensus ::
    "('v, 's) note_lib \<Rightarrow> ((Checkpoint \<times> Note \<times> bytes) list \<Rightarrow> (Checkpoint \<times> Note \<times> bytes) list) \<Rightarrow> string \<Rightarrow>
     Fetcher list \<Rightarrow> 'v list \<Rightarrow> int \<Rightarrow> 'v ConsensusCheckpointFunc res" where
  "CheckpointNConsensus N arrive logID distributors witnesses n =
     (if int (length witnesses) < n
      then Inl (Errorf ''requested consensus across more witnesses than configured'')
      else Inr (\<lambda>logSigV origin.
        let results = map (\<lambda>f. getCheckpointN N f logID n logSigV origin witnesses) distributors;
            cpc = arrive (map projr (filter is_ok results))
        in case best_checkpoint n cpc None of
             None \<Rightarrow> Inl (Errorf ''unable to identify suitable checkpoint'')
           | Some (c, nt, raw) \<Rightarrow> Inr (c, raw, nt)))"

definition enough_sigs :: "int \<Rightarrow> Checkpoint \<times> Note \<times> bytes \<Rightarrow> bool" where
  "enough_sigs n x \<longleftrightarrow> n \<le> int (length (Sigs (fst (snd x)))) - 1"

lemma best_checkpoint_Cons:
  "best_checkpoint n (x # cs) best =
     best_checkpoint n cs (if enough_sigs n x \<and> (best = None \<or> Size (fst (the best)) < Size (fst x)) then Some x else best)"
  by (cases x; cases best) (auto simp: enough_sigs_def)

lemma best_checkpoint_from:
  "best_checkpoint n cs best = Some x \<Longrightarrow> Some x = best \<or> x \<in> set cs \<and> enough_sigs n x"
proof (induction cs arbitrary: best)
  case (Cons a cs)
  from Cons.IH [OF Cons.prems [unfolded best_checkpoint_Cons]] show ?case by (auto split: if_splits)
qed simp

lemma best_checkpoint_max:
  "Some y = best \<or> y \<in> set cs \<and> enough_sigs n y \<Longrightarrow>
     \<exists>x. best_checkpoint n cs best = Some x \<and> Size (fst y) \<le> Size (fst x)"
proof (induction cs arbitrary: best y)
  case (Cons a cs)
  let ?best = "if enough_sigs n a \<and> (best = None \<or> Size (fst (the best)) < Size (fst a)) then Some a else best"
  have "\<exists>z. ?best = Some z \<and> Size (fst y) \<le> Size (fst z)" if "y \<notin> set cs \<or> \<not> enough_sigs n y"
    using Cons.prems that by (cases best; cases a) (auto simp: not_less)
  then consider "y \<in> set cs" "enough_sigs n y" | z where "?best = Some z" "Size (fst y) \<le> Size (fst z)" by blast
  then show ?case
  proof cases
    case 2
    have "Some z = ?best \<or> z \<in> set cs \<and> enough_sigs n z" using 2(1) by (rule disjI1 [OF sym])
    from Cons.IH [OF this] obtain x where "best_checkpoint n cs ?best = Some x" "Size (fst z) \<le> Size (fst x)" by blast
    then show ?thesis unfolding best_checkpoint_Cons using 2(2) by (intro exI [of _ x]) auto
  qed (use Cons.IH [of y ?best] in \<open>simp only: best_checkpoint_Cons simp_thms\<close>)
qed auto

text \<open>C37: Consensus across \<open>n\<close> witnesses returns a checkpoint exactly if some distributor serves one with
  the log's and at least \<open>n\<close> further signatures, and then it returns such a checkpoint of maximal
  size, whatever the order in which the distributors answer.\<close>

theorem CheckpointNConsensus_best:
  assumes "permutes arrive" "CheckpointNConsensus N arrive logID fs witnesses n = Inr cc"
  shows "let good = {x. \<exists>f \<in> set fs. getCheckpointN N f logID n logSigV origin witnesses = Inr x \<and> enough_sigs n x}
    in (is_ok (cc logSigV origin) \<longleftrightarrow> good \<noteq> {}) \<and>
       (\<forall>c raw nt. cc logSigV origin = Inr (c, raw, nt) \<longrightarrow> (c, nt, raw) \<in> good \<and> (\<forall>y \<in> good. Size (fst y) \<le> Size c))"
proof -
  let ?rs = "map (\<lambda>f. getCheckpointN N f logID n logSigV origin witnesses) fs"
  let ?cs = "arrive (map projr (filter is_ok ?rs))"
  have "set ?cs = {x. \<exists>f \<in> set fs. getCheckpointN N f logID n logSigV origin witnesses = Inr x}"
    using permutesD(2) [OF assms(1)] by (force simp: is_ok_iff image_iff)
  then have set: "x \<in> set ?cs \<longleftrightarrow> (\<exists>f \<in> set fs. getCheckpointN N f logID n logSigV origin witnesses = Inr x)" for x by simp
  have cc: "cc logSigV origin = (case best_checkpoint n ?cs None of
      None \<Rightarrow> Inl (Errorf ''unable to identify suitable checkpoint'') | Some (c, nt, raw) \<Rightarrow> Inr (c, raw, nt))"
    using assms(2) by (auto simp: CheckpointNConsensus_def Let_def split: if_splits)
  show ?thesis
  proof (cases "best_checkpoint n ?cs None")
    case None
    then have "\<not> (x \<in> set ?cs \<and> enough_sigs n x)" for x using best_checkpoint_max [of x None ?cs n] by auto
    then show ?thesis using cc None unfolding set by (auto simp: Let_def)
  next
    case (Some x)
    obtain c nt raw where x: "x = (c, nt, raw)" by (metis prod_cases3)
    have "x \<in> set ?cs \<and> enough_sigs n x" using best_checkpoint_from [OF Some] by simp
    moreover have "Size (fst y) \<le> Size c" if "y \<in> set ?cs \<and> enough_sigs n y" for y
      using best_checkpoint_max [of y None ?cs n] that Some x by auto
    ultimately show ?thesis using cc Some x unfolding set by (auto simp: Let_def)
  qed
qed

end
