(* ===== verification/Distributor.thy ===== *)
theory Distributor
  imports Notes WitnessStore
begin

section \<open>Distributors\<close>

text \<open>
  \<^verbatim>\<open>distributor/cmd/internal/distributor/distributor.go\<close>, a database of the checkpoints that
  witnesses have signed, and \<^verbatim>\<open>UpdateState\<close> of
  \<^verbatim>\<open>serverless/deploy/github/distributor/combine_witness_signatures\<close>, which keeps the largest
  checkpoint for every number of signatures.  The database is a parameter, as in \<open>WitnessStore\<close>.
\<close>

subsection \<open>The database distributor\<close>

record 'v DistLogInfo =
  dl_Origin :: string
  dl_Verifier :: 'v

text \<open>The statements that the distributor sends.\<close>

record ('d, 't) dist_db =
  dd_CreateTable :: "'d \<Rightarrow> go_error option \<times> 'd"
  dd_BeginTx :: "'d \<Rightarrow> bool \<Rightarrow> 't res"
  dd_SelectSizes :: "'d \<Rightarrow> 't \<Rightarrow> string \<Rightarrow> ((u64 \<times> string \<times> bytes) res list \<times> go_error option) res"
  dd_SelectRow :: "'d \<Rightarrow> 't \<Rightarrow> string \<Rightarrow> string \<Rightarrow> go_error option \<times> bytes res"
  dd_InsertOrReplace :: "'d \<Rightarrow> 't \<Rightarrow> string \<Rightarrow> string \<Rightarrow> u64 \<Rightarrow> bytes \<Rightarrow> go_error option \<times> 't"
  dd_Commit :: "'d \<Rightarrow> 't \<Rightarrow> go_error option \<times> 'd"

record ('v, 'd, 't) Distributor =
  d_ws :: "(string \<times> 'v) list"
  d_ls :: "(string \<times> 'v DistLogInfo) list"
  d_db :: "('d, 't) dist_db"

definition dist_init :: "('v, 'd, 't) Distributor \<Rightarrow> 'd \<Rightarrow> go_error option \<times> 'd" where
  "dist_init D s = dd_CreateTable (d_db D) s"

definition NewDistributor ::
    "(string \<times> 'v) list \<Rightarrow> (string \<times> 'v DistLogInfo) list \<Rightarrow> ('d, 't) dist_db \<Rightarrow> 'd \<Rightarrow>
     (('v, 'd, 't) Distributor \<times> go_error option) \<times> 'd" where
  "NewDistributor ws ls db s =
     (let D = \<lparr>d_ws = ws, d_ls = ls, d_db = db\<rparr>; (err, s') = dist_init D s in ((D, err), s'))"

text \<open>\<open>srt\<close> is \<^verbatim>\<open>sort.Strings\<close>.\<close>

definition dist_GetLogs :: "(string list \<Rightarrow> string list) \<Rightarrow> ('v, 'd, 't) Distributor \<Rightarrow> string list" where
  "dist_GetLogs srt D = srt (map fst (d_ls D))"

text \<open>The loop over the rows: the tree size that is being collected, and the witnesses and checkpoints
  at it.  A witness that is not configured is a nil verifier.\<close>

fun rows_loop ::
    "(string \<times> 'v) list \<Rightarrow> nat \<Rightarrow> (u64 \<times> string \<times> bytes) res list \<Rightarrow> u64 \<Rightarrow> 'v option list \<Rightarrow> bytes list \<Rightarrow>
     ('v option list \<times> bytes list) res" where
  "rows_loop ws n [] cur wits raws = Inr (wits, raws)"
| "rows_loop ws n (r # rows) cur wits raws =
     (case r of
        Inl e \<Rightarrow> Inl (errorf ''failed to scan rows'' e)
      | Inr (sz, witID, c) \<Rightarrow>
          if sz \<noteq> cur
          then (if n \<le> length raws then Inr (wits, raws)
                else rows_loop ws n rows sz [map_of ws witID] [c])
          else rows_loop ws n rows cur (wits @ [map_of ws witID]) (raws @ [c]))"

definition dist_GetCheckpointN ::
    "('v, 's) note_lib \<Rightarrow> (Signature list \<Rightarrow> Signature list) \<Rightarrow> (u32 \<Rightarrow> Signature list \<Rightarrow> Signature list) \<Rightarrow>
     ('v, 'd, 't) Distributor \<Rightarrow> 'd \<Rightarrow> string \<Rightarrow> u32 \<Rightarrow> bytes res" where
  "dist_GetCheckpointN N iter srt D s logID n =
     (case map_of (d_ls D) logID of
        None \<Rightarrow> Inl (Errorf ''unknown log ID'')
      | Some l \<Rightarrow>
        (case dd_BeginTx (d_db D) s True of
           Inl e \<Rightarrow> Inl (errorf ''failed to begin transaction'' e)
         | Inr tx \<Rightarrow>
           (case dd_SelectSizes (d_db D) s tx logID of
              Inl e \<Rightarrow> Inl (errorf ''query failed'' e)
            | Inr (rows, rerr) \<Rightarrow>
              (case rows_loop (d_ws D) (unat n) rows 0 [] [] of
                 Inl e \<Rightarrow> Inl e
               | Inr (wits, raws) \<Rightarrow>
                 (case rerr of
                    Some e \<Rightarrow> Inl (errorf ''failed to scan rows'' e)
                  | None \<Rightarrow>
                    if unat n \<le> length raws
                    then (if None \<in> set wits then Inl (Panic ''nil verifier'')
                          else case Combine N iter srt raws (dl_Verifier l) (map the wits) of
                                 Inl e \<Rightarrow> Inl (errorf ''failed to combine sigs'' e)
                               | Inr c \<Rightarrow> Inr c)
                    else Inl (Errorf ''no checkpoint with enough signatures found''))))))"

definition dist_getLatestCheckpoint :: "('d, 't) dist_db \<Rightarrow> 'd \<Rightarrow> 't \<Rightarrow> string \<Rightarrow> string \<Rightarrow> bytes res" where
  "dist_getLatestCheckpoint db s tx logID witID =
     (case dd_SelectRow db s tx logID witID of
        (Some e, _) \<Rightarrow> Inl e
      | (None, Inl e) \<Rightarrow> if e = ErrNoRows then Inl (Status NotFound ''no checkpoint for log'') else Inl e
      | (None, Inr c) \<Rightarrow> Inr c)"

definition dist_GetCheckpointWitness :: "('v, 'd, 't) Distributor \<Rightarrow> 'd \<Rightarrow> string \<Rightarrow> string \<Rightarrow> bytes res" where
  "dist_GetCheckpointWitness D s logID witID =
     (case dd_BeginTx (d_db D) s True of
        Inl e \<Rightarrow> Inl (errorf ''failed to begin transaction'' e)
      | Inr tx \<Rightarrow> dist_getLatestCheckpoint (d_db D) s tx logID witID)"

definition dist_save ::
    "('d, 't) dist_db \<Rightarrow> 'd \<Rightarrow> 't \<Rightarrow> string \<Rightarrow> string \<Rightarrow> u64 \<Rightarrow> bytes \<Rightarrow> go_error option \<times> 'd" where
  "dist_save db s tx logID witID sz raw =
     (case dd_InsertOrReplace db s tx logID witID sz raw of
        (Some e, _) \<Rightarrow> (Some (errorf ''Exec()'' e), s)
      | (None, tx') \<Rightarrow> dd_Commit db s tx')"

definition Distribute ::
    "('v, 's) note_lib \<Rightarrow> ('v, 'd, 't) Distributor \<Rightarrow> 'd \<Rightarrow> string \<Rightarrow> string \<Rightarrow> bytes \<Rightarrow> go_error option \<times> 'd" where
  "Distribute N D s logID witID nextRaw =
     (case map_of (d_ls D) logID of
        None \<Rightarrow> (Some (Errorf ''unknown log ID''), s)
      | Some l \<Rightarrow>
        (case map_of (d_ws D) witID of
           None \<Rightarrow> (Some (Errorf ''unknown witness ID''), s)
         | Some wv \<Rightarrow>
           (case ParseCheckpoint N nextRaw (dl_Origin l) (dl_Verifier l) [wv] of
              Inl e \<Rightarrow> (Some (errorf ''failed to parse checkpoint'' e), s)
            | Inr (newCP, n) \<Rightarrow>
              if length (Sigs n) \<noteq> 2 then (Some (Errorf ''failed to verify log and witness signatures''), s)
              else
                (case dd_BeginTx (d_db D) s False of
                   Inl e \<Rightarrow> (Some (errorf ''failed to begin transaction'' e), s)
                 | Inr tx \<Rightarrow>
                   (let save = dist_save (d_db D) s tx logID witID (Size newCP) nextRaw in
                    case dist_getLatestCheckpoint (d_db D) s tx logID witID of
                      Inl e \<Rightarrow> if status_Code e = NotFound then save else (Some e, s)
                    | Inr oldBs \<Rightarrow>
                      (case ParseCheckpoint N oldBs (dl_Origin l) (dl_Verifier l) [wv] of
                         Inl e \<Rightarrow> (Some (errorf ''failed to parse checkpoint'' e), s)
                       | Inr (oldCP, _) \<Rightarrow>
                         if Size newCP < Size oldCP then (Some (Errorf ''cannot update to smaller size''), s)
                         else if Size newCP = Size oldCP
                         then (if Hash newCP \<noteq> Hash oldCP then (Some (Errorf ''old checkpoint had another hash''), s)
                               else (None, s))
                         else save))))))"

subsection \<open>The GitHub distributor\<close>

record 'v UpdateOpts =
  LogSigV :: 'v
  LogOrigin :: string
  Witnesses :: "'v list"
  MaxWitnessSignatures :: u64

type_synonym cpNoteRaw = "Checkpoint \<times> Note \<times> bytes"

text \<open>Adjusting the number of slots; \<open>int(...)\<close> reads the 64 bits as signed, and a negative length
  panics.\<close>

definition resize_slots :: "bytes list \<Rightarrow> int \<Rightarrow> bytes list res" where
  "resize_slots state requiredSlots =
     (if requiredSlots < 0 then Inl (Panic ''slice bounds out of range'')
      else if requiredSlots < int (length state) then Inr (take (nat requiredSlots) state)
      else Inr (state @ replicate (nat requiredSlots - length state) []))"

fun group_by_body ::
    "('v, 's) note_lib \<Rightarrow> 'v \<Rightarrow> bytes list \<Rightarrow> (string \<times> bytes list) list \<Rightarrow> (string \<times> bytes list) list res" where
  "group_by_body N v [] byBody = Inr byBody"
| "group_by_body N v (raw # raws) byBody =
     (if 0 < length raw
      then (case note_Open N raw [v] of
              Opened n \<Rightarrow>
                group_by_body N v raws
                  (AList.update (NoteText n)
                    ((case map_of byBody (NoteText n) of None \<Rightarrow> [] | Some rs \<Rightarrow> rs) @ [raw]) byBody)
            | UnverifiedNote _ \<Rightarrow> Inl (Errorf ''note has no verifiable signatures'')
            | OpenFailed e \<Rightarrow> Inl e)
      else group_by_body N v raws byBody)"

fun combine_bodies ::
    "('v, 's) note_lib \<Rightarrow> (Signature list \<Rightarrow> Signature list) \<Rightarrow> (u32 \<Rightarrow> Signature list \<Rightarrow> Signature list) \<Rightarrow>
     'v UpdateOpts \<Rightarrow> bytes list list \<Rightarrow> cpNoteRaw list res" where
  "combine_bodies N iter srt opts [] = Inr []"
| "combine_bodies N iter srt opts (v # vs) =
     (case Combine N iter srt v (LogSigV opts) (Witnesses opts) of
        Inl e \<Rightarrow> Inl e
      | Inr raw \<Rightarrow>
        (case ParseCheckpoint N raw (LogOrigin opts) (LogSigV opts) (Witnesses opts) of
           Inl e \<Rightarrow> Inl e
         | Inr (c, n) \<Rightarrow>
           (case combine_bodies N iter srt opts vs of Inl e \<Rightarrow> Inl e | Inr cs \<Rightarrow> Inr ((c, n, raw) # cs))))"

text \<open>The two nested loops at the end: \<open>combined\<close> is what is left of the list from index \<open>c\<close> on, and
  \<open>k\<close> slots from \<open>i\<close> on are still to be filled.\<close>

fun fill_slots :: "nat \<Rightarrow> nat \<Rightarrow> cpNoteRaw list \<Rightarrow> bytes list" where
  "fill_slots 0 i combined = []"
| "fill_slots (Suc k) i combined =
     (case dropWhile (\<lambda>(c, n, raw). \<not> i < length (Sigs n)) combined of
        [] \<Rightarrow> [] # fill_slots k (i + 1) []
      | (c, n, raw) # rest \<Rightarrow> raw # fill_slots k (i + 1) ((c, n, raw) # rest))"

definition UpdateState ::
    "('v, 's) note_lib \<Rightarrow> (Signature list \<Rightarrow> Signature list) \<Rightarrow> (u32 \<Rightarrow> Signature list \<Rightarrow> Signature list) \<Rightarrow>
     ((string \<times> bytes list) list \<Rightarrow> (string \<times> bytes list) list) \<Rightarrow> (cpNoteRaw list \<Rightarrow> cpNoteRaw list) \<Rightarrow>
     bytes list \<Rightarrow> bytes list \<Rightarrow> 'v UpdateOpts \<Rightarrow> bytes list res" where
  "UpdateState N iter srt iterm srtc state incoming opts =
     (case resize_slots state (sint (MaxWitnessSignatures opts + 1)) of
        Inl e \<Rightarrow> Inl e
      | Inr st \<Rightarrow>
        (case group_by_body N (LogSigV opts) (st @ incoming) [] of
           Inl e \<Rightarrow> Inl e
         | Inr byBody \<Rightarrow>
           (case combine_bodies N iter srt opts (map snd (iterm byBody)) of
              Inl e \<Rightarrow> Inl e
            | Inr combined \<Rightarrow> Inr (fill_slots (length st) 0 (srtc combined)))))"

end
