(* ===== verification/NotesExamples.thy ===== *)
theory NotesExamples
  imports Notes
begin

section \<open>Signatures at concrete inputs\<close>

text \<open>A note library in which a verifier is its key hash, the keys up to two have signed every note, and
  sorting is by insertion.\<close>

definition key_sig :: "u32 \<Rightarrow> Signature" where
  "key_sig v = \<lparr>SigName = [], SigHash = v, SigBase64 = []\<rparr>"

definition key_note :: "bytes \<Rightarrow> u32 list \<Rightarrow> Note" where
  "key_note raw vs = \<lparr>NoteText = raw, Sigs = map key_sig (filter (\<lambda>v. v \<le> 2) vs), UnverifiedSigs = []\<rparr>"

definition key_notes :: "(u32, unit) note_lib" where
  "key_notes =
     \<lparr>note_Open = (\<lambda>raw vs. if Sigs (key_note raw vs) = [] then UnverifiedNote (key_note raw vs) else Opened (key_note raw vs)),
      note_Sign = (\<lambda>n _. Inr (NoteText n)), KeyHash = id,
      ParseCheckpoint = (\<lambda>raw _ v vs. Inr (\<lparr>Origin = [], Size = of_nat (length raw), Hash = raw\<rparr>, key_note raw (v # vs))),
      MarshalCheckpoint = Hash\<rparr>"

lemma key_note_sigs: "s \<in> set (Sigs (key_note raw vs)) \<Longrightarrow> \<exists>v \<in> set vs. SigHash s = v"
  by (auto simp: key_note_def key_sig_def)

interpretation key: note_open key_notes
proof
  fix raw vs n
  assume "note_Open key_notes raw vs = Opened n"
  then show "Sigs n \<noteq> [] \<and> (\<forall>s \<in> set (Sigs n). \<exists>v \<in> set vs. SigHash s = KeyHash key_notes v)"
    using key_note_sigs by (auto simp: key_notes_def split: if_splits)
next
  fix raw vs n
  assume "note_Open key_notes raw vs = UnverifiedNote n"
  then show "Sigs n = []" by (auto simp: key_notes_def split: if_splits)
next
  fix raw vs vs' r r' n n'
  assume "note_Open key_notes raw vs = r" "note_Open key_notes raw vs' = r'" "r \<in> {Opened n, UnverifiedNote n}"
    "r' \<in> {Opened n', UnverifiedNote n'}"
  moreover have "NoteText (key_note raw us) = raw" for us by (simp add: key_note_def)
  ultimately show "NoteText n = NoteText n'" by (auto simp: key_notes_def split: if_splits)
qed

definition sig_rank :: "u32 \<Rightarrow> Signature \<Rightarrow> nat" where
  "sig_rank kh s = (if SigHash s = kh then 0 else Suc (unat (SigHash s)))"

lemma sorts_sigs_sort: "sorts_sigs (\<lambda>kh. sort_key (sig_rank kh))"
proof -
  have "sorted_wrt (\<lambda>x y. \<not> sig_less kh y x) (sort_key (sig_rank kh) xs)" if d: "distinct (map SigHash xs)" for kh xs
  proof -
    let ?ys = "sort_key (sig_rank kh) xs"
    have "mset (map SigHash ?ys) = mset (map SigHash xs)" by simp
    then have "distinct (map SigHash ?ys)" using d mset_eq_imp_distinct_iff by blast
    moreover have "sig_rank kh x = sig_rank kh y \<longleftrightarrow> SigHash x = SigHash y" for x y
      by (auto simp: sig_rank_def word_unat_eq_iff split: if_splits)
    ultimately have "distinct (map (sig_rank kh) ?ys)" by (auto simp: distinct_map inj_on_def)
    then have "sorted_wrt (<) (map (sig_rank kh) ?ys)" by (simp add: strict_sorted_iff)
    then have "sorted_wrt (\<lambda>x y. sig_rank kh x < sig_rank kh y) ?ys" by (simp add: sorted_wrt_map)
    then show ?thesis
      by (rule sorted_wrt_mono_rel [rotated]) (auto simp: sig_rank_def sig_less_def word_less_nat_alt split: if_splits)
  qed
  then show ?thesis by (simp add: sorts_sigs_def)
qed

lemma combine_demo: "Combine key_notes id (\<lambda>kh. sort_key (sig_rank kh)) [''t'', ''t''] 1 [2, 3] = Inr ''t''"
  by (simp add: Combine_def key_notes_def key_note_def)

theorem Combine_signatures_witness:
  "\<exists>n L ws. note_Sign key_notes n [] = Inr ''t'' \<and> Sigs n = L # ws \<and> SigHash L = 1 \<and>
    SigHash ` set ws = (\<Union>raw \<in> {''t''}. SigHash ` set (wit_sigs key_notes [2, 3] raw))"
  using Combine_signatures [OF key.note_open_axioms permutes_id(1) sorts_sigs_sort _ combine_demo]
  by (fastforce simp: key_notes_def)

theorem CheckpointNConsensus_best_witness:
  "is_ok (projr (CheckpointNConsensus key_notes id ''log'' [\<lambda>_. Inr ''ab'', \<lambda>_. Inr ''abc'', \<lambda>_. Inl ErrIO] [2] 1) 1 [])"
proof -
  let ?cc = "projr (CheckpointNConsensus key_notes id ''log'' [\<lambda>_. Inr ''ab'', \<lambda>_. Inr ''abc'', \<lambda>_. Inl ErrIO] [2] 1)"
  have "CheckpointNConsensus key_notes id ''log'' [\<lambda>_. Inr ''ab'', \<lambda>_. Inr ''abc'', \<lambda>_. Inl ErrIO] [2] 1 = Inr ?cc"
    by (simp add: CheckpointNConsensus_def)
  moreover have "getCheckpointN key_notes (\<lambda>_. Inr ''ab'') ''log'' 1 1 [] [2] =
      Inr (\<lparr>Origin = [], Size = 2, Hash = ''ab''\<rparr>, key_note ''ab'' [1, 2], ''ab'')"
    by (simp add: getCheckpointN_def key_notes_def)
  moreover have "enough_sigs 1 (\<lparr>Origin = [], Size = 2, Hash = ''ab''\<rparr>, key_note ''ab'' [1, 2], ''ab'')"
    by (simp add: enough_sigs_def key_note_def)
  ultimately show ?thesis
    using CheckpointNConsensus_best [OF permutes_id(1), of key_notes "''log''" _ "[2]" 1 ?cc 1 "[]"]
    by (fastforce simp: Let_def)
qed

text \<open>A crypto library in which every key is an ECDSA key.\<close>

definition key_crypto :: "(bytes, bytes) crypto_lib" where
  "key_crypto = \<lparr>Sum256 = (\<lambda>b. b @ ''abcd''), ParsePKIXPublicKey = Inr, as_ecdsa = Some,
     VerifyASN1 = (\<lambda>k d s. s = k), sdb_NewVerifier = (\<lambda>_. Inl ErrIO)\<rparr>"

theorem NewVerifier_ecdsa_witness:
  "v_name (projr (NewVerifier key_crypto ''ecdsa'' (ecdsa_key_text key_crypto ''rekor'' ''der''))) = ''rekor''"
  using NewVerifier_ecdsa [of "''rekor''" "''der''" key_crypto "''der''" "''der''"] by (simp add: key_crypto_def)

end
