(* ===== verification/DistributorProofs.thy ===== *)
theory DistributorProofs
  imports Distributor NotesExamples
begin

section \<open>Properties of the distributors\<close>

text \<open>What \<open>GetCheckpointN\<close> selects, the invariant of the distributor's table, and the slots that
  \<open>UpdateState\<close> fills.\<close>

subsection \<open>Selecting the largest checkpoint with enough signatures\<close>

abbreviation row_wits :: "(string \<times> 'v) list \<Rightarrow> (u64 \<times> string \<times> bytes) list \<Rightarrow> 'v option list" where
  "row_wits ws rs \<equiv> map (\<lambda>r. map_of ws (fst (snd r))) rs"

abbreviation row_raws :: "(u64 \<times> string \<times> bytes) list \<Rightarrow> bytes list" where
  "row_raws rs \<equiv> map (\<lambda>r. snd (snd r)) rs"

abbreviation rows_at :: "u64 \<Rightarrow> (u64 \<times> string \<times> bytes) list \<Rightarrow> (u64 \<times> string \<times> bytes) list" where
  "rows_at sz rs \<equiv> filter (\<lambda>r. fst r = sz) rs"

text \<open>The rows that were selected: all those of the largest size with at least \<open>n\<close> of them, or too few
  when there is no such size.\<close>

definition selected :: "nat \<Rightarrow> (u64 \<times> string \<times> bytes) list \<Rightarrow> (u64 \<times> string \<times> bytes) list \<Rightarrow> bool" where
  "selected n rows sel \<longleftrightarrow>
     (\<exists>sz. sel = rows_at sz rows \<and> n \<le> length sel \<and> (\<forall>sz' > sz. length (rows_at sz' rows) < n)) \<or>
     (length sel < n \<and> (\<forall>sz. length (rows_at sz rows) < n))"

lemma rows_loop_selected:
  assumes "sorted_wrt (\<lambda>a b. fst b \<le> fst a) (acc @ rows)" "\<forall>r \<in> set acc. fst r = cur" "\<forall>r \<in> set rows. fst r \<le> cur" "0 < n"
  shows "\<exists>sel. rows_loop ws n (map Inr rows) cur (row_wits ws acc) (row_raws acc) = Inr (row_wits ws sel, row_raws sel) \<and>
    selected n (acc @ rows) sel"
  using assms
proof (induction rows arbitrary: acc cur)
  case Nil
  then have "rows_at sz acc = (if sz = cur then acc else [])" for sz by (auto simp: filter_id_conv filter_empty_conv)
  then have "selected n (acc @ []) acc" using \<open>0 < n\<close> by (cases "n \<le> length acc") (auto simp: selected_def)
  then show ?case by auto
next
  case (Cons r rows)
  obtain sz w c where r: "r = (sz, w, c)" by (metis prod_cases3)
  show ?case
  proof (cases "sz = cur")
    case True
    then show ?thesis using Cons.IH [of "acc @ [r]" cur] Cons.prems r by (auto simp: sorted_wrt_append)
  next
    case False
    then have lt: "sz < cur" using Cons.prems(3) r by auto
    have small: "x \<in> set (r # rows) \<Longrightarrow> fst x \<le> sz" for x using Cons.prems(1) r by (auto simp: sorted_wrt_append)
    have none: "rows_at s (r # rows) = []" if "cur \<le> s" for s
      unfolding filter_empty_conv using small lt that by (metis leD order_less_le_trans)
    have at: "rows_at s (acc @ r # rows) = (if s = cur then acc else rows_at s (r # rows))" for s
    proof -
      have "rows_at s acc = (if s = cur then acc else [])"
        using Cons.prems(2) by (auto simp: filter_id_conv filter_empty_conv)
      then show ?thesis using none [of cur] by (auto split: if_splits)
    qed
    show ?thesis
    proof (cases "n \<le> length acc")
      case True
      have "length (rows_at s (acc @ r # rows)) < n" if "cur < s" for s
        using that none [of s] at [of s] Cons.prems(4) by (metis less_imp_le less_irrefl list.size(3))
      then have "selected n (acc @ r # rows) acc"
        unfolding selected_def using True at [of cur, simplified if_True refl simp_thms] by (intro disjI1 exI [of _ cur]) argo
      moreover have "rows_loop ws n (map Inr (r # rows)) cur (row_wits ws acc) (row_raws acc) = Inr (row_wits ws acc, row_raws acc)"
        using True False r by simp
      ultimately show ?thesis by blast
    next
      case False
      have "\<exists>sel. rows_loop ws n (map Inr rows) sz (row_wits ws [r]) (row_raws [r]) = Inr (row_wits ws sel, row_raws sel) \<and>
          selected n ([r] @ rows) sel"
        using Cons.prems(1,4) small r by (intro Cons.IH) (auto simp: sorted_wrt_append)
      moreover have "selected n (acc @ r # rows) sel" if "selected n ([r] @ rows) sel" for sel
      proof -
        have "s \<noteq> cur" if "n \<le> length (rows_at s (r # rows))" for s
          using that none [of cur] Cons.prems(4) by auto
        then have big: "rows_at s (acc @ r # rows) = rows_at s (r # rows)" if "n \<le> length (rows_at s (r # rows))" for s
          using that unfolding at by presburger
        have few: "length (rows_at s (acc @ r # rows)) < n" if "length (rows_at s (r # rows)) < n" for s
          using that False unfolding at by (simp only: split: if_split) simp
        from that consider s where "sel = rows_at s (r # rows)" "n \<le> length sel" "\<forall>s' > s. length (rows_at s' (r # rows)) < n"
          | "length sel < n" "\<forall>s. length (rows_at s (r # rows)) < n"
          unfolding selected_def append_Cons append_Nil by blast
        then show ?thesis
        proof cases
          case 1
          then have "rows_at s (acc @ r # rows) = sel" using big [of s] by metis
          then show ?thesis unfolding selected_def using 1(2,3) few by (intro disjI1 exI [of _ s]) blast
        next
          case 2
          then show ?thesis unfolding selected_def using few by (intro disjI2) blast
        qed
      qed
      ultimately show ?thesis using False \<open>sz \<noteq> cur\<close> r by auto
    qed
  qed
qed

text \<open>The initial size is zero, with no rows collected.\<close>

lemma rows_loop_start:
  assumes "sorted_wrt (\<lambda>a b. fst b \<le> fst a) rows" "0 < n"
  shows "\<exists>sel. rows_loop ws n (map Inr rows) 0 [] [] = Inr (row_wits ws sel, row_raws sel) \<and> selected n rows sel"
proof (cases rows)
  case Nil
  then show ?thesis using assms(2) by (auto simp: selected_def)
next
  case (Cons r rs)
  obtain sz w c where r: "r = (sz, w, c)" by (metis prod_cases3)
  have "rows_loop ws n (map Inr rows) 0 [] [] = rows_loop ws n (map Inr rs) sz (row_wits ws [r]) (row_raws [r])"
    using Cons r assms(2) by auto
  then show ?thesis using rows_loop_selected [of "[r]" rs sz n ws] assms Cons r by auto
qed

text \<open>C38: For \<open>n\<close> at least one and the rows in the order the query asks for, \<open>GetCheckpointN\<close> combines
  exactly the checkpoints of the largest tree size that at least \<open>n\<close> witnesses have signed, and fails
  if there is no such size.\<close>

theorem GetCheckpointN_largest:
  assumes "map_of (d_ls D) logID = Some l" "dd_BeginTx (d_db D) s True = Inr tx"
    "dd_SelectSizes (d_db D) s tx logID = Inr (map Inr rows, None)" "sorted_wrt (\<lambda>a b. fst b \<le> fst a) rows" "0 < n"
    "\<forall>r \<in> set rows. map_of (d_ws D) (fst (snd r)) \<noteq> None"
  shows "\<exists>sel. selected (unat n) rows sel \<and>
    dist_GetCheckpointN N iter srt D s logID n =
      (if unat n \<le> length sel
       then map_sum (errorf ''failed to combine sigs'') id
              (Combine N iter srt (row_raws sel) (dl_Verifier l) (map the (row_wits (d_ws D) sel)))
       else Inl (Errorf ''no checkpoint with enough signatures found''))"
proof -
  have "0 < unat n" using assms(5) unat_gt_0 [of n] by (auto simp: word_neq_0_conv)
  from rows_loop_start [OF assms(4) this] obtain sel
    where sel: "rows_loop (d_ws D) (unat n) (map Inr rows) 0 [] [] = Inr (row_wits (d_ws D) sel, row_raws sel)"
      "selected (unat n) rows sel" by blast
  have "None \<notin> set (row_wits (d_ws D) sel)" if n: "unat n \<le> length sel"
  proof -
    have "set sel \<subseteq> set rows" using sel(2) n by (auto simp: selected_def)
    then show ?thesis using assms(6) by force
  qed
  then show ?thesis using sel assms(1-3)
    by (intro exI [of _ sel]) (auto simp: dist_GetCheckpointN_def split: sum.splits)
qed

text \<open>\<open>GetCheckpointN\<close> with \<open>n = 0\<close> never returns the largest checkpoint: it stops before the first
  row it could use and panics in \<open>Combine\<close>, unless every row has tree size zero.\<close>

theorem GetCheckpointN_zero_panics:
  assumes "map_of (d_ls D) logID = Some l" "dd_BeginTx (d_db D) s True = Inr tx"
    "dd_SelectSizes (d_db D) s tx logID = Inr (map Inr rows, None)" "rows = [] \<or> fst (hd rows) \<noteq> 0"
  shows "dist_GetCheckpointN N iter srt D s logID 0 = Inl (Panic ''nil pointer dereference'')"
proof -
  have "rows_loop (d_ws D) 0 (map Inr rows) 0 [] [] = Inr ([], [])"
    using assms(4) by (cases rows) auto
  then show ?thesis using assms(1-3) by (simp add: dist_GetCheckpointN_def Combine_def errorf_def)
qed

subsection \<open>The table of the distributor\<close>

text \<open>\<open>tbl\<close> is the table by its primary key and \<open>t_new\<close> the row a transaction has written; a statement or
  a commit that fails leaves the table as it is.\<close>

locale dist_table =
  fixes db :: "('d, 't) dist_db"
    and tbl :: "'d \<Rightarrow> string \<times> string \<Rightarrow> (u64 \<times> bytes) option"
    and t_new :: "'t \<Rightarrow> ((string \<times> string) \<times> (u64 \<times> bytes)) option"
  assumes select_row: "dd_SelectRow db s tx l w = (None, r) \<Longrightarrow>
      (\<forall>c. r = Inr c \<longrightarrow> (\<exists>sz. tbl s (l, w) = Some (sz, c))) \<and> (r = Inl ErrNoRows \<longrightarrow> tbl s (l, w) = None)"
    and select_code: "dd_SelectRow db s tx l w = (Some e, r) \<or> dd_SelectRow db s tx l w = (e', Inl e) \<Longrightarrow> status_Code e \<noteq> NotFound"
    and replace: "dd_InsertOrReplace db s tx l w sz raw = (None, tx') \<Longrightarrow> t_new tx' = Some ((l, w), (sz, raw))"
    and commit_ok: "\<lbrakk>dd_Commit db s tx = (None, s'); t_new tx = Some (k, v)\<rbrakk> \<Longrightarrow> tbl s' = (tbl s)(k \<mapsto> v)"
    and commit_err: "dd_Commit db s tx = (Some e, s') \<Longrightarrow> tbl s' = tbl s"

text \<open>A row that \<open>Distribute\<close> may have written.\<close>

definition row_ok :: "('v, 's) note_lib \<Rightarrow> ('v, 'd, 't) Distributor \<Rightarrow> string \<times> string \<Rightarrow> u64 \<times> bytes \<Rightarrow> bool" where
  "row_ok N D k v \<longleftrightarrow> (\<exists>l wv c n. map_of (d_ls D) (fst k) = Some l \<and> map_of (d_ws D) (snd k) = Some wv \<and>
     ParseCheckpoint N (snd v) (dl_Origin l) (dl_Verifier l) [wv] = Inr (c, n) \<and> length (Sigs n) = 2 \<and> Size c = fst v)"

text \<open>A sequence of calls, whatever they return.\<close>

fun distribute_all ::
    "('v, 's) note_lib \<Rightarrow> ('v, 'd, 't) Distributor \<Rightarrow> 'd \<Rightarrow> (string \<times> string \<times> bytes) list \<Rightarrow> 'd" where
  "distribute_all N D s [] = s"
| "distribute_all N D s ((l, w, raw) # cs) = distribute_all N D (snd (Distribute N D s l w raw)) cs"

definition table_ok :: "('v, 's) note_lib \<Rightarrow> ('v, 'd, 't) Distributor \<Rightarrow> (string \<times> string \<Rightarrow> (u64 \<times> bytes) option) \<Rightarrow> bool" where
  "table_ok N D m \<longleftrightarrow> (\<forall>k v. m k = Some v \<longrightarrow> row_ok N D k v)"

definition table_grows :: "(string \<times> string \<Rightarrow> (u64 \<times> bytes) option) \<Rightarrow> (string \<times> string \<Rightarrow> (u64 \<times> bytes) option) \<Rightarrow> bool" where
  "table_grows m m' \<longleftrightarrow> (\<forall>k sz raw. m k = Some (sz, raw) \<longrightarrow>
     (\<exists>sz' raw'. m' k = Some (sz', raw') \<and> (sz < sz' \<or> sz' = sz \<and> raw' = raw)))"

lemma table_grows_refl [simp]: "table_grows m m"
  by (auto simp: table_grows_def)

lemma table_grows_trans: "\<lbrakk>table_grows a b; table_grows b c\<rbrakk> \<Longrightarrow> table_grows a c"
proof -
  assume g: "table_grows a b" "table_grows b c"
  show "table_grows a c" unfolding table_grows_def
  proof (intro allI impI)
    fix k sz raw assume "a k = Some (sz, raw)"
    then obtain sz1 r1 where 1: "b k = Some (sz1, r1)" "sz < sz1 \<or> sz1 = sz \<and> r1 = raw" using g(1) unfolding table_grows_def by blast
    then obtain sz2 r2 where "c k = Some (sz2, r2)" "sz1 < sz2 \<or> sz2 = sz1 \<and> r2 = r1" using g(2) unfolding table_grows_def by blast
    then show "\<exists>sz' raw'. c k = Some (sz', raw') \<and> (sz < sz' \<or> sz' = sz \<and> raw' = raw)" using 1(2) by auto
  qed
qed

context dist_table
begin

lemma dist_save_cases:
  "dist_save db s tx l w sz raw = (err, s') \<Longrightarrow> tbl s' = tbl s \<or> tbl s' = (tbl s)((l, w) \<mapsto> (sz, raw))"
  using replace commit_ok commit_err
  by (cases err) (fastforce simp: dist_save_def split: prod.splits option.splits)+

lemma Distribute_cases:
  assumes "d_db D = db" "Distribute N D s l w raw = (err, s')"
  shows "tbl s' = tbl s \<or> (\<exists>li wv c n. map_of (d_ls D) l = Some li \<and> map_of (d_ws D) w = Some wv \<and>
    ParseCheckpoint N raw (dl_Origin li) (dl_Verifier li) [wv] = Inr (c, n) \<and> length (Sigs n) = 2 \<and>
    tbl s' = (tbl s)((l, w) \<mapsto> (Size c, raw)) \<and>
    (tbl s (l, w) = None \<or> (\<exists>sz old co no. tbl s (l, w) = Some (sz, old) \<and>
       ParseCheckpoint N old (dl_Origin li) (dl_Verifier li) [wv] = Inr (co, no) \<and> Size co < Size c)))"
proof (cases "s' = s")
  case False
  from assms(2) False obtain li wv c n tx where pre: "map_of (d_ls D) l = Some li" "map_of (d_ws D) w = Some wv"
    "ParseCheckpoint N raw (dl_Origin li) (dl_Verifier li) [wv] = Inr (c, n)" "length (Sigs n) = 2" "dd_BeginTx db s False = Inr tx"
    unfolding Distribute_def assms(1) by (auto split: option.splits sum.splits prod.splits if_splits)
  let ?latest = "dist_getLatestCheckpoint db s tx l w"
  let ?old = "(\<exists>e. ?latest = Inl e \<and> status_Code e = NotFound) \<or>
      (\<exists>old co no. ?latest = Inr old \<and> ParseCheckpoint N old (dl_Origin li) (dl_Verifier li) [wv] = Inr (co, no) \<and> Size co < Size c)"
  note run = assms(2) [unfolded Distribute_def assms(1) Let_def, simplified pre option.case sum.case prod.case, simplified]
  have "dist_save db s tx l w (Size c) raw = (err, s') \<and> ?old"
  proof (cases ?latest)
    case (Inl e)
    then show ?thesis using run False by (simp split: if_splits)
  next
    case (Inr o')
    then show ?thesis using run False by (cases "ParseCheckpoint N o' (dl_Origin li) (dl_Verifier li) [wv]") (auto split: if_splits)
  qed
  then have save: "dist_save db s tx l w (Size c) raw = (err, s')" and old: ?old by auto
  have none: "tbl s (l, w) = None" if "?latest = Inl e" "status_Code e = NotFound" for e
    using that select_row [of s tx l w] select_code [of s tx l w]
    by (auto simp: dist_getLatestCheckpoint_def split: prod.splits option.splits sum.splits if_splits)
  have some: "\<exists>sz. tbl s (l, w) = Some (sz, o')" if "?latest = Inr o'" for o'
    using that select_row [of s tx l w]
    by (auto simp: dist_getLatestCheckpoint_def split: prod.splits option.splits sum.splits if_splits)
  show ?thesis using dist_save_cases [OF save] old none some pre(1-4) by metis
qed simp

lemma Distribute_keeps:
  assumes "d_db D = db" "Distribute N D s l w raw = (err, s')" "table_ok N D (tbl s)"
  shows "table_ok N D (tbl s') \<and> table_grows (tbl s) (tbl s')"
  using Distribute_cases [OF assms(1,2)]
proof (elim disjE exE conjE)
  fix li wv c n
  assume new: "map_of (d_ls D) l = Some li" "map_of (d_ws D) w = Some wv"
    "ParseCheckpoint N raw (dl_Origin li) (dl_Verifier li) [wv] = Inr (c, n)" "length (Sigs n) = 2"
    "tbl s' = (tbl s)((l, w) \<mapsto> (Size c, raw))"
  have ok: "table_ok N D (tbl s')" using assms(3) new by (auto simp: table_ok_def row_ok_def)
  { assume "tbl s (l, w) = None"
    then show ?thesis using ok new(5) by (auto simp: table_grows_def)
  next
    fix sz old co no
    assume o: "tbl s (l, w) = Some (sz, old)"
      "ParseCheckpoint N old (dl_Origin li) (dl_Verifier li) [wv] = Inr (co, no)" "Size co < Size c"
    then have "sz = Size co" using assms(3) new(1,2) by (fastforce simp: table_ok_def row_ok_def)
    then show ?thesis using ok new(5) o by (auto simp: table_grows_def) }
qed (use assms(3) in auto)

lemma distribute_all_keeps:
  "\<lbrakk>d_db D = db; table_ok N D (tbl s)\<rbrakk> \<Longrightarrow>
     table_ok N D (tbl (distribute_all N D s cs)) \<and> table_grows (tbl s) (tbl (distribute_all N D s cs))"
proof (induction cs arbitrary: s)
  case (Cons call cs)
  obtain l w raw where c: "call = (l, w, raw)" by (metis prod_cases3)
  obtain err s1 where d: "Distribute N D s l w raw = (err, s1)" by fastforce
  show ?case using Distribute_keeps [OF Cons.prems(1) d Cons.prems(2)] Cons.IH [of s1] Cons.prems(1) c d table_grows_trans by auto
qed simp

end

text \<open>C39: Over any sequence of \<open>Distribute\<close> calls, whatever they are given and whatever fails, every row
  of the table is a checkpoint signed by its log and its witness with the tree size it is filed under,
  and the row of a pair is only ever replaced by one of a strictly larger tree.\<close>

theorem Distribute_invariant:
  assumes "dist_table (d_db D) tbl t_new" "table_ok N D (tbl s)"
  shows "table_ok N D (tbl (distribute_all N D s cs)) \<and> table_grows (tbl s) (tbl (distribute_all N D s cs))"
  by (rule dist_table.distribute_all_keeps [OF assms(1) refl assms(2)])

subsection \<open>The slots of the GitHub distributor\<close>

abbreviation cnr_sigs :: "cpNoteRaw \<Rightarrow> nat" where
  "cnr_sigs x \<equiv> length (Sigs (fst (snd x)))"

lemma dropWhile_find:
  "dropWhile (\<lambda>x. \<not> P x) xs = [] \<longleftrightarrow> find P xs = None"
  "dropWhile (\<lambda>x. \<not> P x) xs = y # ys \<Longrightarrow> find P xs = Some y"
  by (induction xs) (auto split: if_splits)

lemma find_dropWhile:
  "(\<And>x. Q x \<Longrightarrow> P x) \<Longrightarrow> find Q (dropWhile (\<lambda>x. \<not> P x) xs) = find Q xs"
  by (induction xs) auto

text \<open>Every slot holds the first of the checkpoints that has more signatures than the number of the slot:
  those that the earlier slots have skipped have too few for the later ones as well.\<close>

lemma fill_slots_nth:
  "j < k \<Longrightarrow> fill_slots k i cs ! j = (case find (\<lambda>x. i + j < cnr_sigs x) cs of None \<Rightarrow> [] | Some x \<Rightarrow> snd (snd x))"
proof (induction k arbitrary: i j cs)
  case (Suc k)
  let ?P = "\<lambda>x. i < cnr_sigs x"
  have drop: "dropWhile (\<lambda>(c, n, raw). \<not> i < length (Sigs n)) cs = dropWhile (\<lambda>x. \<not> ?P x) cs"
    by (rule arg_cong [where f = "\<lambda>P. dropWhile P cs"]) auto
  have later: "find (\<lambda>x. i + Suc m < cnr_sigs x) (dropWhile (\<lambda>x. \<not> ?P x) cs) = find (\<lambda>x. i + Suc m < cnr_sigs x) cs" for m
    by (rule find_dropWhile) simp
  show ?case
  proof (cases "dropWhile (\<lambda>x. \<not> ?P x) cs")
    case Nil
    have "fill_slots (Suc k) i cs = [] # fill_slots k (i + 1) []" by (simp only: fill_slots.simps drop Nil list.case)
    moreover have "find ?P cs = None" using dropWhile_find(1) [of ?P cs] Nil by (simp only: simp_thms)
    moreover have "find (\<lambda>x. i + Suc m < cnr_sigs x) cs = None" for m using later [of m] unfolding Nil by simp
    ultimately show ?thesis using Suc.IH [of _ "i + 1" "[]"] Suc.prems
      by (cases j) (simp_all only: nth_Cons_0 nth_Cons_Suc add_0_right option.case, simp)
  next
    case (Cons y ys)
    have "fill_slots (Suc k) i cs = snd (snd y) # fill_slots k (i + 1) (y # ys)"
      by (cases y) (simp only: fill_slots.simps drop Cons list.case prod.case fst_conv snd_conv)
    then show ?thesis using Suc.IH [of _ "i + 1" "y # ys"] Suc.prems later [unfolded Cons] dropWhile_find(2) [OF Cons]
      by (cases j) simp_all
  qed
qed simp

lemma length_fill_slots [simp]: "length (fill_slots k i cs) = k"
  by (induction k arbitrary: i cs) (auto split: list.splits)

lemma find_sorted:
  assumes "sorted_wrt (\<lambda>x y. R x y) xs" "find P xs = Some x" "y \<in> set xs" "P y" "\<And>x. R x x"
  shows "R x y"
  using assms(1-4) by (induction xs) (auto simp: assms(5) split: if_splits)

text \<open>The checkpoints that an update looks at: those in the slots that are kept and the incoming ones, and among them those with
  a given text.\<close>

definition held :: "nat \<Rightarrow> bytes list \<Rightarrow> bytes list \<Rightarrow> bytes list" where
  "held slots state incoming = filter (\<lambda>r. r \<noteq> []) (take slots state @ incoming)"

definition with_body :: "('v, 's) note_lib \<Rightarrow> 'v \<Rightarrow> bytes list \<Rightarrow> string \<Rightarrow> bytes list" where
  "with_body N v raws t = filter (\<lambda>r. text_of N v r = Some t) raws"

text \<open>A checkpoint with the signatures of all those with its text.\<close>

definition is_combined ::
    "('v, 's) note_lib \<Rightarrow> (Signature list \<Rightarrow> Signature list) \<Rightarrow> (u32 \<Rightarrow> Signature list \<Rightarrow> Signature list) \<Rightarrow> 'v UpdateOpts \<Rightarrow> bytes list \<Rightarrow> cpNoteRaw \<Rightarrow> bool" where
  "is_combined N iter srt opts raws x \<longleftrightarrow>
     (\<exists>t. with_body N (LogSigV opts) raws t \<noteq> [] \<and>
        Combine N iter srt (with_body N (LogSigV opts) raws t) (LogSigV opts) (Witnesses opts) = Inr (snd (snd x)) \<and>
        ParseCheckpoint N (snd (snd x)) (LogOrigin opts) (LogSigV opts) (Witnesses opts) = Inr (fst x, fst (snd x)))"

abbreviation group_of :: "(string \<times> bytes list) list \<Rightarrow> string \<Rightarrow> bytes list" where
  "group_of m t \<equiv> (case map_of m t of None \<Rightarrow> [] | Some rs \<Rightarrow> rs)"

lemma group_by_body_groups:
  "\<lbrakk>group_by_body N v raws acc = Inr m; distinct (map fst acc); \<forall>rs \<in> snd ` set acc. rs \<noteq> []\<rbrakk> \<Longrightarrow>
     distinct (map fst m) \<and> (\<forall>rs \<in> snd ` set m. rs \<noteq> []) \<and> (\<forall>r \<in> set raws. r \<noteq> [] \<longrightarrow> text_of N v r \<noteq> None) \<and>
     (\<forall>t. group_of m t = group_of acc t @ with_body N v (filter (\<lambda>r. r \<noteq> []) raws) t)"
proof (induction raws arbitrary: acc)
  case Nil
  then show ?case by (simp add: with_body_def)
next
  case (Cons r raws)
  show ?case
  proof (cases "r = []")
    case True
    then show ?thesis using Cons by simp
  next
    case False
    then obtain n where n: "note_Open N r [v] = Opened n" using Cons.prems(1) by (auto split: open_result.splits)
    let ?acc = "AList.update (NoteText n) (group_of acc (NoteText n) @ [r]) acc"
    have run: "group_by_body N v raws ?acc = Inr m" using Cons.prems(1) n False by simp
    have d: "distinct (map fst ?acc)" using Cons.prems(2) by (rule distinct_update)
    have ne: "\<forall>rs \<in> snd ` set ?acc. rs \<noteq> []"
    proof -
      have "set ?acc \<subseteq> insert (NoteText n, group_of acc (NoteText n) @ [r]) (set acc)" by (induction acc) auto
      then show ?thesis using Cons.prems(3) by auto
    qed
    have grp: "group_of ?acc t = group_of acc t @ with_body N v [r] t" for t
      using n by (auto simp: update_conv' with_body_def text_of_def)
    have "with_body N v (filter (\<lambda>r. r \<noteq> []) (r # raws)) t = with_body N v [r] t @ with_body N v (filter (\<lambda>r. r \<noteq> []) raws) t" for t
      using False by (simp add: with_body_def)
    moreover have "text_of N v r \<noteq> None" using n by (simp add: text_of_def)
    ultimately show ?thesis using Cons.IH [OF run d ne] by (simp add: grp)
  qed
qed

lemma group_by_body_values:
  assumes "group_by_body N v raws [] = Inr m"
  shows "snd ` set m = {rs. rs \<noteq> [] \<and> (\<exists>t. rs = with_body N v (filter (\<lambda>r. r \<noteq> []) raws) t)}"
proof -
  note g = group_by_body_groups [OF assms, simplified]
  have eq: "(t, rs) \<in> set m \<longleftrightarrow> rs \<noteq> [] \<and> rs = with_body N v (filter (\<lambda>r. r \<noteq> []) raws) t" for t rs
  proof
    assume m: "(t, rs) \<in> set m"
    then have "map_of m t = Some rs" using g by (simp add: map_of_eq_Some_iff)
    then have "group_of m t = rs" by simp
    then show "rs \<noteq> [] \<and> rs = with_body N v (filter (\<lambda>r. r \<noteq> []) raws) t" using g m by force
  next
    assume "rs \<noteq> [] \<and> rs = with_body N v (filter (\<lambda>r. r \<noteq> []) raws) t"
    then have "group_of m t = rs" "rs \<noteq> []" using g by auto
    then show "(t, rs) \<in> set m" by (auto split: option.splits dest: map_of_SomeD)
  qed
  have "snd ` set m = {rs. \<exists>t. (t, rs) \<in> set m}" by force
  then show ?thesis unfolding eq by blast
qed

lemma combine_bodies_set:
  "combine_bodies N iter srt opts vs = Inr cs \<Longrightarrow>
     set cs = {x. \<exists>v \<in> set vs. Combine N iter srt v (LogSigV opts) (Witnesses opts) = Inr (snd (snd x)) \<and>
       ParseCheckpoint N (snd (snd x)) (LogOrigin opts) (LogSigV opts) (Witnesses opts) = Inr (fst x, fst (snd x))}"
proof (induction vs arbitrary: cs)
  case (Cons v vs)
  then obtain raw c n cs' where "Combine N iter srt v (LogSigV opts) (Witnesses opts) = Inr raw"
      "ParseCheckpoint N raw (LogOrigin opts) (LogSigV opts) (Witnesses opts) = Inr (c, n)" "combine_bodies N iter srt opts vs = Inr cs'" "cs = (c, n, raw) # cs'"
    by (auto split: sum.splits)
  then show ?case using Cons.IH [of cs'] by auto
qed simp

lemma resize_held:
  assumes "resize_slots state k = Inr st"
  shows "int (length st) = k" "filter (\<lambda>r. r \<noteq> []) (st @ incoming) = held (nat k) state incoming"
  using assms by (auto simp: resize_slots_def held_def split: if_splits)

text \<open>C40: The new state of the GitHub distributor.  It has a slot for every number of witness signatures up to the configured
  one.  Slot \<open>i\<close> holds the largest checkpoint with more than \<open>i\<close> verified signatures, the log's own counted, so at least
  \<open>i\<close> witness signatures, and is empty if there is none.  The checkpoints are those obtained by combining all checkpoints of
  the same text among the kept slots and the incoming ones, each of which the log has signed.  This holds whatever
  order the map of texts is visited in.\<close>

theorem UpdateState_slots:
  assumes "permutes iterm" "sorts_by (\<lambda>a b. Size (fst b) < Size (fst a)) srtc" "UpdateState N iter srt iterm srtc state incoming opts = Inr ret"
    "raws = held (nat (sint (MaxWitnessSignatures opts + 1))) state incoming"
  shows "int (length ret) = sint (MaxWitnessSignatures opts + 1) \<and> (\<forall>r \<in> set raws. text_of N (LogSigV opts) r \<noteq> None) \<and>
    (\<forall>i < length ret. if \<exists>x. is_combined N iter srt opts raws x \<and> i < cnr_sigs x
       then \<exists>x. is_combined N iter srt opts raws x \<and> i < cnr_sigs x \<and> ret ! i = snd (snd x) \<and>
              (\<forall>y. is_combined N iter srt opts raws y \<and> i < cnr_sigs y \<longrightarrow> Size (fst y) \<le> Size (fst x))
       else ret ! i = [])"
proof -
  obtain st byBody combined where run: "resize_slots state (sint (MaxWitnessSignatures opts + 1)) = Inr st"
    "group_by_body N (LogSigV opts) (st @ incoming) [] = Inr byBody"
    "combine_bodies N iter srt opts (map snd (iterm byBody)) = Inr combined" and ret: "ret = fill_slots (length st) 0 (srtc combined)"
    using assms(3) by (auto simp: UpdateState_def split: sum.splits)
  note srt = sorts_byD [OF assms(2), of combined] and len = resize_held(1) [OF run(1)] and st = resize_held(2) [OF run(1), of incoming, folded assms(4)]
  have "set (map snd (iterm byBody)) = snd ` set byBody" using permutesD(2) [OF assms(1), of byBody] by simp
  then have comb: "x \<in> set combined \<longleftrightarrow> is_combined N iter srt opts raws x" for x
    unfolding combine_bodies_set [OF run(3)] group_by_body_values [OF run(2), unfolded st] is_combined_def by auto
  have "if \<exists>x. is_combined N iter srt opts raws x \<and> i < cnr_sigs x
       then \<exists>x. is_combined N iter srt opts raws x \<and> i < cnr_sigs x \<and> ret ! i = snd (snd x) \<and>
              (\<forall>y. is_combined N iter srt opts raws y \<and> i < cnr_sigs y \<longrightarrow> Size (fst y) \<le> Size (fst x))
       else ret ! i = []" if "i < length ret" for i
  proof (cases "find (\<lambda>x. i < cnr_sigs x) (srtc combined)")
    case None
    then have "\<not> (\<exists>x \<in> set combined. i < cnr_sigs x)" using srt(2) unfolding find_None_iff by metis
    moreover have "ret ! i = []" using fill_slots_nth [of i "length st" 0 "srtc combined", unfolded add_0 None] that ret by simp
    ultimately show ?thesis unfolding comb [symmetric] by auto
  next
    case (Some x)
    then have x: "x \<in> set combined" "i < cnr_sigs x" using srt(2) by (auto simp: find_Some_iff)
    moreover have "ret ! i = snd (snd x)" using fill_slots_nth [of i "length st" 0 "srtc combined"] that ret Some by simp
    moreover have "Size (fst y) \<le> Size (fst x)" if "y \<in> set combined" "i < cnr_sigs y" for y
      using find_sorted [OF srt(4) Some, of y] that srt(2) by auto
    ultimately have "\<exists>x. x \<in> set combined \<and> i < cnr_sigs x \<and> ret ! i = snd (snd x) \<and> (\<forall>y. y \<in> set combined \<and> i < cnr_sigs y \<longrightarrow> Size (fst y) \<le> Size (fst x))"
      by blast
    then show ?thesis using x unfolding comb by presburger
  qed
  moreover have "int (length ret) = sint (MaxWitnessSignatures opts + 1)" using ret len by simp
  moreover have "text_of N (LogSigV opts) r \<noteq> None" if "r \<in> set raws" for r
    using group_by_body_groups [OF run(2)] that unfolding st [symmetric] by auto
  ultimately show ?thesis by blast
qed

subsection \<open>A small distributor\<close>

text \<open>A table as an association list and transactions of one row.\<close>

definition list_db :: "(((string \<times> string) \<times> (u64 \<times> bytes)) list, ((string \<times> string) \<times> (u64 \<times> bytes)) option) dist_db" where
  "list_db =
     \<lparr>dd_CreateTable = (\<lambda>s. (None, s)), dd_BeginTx = (\<lambda>s ro. Inr None),
      dd_SelectSizes = (\<lambda>s tx l. Inr (map (\<lambda>((l, w), sz, c). Inr (sz, w, c)) (rev (sort_key (\<lambda>((l, w), sz, c). sz)
        (filter (\<lambda>((l', w), v). l' = l) s))), None)),
      dd_SelectRow = (\<lambda>s tx l w. (None, case map_of s (l, w) of None \<Rightarrow> Inl ErrNoRows | Some (sz, c) \<Rightarrow> Inr c)),
      dd_InsertOrReplace = (\<lambda>s tx l w sz c. (None, Some ((l, w), (sz, c)))),
      dd_Commit = (\<lambda>s tx. (None, case tx of None \<Rightarrow> s | Some (k, v) \<Rightarrow> AList.update k v s))\<rparr>"

interpretation list_db: dist_table list_db map_of id
  by unfold_locales (auto simp: list_db_def ErrNoRows_def update_conv' split: option.splits prod.splits)

definition list_dist :: "(u32, ((string \<times> string) \<times> (u64 \<times> bytes)) list, ((string \<times> string) \<times> (u64 \<times> bytes)) option) Distributor" where
  "list_dist = \<lparr>d_ws = [(''w'', 2)], d_ls = [(''l'', \<lparr>dl_Origin = [], dl_Verifier = 1\<rparr>)], d_db = list_db\<rparr>"

lemma list_dist_select:
  "map_of (d_ls list_dist) ''l'' = Some \<lparr>dl_Origin = [], dl_Verifier = 1\<rparr>" "dd_BeginTx (d_db list_dist) s True = Inr None"
  "dd_SelectSizes (d_db list_dist) [((''l'', ''w''), (3, ''abc''))] None ''l'' = Inr (map Inr [(3, ''w'', ''abc'')], None)"
  by (simp_all add: list_dist_def list_db_def)

theorem GetCheckpointN_largest_witness:
  "\<exists>sel. selected (unat (1 :: u32)) [(3, ''w'', ''abc'')] sel \<and>
     dist_GetCheckpointN key_notes id (\<lambda>kh. sort_key (sig_rank kh)) list_dist [((''l'', ''w''), (3, ''abc''))] ''l'' 1 =
      (if unat (1 :: u32) \<le> length sel
       then map_sum (errorf ''failed to combine sigs'') id (Combine key_notes id (\<lambda>kh. sort_key (sig_rank kh)) (row_raws sel)
              (dl_Verifier \<lparr>dl_Origin = [], dl_Verifier = 1\<rparr>) (map the (row_wits (d_ws list_dist) sel)))
       else Inl (Errorf ''no checkpoint with enough signatures found''))"
  by (rule GetCheckpointN_largest [OF list_dist_select]) (simp_all add: list_dist_def)

theorem GetCheckpointN_zero_panics_witness:
  "dist_GetCheckpointN key_notes id (\<lambda>kh. sort_key (sig_rank kh)) list_dist [((''l'', ''w''), (3, ''abc''))] ''l'' 0 =
     Inl (Panic ''nil pointer dereference'')"
  by (rule GetCheckpointN_zero_panics [OF list_dist_select]) simp

theorem Distribute_invariant_witness:
  "table_ok key_notes list_dist (map_of (distribute_all key_notes list_dist [] [(''l'', ''w'', ''abc''), (''l'', ''w'', ''a'')]))"
proof -
  have "dist_table (d_db list_dist) map_of id" using list_db.dist_table_axioms by (simp add: list_dist_def)
  moreover have "table_ok key_notes list_dist (map_of [])" by (simp add: table_ok_def)
  ultimately show ?thesis
    using Distribute_invariant [of list_dist map_of id key_notes "[]" "[(''l'', ''w'', ''abc''), (''l'', ''w'', ''a'')]"] by blast
qed

definition slot_opts :: "u32 UpdateOpts" where
  "slot_opts = \<lparr>LogSigV = 1, LogOrigin = [], Witnesses = [2], MaxWitnessSignatures = 1\<rparr>"

abbreviation by_size :: "cpNoteRaw list \<Rightarrow> cpNoteRaw list" where
  "by_size \<equiv> sort_key (\<lambda>x. - uint (Size (fst x)))"

lemma slots_demo:
  "UpdateState key_notes id (\<lambda>kh. sort_key (sig_rank kh)) id by_size [''ab''] [''abc''] slot_opts = Inr [''abc'', ''abc'']"
proof -
  have comb: "Combine key_notes id (\<lambda>kh. sort_key (sig_rank kh)) [raw] 1 [2] = Inr raw" for raw
    by (simp add: Combine_def) (simp add: key_notes_def key_note_def)
  have parse: "ParseCheckpoint key_notes raw [] 1 [2] = Inr (\<lparr>Origin = [], Size = of_nat (length raw), Hash = raw\<rparr>, key_note raw [1, 2])" for raw
    by (simp add: key_notes_def)
  have "combine_bodies key_notes id (\<lambda>kh. sort_key (sig_rank kh)) slot_opts [[''ab''], [''abc'']] =
      Inr [(\<lparr>Origin = [], Size = 2, Hash = ''ab''\<rparr>, key_note ''ab'' [1, 2], ''ab''),
           (\<lparr>Origin = [], Size = 3, Hash = ''abc''\<rparr>, key_note ''abc'' [1, 2], ''abc'')]"
    by (simp add: slot_opts_def comb parse)
  moreover have "group_by_body key_notes 1 [''ab'', [], ''abc''] [] = Inr [(''ab'', [''ab'']), (''abc'', [''abc''])]"
    by (simp add: key_notes_def key_note_def)
  moreover have "resize_slots [''ab''] (sint (MaxWitnessSignatures slot_opts + 1)) = Inr [''ab'', []]"
    by (simp add: slot_opts_def resize_slots_def)
  moreover have "by_size [(\<lparr>Origin = [], Size = 2, Hash = ''ab''\<rparr>, x, y), (\<lparr>Origin = [], Size = 3, Hash = ''abc''\<rparr>, u, v)] =
      [(\<lparr>Origin = [], Size = 3, Hash = ''abc''\<rparr>, u, v), (\<lparr>Origin = [], Size = 2, Hash = ''ab''\<rparr>, x, y)]" for x y u v
    by simp
  moreover have "fill_slots (Suc (Suc 0)) 0 ((c, key_note ''abc'' [1, 2], ''abc'') # cs) = [''abc'', ''abc'']" for c cs
    by (simp add: key_note_def)
  moreover have "LogSigV slot_opts = 1" by (simp add: slot_opts_def)
  ultimately show ?thesis
    unfolding UpdateState_def by (simp only: sum.case append.simps list.map snd_conv id_apply list.size add_0 add_0_right add_Suc_right add_Suc One_nat_def)
qed

theorem UpdateState_slots_witness:
  "\<exists>x. is_combined key_notes id (\<lambda>kh. sort_key (sig_rank kh)) slot_opts [''ab'', ''abc''] x \<and> 1 < cnr_sigs x \<and> snd (snd x) = ''abc'' \<and>
     (\<forall>y. is_combined key_notes id (\<lambda>kh. sort_key (sig_rank kh)) slot_opts [''ab'', ''abc''] y \<and> 1 < cnr_sigs y \<longrightarrow> Size (fst y) \<le> Size (fst x))"
proof -
  have s: "sorts_by (\<lambda>a b :: cpNoteRaw. Size (fst b) < Size (fst a)) by_size"
    using sorts_by_sort_key [of "\<lambda>x :: cpNoteRaw. - uint (Size (fst x))"] by (simp add: word_less_def)
  have h: "[''ab'', ''abc''] = held (nat (sint (MaxWitnessSignatures slot_opts + 1))) [''ab''] [''abc'']"
    by (simp add: held_def slot_opts_def)
  have l: "1 < length [''abc'', ''abc'']" "[''abc'', ''abc''] ! 1 = ''abc''" by simp_all
  note t = UpdateState_slots [OF permutes_id(1) s slots_demo h, THEN conjunct2, THEN conjunct2, rule_format, OF l(1), unfolded l(2)]
  then show ?thesis by (auto split: if_splits)
qed

end
