(* ===== verification/Clone.thy ===== *)
theory Clone
  imports WitnessHttp LogClient
begin

section \<open>Cloning a log into a database\<close>

text \<open>
  \<^verbatim>\<open>clone/\<close>: the database of leaves and checkpoints (\<^verbatim>\<open>logdb\<close>), the parallel download
  (\<^verbatim>\<open>internal/download\<close>), the cloner (\<^verbatim>\<open>internal/cloner\<close>), the verifier of the stored leaves
  (\<^verbatim>\<open>internal/verify\<close>) and the programs \<^verbatim>\<open>serverlessclone\<close>, \<^verbatim>\<open>ctclone\<close> and
  \<^verbatim>\<open>ctverify\<close>.  The SQL database, the gob and JSON encodings and HTTP are parameters.  Progress
  reports are left out.
\<close>

subsection \<open>The database\<close>

text \<open>The statements that the code sends.  A transaction \<open>'t\<close> carries its pending inserts; beginning and committing
  one are told whether its context is done at that time.\<close>

record ('d, 't) clone_db =
  cd_CreateLeaves :: "'d \<Rightarrow> go_error option \<times> 'd"
  cd_CreateCheckpoints :: "'d \<Rightarrow> go_error option \<times> 'd"
  cd_BeginTx :: "bool \<Rightarrow> 'd \<Rightarrow> 't res"
  cd_MaxSize :: "'d \<Rightarrow> 't \<Rightarrow> u64 res"
  cd_InsertCheckpoint :: "'d \<Rightarrow> 't \<Rightarrow> u64 \<Rightarrow> bytes \<Rightarrow> bytes \<Rightarrow> go_error option \<times> 't"
  cd_InsertLeaf :: "'d \<Rightarrow> 't \<Rightarrow> u64 \<Rightarrow> bytes \<Rightarrow> go_error option \<times> 't"
  cd_Commit :: "bool \<Rightarrow> 'd \<Rightarrow> 't \<Rightarrow> go_error option \<times> 'd"
  cd_Latest :: "'d \<Rightarrow> (u64 \<times> bytes \<times> bytes) res"
  cd_SelectLeaves :: "'d \<Rightarrow> u64 \<Rightarrow> u64 \<Rightarrow> bytes res list res"
  cd_MaxLeaf :: "'d \<Rightarrow> 64 word option res"

text \<open>\<^verbatim>\<open>encoding/gob\<close> for a list of hashes.\<close>

record gob_lib =
  gob_Encode :: "bytes list \<Rightarrow> bytes res"
  gob_Decode :: "bytes \<Rightarrow> bytes list res"

definition ErrNoDataFound :: go_error where
  "ErrNoDataFound = Sentinel ''no data found''"

definition logdb_init :: "('d, 't) clone_db \<Rightarrow> 'd \<Rightarrow> go_error option \<times> 'd" where
  "logdb_init D d =
     (case cd_CreateLeaves D d of
        (Some e, d') \<Rightarrow> (Some e, d')
      | (None, d') \<Rightarrow> cd_CreateCheckpoints D d')"

definition logdb_WriteCheckpoint ::
    "('d, 't) clone_db \<Rightarrow> gob_lib \<Rightarrow> bool \<Rightarrow> 'd \<Rightarrow> u64 \<Rightarrow> bytes \<Rightarrow> bytes list \<Rightarrow> go_error option \<times> 'd" where
  "logdb_WriteCheckpoint D G ctx d sz checkpoint crange =
     (case cd_BeginTx D ctx d of
        Inl e \<Rightarrow> (Some (errorf ''BeginTx()'' e), d)
      | Inr tx \<Rightarrow>
        (case (case cd_MaxSize D d tx of Inr mx \<Rightarrow> Inr mx | Inl e \<Rightarrow> if e = ErrNoRows then Inr 0 else Inl e) of
           Inl e \<Rightarrow> (Some (errorf ''Scan()'' e), d)
         | Inr mx \<Rightarrow>
           if sz \<le> mx then (None, d)
           else (case gob_Encode G crange of
                   Inl e \<Rightarrow> (Some (errorf ''Encode()'' e), d)
                 | Inr srs \<Rightarrow> cd_Commit D ctx d (snd (cd_InsertCheckpoint D d tx sz checkpoint srs)))))"

definition logdb_GetLatestCheckpoint :: "('d, 't) clone_db \<Rightarrow> gob_lib \<Rightarrow> 'd \<Rightarrow> (u64 \<times> bytes \<times> bytes list) res" where
  "logdb_GetLatestCheckpoint D G d =
     (case cd_Latest D d of
        Inl e \<Rightarrow> if e = ErrNoRows then Inl ErrNoDataFound else Inl (errorf ''Scan()'' e)
      | Inr (sz, checkpoint, srs) \<Rightarrow>
        (case gob_Decode G srs of
           Inl e \<Rightarrow> Inl (errorf ''Decode()'' e)
         | Inr crange \<Rightarrow> Inr (sz, checkpoint, crange)))"

text \<open>The loop of \<open>WriteLeaves\<close>: the error of each insert is dropped.\<close>

fun insert_leaves :: "('d, 't) clone_db \<Rightarrow> 'd \<Rightarrow> 't \<Rightarrow> u64 \<Rightarrow> bytes list \<Rightarrow> 't" where
  "insert_leaves D d tx lidx [] = tx"
| "insert_leaves D d tx lidx (l # ls) = insert_leaves D d (snd (cd_InsertLeaf D d tx lidx l)) (lidx + 1) ls"

text \<open>The context is looked at when the transaction begins and when it is committed.\<close>

definition logdb_WriteLeaves :: "('d, 't) clone_db \<Rightarrow> bool \<Rightarrow> bool \<Rightarrow> 'd \<Rightarrow> u64 \<Rightarrow> bytes list \<Rightarrow> go_error option \<times> 'd" where
  "logdb_WriteLeaves D ctx0 ctx1 d start leaves =
     (case cd_BeginTx D ctx0 d of
        Inl e \<Rightarrow> (Some (wrapf ''BeginTx'' e), d)
      | Inr tx \<Rightarrow> cd_Commit D ctx1 d (insert_leaves D d tx start leaves))"

definition logdb_Head :: "('d, 't) clone_db \<Rightarrow> 'd \<Rightarrow> u64 res" where
  "logdb_Head D d =
     (case cd_MaxLeaf D d of
        Inl e \<Rightarrow> if e = ErrNoRows then Inl ErrNoDataFound else Inl (wrapf ''failed to get max revision'' e)
      | Inr (Some head) \<Rightarrow> Inr head
      | Inr None \<Rightarrow> Inl ErrNoDataFound)"

subsection \<open>Downloading in parallel\<close>

text \<open>What a worker sends for one batch: \<open>bf start n\<close> is the outcome of fetching \<open>n\<close> leaves after the
  retries of the backoff package.\<close>

type_synonym BatchFetch = "u64 \<Rightarrow> nat \<Rightarrow> bytes list res"

definition worker_count :: "u64 \<Rightarrow> u64 \<Rightarrow> u64 \<Rightarrow> u64" where
  "worker_count treeSize start cnt = (if treeSize - start < cnt then treeSize - start else cnt)"

definition worker_batch :: "BatchFetch \<Rightarrow> u64 \<Rightarrow> u64 \<Rightarrow> u64 \<Rightarrow> bytes list res" where
  "worker_batch bf treeSize cnt start =
     (case bf start (unat (worker_count treeSize start cnt)) of
        Inl e \<Rightarrow> Inl (wrapf ''LeafFetcher.Batch'' e)
      | Inr leaves \<Rightarrow> Inr leaves)"

text \<open>
  \<open>Bulk\<close> and its workers as a transition system.  \<open>b_workers\<close> has, for each worker, the start of the batch it is
  fetching or offers on its channel, \<open>None\<close> once it has returned and closed the channel; \<open>b_rc\<close> is everything sent to
  the output channel so far, and \<open>b_done\<close> says whether the context is done.  The loop is about to select, is sending
  the leaves of a result with their start, is sending an error, has closed the output channel, or has panicked.
\<close>

datatype bulk_pc = Select nat | Emit nat u64 "bytes list" | EmitErr go_error | Closed | Crashed

record bulk_state =
  b_done :: bool
  b_workers :: "u64 option list"
  b_pc :: bulk_pc
  b_rc :: "bytes res list"

definition ErrContextCanceled :: go_error where
  "ErrContextCanceled = Sentinel ''context canceled''"

text \<open>A worker returns when it is past the end, and when it finds the context done at the time its batch is ready; \<open>Bulk\<close>
  cancels the context of its workers when it returns.  The loop receives the zero result from a closed channel.  If
  several cases of a \<open>select\<close> are ready, any of them is taken.  Sending needs \<open>room\<close> in the output channel.\<close>

inductive bulk_step :: "BatchFetch \<Rightarrow> u64 \<Rightarrow> u64 \<Rightarrow> u64 \<Rightarrow> u64 \<Rightarrow> bool \<Rightarrow> bulk_state \<Rightarrow> bulk_state \<Rightarrow> bool"
  for bf treeSize batchSize increment lastStart room where
  cancel: "bulk_step bf treeSize batchSize increment lastStart room s (s\<lparr>b_done := True\<rparr>)"
| worker_end: "\<lbrakk>j < length (b_workers s); b_workers s ! j = Some start; treeSize \<le> start\<rbrakk> \<Longrightarrow>
    bulk_step bf treeSize batchSize increment lastStart room s (s\<lparr>b_workers := (b_workers s)[j := None]\<rparr>)"
| worker_done: "\<lbrakk>j < length (b_workers s); b_workers s ! j = Some start; b_done s \<or> b_pc s = Closed\<rbrakk> \<Longrightarrow>
    bulk_step bf treeSize batchSize increment lastStart room s (s\<lparr>b_workers := (b_workers s)[j := None]\<rparr>)"
| receive: "\<lbrakk>b_pc s = Select i; i < length (b_workers s); b_workers s ! i = Some start; start < treeSize;
      worker_batch bf treeSize batchSize start = Inr leaves\<rbrakk> \<Longrightarrow>
    bulk_step bf treeSize batchSize increment lastStart room s
      (s\<lparr>b_workers := (b_workers s)[i := Some (start + increment)], b_pc := Emit i start leaves\<rparr>)"
| receive_err: "\<lbrakk>b_pc s = Select i; i < length (b_workers s); b_workers s ! i = Some start; start < treeSize;
      worker_batch bf treeSize batchSize start = Inl e\<rbrakk> \<Longrightarrow>
    bulk_step bf treeSize batchSize increment lastStart room s
      (s\<lparr>b_workers := (b_workers s)[i := Some (start + increment)], b_pc := EmitErr e\<rparr>)"
| receive_closed: "\<lbrakk>b_pc s = Select i; i < length (b_workers s); b_workers s ! i = None\<rbrakk> \<Longrightarrow>
    bulk_step bf treeSize batchSize increment lastStart room s (s\<lparr>b_pc := Emit i 0 []\<rparr>)"
| select_done: "\<lbrakk>b_pc s = Select i; i < length (b_workers s); b_done s\<rbrakk> \<Longrightarrow>
    bulk_step bf treeSize batchSize increment lastStart room s (s\<lparr>b_pc := EmitErr ErrContextCanceled\<rparr>)"
| select_panic: "\<lbrakk>b_pc s = Select i; length (b_workers s) \<le> i\<rbrakk> \<Longrightarrow>
    bulk_step bf treeSize batchSize increment lastStart room s (s\<lparr>b_pc := Crashed\<rparr>)"
| emit: "\<lbrakk>b_pc s = Emit i start (l # ls); room\<rbrakk> \<Longrightarrow>
    bulk_step bf treeSize batchSize increment lastStart room s (s\<lparr>b_pc := Emit i start ls, b_rc := b_rc s @ [Inr l]\<rparr>)"
| emitted: "b_pc s = Emit i start [] \<Longrightarrow>
    bulk_step bf treeSize batchSize increment lastStart room s
      (s\<lparr>b_pc := if lastStart \<le> start then Closed else Select ((i + 1) mod length (b_workers s))\<rparr>)"
| emit_err: "\<lbrakk>b_pc s = EmitErr e; room\<rbrakk> \<Longrightarrow>
    bulk_step bf treeSize batchSize increment lastStart room s (s\<lparr>b_pc := Closed, b_rc := b_rc s @ [Inl e]\<rparr>)"

inductive_cases bulk_stepE: "bulk_step bf treeSize batchSize increment lastStart room s s'"

definition bulk_start :: "u64 \<Rightarrow> u64 \<Rightarrow> u64 \<Rightarrow> bulk_state" where
  "bulk_start first workers batchSize =
     \<lparr>b_done = False, b_workers = map (\<lambda>i. Some (first + of_nat i * batchSize)) [0..<unat workers], b_pc = Select 0, b_rc = []\<rparr>"

text \<open>A step of \<open>Bulk\<close> with its increment and the start from which on a batch is the last one.\<close>

definition Bulk_step :: "u64 \<Rightarrow> BatchFetch \<Rightarrow> u64 \<Rightarrow> u64 \<Rightarrow> bool \<Rightarrow> bulk_state \<Rightarrow> bulk_state \<Rightarrow> bool" where
  "Bulk_step treeSize bf workers batchSize =
     bulk_step bf treeSize batchSize (workers * batchSize) (if batchSize < treeSize then treeSize - batchSize else 0)"

subsection \<open>The cloner\<close>

record ('d, 't) Cloner =
  c_workers :: u64
  c_fetchBatchSize :: u64
  c_writeBatchSize :: u64
  c_db :: "('d, 't) clone_db"

definition cloner_Next :: "('d, 't) Cloner \<Rightarrow> 'd \<Rightarrow> u64 res" where
  "cloner_Next c d =
     (case logdb_Head (c_db c) d of
        Inl e \<Rightarrow> if e = ErrNoDataFound then Inr (- 1 + 1) else Inl (errorf ''failed to query for head of local log'' e)
      | Inr head \<Rightarrow> Inr (head + 1))"

text \<open>
  \<open>Clone\<close> beside \<open>Bulk\<close>: \<open>cl_read\<close> results have been taken from the channel, \<open>cl_batch\<close> is the filled part of the write
  buffer, \<open>cl_bs\<close> the index of its first leaf, and \<open>cl_ret\<close> what \<open>Clone\<close> has returned.  An unbuffered channel passes
  one value at a time.
\<close>

record 'd clone_state =
  cl_bulk :: bulk_state
  cl_read :: nat
  cl_next :: u64
  cl_bs :: u64
  cl_batch :: "bytes list"
  cl_db :: 'd
  cl_ret :: "go_error option option"

definition rc_room :: "('d, 't) Cloner \<Rightarrow> 'd clone_state \<Rightarrow> bool" where
  "rc_room c s \<longleftrightarrow> length (b_rc (cl_bulk s)) - cl_read s < max 1 (unat (c_writeBatchSize c * 2))"

text \<open>The next result in the channel, while \<open>Clone\<close> runs.\<close>

definition rc_next :: "'d clone_state \<Rightarrow> bytes res option" where
  "rc_next s = (if cl_ret s = None \<and> cl_read s < length (b_rc (cl_bulk s)) then Some (b_rc (cl_bulk s) ! cl_read s) else None)"

text \<open>The channel is closed and drained.\<close>

definition rc_end :: "'d clone_state \<Rightarrow> bool" where
  "rc_end s \<longleftrightarrow> cl_ret s = None \<and> cl_read s = length (b_rc (cl_bulk s)) \<and> b_pc (cl_bulk s) = Closed"

text \<open>The context may be cancelled while a batch is written: it is done or not when the transaction begins and when it is
  committed, and once done it stays so.\<close>

inductive clone_step :: "('d, 't) Cloner \<Rightarrow> u64 \<Rightarrow> BatchFetch \<Rightarrow> 'd clone_state \<Rightarrow> 'd clone_state \<Rightarrow> bool" for c treeSize bf where
  download: "Bulk_step treeSize bf (c_workers c) (c_fetchBatchSize c) (rc_room c s) (cl_bulk s) b \<Longrightarrow>
    clone_step c treeSize bf s (s\<lparr>cl_bulk := b\<rparr>)"
| crash: "\<lbrakk>cl_ret s = None; b_pc (cl_bulk s) = Crashed\<rbrakk> \<Longrightarrow>
    clone_step c treeSize bf s (s\<lparr>cl_ret := Some (Some (Panic ''index out of range''))\<rparr>)"
| get_err: "rc_next s = Some (Inl e) \<Longrightarrow>
    clone_step c treeSize bf s (s\<lparr>cl_read := cl_read s + 1, cl_ret := Some (Some (errorf ''failed to get leaf'' e))\<rparr>)"
| get_panic: "\<lbrakk>rc_next s = Some (Inr l); unat (c_writeBatchSize c) \<le> length (cl_batch s)\<rbrakk> \<Longrightarrow>
    clone_step c treeSize bf s (s\<lparr>cl_read := cl_read s + 1, cl_next := cl_next s + 1, cl_ret := Some (Some (Panic ''index out of range''))\<rparr>)"
| get_leaf: "\<lbrakk>rc_next s = Some (Inr l); length (cl_batch s) + 1 < unat (c_writeBatchSize c)\<rbrakk> \<Longrightarrow>
    clone_step c treeSize bf s (s\<lparr>cl_read := cl_read s + 1, cl_next := cl_next s + 1, cl_batch := cl_batch s @ [l]\<rparr>)"
| get_full: "\<lbrakk>rc_next s = Some (Inr l); length (cl_batch s) + 1 = unat (c_writeBatchSize c); b_done (cl_bulk s) \<longrightarrow> ctx0; ctx0 \<longrightarrow> ctx1;
      logdb_WriteLeaves (c_db c) ctx0 ctx1 (cl_db s) (cl_bs s) (cl_batch s @ [l]) = (err, d)\<rbrakk> \<Longrightarrow>
    clone_step c treeSize bf s (s\<lparr>cl_bulk := (cl_bulk s)\<lparr>b_done := ctx1\<rparr>, cl_read := cl_read s + 1, cl_next := cl_next s + 1, cl_db := d,
      cl_bs := (if err = None then cl_next s + 1 else cl_bs s), cl_batch := (if err = None then [] else cl_batch s @ [l]),
      cl_ret := (case err of None \<Rightarrow> None | Some e \<Rightarrow> Some (Some (errorf ''failed to write to DB for batch'' e)))\<rparr>)"
| end_empty: "\<lbrakk>rc_end s; cl_batch s = []\<rbrakk> \<Longrightarrow> clone_step c treeSize bf s (s\<lparr>cl_ret := Some None\<rparr>)"
| end_write: "\<lbrakk>rc_end s; cl_batch s \<noteq> []; b_done (cl_bulk s) \<longrightarrow> ctx0; ctx0 \<longrightarrow> ctx1;
      logdb_WriteLeaves (c_db c) ctx0 ctx1 (cl_db s) (cl_bs s) (cl_batch s) = (err, d)\<rbrakk> \<Longrightarrow>
    clone_step c treeSize bf s (s\<lparr>cl_bulk := (cl_bulk s)\<lparr>b_done := ctx1\<rparr>, cl_db := d,
      cl_ret := Some (map_option (errorf ''failed to write to DB for final batch'') err)\<rparr>)"

inductive_cases clone_stepE: "clone_step c treeSize bf s s'"

definition clone_start :: "('d, 't) Cloner \<Rightarrow> 'd \<Rightarrow> u64 \<Rightarrow> 'd clone_state" where
  "clone_start c d nx =
     \<lparr>cl_bulk = bulk_start nx (c_workers c) (c_fetchBatchSize c), cl_read = 0, cl_next = nx, cl_bs = nx, cl_batch = [], cl_db = d, cl_ret = None\<rparr>"

text \<open>A call of \<open>Clone\<close> that can return \<open>err\<close> with the database \<open>d'\<close>; the context is live when it is called, and \<open>done\<close> says
  whether it has been cancelled by the end.\<close>

definition cloner_Clone ::
    "gob_lib \<Rightarrow> ('d, 't) Cloner \<Rightarrow> 'd \<Rightarrow> u64 \<Rightarrow> BatchFetch \<Rightarrow> bool \<Rightarrow> go_error option \<Rightarrow> 'd \<Rightarrow> bool" where
  "cloner_Clone G c d treeSize fetcher dn err d' \<longleftrightarrow>
     (case cloner_Next c d of
        Inl e \<Rightarrow> err = Some (errorf ''couldn't determine first leaf'' e) \<and> d' = d
      | Inr nx \<Rightarrow>
        if treeSize \<le> nx then err = None \<and> d' = d
        else
          (let bad = (case logdb_GetLatestCheckpoint (c_db c) G d of
                 Inl e \<Rightarrow> if e \<noteq> ErrNoDataFound then Some (errorf ''failed to query for any checkpoints'' e) else None
               | Inr (verifiedSize, _) \<Rightarrow> if nx < verifiedSize then Some (Errorf ''illegal state'') else None)
           in case bad of
                Some e \<Rightarrow> err = Some e \<and> d' = d
              | None \<Rightarrow> \<exists>s. (clone_step c treeSize fetcher)\<^sup>*\<^sup>* (clone_start c d nx) s \<and> cl_ret s = Some err \<and> cl_db s = d' \<and>
                  b_done (cl_bulk s) = dn))"

subsection \<open>Streaming leaves to the verifier\<close>

text \<open>
  \<open>StreamLeaves\<close> runs beside \<open>MerkleRoot\<close>: the channel of leaves has room for one, the channel of
  errors for none.  The producer is sending rows, is about to send an error, or has closed the channel
  of leaves; the consumer waits for a leaf, has one in hand and looks whether an error can be
  received, or has left its loop with an error or with all leaves.
\<close>

datatype producer = Sending "bytes res list" | SendingErr go_error | ClosedOut

datatype consumer = Waiting | InHand bytes | Failed go_error | Drained

record stream_state =
  s_prod :: producer
  s_buf :: "bytes option"
  s_cons :: consumer
  s_got :: "bytes list"

inductive stream_step :: "stream_state \<Rightarrow> stream_state \<Rightarrow> bool" where
  send_leaf: "\<lbrakk>s_prod s = Sending (Inr l # rows); s_buf s = None\<rbrakk> \<Longrightarrow>
    stream_step s (s\<lparr>s_prod := Sending rows, s_buf := Some l\<rparr>)"
| scan_error: "s_prod s = Sending (Inl e # rows) \<Longrightarrow> stream_step s (s\<lparr>s_prod := SendingErr e\<rparr>)"
| rows_end: "s_prod s = Sending [] \<Longrightarrow> stream_step s (s\<lparr>s_prod := ClosedOut\<rparr>)"
| receive: "\<lbrakk>s_cons s = Waiting; s_buf s = Some l\<rbrakk> \<Longrightarrow> stream_step s (s\<lparr>s_buf := None, s_cons := InHand l\<rparr>)"
| drained: "\<lbrakk>s_cons s = Waiting; s_buf s = None; s_prod s = ClosedOut\<rbrakk> \<Longrightarrow> stream_step s (s\<lparr>s_cons := Drained\<rparr>)"
| select_err: "\<lbrakk>s_cons s = InHand l; s_prod s = SendingErr e\<rbrakk> \<Longrightarrow>
    stream_step s (s\<lparr>s_prod := ClosedOut, s_cons := Failed e\<rparr>)"
| select_default: "\<lbrakk>s_cons s = InHand l; \<forall>e. s_prod s \<noteq> SendingErr e\<rbrakk> \<Longrightarrow>
    stream_step s (s\<lparr>s_cons := Waiting, s_got := s_got s @ [l]\<rparr>)"

inductive_cases stream_stepE: "stream_step s s'"

definition stream_start :: "('d, 't) clone_db \<Rightarrow> 'd \<Rightarrow> u64 \<Rightarrow> u64 \<Rightarrow> stream_state" where
  "stream_start D d start endd =
     \<lparr>s_prod = (case cd_SelectLeaves D d start endd of Inl e \<Rightarrow> SendingErr e | Inr rows \<Rightarrow> Sending rows),
      s_buf = None, s_cons = Waiting, s_got = []\<rparr>"

text \<open>How the consumer's loop can end.\<close>

definition stream_ends :: "stream_state \<Rightarrow> bytes list res \<Rightarrow> bool" where
  "stream_ends s r \<longleftrightarrow> (\<exists>s'. stream_step\<^sup>*\<^sup>* s s' \<and>
     ((\<exists>e. s_cons s' = Failed e \<and> r = Inl e) \<or> (s_cons s' = Drained \<and> r = Inr (s_got s'))))"

subsection \<open>Verifying the stored leaves\<close>

record ('d, 't, 'r) LogVerifier =
  lv_db :: "('d, 't) clone_db"
  lv_lh :: "u64 \<Rightarrow> bytes \<Rightarrow> bytes"
  lv_rf :: "'r compact"

fun append_leaves :: "('d, 't, 'r) LogVerifier \<Rightarrow> 'r \<Rightarrow> u64 \<Rightarrow> bytes list \<Rightarrow> 'r \<times> u64" where
  "append_leaves v cr index [] = (cr, index)"
| "append_leaves v cr index (l # ls) = append_leaves v (fst (Append (lv_rf v) cr (lv_lh v index l))) (index + 1) ls"

text \<open>The range to start from and the index of the first leaf to read.\<close>

definition verifier_start :: "gob_lib \<Rightarrow> ('d, 't, 'r) LogVerifier \<Rightarrow> 'd \<Rightarrow> u64 \<Rightarrow> ('r \<times> u64) res" where
  "verifier_start G v d sz =
     (case logdb_GetLatestCheckpoint (lv_db v) G d of
        Inl e \<Rightarrow> if e \<noteq> ErrNoDataFound then Inl e else Inr (NewEmptyRange (lv_rf v) 0, 0)
      | Inr (cpSize, _, crBs) \<Rightarrow>
          if cpSize \<le> sz
          then (case NewRange (lv_rf v) 0 cpSize crBs of Inl e \<Rightarrow> Inl e | Inr cr \<Rightarrow> Inr (cr, cpSize))
          else Inr (NewEmptyRange (lv_rf v) 0, 0))"

text \<open>What \<open>MerkleRoot\<close> returns once the loop over the leaves has ended with \<open>outcome\<close>.\<close>

definition merkle_root_end ::
    "('d, 't, 'r) LogVerifier \<Rightarrow> u64 \<Rightarrow> 'r \<Rightarrow> u64 \<Rightarrow> bytes list res \<Rightarrow> (bytes \<times> bytes list) res" where
  "merkle_root_end v sz cr0 from outcome =
     (case outcome of
        Inl e \<Rightarrow> Inl (wrapf ''failed to get leaves from DB'' e)
      | Inr leaves \<Rightarrow>
        (let (cr, index) = append_leaves v cr0 from leaves in
         if index \<noteq> sz then Inl (Errorf ''expected to receive more leaves'')
         else (case GetRootHash (lv_rf v) cr of
                 Inl e \<Rightarrow> Inl e
               | Inr (root, _) \<Rightarrow> Inr (root, Hashes (lv_rf v) cr))))"

text \<open>A result that \<open>MerkleRoot\<close> can return.\<close>

definition MerkleRoot :: "gob_lib \<Rightarrow> ('d, 't, 'r) LogVerifier \<Rightarrow> 'd \<Rightarrow> u64 \<Rightarrow> (bytes \<times> bytes list) res \<Rightarrow> bool" where
  "MerkleRoot G v d sz res \<longleftrightarrow>
     (case verifier_start G v d sz of
        Inl e \<Rightarrow> res = Inl e
      | Inr (cr, from) \<Rightarrow>
          \<exists>outcome. stream_ends (stream_start (lv_db v) d from sz) outcome \<and> res = merkle_root_end v sz cr from outcome)"

subsection \<open>The programs\<close>

definition download_GetData :: "'c http_client \<Rightarrow> 'c \<Rightarrow> string \<Rightarrow> bytes res" where
  "download_GetData c st path =
     (case url_Parse c path of
        Inl e \<Rightarrow> Inl (wrapf ''url failed to parse'' e)
      | Inr target \<Rightarrow>
        (case fst (client_Do c st \<lparr>rq_Method = ''GET'', rq_URL = target, rq_Body = Inr []\<rparr>) of
           Inl e \<Rightarrow> Inl (wrapf ''http.Get'' e)
         | Inr resp \<Rightarrow>
             if StatusCode resp \<noteq> 200 then Inl (Errorf ''GET'')
             else (case rs_Body resp of Inl e \<Rightarrow> Inl (wrapf ''io.ReadAll'' e) | Inr data \<Rightarrow> Inr data)))"

text \<open>\<^verbatim>\<open>readHTTP\<close> of \<^verbatim>\<open>serverlessclone\<close>.\<close>

definition clone_readHTTP :: "'c http_client \<Rightarrow> 'c \<Rightarrow> string \<Rightarrow> bytes res" where
  "clone_readHTTP c st u =
     (case NewRequest c ''GET'' u [] of
        Inl e \<Rightarrow> Inl e
      | Inr req \<Rightarrow>
        (case fst (client_Do c st req) of
           Inl e \<Rightarrow> Inl e
         | Inr resp \<Rightarrow>
             if StatusCode resp = 404 then Inl ErrNotExist
             else if StatusCode resp = 200 then rs_Body resp
             else Inl (Errorf ''unexpected http status'')))"

definition clone_newFetcher :: "'c http_client \<Rightarrow> 'c \<Rightarrow> string \<Rightarrow> Fetcher res" where
  "clone_newFetcher c st scheme =
     (if scheme = ''http'' \<or> scheme = ''https''
      then Inr (\<lambda>p. case url_Parse c p of Inl e \<Rightarrow> Inl e | Inr u \<Rightarrow> clone_readHTTP c st u)
      else Inl (Panic ''unsupported URL scheme''))"

definition serverless_batch :: "Fetcher \<Rightarrow> BatchFetch" where
  "serverless_batch f start n =
     (if n \<noteq> 1 then Inl (Errorf ''true batch fetching not supported'')
      else (case GetLeaf f start of Inl e \<Rightarrow> Inl e | Inr leaf \<Rightarrow> Inr [leaf]))"

text \<open>The programs pass the background context, which is never done.\<close>

definition serverless_clone ::
    "gob_lib \<Rightarrow> ('d, 't) clone_db \<Rightarrow> u64 \<Rightarrow> u64 \<Rightarrow> 'd \<Rightarrow> Fetcher \<Rightarrow> Checkpoint \<Rightarrow> go_error option \<Rightarrow> 'd \<Rightarrow> bool" where
  "serverless_clone G D workers writeBatchSize d f targetCp err d' \<longleftrightarrow>
     (let cl = \<lparr>c_workers = workers, c_fetchBatchSize = 1, c_writeBatchSize = writeBatchSize, c_db = D\<rparr> in
      case cloner_Next cl d of
        Inl e \<Rightarrow> err = Some (errorf ''couldn't determine first leaf to fetch'' e) \<and> d' = d
      | Inr nx \<Rightarrow>
          if Size targetCp \<le> nx then err = None \<and> d' = d
          else (\<exists>err1. cloner_Clone G cl d (Size targetCp) (serverless_batch f) False err1 d' \<and>
                  err = map_option (errorf ''failed to clone log'') err1))"

text \<open>The end of all three programs: compare the computed root with the target checkpoint and persist
  the checkpoint if they agree.\<close>

definition verify_and_write ::
    "('d, 't) clone_db \<Rightarrow> gob_lib \<Rightarrow> 'd \<Rightarrow> u64 \<Rightarrow> bytes \<Rightarrow> bytes \<Rightarrow> (bytes \<times> bytes list) res \<Rightarrow> go_error option \<times> 'd" where
  "verify_and_write D G d sz hash raw root =
     (case root of
        Inl e \<Rightarrow> (Some (errorf ''Failed to compute root'' e), d)
      | Inr (root, crs) \<Rightarrow>
          if hash \<noteq> root then (Some (Errorf ''Computed root != provided checkpoint''), d)
          else (case logdb_WriteCheckpoint D G False d sz raw crs of
                  (Some e, d') \<Rightarrow> (Some (errorf ''Failed to update database with new checkpoint'' e), d')
                | (None, d') \<Rightarrow> (None, d')))"

text \<open>A run of \<^verbatim>\<open>serverlessclone\<close> that ends with \<open>err\<close> (an exit with a message, or success) and the
  database \<open>d'\<close>.\<close>

definition serverlessclone_main ::
    "gob_lib \<Rightarrow> ('v, 's) note_lib \<Rightarrow> (hash_fn \<Rightarrow> 'r compact) \<Rightarrow> hasher \<Rightarrow> ('d, 't) clone_db \<Rightarrow> u64 \<Rightarrow> u64 \<Rightarrow>
     'v \<Rightarrow> string \<Rightarrow> Fetcher \<Rightarrow> 'd \<Rightarrow> go_error option \<Rightarrow> 'd \<Rightarrow> bool" where
  "serverlessclone_main G N RF h D workers writeBatchSize v origin f d0 err d' \<longleftrightarrow>
     (case logdb_init D d0 of
        (Some e, d) \<Rightarrow> err = Some (errorf ''Failed to connect to database'' e) \<and> d' = d
      | (None, d) \<Rightarrow>
        (case FetchCheckpoint N f v origin of
           Inl e \<Rightarrow> err = Some (errorf ''Failed to get latest checkpoint from log'' e) \<and> d' = d
         | Inr (targetCp, rawCp, _) \<Rightarrow>
           (\<exists>err1 d1. serverless_clone G D workers writeBatchSize d f targetCp err1 d1 \<and>
              (case err1 of
                 Some e \<Rightarrow> err = Some (errorf ''Failed to clone'' e) \<and> d' = d1
               | None \<Rightarrow>
                \<exists>root. MerkleRoot G \<lparr>lv_db = D, lv_lh = (\<lambda>_ p. HashLeaf h p), lv_rf = RF (HashChildren h)\<rparr> d1 (Size targetCp) root \<and>
                  (err, d') = verify_and_write D G d1 (Size targetCp) (Hash targetCp) rawCp root))))"

record CTCheckpointResponse =
  ct_TreeSize :: u64
  ct_RootHash :: bytes

text \<open>\<open>GetData\<close> and the JSON decoders of the two responses are parameters of the CT fetcher.\<close>

definition ct_Batch :: "(string \<Rightarrow> bytes res) \<Rightarrow> (bytes \<Rightarrow> bytes list res) \<Rightarrow> BatchFetch" where
  "ct_Batch getData dec start n =
     (let endd = start + of_nat n - 1 in
      case getData (''ct/v1/get-entries?start='' @ format_uint 10 (unat start) @ ''&end='' @ format_uint 10 (unat endd)) of
        Inl e \<Rightarrow> Inl (wrapf ''fetcher.GetData'' e)
      | Inr data \<Rightarrow>
        (case dec data of
           Inl e \<Rightarrow> Inl (wrapf ''json.Unmarshal'' e)
         | Inr leaves \<Rightarrow> if length leaves \<noteq> n then Inl (Errorf ''wanted another number of leaves'') else Inr leaves))"

definition ct_latestCheckpoint ::
    "(string \<Rightarrow> bytes res) \<Rightarrow> (bytes \<Rightarrow> CTCheckpointResponse res) \<Rightarrow> (CTCheckpointResponse \<times> bytes) res" where
  "ct_latestCheckpoint getData dec =
     (case getData ''ct/v1/get-sth'' of
        Inl e \<Rightarrow> Inl (errorf ''failed to find latest log checkpoint'' e)
      | Inr cpbs \<Rightarrow>
        (case dec cpbs of
           Inl e \<Rightarrow> Inl (errorf ''failed to parse checkpoint'' e)
         | Inr r \<Rightarrow> Inr (r, cpbs)))"

definition ctclone_main ::
    "gob_lib \<Rightarrow> (hash_fn \<Rightarrow> 'r compact) \<Rightarrow> hasher \<Rightarrow> ('d, 't) clone_db \<Rightarrow> u64 \<Rightarrow> u64 \<Rightarrow> u64 \<Rightarrow>
     (string \<Rightarrow> bytes res) \<Rightarrow> (bytes \<Rightarrow> bytes list res) \<Rightarrow> (bytes \<Rightarrow> CTCheckpointResponse res) \<Rightarrow> 'd \<Rightarrow> go_error option \<Rightarrow> 'd \<Rightarrow> bool" where
  "ctclone_main G RF h D workers fetchBatchSize writeBatchSize getData decE decS d0 err d' \<longleftrightarrow>
     (case logdb_init D d0 of
        (Some e, d) \<Rightarrow> err = Some (errorf ''Failed to connect to database'' e) \<and> d' = d
      | (None, d) \<Rightarrow>
        (case ct_latestCheckpoint getData decS of
           Inl e \<Rightarrow> err = Some (errorf ''Failed to get latest checkpoint from log'' e) \<and> d' = d
         | Inr (targetCp, raw) \<Rightarrow>
           (\<exists>err1 d1. cloner_Clone G
                   \<lparr>c_workers = workers, c_fetchBatchSize = fetchBatchSize, c_writeBatchSize = writeBatchSize, c_db = D\<rparr> d
                   (ct_TreeSize targetCp) (ct_Batch getData decE) False err1 d1 \<and>
              (case err1 of
                 Some e \<Rightarrow> err = Some (errorf ''Failed to clone log'' e) \<and> d' = d1
               | None \<Rightarrow>
                \<exists>root. MerkleRoot G \<lparr>lv_db = D, lv_lh = (\<lambda>_ p. HashLeaf h p), lv_rf = RF (HashChildren h)\<rparr> d1 (ct_TreeSize targetCp) root \<and>
                  (err, d') = verify_and_write D G d1 (ct_TreeSize targetCp) (ct_RootHash targetCp) raw root))))"

definition ctverify_main ::
    "gob_lib \<Rightarrow> (hash_fn \<Rightarrow> 'r compact) \<Rightarrow> hasher \<Rightarrow> ('d, 't) clone_db \<Rightarrow> bytes res \<Rightarrow> (bytes \<Rightarrow> CTCheckpointResponse res) \<Rightarrow>
     'd \<Rightarrow> go_error option \<Rightarrow> 'd \<Rightarrow> bool" where
  "ctverify_main G RF h D stdin dec d0 err d' \<longleftrightarrow>
     (case logdb_init D d0 of
        (Some e, d) \<Rightarrow> err = Some (errorf ''Failed to connect to database'' e) \<and> d' = d
      | (None, d) \<Rightarrow>
        (case stdin of
           Inl e \<Rightarrow> err = Some (errorf ''Failed to read checkpoint from stdin'' e) \<and> d' = d
         | Inr bs \<Rightarrow>
           (case dec bs of
              Inl e \<Rightarrow> err = Some (errorf ''Failed to read checkpoint from stdin'' e) \<and> d' = d
            | Inr targetCp \<Rightarrow>
                \<exists>root. MerkleRoot G \<lparr>lv_db = D, lv_lh = (\<lambda>_ p. HashLeaf h p), lv_rf = RF (HashChildren h)\<rparr> d (ct_TreeSize targetCp) root \<and>
                  (err, d') = verify_and_write D G d (ct_TreeSize targetCp) (ct_RootHash targetCp) bs root)))"

end
