(* ===== verification/BulkProofs.thy ===== *)
theory BulkProofs
  imports Clone
begin

section \<open>The parallel download delivers the leaves in order\<close>

text \<open>
  After \<open>k\<close> batches the loop is at worker \<open>k mod W\<close>, and every worker is at the next batch whose number
  is congruent to its own.  So the leaves arrive in order whatever the number of workers and the batch
  size, what is delivered before an error is a prefix of the log, and the loop ends.  All this is for a context that is not
  cancelled; the last theorem shows what a cancellation can do.
\<close>

definition batch_sound :: "(nat \<Rightarrow> bytes) \<Rightarrow> BatchFetch \<Rightarrow> bool" where
  "batch_sound leaf bf \<longleftrightarrow> (\<forall>start n xs. bf start n = Inr xs \<longrightarrow> xs = map leaf [unat start..<unat start + n])"

text \<open>The start of batch number \<open>k\<close>.\<close>

definition batch_at :: "nat \<Rightarrow> nat \<Rightarrow> nat \<Rightarrow> u64" where
  "batch_at F B k = of_nat (F + B * k)"

text \<open>The state of the workers after \<open>k\<close> batches: a worker that has closed its channel was past the end.\<close>

definition workers_at :: "nat \<Rightarrow> nat \<Rightarrow> nat \<Rightarrow> nat \<Rightarrow> nat \<Rightarrow> u64 option list \<Rightarrow> bool" where
  "workers_at F B W T k ws \<longleftrightarrow> length ws = W \<and>
     (\<forall>j < W. \<exists>m. m mod W = j \<and> k \<le> m \<and> m < k + W \<and> (ws ! j = Some (batch_at F B m) \<or> ws ! j = None \<and> T \<le> F + B * m))"

lemma mod_window_unique:
  fixes m k W :: nat
  assumes "m mod W = k mod W" "k \<le> m" "m < k + W"
  shows "m = k"
proof -
  have "(m - k) mod W = 0" using assms(1,2) by (simp add: mod_eq_dvd_iff_nat mod_eq_0_iff_dvd)
  moreover have "m - k < W" using assms(2,3) by linarith
  ultimately show ?thesis using assms(2) by simp
qed

lemma workers_at_current:
  assumes "workers_at F B W T k ws" "0 < W" "F + B * k < T"
  shows "ws ! (k mod W) = Some (batch_at F B k)"
proof -
  obtain m where m: "m mod W = k mod W" "k \<le> m" "m < k + W" "ws ! (k mod W) = Some (batch_at F B m) \<or> ws ! (k mod W) = None \<and> T \<le> F + B * m"
    using assms(1) mod_less_divisor [OF assms(2), of k] unfolding workers_at_def by blast
  have "m = k" using mod_window_unique [OF m(1-3)] .
  then show ?thesis using m(4) assms(3) by auto
qed

lemma workers_at_Suc:
  assumes "workers_at F B W T k ws" "0 < W" "inc = of_nat (W * B)"
  shows "workers_at F B W T (k + 1) (ws[k mod W := Some (batch_at F B k + inc)])"
  unfolding workers_at_def
proof (intro conjI allI impI)
  let ?ws = "ws[k mod W := Some (batch_at F B k + inc)]"
  show "length ?ws = W" using assms(1) by (simp add: workers_at_def)
  fix j assume j: "j < W"
  show "\<exists>m. m mod W = j \<and> k + 1 \<le> m \<and> m < k + 1 + W \<and> (?ws ! j = Some (batch_at F B m) \<or> ?ws ! j = None \<and> T \<le> F + B * m)"
  proof (cases "j = k mod W")
    case True
    have "batch_at F B k + inc = batch_at F B (k + W)" by (simp add: assms(3) batch_at_def algebra_simps)
    then show ?thesis using True assms(1,2) j by (intro exI [of _ "k + W"]) (simp add: workers_at_def)
  next
    case False
    obtain m where m: "m mod W = j" "k \<le> m" "m < k + W" "ws ! j = Some (batch_at F B m) \<or> ws ! j = None \<and> T \<le> F + B * m"
      using assms(1) j unfolding workers_at_def by blast
    then have "m \<noteq> k" using False by auto
    then show ?thesis using m False by (intro exI [of _ m]) auto
  qed
qed

lemma workers_at_end:
  assumes "workers_at F B W (unat treeSize) k ws" "ws ! j = Some start" "treeSize \<le> start"
  shows "workers_at F B W (unat treeSize) k (ws[j := None])"
  unfolding workers_at_def
proof (intro conjI allI impI)
  show "length (ws[j := None]) = W" using assms(1) by (simp add: workers_at_def)
  fix i assume i: "i < W"
  obtain m where m: "m mod W = i" "k \<le> m" "m < k + W" "ws ! i = Some (batch_at F B m) \<or> ws ! i = None \<and> unat treeSize \<le> F + B * m"
    using assms(1) i unfolding workers_at_def by blast
  have eq: "ws[j := None] ! i = (if i = j then None else ws ! i)" using i assms(1) by (auto simp: workers_at_def)
  have "unat (of_nat (F + B * m) :: u64) \<le> F + B * m" unfolding unat_of_nat by (rule mod_less_eq_dividend)
  then have "unat treeSize \<le> F + B * m" if "i = j" "ws ! i = Some (batch_at F B m)"
    using that assms(2,3) by (simp add: batch_at_def word_le_nat_alt)
  then show "\<exists>m. m mod W = i \<and> k \<le> m \<and> m < k + W \<and> (ws[j := None] ! i = Some (batch_at F B m) \<or> ws[j := None] ! i = None \<and> unat treeSize \<le> F + B * m)"
    using m eq by (intro exI [of _ m]) auto
qed

lemma workers_at_start:
  "workers_at (unat first) (unat batch) (unat workers) T 0 (map (\<lambda>i. Some (first + of_nat i * batch)) [0..<unat workers])"
  by (auto simp: workers_at_def batch_at_def algebra_simps intro!: exI)

lemma upt_append: "\<lbrakk>a \<le> b; b \<le> c\<rbrakk> \<Longrightarrow> [a..<b] @ [b..<c] = [a..<c]"
  using upt_add_eq_append [of a b "c - b"] by simp

text \<open>The parameters of a run, as natural numbers: \<open>F\<close> is the first leaf, \<open>T\<close> the tree size, \<open>B\<close> the
  batch size and \<open>W\<close> the number of workers.\<close>

definition bulk_run :: "u64 \<Rightarrow> u64 \<Rightarrow> u64 \<Rightarrow> u64 \<Rightarrow> nat \<Rightarrow> nat \<Rightarrow> nat \<Rightarrow> nat \<Rightarrow> bool" where
  "bulk_run treeSize batch inc lst F B W T \<longleftrightarrow>
     0 < W \<and> 0 < B \<and> unat batch = B \<and> unat treeSize = T \<and> T + W * B < 2 ^ 64 \<and>
     inc = of_nat (W * B) \<and> unat lst = T - B \<and> F < T"

lemma bulk_runD:
  assumes "bulk_run treeSize batch inc lst F B W T"
  shows "0 < W" "0 < B" "unat batch = B" "unat treeSize = T" "T + W * B < 2 ^ 64" "inc = of_nat (W * B)"
    "unat lst = T - B" "F < T"
  using assms by (simp_all add: bulk_run_def)

text \<open>One receive: the batch in hand is the next one, and it is the last exactly if it reaches the end.\<close>

lemma unat_start: "\<lbrakk>bulk_run treeSize batch inc lst F B W T; F + B * k < T\<rbrakk> \<Longrightarrow> unat (batch_at F B k) = F + B * k"
  unfolding batch_at_def using bulk_runD(5) [of treeSize batch inc lst F B W T] by (intro unat_of_nat_u64) simp

lemma batch_count:
  assumes "bulk_run treeSize batch inc lst F B W T" "F + B * k < T"
  shows "unat (worker_count treeSize (batch_at F B k) batch) = min B (T - (F + B * k))"
proof -
  let ?s = "batch_at F B k"
  have s: "unat ?s = F + B * k" using unat_start [OF assms] .
  note R = bulk_runD [OF assms(1)]
  then have "unat (treeSize - ?s) = T - (F + B * k)"
    using R(4) assms(2) s by (subst unat_sub) (simp_all add: word_le_nat_alt)
  then show ?thesis using R(3) by (simp add: worker_count_def word_less_nat_alt min_def)
qed

lemma last_batch: "\<lbrakk>bulk_run treeSize batch inc lst F B W T; F + B * k < T\<rbrakk> \<Longrightarrow> lst \<le> batch_at F B k \<longleftrightarrow> T \<le> F + B * (k + 1)"
  using unat_start [of treeSize batch inc lst F B W T k] bulk_runD(7) [of treeSize batch inc lst F B W T] by (auto simp: word_le_nat_alt)

lemma worker_batch_sound:
  assumes "bulk_run treeSize batch inc lst F B W T" "batch_sound leaf bf" "F + B * k < T" "worker_batch bf treeSize batch (batch_at F B k) = Inr xs"
  shows "map leaf [F..<F + B * k] @ xs = map leaf [F..<min T (F + B * (k + 1))]"
proof -
  have "bf (batch_at F B k) (min B (T - (F + B * k))) = Inr xs"
    using assms(4) batch_count [OF assms(1,3)] by (simp add: worker_batch_def split: sum.splits)
  from assms(2) [unfolded batch_sound_def, rule_format, OF this]
  have "xs = map leaf [F + B * k..<F + B * k + min B (T - (F + B * k))]"
    unfolding unat_start [OF assms(1,3)] .
  moreover have "F + B * k + min B (T - (F + B * k)) = min T (F + B * (k + 1))" using assms(3) by (auto simp: min_def)
  ultimately have "map leaf [F..<F + B * k] @ xs = map leaf ([F..<F + B * k] @ [F + B * k..<min T (F + B * (k + 1))])" by simp
  also have "[F..<F + B * k] @ [F + B * k..<min T (F + B * (k + 1))] = [F..<min T (F + B * (k + 1))]"
    using assms(3) by (intro upt_append) auto
  finally show ?thesis .
qed

subsection \<open>While the context is live\<close>

text \<open>No fetch fails for good.\<close>

definition fetches_ok :: "BatchFetch \<Rightarrow> bool" where
  "fetches_ok bf \<longleftrightarrow> (\<forall>start n. is_ok (bf start n))"

definition sent :: "(nat \<Rightarrow> bytes) \<Rightarrow> nat \<Rightarrow> nat \<Rightarrow> bytes res list" where
  "sent leaf F n = map (Inr \<circ> leaf) [F..<n]"

definition bulk_inv :: "BatchFetch \<Rightarrow> (nat \<Rightarrow> bytes) \<Rightarrow> nat \<Rightarrow> nat \<Rightarrow> nat \<Rightarrow> nat \<Rightarrow> bulk_state \<Rightarrow> bool" where
  "bulk_inv bf leaf F B W T s \<longleftrightarrow>
     (case b_pc s of
        Select i \<Rightarrow> \<exists>k. i = k mod W \<and> F + B * k < T \<and> workers_at F B W T k (b_workers s) \<and> b_rc s = sent leaf F (F + B * k)
      | Emit i start ls \<Rightarrow> \<exists>k. i = k mod W \<and> start = batch_at F B k \<and> F + B * k < T \<and> workers_at F B W T (k + 1) (b_workers s) \<and>
          b_rc s @ map Inr ls = sent leaf F (min T (F + B * (k + 1)))
      | EmitErr e \<Rightarrow> \<not> fetches_ok bf \<and> (\<exists>n \<ge> F. n \<le> T \<and> b_rc s = sent leaf F n)
      | Closed \<Rightarrow> b_rc s = sent leaf F T \<or> \<not> fetches_ok bf \<and> (\<exists>e. \<exists>n \<ge> F. n \<le> T \<and> b_rc s = sent leaf F n @ [Inl e])
      | Crashed \<Rightarrow> False)"

lemma bulk_inv_workers:
  assumes "bulk_inv bf leaf F B W T s" "\<And>k. workers_at F B W T k (b_workers s) \<Longrightarrow> workers_at F B W T k ws"
  shows "bulk_inv bf leaf F B W T (s\<lparr>b_workers := ws\<rparr>)"
  using assms by (auto simp: bulk_inv_def split: bulk_pc.splits)

lemma bulk_inv_done: "bulk_inv bf leaf F B W T (s\<lparr>b_done := x\<rparr>) = bulk_inv bf leaf F B W T s"
  by (simp add: bulk_inv_def split: bulk_pc.split)

lemma bulk_inv_index:
  assumes "bulk_inv bf leaf F B W T s" "b_pc s = Select i" "0 < W"
  shows "i < length (b_workers s)"
proof -
  obtain k where "i = k mod W" "workers_at F B W T k (b_workers s)" using assms(1,2) by (auto simp: bulk_inv_def)
  then show ?thesis using assms(3) by (simp add: workers_at_def)
qed

lemma bulk_step_inv:
  assumes run: "bulk_run treeSize batch inc lst F B W T" and sound: "batch_sound leaf bf"
    and "bulk_step bf treeSize batch inc lst room s s'" "\<not> b_done s'" "bulk_inv bf leaf F B W T s"
  shows "bulk_inv bf leaf F B W T s'"
  using assms(3)
proof cases
  note R = bulk_runD [OF run]
  { case cancel then show ?thesis using assms(4) by simp
  next case (worker_end j start) then show ?thesis using assms(5) workers_at_end [of F B W treeSize _ "b_workers s" j start] R(4) by (auto intro: bulk_inv_workers)
  next case (worker_done j start) then show ?thesis using assms(4,5) by (auto simp: bulk_inv_def)
  next
    case (receive i start leaves)
    then obtain k where k: "i = k mod W" "F + B * k < T" "workers_at F B W T k (b_workers s)" "b_rc s = sent leaf F (F + B * k)"
      using assms(5) by (auto simp: bulk_inv_def)
    have st: "start = batch_at F B k" using workers_at_current [OF k(3) R(1) k(2)] receive k(1) by simp
    then have "sent leaf F (F + B * k) @ map Inr leaves = sent leaf F (min T (F + B * (k + 1)))"
      using arg_cong [of _ _ "map Inr", OF worker_batch_sound [OF run sound k(2), of leaves]] receive by (simp add: sent_def)
    then show ?thesis using receive k st workers_at_Suc [OF k(3) R(1,6)] by (auto simp: bulk_inv_def)
  next
    case (receive_err i start e)
    then obtain k where k: "F + B * k < T" "b_rc s = sent leaf F (F + B * k)" using assms(5) by (auto simp: bulk_inv_def)
    have "\<not> is_ok (bf start (unat (worker_count treeSize start batch)))" using receive_err by (auto simp: worker_batch_def split: sum.splits)
    then have "\<not> fetches_ok bf" unfolding fetches_ok_def by blast
    then show ?thesis using receive_err k by (auto simp: bulk_inv_def intro!: exI [of _ "F + B * k"])
  next
    case (receive_closed i)
    then obtain k where k: "i = k mod W" "F + B * k < T" "workers_at F B W T k (b_workers s)" using assms(5) by (auto simp: bulk_inv_def)
    then show ?thesis using workers_at_current [OF k(3) R(1) k(2)] receive_closed by simp
  next case (select_done i) then show ?thesis using assms(4) by simp
  next
    case (select_panic i)
    then show ?thesis using bulk_inv_index [OF assms(5) _ R(1)] by auto
  next
    case (emit i start l ls)
    then show ?thesis using assms(5) by (auto simp: bulk_inv_def)
  next
    case (emitted i start)
    then obtain k where k: "i = k mod W" "start = batch_at F B k" "F + B * k < T" "workers_at F B W T (k + 1) (b_workers s)"
        "b_rc s = sent leaf F (min T (F + B * (k + 1)))" using assms(5) by (auto simp: bulk_inv_def)
    have len: "length (b_workers s) = W" using k(4) by (simp add: workers_at_def)
    show ?thesis
    proof (cases "T \<le> F + B * (k + 1)")
      case True
      then show ?thesis using emitted k last_batch [OF run k(3)] by (simp add: bulk_inv_def min_absorb1)
    next
      case False
      then show ?thesis using emitted k last_batch [OF run k(3)] len
        by (auto simp: bulk_inv_def min_absorb2 mod_Suc_eq intro!: exI [of _ "k + 1"])
    qed
  next
    case (emit_err e)
    then show ?thesis using assms(5) by (auto simp: bulk_inv_def)
  }
qed


definition bulk_measure :: "nat \<Rightarrow> nat \<Rightarrow> bulk_state \<Rightarrow> nat" where
  "bulk_measure F T s = length (filter (\<lambda>w. w \<noteq> None) (b_workers s)) +
     (case b_pc s of
        Select _ \<Rightarrow> 4 * (T - F - length (b_rc s)) + 1
      | Emit _ _ ls \<Rightarrow> 4 * (T - F - length (b_rc s) - length ls) + 2 * length ls + 2
      | EmitErr _ \<Rightarrow> 2
      | _ \<Rightarrow> 0)"

lemma open_workers_close:
  "\<lbrakk>j < length ws; ws ! j = Some x\<rbrakk> \<Longrightarrow> length (filter (\<lambda>w. w \<noteq> None) (ws[j := None])) < length (filter (\<lambda>w. w \<noteq> None) ws)"
  by (induction ws arbitrary: j) (auto split: nat.splits simp: nth_Cons)

lemma open_workers_move:
  "\<lbrakk>j < length ws; ws ! j = Some x\<rbrakk> \<Longrightarrow> length (filter (\<lambda>w. w \<noteq> None) (ws[j := Some y])) = length (filter (\<lambda>w. w \<noteq> None) ws)"
  by (induction ws arbitrary: j) (auto split: nat.splits simp: nth_Cons)

lemma length_sent [simp]: "length (sent leaf F n) = n - F"
  by (simp add: sent_def)

lemma take_sent: "\<lbrakk>F \<le> m; m \<le> n\<rbrakk> \<Longrightarrow> take (m - F) (sent leaf F n) = sent leaf F m"
  by (simp add: sent_def take_map take_upt)

text \<open>What has been sent in such a state.\<close>

lemma bulk_inv_sent:
  assumes inv: "bulk_inv bf leaf F B W T s" and "F < T"
  shows "\<exists>n \<ge> F. n \<le> T \<and> (b_rc s = sent leaf F n \<and> (b_pc s = Closed \<longrightarrow> n = T) \<or>
    (\<exists>e. b_rc s = sent leaf F n @ [Inl e] \<and> b_pc s = Closed \<and> \<not> fetches_ok bf))"
proof (cases "b_pc s")
  case (Select i)
  then obtain k where "F + B * k < T" "b_rc s = sent leaf F (F + B * k)" using inv by (auto simp: bulk_inv_def)
  then show ?thesis using Select by (intro exI [of _ "F + B * k"]) simp
next
  case (Emit i start ls)
  then obtain k where k: "F + B * k < T" "b_rc s @ map Inr ls = sent leaf F (min T (F + B * (k + 1)))" using inv by (auto simp: bulk_inv_def)
  let ?m = "min T (F + B * (k + 1)) - length ls"
  have "length (b_rc s @ map Inr ls) = min T (F + B * (k + 1)) - F" unfolding k(2) by simp
  moreover have "F \<le> min T (F + B * (k + 1))" using k(1) by simp
  ultimately have len: "length (b_rc s) = ?m - F" "F \<le> ?m" by simp_all
  have "b_rc s = take (length (b_rc s)) (sent leaf F (min T (F + B * (k + 1))))" unfolding k(2) [symmetric] by simp
  also have "\<dots> = sent leaf F ?m" unfolding len(1) by (intro take_sent len(2) diff_le_self)
  finally show ?thesis using Emit len(2) by (intro exI [of _ ?m]) auto
next
  case Closed
  then have "b_rc s = sent leaf F T \<or> \<not> fetches_ok bf \<and> (\<exists>e. \<exists>n \<ge> F. n \<le> T \<and> b_rc s = sent leaf F n @ [Inl e])"
    using inv by (simp add: bulk_inv_def)
  then show ?thesis using Closed assms(2) less_imp_le by blast
qed (use inv in \<open>auto simp: bulk_inv_def\<close>)

text \<open>Every step but a cancellation makes the measure smaller; a result that is sent makes it smaller by two.\<close>

lemma bulk_step_measure:
  assumes run: "bulk_run treeSize batch inc lst F B W T" and sound: "batch_sound leaf bf"
    and "bulk_step bf treeSize batch inc lst room s s'" "\<not> b_done s'" "bulk_inv bf leaf F B W T s"
  shows "bulk_measure F T s' + (length (b_rc s') - length (b_rc s)) < bulk_measure F T s"
  using assms(3)
proof cases
  note R = bulk_runD [OF run] and inv = assms(5)
  { case cancel then show ?thesis using assms(4) by simp
  next case (worker_end j start) then show ?thesis using open_workers_close [of j "b_workers s"] by (simp add: bulk_measure_def split: bulk_pc.split)
  next case (worker_done j start) then show ?thesis using open_workers_close [of j "b_workers s"] by (simp add: bulk_measure_def split: bulk_pc.split)
  next
    case (receive i start leaves)
    then obtain k where k: "i = k mod W" "F + B * k < T" "workers_at F B W T k (b_workers s)" "b_rc s = sent leaf F (F + B * k)"
      using inv by (auto simp: bulk_inv_def)
    have st: "start = batch_at F B k" using workers_at_current [OF k(3) R(1) k(2)] receive k(1) by simp
    have "length (map leaf [F..<F + B * k] @ leaves) = length (map leaf [F..<min T (F + B * (k + 1))])"
      using worker_batch_sound [OF run sound k(2), of leaves] receive st by simp
    then have "B * k + length leaves = min T (F + B * (k + 1)) - F" by simp
    moreover have "F + B * k < min T (F + B * (k + 1))" using k(2) R(2) by simp
    moreover have "min T (F + B * (k + 1)) \<le> T" by simp
    ultimately have "0 < length leaves" "B * k + length leaves \<le> T - F" by linarith+
    then have "Suc (4 * (T - (F + B * k + length leaves)) + 2 * length leaves) < 4 * (T - (F + B * k))" by linarith
    then show ?thesis using receive k(4) open_workers_move [of i "b_workers s"] by (simp add: bulk_measure_def)
  next
    case (receive_err i start e)
    then obtain k where "F + B * k < T" "b_rc s = sent leaf F (F + B * k)" using inv by (auto simp: bulk_inv_def)
    then show ?thesis using receive_err open_workers_move [of i "b_workers s"] by (simp add: bulk_measure_def)
  next
    case (receive_closed i)
    then obtain k where k: "i = k mod W" "F + B * k < T" "workers_at F B W T k (b_workers s)" using inv by (auto simp: bulk_inv_def)
    then show ?thesis using workers_at_current [OF k(3) R(1) k(2)] receive_closed by simp
  next case (select_done i) then show ?thesis using assms(4) by simp
  next case (select_panic i) then show ?thesis using bulk_inv_index [OF inv _ R(1)] by auto
  next case (emit i start l ls) then show ?thesis by (simp add: bulk_measure_def)
  next
    case (emitted i start)
    then obtain k where "F + B * k < T" "start = batch_at F B k" using inv by (auto simp: bulk_inv_def)
    then show ?thesis using emitted by (simp add: bulk_measure_def)
  next case (emit_err e) then show ?thesis by (simp add: bulk_measure_def)
  }
qed

text \<open>With room in the output channel, \<open>Bulk\<close> can always go on, whether the context is done or not.\<close>

lemma bulk_progress:
  assumes run: "bulk_run treeSize batch inc lst F B W T" and "bulk_inv bf leaf F B W T s" "b_pc s \<noteq> Closed"
  shows "\<exists>s'. bulk_step bf treeSize batch inc lst True s s' \<and> b_done s' = b_done s"
proof (cases "b_pc s")
  case (Select i)
  note R = bulk_runD [OF run]
  obtain k where k: "i = k mod W" "F + B * k < T" "workers_at F B W T k (b_workers s)" using assms(2) Select by (auto simp: bulk_inv_def)
  have w: "b_workers s ! i = Some (batch_at F B k)" "i < length (b_workers s)"
    using workers_at_current [OF k(3) R(1) k(2)] k R(1) by (auto simp: workers_at_def)
  have lt: "batch_at F B k < treeSize" using unat_start [OF run k(2)] k(2) R(4) by (simp add: word_less_nat_alt)
  show ?thesis
  proof (cases "worker_batch bf treeSize batch (batch_at F B k)")
    case (Inl e) then show ?thesis using bulk_step.receive_err [OF Select w(2,1) lt] by fastforce
  next
    case (Inr ls) then show ?thesis using bulk_step.receive [OF Select w(2,1) lt] by fastforce
  qed
next
  case (Emit i start ls)
  then show ?thesis
  proof (cases ls)
    case Nil then show ?thesis using emitted [of s i start] Emit by fastforce
  next
    case (Cons l ls') then show ?thesis using emit [of s i start l ls' True] Emit by fastforce
  qed
next
  case (EmitErr e) then show ?thesis using emit_err [of s e True] by fastforce
qed (use assms in \<open>simp_all add: bulk_inv_def\<close>)

subsection \<open>Runs of Bulk\<close>

text \<open>The parameters of \<open>Bulk\<close> give such a run.\<close>

lemma bulk_runI:
  assumes "0 < unat workers" "0 < unat batch" "unat first < unat treeSize" "unat treeSize + unat workers * unat batch < 2 ^ 64"
  shows "bulk_run treeSize batch (workers * batch) (if batch < treeSize then treeSize - batch else 0)
    (unat first) (unat batch) (unat workers) (unat treeSize)"
  using assms by (auto simp: bulk_run_def unat_sub word_less_nat_alt word_le_nat_alt less_imp_le)

lemma bulk_start_inv:
  assumes "0 < unat workers" "unat first < unat treeSize"
  shows "bulk_inv bf leaf (unat first) (unat batch) (unat workers) (unat treeSize) (bulk_start first workers batch)"
  using assms workers_at_start [of first batch workers "unat treeSize"] by (auto simp: bulk_inv_def bulk_start_def sent_def intro!: exI [of _ 0])

text \<open>Once done, the context stays done.\<close>

lemma bulk_step_done: "bulk_step bf treeSize batch inc lst room s s' \<Longrightarrow> b_done s \<Longrightarrow> b_done s'"
  by (erule bulk_stepE) auto

definition Bulk_run :: "u64 \<Rightarrow> BatchFetch \<Rightarrow> u64 \<Rightarrow> u64 \<Rightarrow> bulk_state \<Rightarrow> bulk_state \<Rightarrow> bool" where
  "Bulk_run treeSize bf workers batch = (\<lambda>s s'. \<exists>room. Bulk_step treeSize bf workers batch room s s')\<^sup>*\<^sup>*"

text \<open>The number of workers, the batch size and the leaves to fetch are such that no counter overflows.\<close>

definition bulk_params :: "u64 \<Rightarrow> u64 \<Rightarrow> u64 \<Rightarrow> u64 \<Rightarrow> bool" where
  "bulk_params first treeSize workers batch \<longleftrightarrow> 0 < unat workers \<and> 0 < unat batch \<and> unat first < unat treeSize \<and>
     unat treeSize + unat workers * unat batch < 2 ^ 64"

lemma Bulk_run_inv:
  assumes "bulk_params first treeSize workers batch" "batch_sound leaf bf" "Bulk_run treeSize bf workers batch (bulk_start first workers batch) s" "\<not> b_done s"
  shows "bulk_inv bf leaf (unat first) (unat batch) (unat workers) (unat treeSize) s"
  using assms(3,4) unfolding Bulk_run_def
proof (induction rule: rtranclp_induct)
  case base
  show ?case using assms(1) by (intro bulk_start_inv) (simp_all add: bulk_params_def)
next
  case (step y z)
  have run: "bulk_run treeSize batch (workers * batch) (if batch < treeSize then treeSize - batch else 0) (unat first) (unat batch) (unat workers) (unat treeSize)"
    using assms(1) by (intro bulk_runI) (simp_all add: bulk_params_def)
  obtain room where st: "bulk_step bf treeSize batch (workers * batch) (if batch < treeSize then treeSize - batch else 0) room y z"
    using step(2) by (auto simp: Bulk_step_def)
  have "\<not> b_done y" using bulk_step_done [OF st] step.prems by blast
  then show ?case using bulk_step_inv [OF run assms(2) st step.prems] step.IH by blast
qed


subsection \<open>What is sent\<close>

lemma worker_leaves:
  assumes "batch_sound leaf bf" "worker_batch bf treeSize batch start = Inr leaves" "start < treeSize"
  shows "set leaves \<subseteq> leaf ` {..<unat treeSize}"
proof -
  let ?n = "unat (worker_count treeSize start batch)"
  have "bf start ?n = Inr leaves" using assms(2) by (simp add: worker_batch_def split: sum.splits)
  then have ls: "leaves = map leaf [unat start..<unat start + ?n]" using assms(1) unfolding batch_sound_def by blast
  have "unat (treeSize - start) = unat treeSize - unat start" using assms(3) by (simp add: unat_sub word_less_nat_alt word_le_nat_alt)
  then have "unat start + ?n \<le> unat treeSize" using assms(3) by (auto simp: worker_count_def word_less_nat_alt)
  then show ?thesis unfolding ls by auto
qed

definition pending_leaves :: "bulk_state \<Rightarrow> bytes set" where
  "pending_leaves s = {l. Inr l \<in> set (b_rc s)} \<union> (case b_pc s of Emit _ _ ls \<Rightarrow> set ls | _ \<Rightarrow> {})"

lemma bulk_step_leaves:
  assumes "batch_sound leaf bf" "bulk_step bf treeSize batch inc lst room s s'"
  shows "pending_leaves s' \<subseteq> pending_leaves s \<union> leaf ` {..<unat treeSize}"
  using assms(2)
proof cases
  case (receive i start leaves)
  then show ?thesis using worker_leaves [OF assms(1), of treeSize batch start leaves] by (auto simp: pending_leaves_def)
qed (auto simp: pending_leaves_def split: bulk_pc.split)

lemma Bulk_run_leaves:
  assumes "batch_sound leaf bf" "Bulk_run treeSize bf workers batch (bulk_start first workers batch) s"
  shows "pending_leaves s \<subseteq> leaf ` {..<unat treeSize}"
  using assms(2) unfolding Bulk_run_def
proof (induction rule: rtranclp_induct)
  case base
  show ?case by (simp add: pending_leaves_def bulk_start_def)
next
  case (step y z)
  then show ?case using bulk_step_leaves [OF assms(1)] unfolding Bulk_step_def by blast
qed

text \<open>C30: \<open>Bulk\<close> with any number of workers and any batch size, both at least one.  As long as its context is not cancelled, what it
  has sent is a prefix of the leaves from \<open>first\<close> on, in order, with at most an error at the end, however it and its
  workers interleave and whatever fetches fail; when it closes the channel without an error, all leaves have been sent,
  and that is so if no fetch fails for good.  A leaf that is sent at any time, also after a cancellation, is a leaf of the log.\<close>

theorem Bulk_in_order:
  assumes "bulk_params first treeSize workers batch" "batch_sound leaf bf" "Bulk_run treeSize bf workers batch (bulk_start first workers batch) s"
  shows "(\<forall>l. Inr l \<in> set (b_rc s) \<longrightarrow> (\<exists>i < unat treeSize. l = leaf i)) \<and>
    (\<not> b_done s \<longrightarrow> (\<exists>n \<ge> unat first. n \<le> unat treeSize \<and>
       (b_rc s = sent leaf (unat first) n \<and> (b_pc s = Closed \<longrightarrow> n = unat treeSize) \<or>
        (\<exists>e. b_rc s = sent leaf (unat first) n @ [Inl e] \<and> b_pc s = Closed \<and> \<not> fetches_ok bf))))"
proof -
  have "\<exists>i < unat treeSize. l = leaf i" if "Inr l \<in> set (b_rc s)" for l
    using Bulk_run_leaves [OF assms(2,3)] that by (auto simp: pending_leaves_def)
  then show ?thesis using bulk_inv_sent [OF Bulk_run_inv [OF assms]] assms(1) unfolding bulk_params_def by blast
qed

text \<open>C31: \<open>Bulk\<close> ends.  As long as the context is not cancelled and the output channel is read, some step is possible until the channel is
  closed, and every step makes a measure smaller, so every schedule closes the channel.\<close>

theorem Bulk_terminates:
  assumes "bulk_params first treeSize workers batch" "batch_sound leaf bf" "Bulk_run treeSize bf workers batch (bulk_start first workers batch) s" "\<not> b_done s"
  shows "(b_pc s = Closed \<or> (\<exists>s'. Bulk_step treeSize bf workers batch True s s' \<and> \<not> b_done s')) \<and>
    (\<forall>room s'. Bulk_step treeSize bf workers batch room s s' \<and> \<not> b_done s' \<longrightarrow>
       bulk_measure (unat first) (unat treeSize) s' < bulk_measure (unat first) (unat treeSize) s)"
proof -
  have run: "bulk_run treeSize batch (workers * batch) (if batch < treeSize then treeSize - batch else 0) (unat first) (unat batch) (unat workers) (unat treeSize)"
    using assms(1) by (intro bulk_runI) (simp_all add: bulk_params_def)
  note inv = Bulk_run_inv [OF assms]
  show ?thesis using bulk_progress [OF run inv] bulk_step_measure [OF run assms(2) _ _ inv] assms(4)
    unfolding Bulk_step_def by fastforce
qed


lemma Bulk_run_refl: "Bulk_run treeSize bf workers batch s s"
  by (simp add: Bulk_run_def)

lemma Bulk_run_step:
  "\<lbrakk>bulk_step bf treeSize batch (workers * batch) (if batch < treeSize then treeSize - batch else 0) room s s'; Bulk_run treeSize bf workers batch s' t\<rbrakk> \<Longrightarrow>
   Bulk_run treeSize bf workers batch s t"
  unfolding Bulk_run_def Bulk_step_def by (rule converse_rtranclp_into_rtranclp) blast+

text \<open>C32: What a cancellation can do.  The loop takes the zero result of a closed channel for an empty batch: with two workers, the first
  of which returns because of the cancellation, only the second of two leaves is sent and the channel is closed without an
  error; and if the tree is not larger than a batch, nothing is sent and no error either.\<close>

theorem Bulk_cancelled_skips:
  assumes "bf 1 1 = Inr [l]"
  shows "(\<exists>s. Bulk_run 2 bf 2 1 (bulk_start 0 2 1) s \<and> b_pc s = Closed \<and> b_rc s = [Inr l]) \<and>
    (\<exists>s. Bulk_run 1 bf 1 1 (bulk_start 0 1 1) s \<and> b_pc s = Closed \<and> b_rc s = [])"
proof -
  let ?s = "\<lambda>ws pc rc. \<lparr>b_done = True, b_workers = ws, b_pc = pc, b_rc = rc\<rparr>"
  let ?a = "bulk_step bf 2 1 2 1 True" and ?b = "bulk_step bf 1 1 1 0 True"
  have two: "(2 :: u64) - 1 = 1" "unat (2 :: u64) = 2" "(1 :: u64) < 2" by simp_all
  have wb: "worker_batch bf 2 1 1 = Inr [l]" using assms by (simp add: worker_batch_def worker_count_def)
  have r1: "Bulk_run 2 bf 2 1 s t" if "?a s s'" "Bulk_run 2 bf 2 1 s' t" for s s' t
    by (rule Bulk_run_step [OF _ that(2)]) (use that(1) in simp)
  have r2: "Bulk_run 1 bf 1 1 s t" if "?b s s'" "Bulk_run 1 bf 1 1 s' t" for s s' t
    by (rule Bulk_run_step [OF _ that(2)]) (use that(1) in simp)
  have a1: "?a (bulk_start 0 2 1) (?s [Some 0, Some 1] (Select 0) [])"
    using bulk_step.cancel [of bf 2 1 2 1 True "bulk_start 0 2 1"] by (simp add: bulk_start_def upt_rec)
  have a2: "?a (?s [Some 0, Some 1] (Select 0) []) (?s [None, Some 1] (Select 0) [])"
    using bulk_step.worker_done [of 0 "?s [Some 0, Some 1] (Select 0) []"] by simp
  have a3: "?a (?s [None, Some 1] (Select 0) []) (?s [None, Some 1] (Emit 0 0 []) [])"
    using bulk_step.receive_closed [of "?s [None, Some 1] (Select 0) []" 0] by simp
  have a4: "?a (?s [None, Some 1] (Emit 0 0 []) []) (?s [None, Some 1] (Select 1) [])"
    using bulk_step.emitted [of "?s [None, Some 1] (Emit 0 0 []) []" 0 0 bf 2 1 2 1 True] by simp
  have a5: "?a (?s [None, Some 1] (Select 1) []) (?s [None, Some 3] (Emit 1 1 [l]) [])"
    using bulk_step.receive [of "?s [None, Some 1] (Select 1) []" 1 1 2 bf 1 "[l]" 2 1 True] wb by simp
  have a6: "?a (?s [None, Some 3] (Emit 1 1 [l]) []) (?s [None, Some 3] (Emit 1 1 []) [Inr l])"
    using bulk_step.emit [of "?s [None, Some 3] (Emit 1 1 [l]) []" 1 1 l "[]" True] by simp
  have a7: "?a (?s [None, Some 3] (Emit 1 1 []) [Inr l]) (?s [None, Some 3] Closed [Inr l])"
    using bulk_step.emitted [of "?s [None, Some 3] (Emit 1 1 []) [Inr l]" 1 1 bf 2 1 2 1 True] by simp
  have b1: "?b (bulk_start 0 1 1) (?s [Some 0] (Select 0) [])"
    using bulk_step.cancel [of bf 1 1 1 0 True "bulk_start 0 1 1"] by (simp add: bulk_start_def)
  have b2: "?b (?s [Some 0] (Select 0) []) (?s [None] (Select 0) [])"
    using bulk_step.worker_done [of 0 "?s [Some 0] (Select 0) []"] by simp
  have b3: "?b (?s [None] (Select 0) []) (?s [None] (Emit 0 0 []) [])"
    using bulk_step.receive_closed [of "?s [None] (Select 0) []" 0] by simp
  have b4: "?b (?s [None] (Emit 0 0 []) []) (?s [None] Closed [])"
    using bulk_step.emitted [of "?s [None] (Emit 0 0 []) []" 0 0 bf 1 1 1 0 True] by simp
  have "Bulk_run 2 bf 2 1 (bulk_start 0 2 1) (?s [None, Some 3] Closed [Inr l])"
    by (intro r1 [OF a1] r1 [OF a2] r1 [OF a3] r1 [OF a4] r1 [OF a5] r1 [OF a6] r1 [OF a7] Bulk_run_refl)
  moreover have "Bulk_run 1 bf 1 1 (bulk_start 0 1 1) (?s [None] Closed [])"
    by (intro r2 [OF b1] r2 [OF b2] r2 [OF b3] r2 [OF b4] Bulk_run_refl)
  ultimately show ?thesis by fastforce
qed

end
