(* ===== verification/CloneProofs.thy ===== *)
theory CloneProofs
  imports BulkProofs WitnessTheorems LogClientProofs
begin

section \<open>Properties of the cloner\<close>

text \<open>
  The interleavings of the leaf stream with the verifier: without database errors every run ends with
  all leaves, and a query that fails blocks both sides for ever.  \<open>Clone\<close> beside the
  download returns unless it is cancelled; the rows of the database are leaves of the log and, if no insert fails, a prefix of it.  The
  root that is computed from the database is that of the log.
\<close>

subsection \<open>The stream of leaves\<close>

text \<open>The leaves on their way, from the first one received.\<close>

definition in_flight :: "stream_state \<Rightarrow> bytes res list" where
  "in_flight s = map Inr (s_got s) @ (case s_cons s of InHand l \<Rightarrow> [Inr l] | _ \<Rightarrow> []) @
     (case s_buf s of Some l \<Rightarrow> [Inr l] | None \<Rightarrow> []) @ (case s_prod s of Sending rows \<Rightarrow> rows | _ \<Rightarrow> [])"

definition stream_ok :: "bytes list \<Rightarrow> stream_state \<Rightarrow> bool" where
  "stream_ok ls s \<longleftrightarrow> in_flight s = map Inr ls \<and> (\<forall>e. s_prod s \<noteq> SendingErr e) \<and> (\<forall>e. s_cons s \<noteq> Failed e) \<and>
     (s_cons s = Drained \<longrightarrow> s_prod s = ClosedOut \<and> s_buf s = None)"

lemma stream_step_ok: "\<lbrakk>stream_step s s'; stream_ok ls s\<rbrakk> \<Longrightarrow> stream_ok ls s'"
proof (induction rule: stream_step.induct)
  case (scan_error s e rows)
  then have f: "in_flight s = map Inr ls" by (simp add: stream_ok_def)
  have "Inl e \<in> set (in_flight s)" using scan_error(1) by (simp add: in_flight_def)
  then show ?case unfolding f by auto
qed (auto simp: stream_ok_def in_flight_def)

lemma stream_run_ok: "\<lbrakk>stream_step\<^sup>*\<^sup>* s s'; stream_ok ls s\<rbrakk> \<Longrightarrow> stream_ok ls s'"
  by (induction rule: rtranclp_induct) (auto intro: stream_step_ok)

text \<open>Progress, and a measure that every step decreases.\<close>

lemma stream_progress:
  assumes "stream_ok ls s" "s_cons s \<noteq> Drained"
  shows "\<exists>s'. stream_step s s'"
proof (cases "s_cons s")
  case Waiting
  show ?thesis
  proof (cases "s_buf s")
    case None
    then show ?thesis using assms Waiting
      by (cases "s_prod s") (auto simp: stream_ok_def intro: stream_step.intros elim!: list.set_cases, metis list.exhaust sum.exhaust send_leaf scan_error rows_end)
  qed (use Waiting in \<open>auto intro: stream_step.receive\<close>)
qed (use assms in \<open>auto simp: stream_ok_def intro: select_default\<close>)

definition stream_measure :: "stream_state \<Rightarrow> nat" where
  "stream_measure s = (case s_prod s of Sending rows \<Rightarrow> 3 * length rows + 1 | _ \<Rightarrow> 0) +
     (case s_buf s of Some _ \<Rightarrow> 2 | None \<Rightarrow> 0) + (case s_cons s of InHand _ \<Rightarrow> 2 | Waiting \<Rightarrow> 1 | _ \<Rightarrow> 0)"

lemma stream_step_measure: "\<lbrakk>stream_step s s'; stream_ok ls s\<rbrakk> \<Longrightarrow> stream_measure s' < stream_measure s"
  by (induction rule: stream_step.induct) (auto simp: stream_measure_def stream_ok_def in_flight_def split: option.splits)

lemma stream_reaches_end:
  "stream_ok ls s \<Longrightarrow> \<exists>s'. stream_step\<^sup>*\<^sup>* s s' \<and> s_cons s' = Drained"
proof (induction "stream_measure s" arbitrary: s rule: less_induct)
  case less
  show ?case
  proof (cases "s_cons s = Drained")
    case False
    then obtain s' where "stream_step s s'" using stream_progress [OF less.prems] by blast
    then show ?thesis using less stream_step_ok stream_step_measure by (meson converse_rtranclp_into_rtranclp)
  qed auto
qed

lemma stream_start_ok: "cd_SelectLeaves D d a b = Inr (map Inr ls) \<Longrightarrow> stream_ok ls (stream_start D d a b)"
  by (simp add: stream_ok_def stream_start_def in_flight_def)

lemma stream_ends_iff:
  assumes "cd_SelectLeaves D d a b = Inr (map Inr ls)"
  shows "stream_ends (stream_start D d a b) r \<longleftrightarrow> r = Inr ls"
proof -
  note ok = stream_start_ok [OF assms]
  have fin: "s_got s = ls" if "stream_ok ls s" "s_cons s = Drained" for s
  proof -
    have "map Inr (s_got s) = (map Inr ls :: bytes res list)" using that by (auto simp: stream_ok_def in_flight_def)
    then show ?thesis by (simp add: inj_map_eq_map inj_def)
  qed
  obtain s' where "stream_step\<^sup>*\<^sup>* (stream_start D d a b) s'" "s_cons s' = Drained" using stream_reaches_end [OF ok] by blast
  moreover have "stream_ok ls s'" if "stream_step\<^sup>*\<^sup>* (stream_start D d a b) s'" for s' using stream_run_ok [OF that ok] .
  ultimately show ?thesis using fin unfolding stream_ends_def by (metis stream_ok_def)
qed

text \<open>C34: When no row fails, every interleaving of \<open>StreamLeaves\<close> with the loop of \<open>MerkleRoot\<close> is free
  of deadlock and finite (every step decreases a measure), and the loop ends with exactly the selected leaves in order.\<close>

theorem stream_delivers_leaves:
  assumes "cd_SelectLeaves D d a b = Inr (map Inr ls)" "stream_step\<^sup>*\<^sup>* (stream_start D d a b) s"
  shows "(s_cons s = Drained \<and> s_got s = ls \<or> (\<exists>s'. stream_step s s')) \<and>
    (\<forall>s'. stream_step s s' \<longrightarrow> stream_measure s' < stream_measure s) \<and>
    (\<forall>r. stream_ends (stream_start D d a b) r \<longleftrightarrow> r = Inr ls)"
proof -
  have ok: "stream_ok ls s" using stream_run_ok [OF assms(2) stream_start_ok [OF assms(1)]] .
  have "s_got s = ls" if "s_cons s = Drained"
    using assms(2) that stream_ends_iff [OF assms(1), of "Inr (s_got s)"] unfolding stream_ends_def by auto
  moreover have "\<exists>s'. stream_step s s'" if "s_cons s \<noteq> Drained" using stream_progress [OF ok that] .
  moreover have "stream_measure s' < stream_measure s" if "stream_step s s'" for s' using stream_step_measure [OF that ok] .
  ultimately show ?thesis using stream_ends_iff [OF assms(1)] by blast
qed

text \<open>C35: If the query for the leaves fails, neither side can make a step: \<open>StreamLeaves\<close> waits to hand over
  the error, \<open>MerkleRoot\<close> waits for a leaf, and no result is ever returned.\<close>

theorem stream_query_error_deadlocks:
  assumes "cd_SelectLeaves (lv_db v) d from sz = Inl e" "verifier_start G v d sz = Inr (cr, from)"
  shows "\<not> stream_step (stream_start (lv_db v) d from sz) s' \<and> \<not> MerkleRoot G v d sz res"
proof -
  let ?s = "stream_start (lv_db v) d from sz"
  have s: "s_prod ?s = SendingErr e" "s_buf ?s = None" "s_cons ?s = Waiting" using assms(1) by (simp_all add: stream_start_def)
  then have stuck: "\<not> stream_step ?s s'" for s' by (auto elim: stream_stepE)
  have run: "s' = ?s" if "stream_step\<^sup>*\<^sup>* ?s s'" for s'
    using that by (cases rule: converse_rtranclpE) (simp_all add: stuck)
  have "\<not> stream_ends ?s r" for r unfolding stream_ends_def using run s(3) by (metis consumer.distinct(3,5))
  then show ?thesis using stuck assms(2) by (simp add: MerkleRoot_def)
qed

subsection \<open>The leaves in the database\<close>

text \<open>
  \<open>lv\<close> is the table of leaves and \<open>pend\<close> the inserts of a transaction that succeeded: an insert that reports an
  error leaves the transaction as it was.  A transaction of a context that is done cannot begin or be committed.  A
  commit is atomic; one that reports an error has happened or not.
\<close>

locale leaf_table =
  fixes D :: "('d, 't) clone_db"
    and lv :: "'d \<Rightarrow> nat \<Rightarrow> bytes option" and pend :: "'t \<Rightarrow> (nat \<times> bytes) list"
  assumes begin_tx: "cd_BeginTx D ctx d = Inr t \<Longrightarrow> \<not> ctx \<and> pend t = []"
    and insert_ok: "cd_InsertLeaf D d t i l = (None, t') \<Longrightarrow> pend t' = pend t @ [(unat i, l)]"
    and insert_err: "cd_InsertLeaf D d t i l = (Some e, t') \<Longrightarrow> pend t' = pend t"
    and commit_ok: "cd_Commit D ctx d t = (None, d') \<Longrightarrow> \<not> ctx \<and> lv d' = lv d ++ map_of (pend t)"
    and commit_err: "cd_Commit D ctx d t = (Some e, d') \<Longrightarrow> lv d' = lv d \<or> \<not> ctx \<and> lv d' = lv d ++ map_of (pend t)"
    and no_rows: "cd_MaxLeaf D d = Inl ErrNoRows \<or> cd_MaxLeaf D d = Inr None \<Longrightarrow> lv d j = None"
    and max_row: "cd_MaxLeaf D d = Inr (Some m) \<Longrightarrow> lv d (unat m) \<noteq> None \<and> (\<forall>j > unat m. lv d j = None)"

text \<open>The table holds the leaves below \<open>n\<close> and no others; all its rows are leaves of the log at their index.\<close>

definition prefix_of_log :: "(nat \<Rightarrow> bytes) \<Rightarrow> nat \<Rightarrow> (nat \<Rightarrow> bytes option) \<Rightarrow> bool" where
  "prefix_of_log leaf n m \<longleftrightarrow> m = (\<lambda>i. if i < n then Some (leaf i) else None)"

definition rows_right :: "(nat \<Rightarrow> bytes) \<Rightarrow> (nat \<Rightarrow> bytes option) \<Rightarrow> bool" where
  "rows_right leaf m \<longleftrightarrow> (\<forall>i x. m i = Some x \<longrightarrow> x = leaf i)"

text \<open>No insert of a leaf under a new index fails.\<close>

definition inserts_ok :: "('d, 't) clone_db \<Rightarrow> ('d \<Rightarrow> nat \<Rightarrow> bytes option) \<Rightarrow> ('t \<Rightarrow> (nat \<times> bytes) list) \<Rightarrow> bool" where
  "inserts_ok D lv pend \<longleftrightarrow>
     (\<forall>d t i l. lv d (unat i) = None \<and> unat i \<notin> fst ` set (pend t) \<longrightarrow> fst (cd_InsertLeaf D d t i l) = None)"

lemma map_of_zip_upt: "map_of (zip [a..<a + k] (map leaf [a..<a + k])) = (\<lambda>i. if a \<le> i \<and> i < a + k then Some (leaf i) else None)"
  by (auto simp: map_of_zip_map fun_eq_iff)

text \<open>What writing the leaves from \<open>bs\<close> on may do to a table of which \<open>Q\<close> holds up to \<open>bs\<close>.\<close>

definition write_law ::
    "('d, 't) clone_db \<Rightarrow> ('d \<Rightarrow> nat \<Rightarrow> bytes option) \<Rightarrow> (nat \<Rightarrow> bytes) \<Rightarrow> (nat \<Rightarrow> (nat \<Rightarrow> bytes option) \<Rightarrow> bool) \<Rightarrow> bool" where
  "write_law D lv leaf Q \<longleftrightarrow>
     (\<forall>ctx0 ctx1 d bs k err d'. Q (unat bs) (lv d) \<and> unat bs + k < 2 ^ 64 \<and>
        logdb_WriteLeaves D ctx0 ctx1 d bs (map leaf [unat bs..<unat bs + k]) = (err, d') \<longrightarrow>
        Q (unat bs + k) (lv d') \<or> err \<noteq> None \<and> Q (unat bs) (lv d'))"

context leaf_table
begin

lemma insert_leaves_pend:
  "\<lbrakk>inserts_ok D lv pend; \<forall>i \<ge> unat a. lv d i = None; \<forall>i \<ge> unat a. i \<notin> fst ` set (pend t); unat a + length ls < 2 ^ 64\<rbrakk> \<Longrightarrow>
     pend (insert_leaves D d t a ls) = pend t @ zip [unat a..<unat a + length ls] ls"
proof (induction ls arbitrary: a t)
  case (Cons l ls)
  obtain e t' where i: "cd_InsertLeaf D d t a l = (e, t')" by fastforce
  then have "e = None" using Cons.prems(1-3) unfolding inserts_ok_def by (metis fst_conv order_refl)
  then have t': "pend t' = pend t @ [(unat a, l)]" using insert_ok i by simp
  have a: "unat (a + 1) = unat a + 1" using Cons.prems(4) by (simp add: unat_Suc_u64)
  have "pend (insert_leaves D d t' (a + 1) ls) = pend t' @ zip [unat (a + 1)..<unat (a + 1) + length ls] ls"
    using Cons.prems a t' by (intro Cons.IH) auto
  moreover have "[unat a..<unat a + length (l # ls)] = unat a # [unat (a + 1)..<unat (a + 1) + length ls]"
    using a by (simp add: upt_conv_Cons del: upt_Suc)
  ultimately show ?case using i t' by (simp del: upt_Suc)
qed simp

lemma insert_leaves_subset:
  "unat a + length ls < 2 ^ 64 \<Longrightarrow> set (pend (insert_leaves D d t a ls)) \<subseteq> set (pend t) \<union> set (zip [unat a..<unat a + length ls] ls)"
proof (induction ls arbitrary: a t)
  case (Cons l ls)
  obtain e t' where i: "cd_InsertLeaf D d t a l = (e, t')" by fastforce
  then have t': "set (pend t') \<subseteq> set (pend t) \<union> {(unat a, l)}" using insert_ok insert_err by (cases e) fastforce+
  have a: "unat (a + 1) = unat a + 1" using Cons.prems by (simp add: unat_Suc_u64)
  have "set (pend (insert_leaves D d t' (a + 1) ls)) \<subseteq> set (pend t') \<union> set (zip [unat (a + 1)..<unat (a + 1) + length ls] ls)"
    using Cons.prems a by (intro Cons.IH) simp
  moreover have "[unat a..<unat a + length (l # ls)] = unat a # [unat (a + 1)..<unat (a + 1) + length ls]"
    using a by (simp add: upt_conv_Cons del: upt_Suc)
  ultimately show ?case using i t' by (auto simp del: upt_Suc)
qed simp

text \<open>The two ends of a write.\<close>

lemma WriteLeaves_cases:
  assumes "logdb_WriteLeaves D ctx0 ctx1 d bs ls = (err, d')"
  obtains "err \<noteq> None" "lv d' = lv d" | t where "cd_BeginTx D ctx0 d = Inr t" "lv d' = lv d ++ map_of (pend (insert_leaves D d t bs ls))"
proof (cases "cd_BeginTx D ctx0 d")
  case (Inl e)
  then show ?thesis using assms that(1) by (auto simp: logdb_WriteLeaves_def)
next
  case (Inr t)
  then have c: "cd_Commit D ctx1 d (insert_leaves D d t bs ls) = (err, d')" using assms by (simp add: logdb_WriteLeaves_def)
  show ?thesis
  proof (cases err)
    case None
    then show ?thesis using commit_ok c that(2) [OF Inr] by blast
  next
    case (Some e)
    then show ?thesis using commit_err c that(1) that(2) [OF Inr] by blast
  qed
qed

lemma WriteLeaves_done: "\<lbrakk>logdb_WriteLeaves D True ctx1 d bs ls = (err, d')\<rbrakk> \<Longrightarrow> err \<noteq> None \<and> lv d' = lv d"
  using begin_tx [of True d] by (auto simp: logdb_WriteLeaves_def split: sum.splits)

lemma WriteLeaves_live: "logdb_WriteLeaves D ctx0 ctx1 d bs ls = (None, d') \<Longrightarrow> \<not> ctx1"
  using commit_ok by (auto simp: logdb_WriteLeaves_def split: sum.splits)

lemma WriteLeaves_prefix:
  assumes "inserts_ok D lv pend"
  shows "write_law D lv leaf (prefix_of_log leaf)"
  unfolding write_law_def
proof (intro allI impI, elim conjE)
  fix ctx0 ctx1 d bs k err d'
  assume pre: "prefix_of_log leaf (unat bs) (lv d)" and k: "unat bs + k < 2 ^ 64"
    and w: "logdb_WriteLeaves D ctx0 ctx1 d bs (map leaf [unat bs..<unat bs + k]) = (err, d')"
  let ?ls = "map leaf [unat bs..<unat bs + k]"
  show "prefix_of_log leaf (unat bs + k) (lv d') \<or> err \<noteq> None \<and> prefix_of_log leaf (unat bs) (lv d')"
  proof (rule WriteLeaves_cases [OF w])
    fix t assume t: "cd_BeginTx D ctx0 d = Inr t" and d': "lv d' = lv d ++ map_of (pend (insert_leaves D d t bs ?ls))"
    have "pend (insert_leaves D d t bs ?ls) = zip [unat bs..<unat bs + k] ?ls"
      using insert_leaves_pend [of bs d t ?ls] assms pre k begin_tx [OF t] by (simp add: prefix_of_log_def)
    then have "lv d' = lv d ++ (\<lambda>i. if unat bs \<le> i \<and> i < unat bs + k then Some (leaf i) else None)"
      by (simp only: d' map_of_zip_upt)
    then show ?thesis using pre by (auto simp: prefix_of_log_def map_add_def fun_eq_iff)
  qed (use pre in simp)
qed

lemma WriteLeaves_rows: "write_law D lv leaf (\<lambda>_. rows_right leaf)"
  unfolding write_law_def
proof (intro allI impI, elim conjE)
  fix ctx0 ctx1 d bs k err d'
  assume pre: "rows_right leaf (lv d)" and k: "unat bs + k < 2 ^ 64"
    and w: "logdb_WriteLeaves D ctx0 ctx1 d bs (map leaf [unat bs..<unat bs + k]) = (err, d')"
  let ?ls = "map leaf [unat bs..<unat bs + k]"
  have "rows_right leaf (lv d')"
  proof (rule WriteLeaves_cases [OF w])
    fix t assume t: "cd_BeginTx D ctx0 d = Inr t" and d': "lv d' = lv d ++ map_of (pend (insert_leaves D d t bs ?ls))"
    have "x = leaf i" if "map_of (pend (insert_leaves D d t bs ?ls)) i = Some x" for i x
    proof -
      have "set (pend (insert_leaves D d t bs ?ls)) \<subseteq> set (zip [unat bs..<unat bs + k] ?ls)"
        using insert_leaves_subset [of bs ?ls d t] k begin_tx [OF t] by simp
      then have "(i, x) \<in> set (zip [unat bs..<unat bs + k] ?ls)" using map_of_SomeD [OF that] by blast
      then show ?thesis by (auto simp: in_set_zip)
    qed
    then show ?thesis using d' pre by (auto simp: rows_right_def)
  qed (use pre in simp)
  then show "rows_right leaf (lv d') \<or> err \<noteq> None \<and> rows_right leaf (lv d')" by simp
qed

lemma Next_prefix:
  assumes "prefix_of_log leaf n (lv d)" "n < 2 ^ 64" "cloner_Next c d = Inr nx" "c_db c = D"
  shows "unat nx = n"
proof (cases "n = 0")
  case True
  have "nx = 0"
  proof (cases "cd_MaxLeaf D d")
    case (Inr m)
    have "m = None" using max_row [of d] Inr True assms(1) by (cases m) (auto simp: prefix_of_log_def)
    then show ?thesis using Inr assms(3,4) by (auto simp: cloner_Next_def logdb_Head_def)
  qed (use assms(3,4) in \<open>auto simp: cloner_Next_def logdb_Head_def ErrNoDataFound_def split: if_splits\<close>)
  then show ?thesis using True by simp
next
  case False
  then have ne: "lv d 0 \<noteq> None" using assms(1) by (simp add: prefix_of_log_def)
  then have "cd_MaxLeaf D d \<noteq> Inl ErrNoRows" using no_rows [of d 0] by auto
  moreover have "cd_MaxLeaf D d \<noteq> Inr None" using ne no_rows [of d 0] by auto
  ultimately obtain m where m: "cd_MaxLeaf D d = Inr (Some m)"
    using assms(3,4) by (cases "cd_MaxLeaf D d") (auto simp: cloner_Next_def logdb_Head_def ErrNoDataFound_def wrapf_def split: if_splits option.splits)
  have "unat m < n" "\<forall>i > unat m. n \<le> i" using max_row [OF m] assms(1) by (auto simp: prefix_of_log_def not_less split: if_splits)
  then have mn: "unat m + 1 = n" by (metis Suc_eq_plus1 lessI le_antisym Suc_leI)
  have "nx = m + 1" using assms(3,4) m by (simp add: cloner_Next_def logdb_Head_def)
  then show ?thesis using mn assms(2) by (simp add: unat_Suc_u64)
qed

end

subsection \<open>Clone beside the download\<close>

text \<open>The parameters of a call, and what the download has sent while the context is live.\<close>

abbreviation clone_params :: "('d, 't) Cloner \<Rightarrow> u64 \<Rightarrow> u64 \<Rightarrow> bool" where
  "clone_params c nx T \<equiv> bulk_params nx T (c_workers c) (c_fetchBatchSize c)"

definition reader_inv :: "('d, 't) Cloner \<Rightarrow> BatchFetch \<Rightarrow> (nat \<Rightarrow> bytes) \<Rightarrow> u64 \<Rightarrow> u64 \<Rightarrow> 'd clone_state \<Rightarrow> bool" where
  "reader_inv c bf leaf nx T s \<longleftrightarrow> \<not> b_done (cl_bulk s) \<longrightarrow>
     bulk_inv bf leaf (unat nx) (unat (c_fetchBatchSize c)) (unat (c_workers c)) (unat T) (cl_bulk s) \<and>
     cl_read s \<le> length (b_rc (cl_bulk s))"

lemma bulk_step_rc: "bulk_step bf T batch inc lst room b b' \<Longrightarrow> \<exists>xs. b_rc b' = b_rc b @ xs"
  by (erule bulk_stepE) auto

lemma clone_params_run:
  "clone_params c nx T \<Longrightarrow> bulk_run T (c_fetchBatchSize c) (c_workers c * c_fetchBatchSize c)
     (if c_fetchBatchSize c < T then T - c_fetchBatchSize c else 0) (unat nx) (unat (c_fetchBatchSize c)) (unat (c_workers c)) (unat T)"
  by (intro bulk_runI) (simp_all add: bulk_params_def)

lemma rc_next_read: "rc_next s = Some r \<Longrightarrow> cl_ret s = None \<and> cl_read s < length (b_rc (cl_bulk s)) \<and> r = b_rc (cl_bulk s) ! cl_read s"
  by (simp add: rc_next_def split: if_splits)

lemma clone_step_done: "\<lbrakk>clone_step c T bf s s'; b_done (cl_bulk s)\<rbrakk> \<Longrightarrow> b_done (cl_bulk s')"
  by (erule clone_stepE) (auto simp: Bulk_step_def dest: bulk_step_done)

lemma reader_step:
  assumes "clone_params c nx T" "batch_sound leaf bf" "clone_step c T bf s s'" "reader_inv c bf leaf nx T s"
  shows "reader_inv c bf leaf nx T s'"
  unfolding reader_inv_def
proof (intro impI)
  assume live: "\<not> b_done (cl_bulk s')"
  then have "\<not> b_done (cl_bulk s)" using clone_step_done [OF assms(3)] by blast
  then have inv: "bulk_inv bf leaf (unat nx) (unat (c_fetchBatchSize c)) (unat (c_workers c)) (unat T) (cl_bulk s)" "cl_read s \<le> length (b_rc (cl_bulk s))"
    using assms(4) by (auto simp: reader_inv_def)
  show "bulk_inv bf leaf (unat nx) (unat (c_fetchBatchSize c)) (unat (c_workers c)) (unat T) (cl_bulk s') \<and> cl_read s' \<le> length (b_rc (cl_bulk s'))"
    using assms(3)
  proof cases
    case (download b)
    note st = download(2) [unfolded Bulk_step_def]
    have "bulk_inv bf leaf (unat nx) (unat (c_fetchBatchSize c)) (unat (c_workers c)) (unat T) b"
      using bulk_step_inv [OF clone_params_run [OF assms(1)] assms(2) st _ inv(1)] live download(1) by simp
    then show ?thesis using download(1) inv(2) bulk_step_rc [OF st] by auto
  qed (use inv in \<open>auto simp: bulk_inv_done dest!: rc_next_read\<close>)
qed

lemma reader_start: "clone_params c nx T \<Longrightarrow> reader_inv c bf leaf nx T (clone_start c d nx)"
  using bulk_start_inv [of "c_workers c" nx T bf leaf "c_fetchBatchSize c"] by (simp add: reader_inv_def clone_start_def bulk_params_def)

lemma reader_run:
  assumes "clone_params c nx T" "batch_sound leaf bf" "(clone_step c T bf)\<^sup>*\<^sup>* s s'" "reader_inv c bf leaf nx T s"
  shows "reader_inv c bf leaf nx T s'"
  using assms(3,4) by (induction rule: rtranclp_induct) (auto intro: reader_step [OF assms(1,2)])

text \<open>The next result while the context is live: a leaf is the one expected, and a closed channel without an error has
  given all.\<close>

lemma reader_next:
  assumes "clone_params c nx T" "reader_inv c bf leaf nx T s" "\<not> b_done (cl_bulk s)"
  shows "rc_next s = Some (Inr l) \<Longrightarrow> unat nx + cl_read s < unat T \<and> l = leaf (unat nx + cl_read s)"
    and "rc_end s \<Longrightarrow> (\<forall>e. Inl e \<notin> set (take (cl_read s) (b_rc (cl_bulk s)))) \<Longrightarrow> unat nx + cl_read s = unat T"
proof -
  have "unat nx < unat T" using assms(1) by (simp add: bulk_params_def)
  then obtain n where n: "unat nx \<le> n" "n \<le> unat T" and rc: "b_rc (cl_bulk s) = sent leaf (unat nx) n \<and> (b_pc (cl_bulk s) = Closed \<longrightarrow> n = unat T) \<or>
      (\<exists>e. b_rc (cl_bulk s) = sent leaf (unat nx) n @ [Inl e])"
    using bulk_inv_sent [of bf leaf "unat nx" _ _ "unat T" "cl_bulk s"] assms(2,3) unfolding reader_inv_def by blast
  show "unat nx + cl_read s < unat T \<and> l = leaf (unat nx + cl_read s)" if "rc_next s = Some (Inr l)"
  proof -
    have r: "cl_read s < length (b_rc (cl_bulk s))" "b_rc (cl_bulk s) ! cl_read s = Inr l" using rc_next_read [OF that] by simp_all
    then have "cl_read s < n - unat nx" "sent leaf (unat nx) n ! cl_read s = Inr l"
      using rc by (auto simp: nth_append split: if_splits)
    then show ?thesis using n by (simp add: sent_def)
  qed
  show "unat nx + cl_read s = unat T" if "rc_end s" "\<forall>e. Inl e \<notin> set (take (cl_read s) (b_rc (cl_bulk s)))"
    using that rc n by (auto simp: rc_end_def)
qed

subsubsection \<open>Clone returns\<close>

definition clone_measure :: "u64 \<Rightarrow> u64 \<Rightarrow> 'd clone_state \<Rightarrow> nat" where
  "clone_measure nx T s = bulk_measure (unat nx) (unat T) (cl_bulk s) + (length (b_rc (cl_bulk s)) - cl_read s) + (if cl_ret s = None then 1 else 0)"

lemma bulk_measure_done: "bulk_measure F T (b\<lparr>b_done := x\<rparr>) = bulk_measure F T b"
  by (simp add: bulk_measure_def split: bulk_pc.split)

lemma clone_step_measure:
  assumes "clone_params c nx T" "batch_sound leaf bf" "reader_inv c bf leaf nx T s" "clone_step c T bf s s'" "\<not> b_done (cl_bulk s')"
  shows "clone_measure nx T s' < clone_measure nx T s"
  using assms(4)
proof cases
  case (download b)
  have inv: "bulk_inv bf leaf (unat nx) (unat (c_fetchBatchSize c)) (unat (c_workers c)) (unat T) (cl_bulk s)" "cl_read s \<le> length (b_rc (cl_bulk s))"
    using clone_step_done [OF assms(4)] assms(3,5) by (auto simp: reader_inv_def)
  have "bulk_measure (unat nx) (unat T) b + (length (b_rc b) - length (b_rc (cl_bulk s))) < bulk_measure (unat nx) (unat T) (cl_bulk s)"
    using bulk_step_measure [OF clone_params_run [OF assms(1)] assms(2) download(2) [unfolded Bulk_step_def] _ inv(1)] assms(5) download(1) by simp
  then show ?thesis using download(1) inv(2) by (auto simp: clone_measure_def)
qed (auto simp: clone_measure_def bulk_measure_done rc_end_def dest!: rc_next_read split: option.splits)

lemma clone_progress:
  assumes "clone_params c nx T" "reader_inv c bf leaf nx T s" "\<not> b_done (cl_bulk s)" "cl_ret s = None"
  shows "\<exists>s'. clone_step c T bf s s' \<and> \<not> b_done (cl_bulk s')"
proof -
  have inv: "bulk_inv bf leaf (unat nx) (unat (c_fetchBatchSize c)) (unat (c_workers c)) (unat T) (cl_bulk s)" "cl_read s \<le> length (b_rc (cl_bulk s))"
    using assms(2,3) by (auto simp: reader_inv_def)
  consider (some) r where "rc_next s = Some r" | (closed) "rc_end s" | (more) "cl_read s = length (b_rc (cl_bulk s))" "b_pc (cl_bulk s) \<noteq> Closed"
    using inv(2) assms(4) unfolding rc_next_def rc_end_def by (cases "cl_read s < length (b_rc (cl_bulk s))") auto
  then show ?thesis
  proof cases
    case (some r)
    show ?thesis
    proof (cases r)
      case (Inl e)
      then show ?thesis using get_err [of s e c T bf] some assms(3) by fastforce
    next
      case (Inr l)
      consider "unat (c_writeBatchSize c) \<le> length (cl_batch s)" | "length (cl_batch s) + 1 < unat (c_writeBatchSize c)" | "length (cl_batch s) + 1 = unat (c_writeBatchSize c)" by linarith
      then show ?thesis
      proof cases
        case 1 then show ?thesis using get_panic [of s l c T bf] some Inr assms(3) by fastforce
      next
        case 2 then show ?thesis using get_leaf [of s l c T bf] some Inr assms(3) by fastforce
      next
        case 3
        obtain err d where "logdb_WriteLeaves (c_db c) False False (cl_db s) (cl_bs s) (cl_batch s @ [l]) = (err, d)" by fastforce
        then show ?thesis using get_full [of s l c False False err d T bf] 3 some Inr assms(3) by fastforce
      qed
    qed
  next
    case closed
    obtain err d where "logdb_WriteLeaves (c_db c) False False (cl_db s) (cl_bs s) (cl_batch s) = (err, d)" by fastforce
    then show ?thesis using end_empty [OF closed, of c T bf] end_write [OF closed, of False False c err d T bf] assms(3) by (cases "cl_batch s = []") fastforce+
  next
    case more
    then have "rc_room c s" by (simp add: rc_room_def)
    then show ?thesis using bulk_progress [OF clone_params_run [OF assms(1)] inv(1) more(2)] download [of T bf c s] assms(3)
      unfolding Bulk_step_def by fastforce
  qed
qed

lemma clone_returns:
  "\<lbrakk>clone_params c nx T; batch_sound leaf bf; reader_inv c bf leaf nx T s; \<not> b_done (cl_bulk s)\<rbrakk> \<Longrightarrow>
    \<exists>s'. (clone_step c T bf)\<^sup>*\<^sup>* s s' \<and> cl_ret s' \<noteq> None \<and> \<not> b_done (cl_bulk s')"
proof (induction "clone_measure nx T s" arbitrary: s rule: less_induct)
  case less
  show ?case
  proof (cases "cl_ret s = None")
    case True
    then obtain s1 where s1: "clone_step c T bf s s1" "\<not> b_done (cl_bulk s1)" using clone_progress less.prems by blast
    obtain s' where "(clone_step c T bf)\<^sup>*\<^sup>* s1 s'" "cl_ret s' \<noteq> None" "\<not> b_done (cl_bulk s')"
      using less.hyps [OF clone_step_measure [OF less.prems(1-3) s1] less.prems(1,2) reader_step [OF less.prems(1,2) s1(1) less.prems(3)] s1(2)] by blast
    then show ?thesis using s1(1) by (meson converse_rtranclp_into_rtranclp)
  qed (use less.prems in blast)
qed

text \<open>C33: \<open>Clone\<close> returns, however the main loop, the download and its workers interleave and whatever fetches and writes fail: as long as
  the context is not cancelled, some step is possible until it has returned (no deadlock on the bounded channel), every step of
  any of them makes a measure smaller, and the run can be completed.\<close>

theorem Clone_terminates:
  assumes "clone_params c nx T" "batch_sound leaf bf" "(clone_step c T bf)\<^sup>*\<^sup>* (clone_start c d nx) s" "\<not> b_done (cl_bulk s)"
  shows "(cl_ret s \<noteq> None \<or> (\<exists>s'. clone_step c T bf s s' \<and> \<not> b_done (cl_bulk s'))) \<and>
    (\<forall>s'. clone_step c T bf s s' \<and> \<not> b_done (cl_bulk s') \<longrightarrow> clone_measure nx T s' < clone_measure nx T s) \<and>
    (\<exists>s'. (clone_step c T bf)\<^sup>*\<^sup>* s s' \<and> cl_ret s' \<noteq> None \<and> \<not> b_done (cl_bulk s'))"
proof -
  note inv = reader_run [OF assms(1-3) reader_start [OF assms(1)]]
  show ?thesis using clone_progress [OF assms(1) inv assms(4)] clone_step_measure [OF assms(1,2) inv] clone_returns [OF assms(1,2) inv assms(4)] by blast
qed

subsubsection \<open>What Clone leaves in the database\<close>

text \<open>\<open>Q n\<close> is a property of the table up to leaf \<open>n\<close>.  While the context is live, the leaves from the start of the write buffer
  on are in the buffer; once it is done, nothing is written any more.\<close>

definition clone_inv ::
    "(nat \<Rightarrow> (nat \<Rightarrow> bytes option) \<Rightarrow> bool) \<Rightarrow> ('d \<Rightarrow> nat \<Rightarrow> bytes option) \<Rightarrow> (nat \<Rightarrow> bytes) \<Rightarrow> u64 \<Rightarrow> u64 \<Rightarrow> 'd clone_state \<Rightarrow> bool" where
  "clone_inv Q lv leaf nx T s \<longleftrightarrow>
     (\<exists>m \<ge> unat nx. m \<le> unat T \<and> Q m (lv (cl_db s)) \<and> (cl_ret s = Some None \<and> \<not> b_done (cl_bulk s) \<longrightarrow> m = unat T)) \<and>
     (cl_ret s = None \<and> \<not> b_done (cl_bulk s) \<longrightarrow>
        unat (cl_next s) = unat nx + cl_read s \<and> unat nx + cl_read s \<le> unat T \<and> unat nx \<le> unat (cl_bs s) \<and> unat (cl_bs s) \<le> unat (cl_next s) \<and>
        cl_batch s = map leaf [unat (cl_bs s)..<unat (cl_next s)] \<and> Q (unat (cl_bs s)) (lv (cl_db s)) \<and>
        (\<forall>e. Inl e \<notin> set (take (cl_read s) (b_rc (cl_bulk s)))))"

text \<open>A step that writes nothing and does not return success.\<close>

lemma clone_inv_same:
  assumes "clone_inv Q lv leaf nx T s" "cl_db s' = cl_db s" "cl_ret s' \<noteq> None" "cl_ret s' = Some None \<and> \<not> b_done (cl_bulk s') \<longrightarrow> cl_ret s = Some None \<and> \<not> b_done (cl_bulk s)"
  shows "clone_inv Q lv leaf nx T s'"
  using assms unfolding clone_inv_def by auto

lemma clone_inv_db:
  assumes "Q m (lv (cl_db s))" "unat nx \<le> m" "m \<le> unat T" "cl_ret s = Some None \<Longrightarrow> \<not> b_done (cl_bulk s) \<Longrightarrow> m = unat T" "cl_ret s \<noteq> None \<or> b_done (cl_bulk s)"
  shows "clone_inv Q lv leaf nx T s"
  using assms unfolding clone_inv_def by blast

text \<open>The leaf that is read next goes to the end of the buffer.\<close>

lemma clone_inv_read:
  assumes "clone_inv Q lv leaf nx T s" "\<not> b_done (cl_bulk s)" "rc_next s = Some (Inr l)" "clone_params c nx T" "reader_inv c bf leaf nx T s"
  shows "unat (cl_next s + 1) = unat (cl_next s) + 1" "cl_batch s @ [l] = map leaf [unat (cl_bs s)..<unat (cl_next s + 1)]"
    "unat nx + (cl_read s + 1) \<le> unat T" "\<forall>e. Inl e \<notin> set (take (cl_read s + 1) (b_rc (cl_bulk s)))"
proof -
  have r: "cl_ret s = None" "cl_read s < length (b_rc (cl_bulk s))" "b_rc (cl_bulk s) ! cl_read s = Inr l" using rc_next_read [OF assms(3)] by simp_all
  note rd = reader_next(1) [OF assms(4,5,2,3)]
  have i: "unat (cl_next s) = unat nx + cl_read s" "unat (cl_bs s) \<le> unat (cl_next s)" "cl_batch s = map leaf [unat (cl_bs s)..<unat (cl_next s)]"
      "\<forall>e. Inl e \<notin> set (take (cl_read s) (b_rc (cl_bulk s)))"
    using assms(1,2) r(1) by (auto simp: clone_inv_def)
  then show "unat (cl_next s + 1) = unat (cl_next s) + 1" using conjunct1 [OF rd] unat_lt_u64 [of T] by (intro unat_Suc_u64) linarith
  then show "cl_batch s @ [l] = map leaf [unat (cl_bs s)..<unat (cl_next s + 1)]" using i(1-3) rd by simp
  show "unat nx + (cl_read s + 1) \<le> unat T" using rd by simp
  show "\<forall>e. Inl e \<notin> set (take (cl_read s + 1) (b_rc (cl_bulk s)))" using i(4) r(2,3) by (simp add: take_Suc_conv_app_nth)
qed

context leaf_table
begin

lemma clone_write:
  assumes "write_law D lv leaf Q" "Q (unat bs) (lv d)" "unat bs \<le> k" "k < 2 ^ 64"
    "logdb_WriteLeaves D ctx0 ctx1 d bs (map leaf [unat bs..<k]) = (err, d')"
  shows "Q k (lv d') \<or> err \<noteq> None \<and> Q (unat bs) (lv d')"
proof -
  have "unat bs + (k - unat bs) = k" using assms(3) by simp
  then show ?thesis using assms(1,2,4,5) unfolding write_law_def by metis
qed

lemma clone_step_inv:
  assumes c: "c_db c = D" "clone_params c nx T" and law: "write_law D lv leaf Q"
    and r: "reader_inv c bf leaf nx T s" and step: "clone_step c T bf s s'" and inv: "clone_inv Q lv leaf nx T s"
  shows "clone_inv Q lv leaf nx T s'"
  using step
proof cases
  case (download b)
  obtain xs where xs: "b_rc b = b_rc (cl_bulk s) @ xs" using bulk_step_rc download(2) unfolding Bulk_step_def by blast
  have dn: "\<not> b_done b \<Longrightarrow> \<not> b_done (cl_bulk s)" using bulk_step_done download(2) unfolding Bulk_step_def by blast
  then have "\<not> b_done b \<Longrightarrow> take (cl_read s) (b_rc b) = take (cl_read s) (b_rc (cl_bulk s))" using xs r by (simp add: reader_inv_def)
  then show ?thesis using inv download(1) dn by (auto simp: clone_inv_def)
next
  case (get_leaf l)
  show ?thesis
  proof (cases "b_done (cl_bulk s)")
    case True
    then show ?thesis using inv get_leaf rc_next_read [OF get_leaf(2)] by (auto simp: clone_inv_def)
  next
    case False
    note rd = clone_inv_read [OF inv False get_leaf(2) c(2) r]
    show ?thesis using inv False get_leaf(1) rd rc_next_read [OF get_leaf(2)] by (auto simp: clone_inv_def)
  qed
next
  case (get_full l ctx0 ctx1 err d)
  have ret: "cl_ret s = None" using rc_next_read [OF get_full(2)] by simp
  show ?thesis
  proof (cases "b_done (cl_bulk s)")
    case True
    then have "err \<noteq> None \<and> lv d = lv (cl_db s)" using WriteLeaves_done [of ctx1 "cl_db s" "cl_bs s" _ err d] get_full(4,6) c(1) by auto
    then show ?thesis using inv get_full(1) by (auto simp: clone_inv_def)
  next
    case False
    note rd = clone_inv_read [OF inv False get_full(2) c(2) r]
    have i: "unat (cl_next s) = unat nx + cl_read s" "unat nx \<le> unat (cl_bs s)" "unat (cl_bs s) \<le> unat (cl_next s)" "Q (unat (cl_bs s)) (lv (cl_db s))"
      using inv False ret by (auto simp: clone_inv_def)
    have q: "Q (unat (cl_next s + 1)) (lv d) \<or> err \<noteq> None \<and> Q (unat (cl_bs s)) (lv d)"
      using clone_write [OF law i(4) _ unat_lt_u64 get_full(6) [unfolded c(1) rd(2)]] i(3) rd(1) by simp
    have b: "unat nx \<le> unat (cl_next s + 1)" "unat (cl_next s + 1) \<le> unat T" "unat (cl_bs s) \<le> unat T" using i rd(1,3) by simp_all
    show ?thesis
    proof (cases err)
      case None
      then have "\<not> ctx1" using WriteLeaves_live get_full(6) c(1) by blast
      moreover have "\<exists>m \<ge> unat nx. m \<le> unat T \<and> Q m (lv d)" using q None b by blast
      ultimately show ?thesis using q None get_full(1) i rd b by (auto simp: clone_inv_def)
    next
      case (Some e)
      then show ?thesis using q get_full(1) i(2) b by (auto simp: clone_inv_def)
    qed
  qed
next
  case end_empty
  show ?thesis
  proof (cases "b_done (cl_bulk s)")
    case True
    then show ?thesis using inv end_empty(1) by (auto simp: clone_inv_def)
  next
    case False
    have i: "unat (cl_next s) = unat nx + cl_read s" "unat nx \<le> unat (cl_bs s)" "unat (cl_bs s) \<le> unat (cl_next s)" "cl_batch s = map leaf [unat (cl_bs s)..<unat (cl_next s)]"
        "Q (unat (cl_bs s)) (lv (cl_db s))" "\<forall>e. Inl e \<notin> set (take (cl_read s) (b_rc (cl_bulk s)))"
      using inv False end_empty(2) by (auto simp: clone_inv_def rc_end_def)
    have "unat nx + cl_read s = unat T" using reader_next(2) [OF c(2) r False end_empty(2) i(6)] .
    then have "unat (cl_bs s) = unat T" using i(1,3,4) end_empty(3) by auto
    then show ?thesis using i(2,5) end_empty(1) by (intro clone_inv_db [of Q "unat T"]) simp_all
  qed
next
  case (end_write ctx0 ctx1 err d)
  show ?thesis
  proof (cases "b_done (cl_bulk s)")
    case True
    then have "err \<noteq> None \<and> lv d = lv (cl_db s)" using WriteLeaves_done [of ctx1 "cl_db s" "cl_bs s" _ err d] end_write(4,6) c(1) by auto
    then show ?thesis using inv end_write(1) by (auto simp: clone_inv_def)
  next
    case False
    have i: "unat (cl_next s) = unat nx + cl_read s" "unat nx \<le> unat (cl_bs s)" "unat (cl_bs s) \<le> unat (cl_next s)" "cl_batch s = map leaf [unat (cl_bs s)..<unat (cl_next s)]"
        "Q (unat (cl_bs s)) (lv (cl_db s))" "\<forall>e. Inl e \<notin> set (take (cl_read s) (b_rc (cl_bulk s)))"
      using inv False end_write(2) by (auto simp: clone_inv_def rc_end_def)
    have t: "unat (cl_next s) = unat T" using reader_next(2) [OF c(2) r False end_write(2) i(6)] i(1) by simp
    have "Q (unat (cl_next s)) (lv d) \<or> err \<noteq> None \<and> Q (unat (cl_bs s)) (lv d)"
      using clone_write [OF law i(5,3) unat_lt_u64 end_write(6) [unfolded c(1) i(4)]] .
    then have "\<exists>m \<ge> unat nx. m \<le> unat T \<and> Q m (lv d) \<and> (err = None \<longrightarrow> m = unat T)" using i(2,3) t by (metis order_refl le_trans)
    then show ?thesis using end_write(1) by (auto simp: clone_inv_def)
  qed
qed (use inv in \<open>auto intro: clone_inv_same\<close>)

lemma clone_run_inv:
  assumes "c_db c = D" "clone_params c nx T" "batch_sound leaf bf" "write_law D lv leaf Q" "Q (unat nx) (lv d)"
    "(clone_step c T bf)\<^sup>*\<^sup>* (clone_start c d nx) s"
  shows "clone_inv Q lv leaf nx T s"
  using assms(6)
proof (induction rule: rtranclp_induct)
  case base
  show ?case using assms(2,5) by (auto simp: clone_inv_def clone_start_def bulk_params_def)
next
  case (step y z)
  then show ?case using clone_step_inv [OF assms(1,2,4) reader_run [OF assms(2,3) step(1) reader_start [OF assms(2)]]] by blast
qed

text \<open>A whole call of \<open>Clone\<close>.\<close>

lemma Clone_inv:
  assumes "c_db c = D" "batch_sound leaf bf" "write_law D lv leaf Q" "cloner_Clone G c d T bf dn err d'"
    "0 < unat (c_workers c)" "0 < unat (c_fetchBatchSize c)" "unat T + unat (c_workers c) * unat (c_fetchBatchSize c) < 2 ^ 64"
  shows "d' = d \<and> err \<noteq> None \<or> (\<exists>nx. cloner_Next c d = Inr nx \<and>
    (d' = d \<and> unat T \<le> unat nx \<or> (Q (unat nx) (lv d) \<longrightarrow> (\<exists>m \<ge> unat nx. m \<le> unat T \<and> Q m (lv d') \<and> (err = None \<and> \<not> dn \<longrightarrow> m = unat T)))))"
proof (cases "cloner_Next c d")
  case (Inl e)
  then show ?thesis using assms(4) by (simp add: cloner_Clone_def)
next
  case (Inr nx)
  consider (old) "T \<le> nx" "d' = d" | (bad) "d' = d" "err \<noteq> None"
    | (run) s where "nx < T" "(clone_step c T bf)\<^sup>*\<^sup>* (clone_start c d nx) s" "cl_ret s = Some err" "cl_db s = d'" "b_done (cl_bulk s) = dn"
    using assms(4) Inr by (auto simp: cloner_Clone_def Let_def not_le split: if_splits option.splits)
  then show ?thesis
  proof cases
    case old
    then show ?thesis using Inr by (auto simp: word_le_nat_alt)
  next
    case bad
    then show ?thesis by blast
  next
    case (run s)
    have "clone_params c nx T" using assms(5-7) run(1) by (simp add: bulk_params_def word_less_nat_alt)
    then have "clone_inv Q lv leaf nx T s" if "Q (unat nx) (lv d)" using clone_run_inv [OF assms(1) _ assms(2,3) that run(2)] by blast
    then show ?thesis using Inr run(3-5) unfolding clone_inv_def by blast
  qed
qed

end

text \<open>C18: A run of \<open>Clone\<close>, however it interleaves with the download, whatever fetches and writes fail and whenever its context is cancelled,
  keeps every row of the database a leaf of the log at its index.  If no insert fails (\<open>WriteLeaves\<close> drops their errors), a database that
  held the first leaves of the log with no gap holds them again, at least those it held before, and without a cancellation
  the call returns no error only if the database reaches the tree size it was asked for or already held more.\<close>

theorem Clone_keeps_prefix:
  assumes "leaf_table (c_db c) lv pend" "batch_sound leaf fetcher"
    "0 < unat (c_workers c)" "0 < unat (c_fetchBatchSize c)"
    "unat T + unat (c_workers c) * unat (c_fetchBatchSize c) < 2 ^ 64"
    "cloner_Clone G c d T fetcher dn err d'"
  shows "(rows_right leaf (lv d) \<longrightarrow> rows_right leaf (lv d')) \<and>
    (\<forall>n < 2 ^ 64. prefix_of_log leaf n (lv d) \<and> inserts_ok (c_db c) lv pend \<longrightarrow>
       (\<exists>m \<ge> n. m \<le> max n (unat T) \<and> prefix_of_log leaf m (lv d') \<and> (err = None \<and> \<not> dn \<longrightarrow> m = max n (unat T))))"
proof (intro conjI impI allI)
  note I = leaf_table.Clone_inv [OF assms(1) refl assms(2) _ assms(6,3-5)]
  show "rows_right leaf (lv d')" if "rows_right leaf (lv d)"
    using I [OF leaf_table.WriteLeaves_rows [OF assms(1)]] that by auto
  fix n :: nat assume n: "n < 2 ^ 64" and p: "prefix_of_log leaf n (lv d) \<and> inserts_ok (c_db c) lv pend"
  have nx: "unat nx = n" if "cloner_Next c d = Inr nx" for nx using leaf_table.Next_prefix [OF assms(1) conjunct1 [OF p] n that refl] .
  consider "d' = d" "err \<noteq> None" | "d' = d" "unat T \<le> n" | m where "n \<le> m" "m \<le> unat T" "prefix_of_log leaf m (lv d')" "err = None \<and> \<not> dn \<longrightarrow> m = unat T"
    using I [OF leaf_table.WriteLeaves_prefix [OF assms(1) conjunct2 [OF p]]] nx p by metis
  then show "\<exists>m \<ge> n. m \<le> max n (unat T) \<and> prefix_of_log leaf m (lv d') \<and> (err = None \<and> \<not> dn \<longrightarrow> m = max n (unat T))"
    using p by cases (auto intro: exI [of _ n])
qed
text \<open>The error of an insert is lost: \<open>WriteLeaves\<close> reports success though nothing was written.\<close>

lemma insert_leaves_failing:
  "(\<And>i l. cd_InsertLeaf D d tx i l = (Some e, tx)) \<Longrightarrow> insert_leaves D d tx start ls = tx"
  by (induction ls arbitrary: start) simp_all

theorem WriteLeaves_drops_insert_errors:
  assumes "cd_BeginTx D False d = Inr tx" "\<And>i l. cd_InsertLeaf D d tx i l = (Some e, tx)" "cd_Commit D False d tx = (None, d)"
  shows "logdb_WriteLeaves D False False d start ls = (None, d)"
  using assms(1,3) insert_leaves_failing [OF assms(2), of start ls] by (simp add: logdb_WriteLeaves_def)

subsection \<open>The root of the stored leaves\<close>

text \<open>The hashes of the leaves and the checkpoint in the database: absent, or with the range of its
  size.\<close>

definition cr_hashes :: "'r compact \<Rightarrow> hash_fn \<Rightarrow> (nat \<Rightarrow> bytes) \<Rightarrow> u64 \<Rightarrow> bytes list" where
  "cr_hashes C hc lf sz = map (\<lambda>(l, i). node_hash hc lf (unat l) (unat i)) (RangeNodes C 0 sz)"

definition checkpoint_ok :: "gob_lib \<Rightarrow> ('d, 't) clone_db \<Rightarrow> 'r compact \<Rightarrow> hash_fn \<Rightarrow> (nat \<Rightarrow> bytes) \<Rightarrow> 'd \<Rightarrow> bool" where
  "checkpoint_ok G D C hc lf d \<longleftrightarrow>
     (case logdb_GetLatestCheckpoint D G d of
        Inl e \<Rightarrow> e = ErrNoDataFound
      | Inr (sz, raw, crs) \<Rightarrow> crs = cr_hashes C hc lf sz)"

definition leaves_from :: "('d, 't) clone_db \<Rightarrow> (nat \<Rightarrow> bytes) \<Rightarrow> u64 \<Rightarrow> 'd \<Rightarrow> bool" where
  "leaves_from D leaf sz d \<longleftrightarrow>
     (\<forall>a \<le> sz. cd_SelectLeaves D d a sz = Inr (map (Inr \<circ> leaf) [unat a..<unat sz]))"

lemma append_leaves_rep:
  assumes "compact_range (lv_rf v) hc rep"
  shows "\<lbrakk>rep cr (\<lambda>i. lv_lh v (of_nat i) (leaf i)) 0 (unat a); unat a + k < 2 ^ 64\<rbrakk> \<Longrightarrow>
     \<exists>cr'. append_leaves v cr a (map leaf [unat a..<unat a + k]) = (cr', a + of_nat k) \<and>
       rep cr' (\<lambda>i. lv_lh v (of_nat i) (leaf i)) 0 (unat a + k)"
proof (induction k arbitrary: cr a)
  case (Suc k)
  let ?lf = "\<lambda>i. lv_lh v (of_nat i) (leaf i)"
  have a1: "unat (a + 1) = unat a + 1" using Suc.prems(2) by (intro unat_Suc_u64) simp
  obtain r1 vs where r1: "Append (lv_rf v) cr (lv_lh v a (leaf (unat a))) = (r1, vs)" by fastforce
  then have "rep r1 ?lf 0 (unat (a + 1))"
    using compact_range.append_rep [OF assms Suc.prems(1), of r1 vs] Suc.prems(2) unfolding a1 by simp
  then obtain cr' where "append_leaves v r1 (a + 1) (map leaf [unat (a + 1)..<unat (a + 1) + k]) = (cr', a + 1 + of_nat k)"
      "rep cr' ?lf 0 (unat (a + 1) + k)"
    using Suc.IH [of r1 "a + 1"] Suc.prems(2) unfolding a1 by auto
  moreover have "[unat a..<unat a + Suc k] = unat a # [unat (a + 1)..<unat (a + 1) + k]"
    unfolding a1 by (simp add: upt_conv_Cons del: upt_Suc)
  ultimately show ?case using r1 unfolding a1 by (simp add: algebra_simps del: upt_Suc)
qed simp

lemma verifier_start_rep:
  assumes "compact_range (lv_rf v) hc rep" "checkpoint_ok G (lv_db v) (lv_rf v) hc lf d"
  shows "\<exists>cr from. verifier_start G v d sz = Inr (cr, from) \<and> from \<le> sz \<and> rep cr lf 0 (unat from)"
proof (cases "logdb_GetLatestCheckpoint (lv_db v) G d")
  case (Inl e)
  then show ?thesis using assms(2) compact_range.new_empty [OF assms(1), of 0 lf]
    by (simp add: verifier_start_def checkpoint_ok_def)
next
  case (Inr x)
  then obtain cs raw where x: "logdb_GetLatestCheckpoint (lv_db v) G d = Inr (cs, raw, cr_hashes (lv_rf v) hc lf cs)"
    using assms(2) by (cases x) (auto simp: checkpoint_ok_def)
  then show ?thesis using compact_range.new_range [OF assms(1), of 0 cs lf] compact_range.new_empty [OF assms(1), of 0 lf]
    by (auto simp: verifier_start_def cr_hashes_def)
qed

text \<open>C19: Over a database whose query returns the leaves of the log, and whose last checkpoint, if any,
  carries the compact range of its size, \<open>MerkleRoot\<close> returns exactly the root of the tree over all
  leaves and its compact range, wherever it resumes from.\<close>

theorem MerkleRoot_correct:
  assumes "compact_range (lv_rf v) hc rep" "leaves_from (lv_db v) leaf sz d" "lf = (\<lambda>i. lv_lh v (of_nat i) (leaf i))"
    "checkpoint_ok G (lv_db v) (lv_rf v) hc lf d"
  shows "MerkleRoot G v d sz res \<longleftrightarrow> res = Inr (root_of hc lf (unat sz), cr_hashes (lv_rf v) hc lf sz)"
proof -
  obtain cr a where s: "verifier_start G v d sz = Inr (cr, a)" "a \<le> sz" "rep cr lf 0 (unat a)"
    using verifier_start_rep [OF assms(1,4)] by blast
  have le: "unat a + (unat sz - unat a) = unat sz" using s(2) by (simp add: word_le_nat_alt)
  obtain cr' where cr': "append_leaves v cr a (map leaf [unat a..<unat sz]) = (cr', a + of_nat (unat sz - unat a))" "rep cr' lf 0 (unat sz)"
    using append_leaves_rep [OF assms(1), of cr leaf a "unat sz - unat a"] s(3) unfolding assms(3) le by auto
  have "a + of_nat (unat sz - unat a) = sz" using s(2) by (simp add: word_le_nat_alt of_nat_diff)
  then have "merkle_root_end v sz cr a (Inr (map leaf [unat a..<unat sz])) = Inr (root_of hc lf (unat sz), cr_hashes (lv_rf v) hc lf sz)"
    using cr' compact_range.range_root [OF assms(1) cr'(2) unat_lt_u64] compact_range.hashes_rep [OF assms(1) cr'(2) _ unat_lt_u64]
    by (auto simp: merkle_root_end_def cr_hashes_def)
  moreover have "stream_ends (stream_start (lv_db v) d a sz) r \<longleftrightarrow> r = Inr (map leaf [unat a..<unat sz])" for r
    using assms(2) s(2) by (intro stream_ends_iff) (simp add: leaves_from_def)
  ultimately show ?thesis using s(1) by (simp add: MerkleRoot_def)
qed

end
