(* ===== verification/CloneExamples.thy ===== *)
theory CloneExamples
  imports CloneProofs
begin

section \<open>A small clone\<close>

text \<open>A database of leaves as an association list, which satisfies \<open>leaf_table\<close>, and the properties of the
  cloner at concrete inputs.\<close>

type_synonym leaf_rows = "(u64 \<times> bytes) list"

definition mem_db :: "(leaf_rows, leaf_rows) clone_db" where
  "mem_db =
     \<lparr>cd_CreateLeaves = (\<lambda>d. (None, d)), cd_CreateCheckpoints = (\<lambda>d. (None, d)), cd_BeginTx = (\<lambda>ctx d. if ctx then Inl ErrContextCanceled else Inr []),
      cd_MaxSize = (\<lambda>d t. Inl ErrNoRows), cd_InsertCheckpoint = (\<lambda>d t sz cp srs. (Some ErrIO, t)),
      cd_InsertLeaf = (\<lambda>d t i l. if i \<in> fst ` set d \<or> i \<in> fst ` set t then (Some ErrExist, t) else (None, t @ [(i, l)])),
      cd_Commit = (\<lambda>ctx d t. if ctx then (Some ErrContextCanceled, d) else (None, t @ d)), cd_Latest = (\<lambda>d. Inl ErrNoRows),
      cd_SelectLeaves = (\<lambda>d a b. Inr (map (Inr \<circ> snd) (sort_key fst (filter (\<lambda>(i, l). a \<le> i \<and> i < b) d)))),
      cd_MaxLeaf = (\<lambda>d. Inr (if d = [] then None else Some (Max (set (map fst d)))))\<rparr>"

definition mem_rows :: "leaf_rows \<Rightarrow> (nat \<times> bytes) list" where
  "mem_rows d = map (\<lambda>(i, l). (unat i, l)) d"

lemma mem_rows_keys: "unat i \<in> fst ` set (mem_rows d) \<longleftrightarrow> i \<in> fst ` set d"
  by (induction d) (auto simp: mem_rows_def word_unat_eq_iff)

lemma mem_rows_lookup: "map_of (mem_rows d) (unat i) = map_of d i"
  by (induction d) (auto simp: mem_rows_def word_unat_eq_iff)

lemma mem_rows_append: "mem_rows (d @ t) = mem_rows d @ mem_rows t"
  by (simp add: mem_rows_def)

lemma mem_rows_dom: "map_of (mem_rows d) j \<noteq> None \<Longrightarrow> \<exists>i \<in> fst ` set d. j = unat i"
  by (induction d) (auto simp: mem_rows_def split: if_splits)

interpretation mem: leaf_table mem_db "\<lambda>d. map_of (mem_rows d)" mem_rows
proof (unfold_locales, goal_cases)
  case (1 ctx d t)
  then show ?case by (simp add: mem_db_def mem_rows_def split: if_splits)
next
  case (2 d t i l t')
  then show ?case by (auto simp: mem_db_def mem_rows_def split: if_splits)
next
  case (3 d t i l e t')
  then show ?case by (auto simp: mem_db_def split: if_splits)
next
  case (4 ctx d t d')
  then have "\<not> ctx \<and> d' = t @ d" by (simp add: mem_db_def split: if_splits)
  then show ?case by (simp add: mem_rows_append)
next
  case (5 ctx d t e d')
  then show ?case by (simp add: mem_db_def split: if_splits)
next
  case (6 d j)
  then show ?case by (auto simp: mem_db_def mem_rows_def split: if_splits)
next
  case (7 d m)
  then have m: "d \<noteq> []" "m = Max (set (map fst d))" by (auto simp: mem_db_def split: if_splits)
  then have "m \<in> set (map fst d)" "\<And>i. i \<in> fst ` set d \<Longrightarrow> i \<le> m" by (simp_all del: set_map) auto
  then have top_row: "m \<in> fst ` set d" "\<And>i. i \<in> fst ` set d \<Longrightarrow> unat i \<le> unat m" by (simp_all add: word_le_nat_alt)
  then have "map_of (mem_rows d) (unat m) \<noteq> None" by (simp add: mem_rows_lookup map_of_eq_None_iff)
  moreover have "map_of (mem_rows d) j = None" if "unat m < j" for j
    using mem_rows_dom [of d j] top_row(2) that by fastforce
  ultimately show ?case by blast
qed

definition demo_leaf :: "nat \<Rightarrow> bytes" where
  "demo_leaf i = replicate i (CHR ''x'')"

definition demo_batch :: BatchFetch where
  "demo_batch start n = Inr (map demo_leaf [unat start..<unat start + n])"

lemma demo_batch_sound: "batch_sound demo_leaf demo_batch"
  by (simp add: batch_sound_def demo_batch_def)

lemma demo_params: "bulk_params 0 3 2 1"
  by (simp add: bulk_params_def)

text \<open>The first batch of three leaves, received and sent by a download with two workers.\<close>

definition demo_bulk :: bulk_state where
  "demo_bulk = \<lparr>b_done = False, b_workers = [Some 2, Some 1], b_pc = Emit 0 0 [], b_rc = [Inr (demo_leaf 0)]\<rparr>"

lemma demo_Bulk: "Bulk_run 3 demo_batch 2 1 (bulk_start 0 2 1) demo_bulk"
proof -
  let ?s = "\<lambda>ws pc rc. \<lparr>b_done = False, b_workers = ws, b_pc = pc, b_rc = rc\<rparr>"
  let ?t = "bulk_step demo_batch 3 1 2 2 True"
  have r: "Bulk_run 3 demo_batch 2 1 s t" if "?t s s'" "Bulk_run 3 demo_batch 2 1 s' t" for s s' t
    by (rule Bulk_run_step [OF _ that(2)]) (use that(1) in simp)
  have wb: "worker_batch demo_batch 3 1 0 = Inr [demo_leaf 0]" by (simp add: worker_batch_def worker_count_def demo_batch_def)
  have start: "bulk_start 0 2 1 = ?s [Some 0, Some 1] (Select 0) []" by (simp add: bulk_start_def upt_rec)
  have "?t (?s [Some 0, Some 1] (Select 0) []) (?s [Some 2, Some 1] (Emit 0 0 [demo_leaf 0]) [])"
    using bulk_step.receive [of "?s [Some 0, Some 1] (Select 0) []" 0 0 3 demo_batch 1 "[demo_leaf 0]" 2 2 True] wb by simp
  moreover have "?t (?s [Some 2, Some 1] (Emit 0 0 [demo_leaf 0]) []) demo_bulk"
    using bulk_step.emit [of "?s [Some 2, Some 1] (Emit 0 0 [demo_leaf 0]) []" 0 0 "demo_leaf 0" "[]" True demo_batch 3 1 2 2] by (simp add: demo_bulk_def)
  ultimately show ?thesis unfolding start using r Bulk_run_refl by blast
qed

theorem Bulk_in_order_witness:
  "\<exists>n \<ge> unat (0 :: u64). n \<le> unat (3 :: u64) \<and>
     (b_rc demo_bulk = sent demo_leaf (unat (0 :: u64)) n \<and> (b_pc demo_bulk = Closed \<longrightarrow> n = unat (3 :: u64)) \<or>
      (\<exists>e. b_rc demo_bulk = sent demo_leaf (unat (0 :: u64)) n @ [Inl e] \<and> b_pc demo_bulk = Closed \<and> \<not> fetches_ok demo_batch))"
  using Bulk_in_order [OF demo_params demo_batch_sound demo_Bulk] by (simp add: demo_bulk_def)

theorem Bulk_terminates_witness:
  "\<exists>s'. Bulk_step 3 demo_batch 2 1 True demo_bulk s' \<and> \<not> b_done s' \<and>
     bulk_measure (unat (0 :: u64)) (unat (3 :: u64)) s' < bulk_measure (unat (0 :: u64)) (unat (3 :: u64)) demo_bulk"
proof -
  have d: "\<not> b_done demo_bulk" "b_pc demo_bulk \<noteq> Closed" by (simp_all add: demo_bulk_def)
  show ?thesis using Bulk_terminates [OF demo_params demo_batch_sound demo_Bulk d(1)] d(2) by blast
qed

theorem Bulk_cancelled_skips_witness:
  "\<exists>s. Bulk_run 2 demo_batch 2 1 (bulk_start 0 2 1) s \<and> b_pc s = Closed \<and> b_rc s = [Inr ''x'']"
proof -
  have "demo_batch 1 1 = Inr [''x'']" by (simp add: demo_batch_def demo_leaf_def)
  from Bulk_cancelled_skips [of demo_batch, OF this] show ?thesis by blast
qed

definition demo_cloner :: "(leaf_rows, leaf_rows) Cloner" where
  "demo_cloner = \<lparr>c_workers = 2, c_fetchBatchSize = 1, c_writeBatchSize = 2, c_db = mem_db\<rparr>"

definition demo_gob :: gob_lib where
  "demo_gob = \<lparr>gob_Encode = (\<lambda>hs. Inr (concat hs)), gob_Decode = (\<lambda>b. Inr (map (\<lambda>x. [x]) b))\<rparr>"

lemma demo_clone_params: "clone_params demo_cloner 0 3"
  by (simp add: demo_cloner_def bulk_params_def)

theorem Clone_terminates_witness:
  "\<exists>s. (clone_step demo_cloner 3 demo_batch)\<^sup>*\<^sup>* (clone_start demo_cloner [] 0) s \<and> cl_ret s \<noteq> None \<and> \<not> b_done (cl_bulk s)"
  using Clone_terminates [OF demo_clone_params demo_batch_sound rtranclp.rtrancl_refl, of "[]"]
  by (simp add: clone_start_def bulk_start_def)

lemma demo_Clone: "\<exists>err d'. cloner_Clone demo_gob demo_cloner [] 3 demo_batch False err d'"
proof -
  obtain s where s: "(clone_step demo_cloner 3 demo_batch)\<^sup>*\<^sup>* (clone_start demo_cloner [] 0) s" "cl_ret s \<noteq> None" "\<not> b_done (cl_bulk s)"
    using clone_returns [OF demo_clone_params demo_batch_sound reader_start [OF demo_clone_params], of "[]"] by (auto simp: clone_start_def bulk_start_def)
  have "cloner_Next demo_cloner [] = Inr 0" "logdb_GetLatestCheckpoint (c_db demo_cloner) demo_gob [] = Inl ErrNoDataFound"
    by (simp_all add: cloner_Next_def logdb_Head_def logdb_GetLatestCheckpoint_def demo_cloner_def mem_db_def)
  then show ?thesis using s by (auto simp: cloner_Clone_def)
qed

lemma mem_inserts_ok: "inserts_ok mem_db (\<lambda>d. map_of (mem_rows d)) mem_rows"
  unfolding inserts_ok_def using mem_rows_keys by (auto simp: mem_db_def map_of_eq_None_iff)

theorem Clone_keeps_prefix_witness:
  "\<exists>err d'. cloner_Clone demo_gob demo_cloner [] 3 demo_batch False err d' \<and> rows_right demo_leaf (map_of (mem_rows d')) \<and>
    (\<exists>m \<ge> 0. m \<le> max 0 (unat (3 :: u64)) \<and> prefix_of_log demo_leaf m (map_of (mem_rows d')) \<and>
       (err = None \<and> \<not> False \<longrightarrow> m = max 0 (unat (3 :: u64))))"
proof -
  obtain err d' where c: "cloner_Clone demo_gob demo_cloner [] 3 demo_batch False err d'" using demo_Clone by blast
  have t: "leaf_table (c_db demo_cloner) (\<lambda>d. map_of (mem_rows d)) mem_rows"
    using mem.leaf_table_axioms by (simp add: demo_cloner_def)
  have "prefix_of_log demo_leaf 0 (map_of (mem_rows []))" "rows_right demo_leaf (map_of (mem_rows []))"
    by (simp_all add: prefix_of_log_def rows_right_def mem_rows_def)
  moreover have "inserts_ok (c_db demo_cloner) (\<lambda>d. map_of (mem_rows d)) mem_rows" using mem_inserts_ok by (simp add: demo_cloner_def)
  moreover have "(0 :: nat) < 2 ^ 64" by simp
  moreover have "0 < unat (c_workers demo_cloner)" "0 < unat (c_fetchBatchSize demo_cloner)"
      "unat (3 :: u64) + unat (c_workers demo_cloner) * unat (c_fetchBatchSize demo_cloner) < 2 ^ 64"
    by (simp_all add: demo_cloner_def)
  ultimately have "rows_right demo_leaf (map_of (mem_rows d')) \<and>
    (\<exists>m \<ge> 0. m \<le> max 0 (unat (3 :: u64)) \<and> prefix_of_log demo_leaf m (map_of (mem_rows d')) \<and>
       (err = None \<and> \<not> False \<longrightarrow> m = max 0 (unat (3 :: u64))))"
    using Clone_keeps_prefix [OF t demo_batch_sound _ _ _ c] by blast
  then show ?thesis using c by blast
qed

theorem stream_delivers_leaves_witness:
  "stream_ends (stream_start mem_db [(0, ''a''), (1, ''b'')] 0 2) (Inr [''a'', ''b''])"
proof -
  have "cd_SelectLeaves mem_db [(0, ''a''), (1, ''b'')] 0 2 = Inr (map Inr [''a'', ''b''])" by (simp add: mem_db_def)
  from stream_delivers_leaves [OF this rtranclp.rtrancl_refl] show ?thesis by blast
qed

definition failing_db :: "(leaf_rows, leaf_rows) clone_db" where
  "failing_db = mem_db\<lparr>cd_SelectLeaves := (\<lambda>d a b. Inl ErrIO)\<rparr>"

definition demo_verifier :: "(leaf_rows, leaf_rows) clone_db \<Rightarrow> (leaf_rows, leaf_rows, ref_range) LogVerifier" where
  "demo_verifier D = \<lparr>lv_db = D, lv_lh = (\<lambda>_ p. ''L'' @ p), lv_rf = ref_compact (\<lambda>a b. ''N'' @ a @ b)\<rparr>"

lemma demo_verifier_start: "verifier_start demo_gob (demo_verifier failing_db) d sz = Inr (NewEmptyRange (lv_rf (demo_verifier failing_db)) 0, 0)"
  by (simp add: verifier_start_def demo_verifier_def failing_db_def mem_db_def logdb_GetLatestCheckpoint_def)

theorem stream_query_error_deadlocks_witness:
  "\<not> stream_step (stream_start failing_db [] 0 1) (stream_start failing_db [] 0 1) \<and>
   \<not> MerkleRoot demo_gob (demo_verifier failing_db) [] 1 (Inl ErrIO)"
  using stream_query_error_deadlocks [OF _ demo_verifier_start, of "[]" 1 ErrIO]
  by (simp add: demo_verifier_def failing_db_def)

theorem WriteLeaves_drops_insert_errors_witness:
  "logdb_WriteLeaves (mem_db\<lparr>cd_InsertLeaf := (\<lambda>d t i l. (Some ErrIO, t))\<rparr>) False False [] 0 [''a''] = (None, [])"
  by (rule WriteLeaves_drops_insert_errors [of _ _ "[]" ErrIO]) (simp_all add: mem_db_def)

theorem MerkleRoot_correct_witness:
  "MerkleRoot demo_gob (demo_verifier mem_db) [(0, ''a''), (1, ''b'')] 2 
     (Inr (''NLaLb'', cr_hashes (ref_compact (\<lambda>a b. ''N'' @ a @ b)) (\<lambda>a b. ''N'' @ a @ b) (\<lambda>i. ''L'' @ (if i = 0 then ''a'' else ''b'')) 2))"
proof -
  let ?leaf = "\<lambda>i. if i = 0 then ''a'' else ''b''" and ?v = "demo_verifier mem_db" and ?hc = "\<lambda>a b. ''N'' @ a @ b"
  have u: "a \<le> 2 \<Longrightarrow> a = 0 \<or> a = 1 \<or> a = 2" for a :: u64
    by (auto simp: word_le_nat_alt word_unat_eq_iff)
  have l: "leaves_from (lv_db ?v) ?leaf 2 [(0, ''a''), (1, ''b'')]" unfolding leaves_from_def
    by (auto dest!: u simp: demo_verifier_def mem_db_def upt_rec word_le_nat_alt)
  have c: "checkpoint_ok demo_gob (lv_db ?v) (lv_rf ?v) ?hc lf [(0, ''a''), (1, ''b'')]" for lf
    by (simp add: checkpoint_ok_def logdb_GetLatestCheckpoint_def demo_verifier_def mem_db_def)
  have r: "compact_range (lv_rf ?v) ?hc (ref_rep ?hc)" using ref.compact_range_axioms by (simp add: demo_verifier_def)
  show ?thesis using MerkleRoot_correct [OF r l refl c]
    by (simp add: demo_verifier_def root_of_def mth.simps pow2_lt.simps)
qed

end
