(* ===== verification/ObjLog.thy ===== *)
theory ObjLog
  imports FsStore
begin

section \<open>A log in a store of named objects\<close>

text \<open>
  Two of the storages keep the log in a flat store from names to contents instead of a file system.
  This theory has what they share: the tiles and entries that such a store holds, what a change to one
  object does to them, and the loops that look for the end of the sequenced entries.
\<close>

definition obj_tv :: "string \<Rightarrow> (string \<Rightarrow> bytes option) \<Rightarrow> tile_view" where
  "obj_tv root m x y ps = Option.bind (m (JoinPair (TilePath root x y ps))) parse_tile"

definition obj_entry :: "string \<Rightarrow> (string \<Rightarrow> bytes option) \<Rightarrow> nat \<Rightarrow> bytes option" where
  "obj_entry root m k = (if k < 2 ^ 64 then m (JoinPair (SeqPath root (of_nat k))) else None)"

lemma obj_entry_unat [simp]: "obj_entry root m (unat q) = m (JoinPair (SeqPath root q))"
  by (simp add: obj_entry_def)

text \<open>The last sequence number is never in use, so that the number of entries fits in 64 bits.\<close>

definition obj_room :: "string \<Rightarrow> (string \<Rightarrow> bytes option) \<Rightarrow> bool" where
  "obj_room root m \<longleftrightarrow> m (JoinPair (SeqPath root (- 1))) = None"

lemma unat_minus_1_u64: "unat (- 1 :: u64) = 2 ^ 64 - 1"
proof -
  have e: "(- 1 :: u64) = of_nat (2 ^ 64 - 1)" by simp
  show ?thesis unfolding e by (rule unat_of_nat_u64) simp
qed

lemma obj_entry_bound:
  assumes "obj_room root m" "obj_entry root m k \<noteq> None"
  shows "k < 2 ^ 64 - 1"
proof -
  have lt: "k < 2 ^ 64" using assms(2) by (auto simp: obj_entry_def split: if_splits)
  have "k \<noteq> 2 ^ 64 - 1"
  proof
    assume "k = 2 ^ 64 - 1"
    then have "k = unat (- 1 :: u64)" by (simp add: unat_minus_1_u64)
    then show False using assms by (simp add: obj_room_def)
  qed
  then show ?thesis using lt by simp
qed

subsection \<open>Changing one object\<close>

text \<open>Names of different objects are different strings.\<close>

lemma tile_name_eq [simp]:
  "JoinPair (TilePath root x y ps) = JoinPair (TilePath root x' y' ps') \<longleftrightarrow> x = x' \<and> y = y' \<and> ps = ps'"
  using object_path_eq_iff [of "TileObj x y ps" "TileObj x' y' ps'" root] by simp

lemma seq_name_eq [simp]: "JoinPair (SeqPath root q) = JoinPair (SeqPath root q') \<longleftrightarrow> q = q'"
  using object_path_eq_iff [of "SeqObj q" "SeqObj q'" root] by simp

lemma seq_tile_names [simp]:
  "JoinPair (SeqPath root q) \<noteq> JoinPair (TilePath root x y ps)" "JoinPair (TilePath root x y ps) \<noteq> JoinPair (SeqPath root q)"
  using object_path_eq_iff [of "SeqObj q" "TileObj x y ps" root] by simp_all

lemma leaf_names:
  assumes "LeafPath root lh = Inr p" "3 < length lh"
  shows "JoinPair p \<noteq> JoinPair (SeqPath root q)" "JoinPair p \<noteq> JoinPair (TilePath root x y ps)"
  using assms object_path_eq_iff [of "LeafObj lh" "SeqObj q" root] object_path_eq_iff [of "LeafObj lh" "TileObj x y ps" root]
  by simp_all

lemma checkpoint_names [simp]:
  "Join [root, CheckpointPath] \<noteq> JoinPair (SeqPath root q)" "Join [root, CheckpointPath] \<noteq> JoinPair (TilePath root x y ps)"
  using object_path_eq_iff [of CheckpointObj "SeqObj q" root] object_path_eq_iff [of CheckpointObj "TileObj x y ps" root]
  by simp_all

definition put_obj :: "string \<Rightarrow> bytes \<Rightarrow> (string \<Rightarrow> bytes option) \<Rightarrow> string \<Rightarrow> bytes option" where
  "put_obj n b m = m(n \<mapsto> b)"

lemma put_obj_other:
  assumes "\<And>q. n \<noteq> JoinPair (SeqPath root q)" "\<And>x y ps. n \<noteq> JoinPair (TilePath root x y ps)"
  shows "obj_tv root (put_obj n b m) = obj_tv root m" "obj_entry root (put_obj n b m) = obj_entry root m"
    "obj_room root (put_obj n b m) = obj_room root m"
  using assms [symmetric] by (auto simp: obj_tv_def obj_entry_def obj_room_def put_obj_def fun_eq_iff)

lemma put_obj_tile:
  "obj_entry root (put_obj (JoinPair (TilePath root x y ps)) b m) = obj_entry root m"
  "obj_room root (put_obj (JoinPair (TilePath root x y ps)) b m) = obj_room root m"
  "obj_tv root (put_obj (JoinPair (TilePath root x y ps)) b m) x' y' ps' =
     (if x' = x \<and> y' = y \<and> ps' = ps then parse_tile b else obj_tv root m x' y' ps')"
  by (auto simp: obj_tv_def obj_entry_def obj_room_def put_obj_def fun_eq_iff)

lemma put_obj_seq:
  "obj_tv root (put_obj (JoinPair (SeqPath root q)) b m) = obj_tv root m"
  "obj_entry root (put_obj (JoinPair (SeqPath root q)) b m) = (obj_entry root m)(unat q \<mapsto> b)"
  "obj_room root (put_obj (JoinPair (SeqPath root q)) b m) \<longleftrightarrow> q \<noteq> - 1 \<and> obj_room root m"
proof -
  have "of_nat k = q \<longleftrightarrow> k = unat q" if "k < 2 ^ 64" for k
    using that unat_of_nat_u64 [of k] by auto
  then show "obj_entry root (put_obj (JoinPair (SeqPath root q)) b m) = (obj_entry root m)(unat q \<mapsto> b)"
    by (auto simp: obj_entry_def put_obj_def fun_eq_iff)
qed (auto simp: obj_tv_def obj_room_def put_obj_def fun_eq_iff)

text \<open>Storing a tile under its name is what the contract of a log's storage allows.\<close>

lemma put_tile_stored:
  assumes "NumLeaves t \<le> 256"
  shows "tile_stored x y t (obj_tv root m) (obj_tv root (put_obj (JoinPair (TilePath root x y (NumLeaves t mod 256))) (MarshalText t) m))"
    "obj_tv root (put_obj (JoinPair (TilePath root x y (NumLeaves t mod 256))) (MarshalText t) m) x y (NumLeaves t mod 256) = Some (reread t)"
  using parse_MarshalText [OF assms] by (auto simp: tile_stored_def put_obj_tile)

subsection \<open>Loops over the sequence numbers\<close>

text \<open>A loop that reads the entries from \<open>q\<close> on until a read fails, where \<open>stop\<close> is the error it then
  reports.\<close>

lemma scan_shape:
  fixes L :: "u64 \<Rightarrow> (u64 \<times> bytes) list \<Rightarrow> ((u64 \<times> bytes) list \<times> u64 \<times> go_error option) option"
  assumes step: "\<And>q calls. L q calls = (case rd q of Inl e \<Rightarrow> Some (calls, q - b, stop e) | Inr x \<Rightarrow> L (q + 1) (calls @ [(q, x)]))"
    and some: "\<forall>q x. rd q = Inr x \<longrightarrow> en (unat q) = Some x"
    and none: "\<forall>q e. rd q = Inl e \<and> stop e = None \<longrightarrow> en (unat q) = None"
    and bound: "\<forall>j. en j \<noteq> None \<longrightarrow> j < 2 ^ 64 - 1"
  shows "\<exists>m err. L q calls = Some (calls @ map (\<lambda>i. (of_nat i, the (en i))) [unat q..<m], of_nat m - b, err) \<and>
     unat q \<le> m \<and> m < 2 ^ 64 \<and> (\<forall>i. unat q \<le> i \<and> i < m \<longrightarrow> en i \<noteq> None) \<and> (err = None \<longrightarrow> en m = None) \<and>
     (\<exists>e. rd (of_nat m) = Inl e \<and> stop e = err)"
proof (induction "2 ^ 64 - unat q" arbitrary: q calls rule: less_induct)
  case less
  show ?case
  proof (cases "rd q")
    case (Inl e)
    then show ?thesis using none by (intro exI [of _ "unat q"]) (auto simp: step [of q])
  next
    case (Inr x)
    then have ent: "en (unat q) = Some x" using some by blast
    then have "unat q < 2 ^ 64 - 1" using bound by blast
    then have lt: "unat q + 1 < 2 ^ 64" by linarith
    have q1: "unat (q + 1) = unat q + 1" by (rule unat_Suc_u64 [OF lt])
    have "2 ^ 64 - unat (q + 1) < 2 ^ 64 - unat q" using lt q1 by linarith
    from less [OF this, of "calls @ [(q, x)]"] obtain m err where
      IH: "L (q + 1) (calls @ [(q, x)]) = Some ((calls @ [(q, x)]) @ map (\<lambda>i. (of_nat i, the (en i))) [unat q + 1..<m], of_nat m - b, err)"
      "unat q + 1 \<le> m" "m < 2 ^ 64" "\<forall>i. unat q + 1 \<le> i \<and> i < m \<longrightarrow> en i \<noteq> None" "err = None \<longrightarrow> en m = None"
      "\<exists>e. rd (of_nat m) = Inl e \<and> stop e = err"
      unfolding q1 by blast
    have upt: "[unat q..<m] = unat q # [unat q + 1..<m]" using IH(2) by (simp add: upt_rec)
    have "en i \<noteq> None" if "unat q \<le> i" "i < m" for i using IH(4) ent that by (cases "i = unat q") auto
    moreover have "L q calls = Some (calls @ map (\<lambda>i. (of_nat i, the (en i))) [unat q..<m], of_nat m - b, err)"
      unfolding upt using IH(1) Inr ent by (simp add: step [of q])
    ultimately show ?thesis using IH(2,3,5,6) by (intro exI [of _ m] exI [of _ err]) auto
  qed
qed

lemma scan_count: "\<lbrakk>unat b \<le> m; m < 2 ^ 64\<rbrakk> \<Longrightarrow> of_nat m - b = (of_nat (m - unat b) :: u64)"
  by (simp add: of_nat_diff)

text \<open>A loop that skips the numbers in use.\<close>

lemma next_free:
  assumes "\<not> used (- 1 :: u64)"
  shows "\<exists>m \<ge> q. \<not> used m \<and> (\<forall>i. q \<le> i \<and> i < m \<longrightarrow> used i) \<and> ((\<forall>i. used i \<longrightarrow> L i = L (i + 1)) \<longrightarrow> L q = L m)"
proof (induction "2 ^ 64 - unat q" arbitrary: q rule: less_induct)
  case less
  show ?case
  proof (cases "used q")
    case False
    then show ?thesis by (intro exI [of _ q]) auto
  next
    case True
    then have ne: "q \<noteq> - 1" using assms by blast
    then have "unat q \<noteq> 2 ^ 64 - 1" by (metis unat_minus_1_u64 word_unat_eq_iff)
    then have lt: "unat q + 1 < 2 ^ 64" using unat_lt_u64 [of q] by linarith
    have q1: "unat (q + 1) = unat q + 1" by (rule unat_Suc_u64 [OF lt])
    have "2 ^ 64 - unat (q + 1) < 2 ^ 64 - unat q" using lt q1 by linarith
    from less [OF this] obtain m where m: "q + 1 \<le> m" "\<not> used m" "\<And>i. q + 1 \<le> i \<Longrightarrow> i < m \<Longrightarrow> used i"
      "(\<forall>i. used i \<longrightarrow> L i = L (i + 1)) \<longrightarrow> L (q + 1) = L m" by blast
    have "used i" if "q \<le> i" "i < m" for i
    proof (cases "i = q")
      case False
      then have "unat i \<noteq> unat q" by (simp add: word_unat_eq_iff)
      then have "q + 1 \<le> i" using that(1) q1 by (simp add: word_le_nat_alt)
      then show ?thesis using m(3) that(2) by blast
    qed (use True in simp)
    moreover have "q \<le> m" using m(1) q1 by (simp add: word_le_nat_alt)
    moreover have "L q = L m" if "\<forall>i. used i \<longrightarrow> L i = L (i + 1)" using that True m(4) by simp
    ultimately show ?thesis using m(2) by blast
  qed
qed

end
