(* ===== verification/WebStorage.thy ===== *)
theory WebStorage
  imports ObjLog
begin

section \<open>serverless/internal/storage/webstorage/fs.go\<close>

text \<open>
  The storage of a log in the browser's \<^verbatim>\<open>sessionStorage\<close>.  The Web Storage API is a list of keys and
  values; \<open>ws_js\<close> is what becomes of a Go string that is passed to JavaScript, where bytes that are not
  valid UTF-8 are replaced, and \<open>ws_throws\<close> says when \<^verbatim>\<open>setItem\<close> throws an exception (the quota is used
  up), which is a panic in Go.
\<close>

record webStore =
  ws_items :: "(string \<times> bytes) list"
  ws_js :: "string \<Rightarrow> string"
  ws_throws :: "(string \<times> bytes) list \<Rightarrow> string \<Rightarrow> bytes \<Rightarrow> bool"

record webStorage =
  wl_root :: string
  wl_nextSeq :: u64
  wl_checkpoint :: Checkpoint

definition web_get :: "webStore \<Rightarrow> string \<Rightarrow> bytes res" where
  "web_get w k = (case map_of (ws_items w) (ws_js w k) of None \<Rightarrow> Inl ErrNotExist | Some v \<Rightarrow> Inr v)"

definition web_exists :: "webStore \<Rightarrow> string \<Rightarrow> bool" where
  "web_exists w k = is_ok (web_get w k)"

definition web_setItem :: "webStore \<Rightarrow> string \<Rightarrow> bytes \<Rightarrow> go_error option \<times> webStore" where
  "web_setItem w k v =
     (if ws_throws w (ws_items w) (ws_js w k) (ws_js w v) then (Some (Panic ''setItem''), w)
      else (None, w\<lparr>ws_items := AList.update (ws_js w k) (ws_js w v) (ws_items w)\<rparr>))"

definition web_set :: "webStore \<Rightarrow> string \<Rightarrow> bytes \<Rightarrow> go_error option \<times> webStore" where
  "web_set w k v = web_setItem w k v"

definition web_createExclusive :: "webStore \<Rightarrow> string \<Rightarrow> bytes \<Rightarrow> go_error option \<times> webStore" where
  "web_createExclusive w k v = (if web_exists w k then (Some ErrExist, w) else web_setItem w k v)"

definition web_Load :: "string \<Rightarrow> u64 \<Rightarrow> webStorage res" where
  "web_Load root cpSize = Inr \<lparr>wl_root = root, wl_nextSeq = cpSize, wl_checkpoint = zero_checkpoint\<rparr>"

definition web_Create :: "string \<Rightarrow> webStorage res" where
  "web_Create root = Inr \<lparr>wl_root = root, wl_nextSeq = 0, wl_checkpoint = zero_checkpoint\<rparr>"

subsection \<open>The queue of pending leaves\<close>

definition web_Queue :: "(bytes \<Rightarrow> bytes) \<Rightarrow> webStorage \<Rightarrow> webStore \<Rightarrow> bytes \<Rightarrow> go_error option \<times> webStore" where
  "web_Queue sha256 st w leaf =
     web_createExclusive w (Join [wl_root st, ''leaves/pending/'' @ hex_bytes (sha256 leaf)]) leaf"

text \<open>\<^verbatim>\<open>key(i)\<close> is the name of the item at position \<open>i\<close>, null past the end.\<close>

definition web_key :: "webStore \<Rightarrow> nat \<Rightarrow> string option" where
  "web_key w i = (if i < length (ws_items w) then Some (fst (ws_items w ! i)) else None)"

fun pending_loop :: "webStore \<Rightarrow> string \<Rightarrow> nat \<Rightarrow> nat \<Rightarrow> string list \<Rightarrow> string list res" where
  "pending_loop w prefx i 0 pk = Inr pk"
| "pending_loop w prefx i (Suc n) pk =
     (case web_key w i of
        None \<Rightarrow> Inl (Errorf ''key failed'')
      | Some ks \<Rightarrow> pending_loop w prefx (i + 1) n (if has_prefix ks prefx then pk @ [ks] else pk))"

definition web_PendingKeys :: "webStorage \<Rightarrow> webStore \<Rightarrow> string list res" where
  "web_PendingKeys st w = pending_loop w (Join [wl_root st, ''leaves'', ''pending'']) 0 (length (ws_items w)) []"

definition web_Pending :: "webStorage \<Rightarrow> webStore \<Rightarrow> string \<Rightarrow> bytes res" where
  "web_Pending st w f =
     (if \<not> has_prefix f (Join [wl_root st, ''leaves'', ''pending'']) then Inl (Errorf ''pending key does not have prefix'')
      else web_get w f)"

definition web_DeletePending :: "webStorage \<Rightarrow> webStore \<Rightarrow> string \<Rightarrow> go_error option \<times> webStore" where
  "web_DeletePending st w f =
     (if \<not> has_prefix f (Join [wl_root st, ''leaves'', ''pending'']) then (Some (Errorf ''pending key does not have prefix''), w)
      else (None, w\<lparr>ws_items := AList.delete (ws_js w f) (ws_items w)\<rparr>))"

subsection \<open>Sequencing\<close>

partial_function (option) web_sequence_loop ::
    "webStorage \<Rightarrow> webStore \<Rightarrow> string \<Rightarrow> bytes \<Rightarrow> ((u64 \<times> go_error option) \<times> webStorage \<times> webStore) option" where
  "web_sequence_loop st w leafFQ leaf =
     (let seq = wl_nextSeq st; seqPath = JoinPair (SeqPath (wl_root st) seq) in
      case web_createExclusive w seqPath leaf of
        (Some e, w1) \<Rightarrow>
          if \<not> errors_Is e ErrExist then Some ((0, Some (errorf ''failed to store sequenced leaf'' e)), st, w1)
          else web_sequence_loop (st\<lparr>wl_nextSeq := seq + 1\<rparr>) w1 leafFQ leaf
      | (None, w1) \<Rightarrow>
          (case web_createExclusive w1 leafFQ (format_uint 16 (unat seq)) of
             (Some e, w2) \<Rightarrow> Some ((0, Some (wrapf ''couldn't create temporary leafhash file'' e)), st, w2)
           | (None, w2) \<Rightarrow> Some ((seq, None), st, w2)))"

definition web_Sequence ::
    "webStorage \<Rightarrow> webStore \<Rightarrow> bytes \<Rightarrow> bytes \<Rightarrow> ((u64 \<times> go_error option) \<times> webStorage \<times> webStore) option" where
  "web_Sequence st w leafhash leaf =
     (case LeafPath (wl_root st) leafhash of
        Inl e \<Rightarrow> Some ((0, Some e), st, w)
      | Inr p \<Rightarrow>
          (let leafFQ = JoinPair p;
               dupe = (\<lambda>seqString. case parse_uint seqString 16 64 of
                   Inl e \<Rightarrow> Some ((0, Some e), st, w)
                 | Inr origSeq \<Rightarrow> Some ((of_nat origSeq, Some ErrDupeLeaf), st, w))
           in case web_get w leafFQ of
                Inr seqString \<Rightarrow> dupe seqString
              | Inl err \<Rightarrow> if \<not> os_IsNotExist err then dupe [] else web_sequence_loop st w leafFQ leaf))"

partial_function (option) web_scan_loop ::
    "string \<Rightarrow> webStore \<Rightarrow> u64 \<Rightarrow> u64 \<Rightarrow> (u64 \<times> bytes) list \<Rightarrow> ((u64 \<times> bytes) list \<times> u64 \<times> go_error option) option" where
  "web_scan_loop root w begn endd calls =
     (case web_get w (JoinPair (SeqPath root endd)) of
        Inl err \<Rightarrow>
          if errors_Is err ErrNotExist then Some (calls, endd - begn, None)
          else Some (calls, endd - begn, Some (wrapf ''failed to read leafdata at index'' err))
      | Inr entry \<Rightarrow> web_scan_loop root w begn (endd + 1) (calls @ [(endd, entry)]))"

definition web_ScanSequenced ::
    "webStorage \<Rightarrow> webStore \<Rightarrow> u64 \<Rightarrow> ((u64 \<times> bytes) list \<times> u64 \<times> go_error option) option" where
  "web_ScanSequenced st w begn = web_scan_loop (wl_root st) w begn begn []"

subsection \<open>Tiles and checkpoints\<close>

definition web_GetTile :: "webStorage \<Rightarrow> webStore \<Rightarrow> u64 \<Rightarrow> u64 \<Rightarrow> u64 \<Rightarrow> Tile res" where
  "web_GetTile st w level index lsize =
     (let tileSize = PartialTileSize level index lsize;
          p = JoinPair (TilePath (wl_root st) level index tileSize)
      in case web_get w p of
           Inl err \<Rightarrow> if \<not> errors_Is err ErrNotExist then Inl (wrapf ''failed to read tile'' err) else Inl err
         | Inr t \<Rightarrow>
             (case UnmarshalText t of
                Inl err \<Rightarrow> Inl (wrapf ''failed to parse tile'' err)
              | Inr tile \<Rightarrow> Inr tile))"

definition web_StoreTile :: "webStorage \<Rightarrow> webStore \<Rightarrow> u64 \<Rightarrow> u64 \<Rightarrow> Tile \<Rightarrow> go_error option \<times> webStore" where
  "web_StoreTile st w level index tile =
     (let tileSize = NumLeaves tile in
      if tileSize = 0 \<or> 256 < tileSize then (Some (Errorf ''tileSize must be > 0 and <= 256''), w)
      else
        (case web_createExclusive w (JoinPair (TilePath (wl_root st) level index (tileSize mod 256))) (MarshalText tile) of
           (Some e, w') \<Rightarrow> (Some (wrapf ''failed to write temporary tile file'' e), w')
         | (None, w') \<Rightarrow> (None, w')))"

definition web_WriteCheckpoint :: "webStorage \<Rightarrow> webStore \<Rightarrow> bytes \<Rightarrow> go_error option \<times> webStore" where
  "web_WriteCheckpoint st w newCPRaw = web_set w (Join [wl_root st, CheckpointPath]) newCPRaw"

definition web_ReadCheckpoint :: "webStore \<Rightarrow> string \<Rightarrow> bytes res" where
  "web_ReadCheckpoint w root = web_get w (Join [root, CheckpointPath])"

definition web_storage :: "(webStorage \<times> webStore) Storage" where
  "web_storage = \<lparr>
     st_GetTile = (\<lambda>(st, w) level index lsize. web_GetTile st w level index lsize),
     st_StoreTile = (\<lambda>(st, w) level index t. map_prod id (Pair st) (web_StoreTile st w level index t)),
     st_WriteCheckpoint = (\<lambda>(st, w) raw. map_prod id (Pair st) (web_WriteCheckpoint st w raw)),
     st_Sequence = (\<lambda>(st, w) leafhash leaf.
       case web_Sequence st w leafhash leaf of
         Some (r, st', w') \<Rightarrow> (r, st', w')
       | None \<Rightarrow> ((0, Some (Panic ''no return'')), st, w)),
     st_ScanSequenced = (\<lambda>(st, w) b.
       case web_ScanSequenced st w b of Some r \<Rightarrow> r | None \<Rightarrow> ([], 0, Some (Panic ''no return'')))\<rparr>"

end
