(* ===== verification/WebProofs.thy ===== *)
theory WebProofs
  imports WebStorage
begin

section \<open>The browser storage keeps a log\<close>

text \<open>
  The storage satisfies the contract of a log's storage, so \<open>Integrate\<close> is correct on it.  \<open>Sequence\<close>
  gives a new leaf the next free number and finds it again.  JavaScript keeps ASCII strings as they are;
  nothing is assumed of other strings.
\<close>

subsection \<open>The names and tile texts are ASCII\<close>

definition ascii :: "string \<Rightarrow> bool" where
  "ascii s \<longleftrightarrow> (\<forall>c \<in> set s. (of_char c :: nat) < 128)"

lemma ascii_simps [simp]: "ascii []" "ascii (c # s) \<longleftrightarrow> (of_char c :: nat) < 128 \<and> ascii s" "ascii (s @ t) \<longleftrightarrow> ascii s \<and> ascii t"
  by (auto simp: ascii_def)

lemma ascii_mono: "\<lbrakk>ascii s; set t \<subseteq> set s\<rbrakk> \<Longrightarrow> ascii t"
  by (auto simp: ascii_def)

lemma ascii_concat: "ascii (concat xs) \<longleftrightarrow> (\<forall>x \<in> set xs. ascii x)"
  by (auto simp: ascii_def)

lemma ascii_graphic: "(\<And>c. c \<in> set s \<Longrightarrow> graphic c) \<Longrightarrow> ascii s"
  by (force simp: ascii_def graphic_def)

lemma ascii_hex [simp]: "ascii (sprintf_0x w n)"
proof (rule ascii_graphic)
  fix c assume "c \<in> set (sprintf_0x w n)"
  then obtain d where "d < 16" "c = digit_char d" using hex_digits by blast
  then show "graphic c" by (simp add: digit_char_graphic)
qed

lemma ascii_hex_bytes [simp]: "ascii (hex_bytes bs)"
  by (auto simp: hex_bytes_def ascii_concat)

lemma ascii_join_with: "\<lbrakk>ascii sep; \<forall>x \<in> set xs. ascii x\<rbrakk> \<Longrightarrow> ascii (join_with sep xs)"
  by (induction sep xs rule: join_with.induct) auto

lemma set_split_on: "x \<in> set (split_on c s) \<Longrightarrow> set x \<subseteq> set s"
proof (induction s arbitrary: x)
  case (Cons a s)
  obtain y ys where y: "split_on c s = y # ys" by (meson neq_Nil_conv split_on_not_Nil)
  then have "set y \<subseteq> set s" "\<And>z. z \<in> set ys \<Longrightarrow> set z \<subseteq> set s" using Cons.IH by simp_all
  then show ?case using Cons.prems y by (cases "a = c") fastforce+
qed simp

lemma ascii_clean_push: "\<lbrakk>\<forall>x \<in> set st. ascii x; ascii c\<rbrakk> \<Longrightarrow> \<forall>x \<in> set (clean_push r st c). ascii x"
  by (auto simp: clean_push_def dest: in_set_butlastD)

lemma ascii_clean_fold:
  "\<lbrakk>\<forall>x \<in> set cs. ascii x; \<forall>x \<in> set st. ascii x\<rbrakk> \<Longrightarrow> \<forall>x \<in> set (foldl (clean_push r) st cs). ascii x"
proof (induction cs arbitrary: st)
  case (Cons c cs)
  have "\<forall>x \<in> set (clean_push r st c). ascii x" using Cons.prems by (intro ascii_clean_push) simp_all
  then show ?case using Cons.IH [of "clean_push r st c"] Cons.prems(1) by (simp only: foldl_Cons list.set_intros ball_simps set_simps) blast
qed simp

lemma ascii_Clean: "ascii s \<Longrightarrow> ascii (Clean s)"
proof -
  assume s: "ascii s"
  have "\<forall>x \<in> set (clean_comps s). ascii x"
    unfolding clean_comps_def by (rule ascii_clean_fold) (auto dest: set_split_on intro: ascii_mono [OF s])
  then have "ascii (join_with ''/'' (clean_comps s))" by (intro ascii_join_with) simp_all
  then show ?thesis by (simp add: Clean_def path_of_def Let_def)
qed

lemma ascii_Join: "\<forall>x \<in> set xs. ascii x \<Longrightarrow> ascii (Join xs)"
proof -
  assume a: "\<forall>x \<in> set xs. ascii x"
  have "\<forall>x \<in> set (dropWhile (\<lambda>e. e = []) xs). ascii x" using a by (meson set_dropWhileD)
  then show ?thesis using ascii_Clean [OF ascii_join_with [of "''/''" "dropWhile (\<lambda>e. e = []) xs"]]
    by (auto simp: Join_def split: list.splits)
qed

lemma ascii_names:
  assumes "ascii root"
  shows "ascii (JoinPair (SeqPath root q))" "ascii (JoinPair (TilePath root x y ps))" "ascii (Join [root, CheckpointPath])"
    "LeafPath root lh = Inr p \<Longrightarrow> ascii (JoinPair p)"
  using assms by (auto simp: JoinPair_def SeqPath_def TilePath_def LeafPath_def CheckpointPath_def Let_def
      split: if_splits intro!: ascii_Join)

lemma ascii_format_uint: "ascii (format_uint 16 n)" "ascii (format_uint 10 n)"
  using set_format_uint [of 16 n] set_format_uint [of 10 n] by (auto intro!: ascii_graphic digit_char_graphic)

lemma ascii_MarshalText [simp]: "ascii (MarshalText t)"
  using set_encode by (auto simp: MarshalText_def Let_def ascii_concat ascii_format_uint intro!: ascii_graphic [of "encode _"])

subsection \<open>Reading and writing items\<close>

definition js_ok :: "webStore \<Rightarrow> bool" where
  "js_ok w \<longleftrightarrow> (\<forall>s. ascii s \<longrightarrow> ws_js w s = s)"

abbreviation web_objs :: "webStore \<Rightarrow> string \<Rightarrow> bytes option" where
  "web_objs w \<equiv> map_of (ws_items w)"

lemma web_get_objs: "\<lbrakk>js_ok w; ascii k\<rbrakk> \<Longrightarrow> web_get w k = (case web_objs w k of None \<Rightarrow> Inl ErrNotExist | Some v \<Rightarrow> Inr v)"
  by (simp add: web_get_def js_ok_def)

text \<open>Nothing but the items of the store ever changes.\<close>

definition same_browser :: "webStore \<Rightarrow> webStore \<Rightarrow> bool" where
  "same_browser w w' \<longleftrightarrow> ws_js w' = ws_js w \<and> ws_throws w' = ws_throws w"

lemma same_browserD: "same_browser w w' \<Longrightarrow> js_ok w' = js_ok w" "same_browser w w' \<Longrightarrow> ws_js w' = ws_js w"
  "\<lbrakk>same_browser w w'; same_browser w' w''\<rbrakk> \<Longrightarrow> same_browser w w''" "same_browser w w"
  by (auto simp: same_browser_def js_ok_def)

lemma setItem_objs:
  assumes "js_ok w" "ascii k" "web_setItem w k v = (err, w')"
  shows "if err = None then web_objs w' = put_obj k (ws_js w v) (web_objs w) else w' = w \<and> is_panic (the err)"
    "same_browser w w'"
proof -
  have k: "ws_js w k = k" using assms(1,2) by (simp add: js_ok_def)
  show "if err = None then web_objs w' = put_obj k (ws_js w v) (web_objs w) else w' = w \<and> is_panic (the err)" "same_browser w w'"
    using assms(3) by (auto simp: web_setItem_def k put_obj_def update_conv' same_browser_def split: if_splits)
qed

lemma createExclusive_objs:
  assumes "js_ok w" "ascii k" "web_createExclusive w k v = (err, w')"
  shows "case err of
      None \<Rightarrow> web_objs w k = None \<and> web_objs w' = put_obj k (ws_js w v) (web_objs w)
    | Some e \<Rightarrow> w' = w \<and> (if web_objs w k \<noteq> None then e = ErrExist else is_panic e)"
    "same_browser w w'"
  using assms setItem_objs [OF assms(1,2), of v err w'] web_get_objs [OF assms(1,2)]
  by (auto simp: web_createExclusive_def web_exists_def same_browserD split: if_splits option.splits)

lemma createExclusive_fresh:
  assumes "js_ok w" "ascii k" "web_objs w k = None" "\<And>its n b. \<not> ws_throws w its n b"
  obtains w' where "web_createExclusive w k v = (None, w')" "web_objs w' = put_obj k (ws_js w v) (web_objs w)" "same_browser w w'"
proof -
  obtain err w' where c: "web_createExclusive w k v = (err, w')" by fastforce
  have "err = None" using c assms(4) web_get_objs [OF assms(1,2)] assms(3)
    by (auto simp: web_createExclusive_def web_exists_def web_setItem_def)
  then show ?thesis using that c createExclusive_objs [OF assms(1,2) c] by simp
qed

lemma createExclusive_present:
  assumes "js_ok w" "ascii k" "web_objs w k \<noteq> None"
  shows "web_createExclusive w k v = (Some ErrExist, w)"
  using assms web_get_objs [OF assms(1,2)] by (auto simp: web_createExclusive_def web_exists_def)

subsection \<open>The contract of a log's storage\<close>

definition web_inv :: "webStorage \<times> webStore \<Rightarrow> bool" where
  "web_inv s \<longleftrightarrow> js_ok (snd s) \<and> ascii (wl_root (fst s)) \<and> obj_room (wl_root (fst s)) (web_objs (snd s))"

definition web_view :: "webStorage \<times> webStore \<Rightarrow> tile_view" where
  "web_view s = obj_tv (wl_root (fst s)) (web_objs (snd s))"

definition web_entries :: "webStorage \<times> webStore \<Rightarrow> nat \<Rightarrow> bytes option" where
  "web_entries s = obj_entry (wl_root (fst s)) (web_objs (snd s))"

lemmas web_defs = web_inv_def web_view_def web_entries_def

lemma web_GetTile_view:
  assumes "web_inv (st, w)"
  shows "web_GetTile st w x y n = Inr t \<Longrightarrow> web_view (st, w) x y (PartialTileSize x y n) = Some t"
    and "web_GetTile st w x y n = Inl e \<Longrightarrow> os_IsNotExist e \<Longrightarrow> web_view (st, w) x y (PartialTileSize x y n) = None"
  using assms web_get_objs [of w "JoinPair (TilePath (wl_root st) x y (PartialTileSize x y n))"] ascii_names(2) [of "wl_root st"]
  by (auto simp: web_GetTile_def web_defs obj_tv_def parse_tile_def Let_def wrapf_def split: option.splits sum.splits if_splits)

lemma web_StoreTile_view:
  assumes "web_inv (st, w)" "0 < NumLeaves t" "NumLeaves t \<le> 256" "web_StoreTile st w x y t = (err, w')"
  shows "web_inv (st, w') \<and> web_entries (st, w') = web_entries (st, w) \<and> tile_stored x y t (web_view (st, w)) (web_view (st, w')) \<and>
    (err = None \<longrightarrow> web_view (st, w') x y (NumLeaves t mod 256) = Some (reread t))"
proof -
  let ?k = "JoinPair (TilePath (wl_root st) x y (NumLeaves t mod 256))"
  have i: "js_ok w" "ascii (wl_root st)" "obj_room (wl_root st) (web_objs w)" using assms(1) by (simp_all add: web_defs)
  have js: "ws_js w (MarshalText t) = MarshalText t" using i(1) by (simp add: js_ok_def)
  obtain e1 where c: "web_createExclusive w ?k (MarshalText t) = (e1, w')" and e: "err = None \<longleftrightarrow> e1 = None"
    using assms(2-4) by (auto simp: web_StoreTile_def Let_def not_less split: prod.splits option.splits if_splits)
  note o = createExclusive_objs [OF i(1) ascii_names(2) [OF i(2)] c, unfolded js]
  show ?thesis
  proof (cases e1)
    case None
    then have o': "web_objs w' = put_obj ?k (MarshalText t) (web_objs w)" using o(1) by simp
    then show ?thesis using i o(2) put_tile_stored [OF assms(3), where x = x and y = y and root = "wl_root st" and m = "web_objs w"]
      by (simp add: web_defs put_obj_tile(1,2) same_browserD)
  next
    case (Some e')
    then show ?thesis using o assms(1) e tile_stored_refl by auto
  qed
qed

lemma web_scan_returns:
  assumes "web_inv (st, w)"
  shows "\<exists>m. web_ScanSequenced st w b = Some (map (\<lambda>i. (of_nat i, the (web_entries (st, w) i))) [unat b..<m], of_nat m - b, None) \<and>
     unat b \<le> m \<and> m < 2 ^ 64 \<and> (\<forall>i. unat b \<le> i \<and> i < m \<longrightarrow> web_entries (st, w) i \<noteq> None) \<and> web_entries (st, w) m = None"
proof -
  let ?root = "wl_root st"
  have i: "js_ok w" "ascii ?root" "obj_room ?root (web_objs w)" using assms by (simp_all add: web_defs)
  define rd where "rd = (\<lambda>q. web_get w (JoinPair (SeqPath ?root q)))"
  have rd: "rd q = (case web_entries (st, w) (unat q) of None \<Rightarrow> Inl ErrNotExist | Some x \<Rightarrow> Inr x)" for q
    unfolding rd_def using web_get_objs [OF i(1) ascii_names(1) [OF i(2)]] by (simp add: web_entries_def)
  define stop where "stop = (\<lambda>e. if errors_Is e ErrNotExist then None else Some (wrapf ''failed to read leafdata at index'' e))"
  have step: "web_scan_loop ?root w b q calls =
      (case rd q of Inl e \<Rightarrow> Some (calls, q - b, stop e) | Inr x \<Rightarrow> web_scan_loop ?root w b (q + 1) (calls @ [(q, x)]))" for q calls
    by (subst web_scan_loop.simps) (simp add: rd_def stop_def split: sum.splits)
  have bound: "\<forall>j. web_entries (st, w) j \<noteq> None \<longrightarrow> j < 2 ^ 64 - 1"
    unfolding web_entries_def fst_conv snd_conv using obj_entry_bound [OF i(3)] by blast
  have some: "\<forall>q x. rd q = Inr x \<longrightarrow> web_entries (st, w) (unat q) = Some x" unfolding rd by (simp split: option.splits)
  have none: "\<forall>q e. rd q = Inl e \<and> stop e = None \<longrightarrow> web_entries (st, w) (unat q) = None"
    unfolding rd by (simp split: option.splits)
  obtain m err where m: "web_scan_loop ?root w b b [] = Some ([] @ map (\<lambda>i. (of_nat i, the (web_entries (st, w) i))) [unat b..<m], of_nat m - b, err)"
      "unat b \<le> m" "m < 2 ^ 64" "\<forall>i. unat b \<le> i \<and> i < m \<longrightarrow> web_entries (st, w) i \<noteq> None" "err = None \<longrightarrow> web_entries (st, w) m = None"
      "\<exists>e. rd (of_nat m) = Inl e \<and> stop e = err"
    using scan_shape [where L = "web_scan_loop ?root w b" and rd = rd and stop = stop and en = "web_entries (st, w)"
        and b = b and q = b and calls = "[]", OF step some none bound] by blast
  have "err = None" using m(6) unfolding rd by (auto simp: stop_def split: option.splits)
  then show ?thesis using m(1-5) by (intro exI [of _ m]) (simp only: web_ScanSequenced_def append_Nil simp_thms)
qed

interpretation web: log_storage web_storage web_inv web_view web_entries
proof (unfold_locales, goal_cases)
  case (1 s x y n t)
  then show ?case using web_GetTile_view(1) [of "fst s" "snd s" x y n t] by (simp add: web_storage_def case_prod_beta)
next
  case (2 s x y n e)
  then show ?case using web_GetTile_view(2) [of "fst s" "snd s" x y n e] by (simp add: web_storage_def case_prod_beta)
next
  case (3 s t x y err s')
  then obtain w' where w': "web_StoreTile (fst s) (snd s) x y t = (err, w')" "s' = (fst s, w')"
    by (cases "web_StoreTile (fst s) (snd s) x y t") (auto simp: web_storage_def case_prod_beta)
  then show ?case using web_StoreTile_view [of "fst s" "snd s" t x y err w'] 3 by simp
next
  case (4 s b es k)
  from web_scan_returns [of "fst s" "snd s" b] obtain m where
    m: "web_ScanSequenced (fst s) (snd s) b = Some (map (\<lambda>i. (of_nat i, the (web_entries s i))) [unat b..<m], of_nat m - b, None)"
    "unat b \<le> m" "m < 2 ^ 64" "\<forall>i. unat b \<le> i \<and> i < m \<longrightarrow> web_entries s i \<noteq> None" "web_entries s m = None" using 4(1) by auto
  have es: "es = map (\<lambda>i. (of_nat i, the (web_entries s i))) [unat b..<m]" and k: "k = of_nat m - b"
    using 4(2) m(1) by (auto simp: web_storage_def case_prod_beta)
  show ?case unfolding es k scan_count [OF m(2,3)] using m(2,4,5) by (intro exI [of _ m] conjI refl)
next
  case (5 s j)
  then show ?case using obj_entry_bound [of "wl_root (fst s)" "web_objs (snd s)" j] by (simp add: web_defs)
qed

subsection \<open>Sequencing a leaf\<close>

lemma web_sequence_skip:
  assumes "js_ok w" "ascii (wl_root st)" "web_objs w (JoinPair (SeqPath (wl_root st) (wl_nextSeq st))) \<noteq> None"
  shows "web_sequence_loop st w leafFQ leaf = web_sequence_loop (st\<lparr>wl_nextSeq := wl_nextSeq st + 1\<rparr>) w leafFQ leaf"
  using createExclusive_present [OF assms(1) ascii_names(1) [OF assms(2)] assms(3)]
  by (subst web_sequence_loop.simps) (simp add: Let_def)

lemma web_sequence_write:
  assumes "js_ok w" "ascii (wl_root st)" "web_objs w (JoinPair (SeqPath (wl_root st) (wl_nextSeq st))) = None"
    "LeafPath (wl_root st) lh = Inr p" "3 < length lh" "web_objs w (JoinPair p) = None" "\<And>its n b. \<not> ws_throws w its n b"
  shows "\<exists>w'. web_sequence_loop st w (JoinPair p) leaf = Some ((wl_nextSeq st, None), st, w') \<and> same_browser w w' \<and>
    web_objs w' = put_obj (JoinPair p) (format_uint 16 (unat (wl_nextSeq st)))
      (put_obj (JoinPair (SeqPath (wl_root st) (wl_nextSeq st))) (ws_js w leaf) (web_objs w))"
proof -
  let ?k = "JoinPair (SeqPath (wl_root st) (wl_nextSeq st))" and ?f = "format_uint 16 (unat (wl_nextSeq st))"
  obtain w1 where w1: "web_createExclusive w ?k leaf = (None, w1)" "web_objs w1 = put_obj ?k (ws_js w leaf) (web_objs w)" "same_browser w w1"
    using createExclusive_fresh [OF assms(1) ascii_names(1) [OF assms(2)] assms(3,7)] .
  have j1: "js_ok w1" "\<And>its n b. \<not> ws_throws w1 its n b" using w1(3) assms(1,7) by (simp_all add: same_browserD(1)) (simp add: same_browser_def)
  have "web_objs w1 (JoinPair p) = None" using w1(2) assms(6) leaf_names(1) [OF assms(4,5)] by (simp add: put_obj_def)
  then obtain w2 where w2: "web_createExclusive w1 (JoinPair p) ?f = (None, w2)"
      "web_objs w2 = put_obj (JoinPair p) (ws_js w1 ?f) (web_objs w1)" "same_browser w1 w2"
    using createExclusive_fresh [OF j1(1) ascii_names(4) [OF assms(2,4)] _ j1(2)] by blast
  have "ws_js w1 ?f = ?f" using j1(1) ascii_format_uint by (simp add: js_ok_def)
  then show ?thesis using w1 w2 same_browserD(3) [OF w1(3) w2(3)]
    by (intro exI [of _ w2]) (simp add: web_sequence_loop.simps [of st] Let_def)
qed

text \<open>\<open>Sequence\<close> of a leaf whose hash is not known gives it the first free number at or after \<open>nextSeq\<close>:
  the entry there becomes the leaf (as JavaScript keeps it), no other entry and no tile changes, and
  sequencing the same hash again returns that number and \<open>ErrDupeLeaf\<close> without a change.\<close>

theorem web_Sequence_assigns:
  assumes "web_inv (st, w)" "LeafPath (wl_root st) lh = Inr p" "3 < length lh" "web_objs w (JoinPair p) = None"
    "\<And>its n b. \<not> ws_throws w its n b"
  shows "\<exists>m w'. web_Sequence st w lh leaf = Some ((m, None), st\<lparr>wl_nextSeq := m\<rparr>, w') \<and> wl_nextSeq st \<le> m \<and>
    (\<forall>i. wl_nextSeq st \<le> i \<and> i < m \<longrightarrow> web_entries (st, w) (unat i) \<noteq> None) \<and> web_entries (st, w) (unat m) = None \<and>
    web_entries (st, w') = (web_entries (st, w))(unat m \<mapsto> ws_js w leaf) \<and> web_view (st, w') = web_view (st, w) \<and>
    web_Sequence (st\<lparr>wl_nextSeq := m\<rparr>) w' lh leaf2 = Some ((m, Some ErrDupeLeaf), st\<lparr>wl_nextSeq := m\<rparr>, w')"
proof -
  let ?root = "wl_root st" and ?used = "\<lambda>q. web_objs w (JoinPair (SeqPath (wl_root st) q)) \<noteq> None"
  let ?L = "\<lambda>q. web_sequence_loop (st\<lparr>wl_nextSeq := q\<rparr>) w (JoinPair p) leaf"
  have i: "js_ok w" "ascii ?root" "obj_room ?root (web_objs w)" using assms(1) by (simp_all add: web_defs)
  have leaf: "ascii (JoinPair p)" using ascii_names(4) [OF i(2) assms(2)] .
  have "\<not> ?used (- 1)" using i(3) by (simp add: obj_room_def)
  from next_free [where used = ?used, OF this, of "wl_nextSeq st" ?L] obtain m where
    m: "wl_nextSeq st \<le> m" "\<not> ?used m" "\<And>j. \<lbrakk>wl_nextSeq st \<le> j; j < m\<rbrakk> \<Longrightarrow> ?used j"
       "(\<forall>j. ?used j \<longrightarrow> ?L j = ?L (j + 1)) \<longrightarrow> ?L (wl_nextSeq st) = ?L m" by blast
  have "?L j = ?L (j + 1)" if "?used j" for j
    using web_sequence_skip [of w "st\<lparr>wl_nextSeq := j\<rparr>" "JoinPair p" leaf] i(1,2) that by simp
  then have loop: "web_sequence_loop st w (JoinPair p) leaf = ?L m" using m(4) by simp
  obtain w' where w': "?L m = Some ((m, None), st\<lparr>wl_nextSeq := m\<rparr>, w')" "same_browser w w'"
      "web_objs w' = put_obj (JoinPair p) (format_uint 16 (unat m)) (put_obj (JoinPair (SeqPath ?root m)) (ws_js w leaf) (web_objs w))"
    using web_sequence_write [of w "st\<lparr>wl_nextSeq := m\<rparr>" lh p leaf] i(1,2) m(2) assms(2-5) by auto
  note other = put_obj_other [OF leaf_names(1) [OF assms(2,3)] leaf_names(2) [OF assms(2,3)], of "format_uint 16 (unat m)"]
  have "web_Sequence st w lh leaf = Some ((m, None), st\<lparr>wl_nextSeq := m\<rparr>, w')"
    using loop w'(1) web_get_objs [OF i(1) leaf] assms(2,4) by (simp add: web_Sequence_def)
  moreover have "web_entries (st, w') = (web_entries (st, w))(unat m \<mapsto> ws_js w leaf)" "web_view (st, w') = web_view (st, w)"
    unfolding web_entries_def web_view_def fst_conv snd_conv w'(3) other put_obj_seq by (rule refl)+
  moreover have "web_get w' (JoinPair p) = Inr (format_uint 16 (unat m))"
    using web_get_objs [OF _ leaf, of w'] w'(2,3) i(1) by (simp add: same_browserD put_obj_def)
  then have "web_Sequence (st\<lparr>wl_nextSeq := m\<rparr>) w' lh leaf2 = Some ((m, Some ErrDupeLeaf), st\<lparr>wl_nextSeq := m\<rparr>, w')"
    using assms(2) parse_uint_format [of 16 "unat m" 64] unat_lt_u64 [of m] by (simp add: web_Sequence_def)
  ultimately show ?thesis using m(1-3) by (intro exI [of _ m] exI [of _ w']) (simp add: web_entries_def)
qed

text \<open>C17: \<open>Integrate\<close> on the browser storage: the checkpoint it returns is the root of all sequenced
  entries, and whatever fails no tree that could be read before is damaged.\<close>

theorem Integrate_web_correct:
  assumes "compact_range (RF (HashChildren h)) (HashChildren h) rep" "permutes iter" "nonempty_hashes h"
    "log_ready web_inv web_view web_entries h (unat (Size c)) m s" "Integrate RF iter web_storage h c s = (r, s')"
  shows "integrated web_inv web_view web_entries h (unat (Size c)) m s r s'"
  by (rule web.Integrate_sound [OF assms])

text \<open>A tile that is already stored cannot be stored again, not even with the same contents: an
  integration that is repeated after it failed half way fails as well.\<close>

theorem web_StoreTile_again_fails:
  assumes "web_inv (st, w)" "0 < NumLeaves t" "NumLeaves t \<le> 256" "web_StoreTile st w x y t = (None, w')"
  shows "web_StoreTile st w' x y t = (Some (Wrapf ''failed to write temporary tile file'' ErrExist), w')"
proof -
  have v: "web_inv (st, w')" "web_view (st, w') x y (NumLeaves t mod 256) = Some (reread t)"
    using web_StoreTile_view [OF assms] by simp_all
  then have "web_objs w' (JoinPair (TilePath (wl_root st) x y (NumLeaves t mod 256))) \<noteq> None"
    by (cases "web_objs w' (JoinPair (TilePath (wl_root st) x y (NumLeaves t mod 256)))") (auto simp: web_view_def obj_tv_def)
  then show ?thesis using createExclusive_present [of w' "JoinPair (TilePath (wl_root st) x y (NumLeaves t mod 256))"] v(1) assms(2,3)
    by (auto simp: web_StoreTile_def Let_def web_inv_def wrapf_def ascii_names not_less)
qed

end
