(* ===== verification/GcpStorage.thy ===== *)
theory GcpStorage
  imports ObjLog
begin

section \<open>serverless/experimental/gcp-log/internal/storage/storage.go\<close>

text \<open>
  The storage of a log in a Google Cloud Storage bucket.  The client library is the parameter record
  \<open>gcs\<close> over a state \<open>'g\<close> of the service: the result of opening a reader and, if that succeeds, of
  reading it to the end; the attributes of an object; the \<^verbatim>\<open>Write\<close> of a writer, and its \<^verbatim>\<open>Close\<close>, which
  is where the object is stored (under the condition \<^verbatim>\<open>DoesNotExist\<close> if the flag is set).
\<close>

record 'g gcs =
  g_BucketAttrs :: "'g \<Rightarrow> string \<Rightarrow> go_error option"
  g_BucketCreate :: "'g \<Rightarrow> string \<Rightarrow> string \<Rightarrow> go_error option \<times> 'g"
  g_SetACL :: "'g \<Rightarrow> string \<Rightarrow> 'g"
  g_NewReader :: "'g \<Rightarrow> string \<Rightarrow> string \<Rightarrow> bytes res res"
  g_Attrs :: "'g \<Rightarrow> string \<Rightarrow> string \<Rightarrow> go_error option"
  g_Write :: "'g \<Rightarrow> string \<Rightarrow> string \<Rightarrow> bytes \<Rightarrow> go_error option"
  g_Close :: "'g \<Rightarrow> bool \<Rightarrow> string \<Rightarrow> string \<Rightarrow> bytes \<Rightarrow> go_error option \<times> 'g"
  g_Objects :: "'g \<Rightarrow> string \<Rightarrow> string \<Rightarrow> string res list"

definition ErrObjectNotExist :: go_error where
  "ErrObjectNotExist = Sentinel ''storage: object doesn't exist''"

definition ErrBucketNotExist :: go_error where
  "ErrBucketNotExist = Sentinel ''storage: bucket doesn't exist''"

text \<open>A \<^verbatim>\<open>googleapi.Error\<close> with the code 412.\<close>

definition ErrPreconditionFailed :: go_error where
  "ErrPreconditionFailed = Sentinel ''googleapi: Error 412''"

record gcsClient =
  gc_projectID :: string
  gc_bucket :: string
  gc_nextSeq :: u64

definition gcp_NewClient :: "go_error option \<Rightarrow> string \<Rightarrow> string \<Rightarrow> gcsClient res" where
  "gcp_NewClient err projectID bucket =
     (case err of Some e \<Rightarrow> Inl e | None \<Rightarrow> Inr \<lparr>gc_projectID = projectID, gc_bucket = bucket, gc_nextSeq = 0\<rparr>)"

definition gcp_Create :: "'g gcs \<Rightarrow> gcsClient \<Rightarrow> 'g \<Rightarrow> string \<Rightarrow> go_error option \<times> gcsClient \<times> 'g" where
  "gcp_Create G c g bucket =
     (if (case g_BucketAttrs G g bucket of None \<Rightarrow> True | Some e \<Rightarrow> \<not> errors_Is e ErrBucketNotExist)
      then (Some (Errorf ''expected bucket to not be created yet''), c, g)
      else (case g_BucketCreate G g bucket (gc_projectID c) of
              (Some e, g') \<Rightarrow> (Some (wrapf ''failed to create bucket'' e), c, g')
            | (None, g') \<Rightarrow> (None, c\<lparr>gc_bucket := bucket, gc_nextSeq := 0\<rparr>, g_SetACL G g' bucket)))"

definition gcp_SetNextSeq :: "gcsClient \<Rightarrow> u64 \<Rightarrow> gcsClient" where
  "gcp_SetNextSeq c num = c\<lparr>gc_nextSeq := num\<rparr>"

text \<open>Writing an object and closing the writer.\<close>

definition gcp_put :: "'g gcs \<Rightarrow> gcsClient \<Rightarrow> 'g \<Rightarrow> string \<Rightarrow> bytes \<Rightarrow> (go_error \<Rightarrow> go_error) \<Rightarrow> go_error option \<times> 'g" where
  "gcp_put G c g obj b werr =
     (case g_Write G g (gc_bucket c) obj b of
        Some e \<Rightarrow> (Some (werr e), g)
      | None \<Rightarrow> g_Close G g False (gc_bucket c) obj b)"

definition gcp_WriteCheckpoint :: "'g gcs \<Rightarrow> gcsClient \<Rightarrow> 'g \<Rightarrow> bytes \<Rightarrow> go_error option \<times> 'g" where
  "gcp_WriteCheckpoint G c g newCPRaw = gcp_put G c g CheckpointPath newCPRaw id"

definition gcp_ReadCheckpoint :: "'g gcs \<Rightarrow> gcsClient \<Rightarrow> 'g \<Rightarrow> bytes res" where
  "gcp_ReadCheckpoint G c g = (case g_NewReader G g (gc_bucket c) CheckpointPath of Inl e \<Rightarrow> Inl e | Inr r \<Rightarrow> r)"

definition gcp_GetTile :: "'g gcs \<Rightarrow> gcsClient \<Rightarrow> 'g \<Rightarrow> u64 \<Rightarrow> u64 \<Rightarrow> u64 \<Rightarrow> Tile res" where
  "gcp_GetTile G c g level index lsize =
     (let tileSize = PartialTileSize level index lsize;
          objName = JoinPair (TilePath [] level index tileSize)
      in case g_NewReader G g (gc_bucket c) objName of
           Inl err \<Rightarrow> if errors_Is err ErrObjectNotExist then Inl ErrNotExist else Inl err
         | Inr (Inl err) \<Rightarrow> Inl (errorf ''failed to read tile object'' err)
         | Inr (Inr t) \<Rightarrow>
             (case UnmarshalText t of
                Inl err \<Rightarrow> Inl (wrapf ''failed to parse tile'' err)
              | Inr tile \<Rightarrow> Inr tile))"

partial_function (option) gcp_scan_loop ::
    "'g gcs \<Rightarrow> gcsClient \<Rightarrow> 'g \<Rightarrow> u64 \<Rightarrow> u64 \<Rightarrow> (u64 \<times> bytes) list \<Rightarrow> ((u64 \<times> bytes) list \<times> u64 \<times> go_error option) option" where
  "gcp_scan_loop G c g begn endd calls =
     (case g_NewReader G g (gc_bucket c) (JoinPair (SeqPath [] endd)) of
        Inl err \<Rightarrow>
          if errors_Is err ErrObjectNotExist then Some (calls, endd - begn, None)
          else Some (calls, endd - begn, Some (errorf ''ScanSequenced: failed to create reader'' err))
      | Inr (Inl err) \<Rightarrow> Some (calls, endd - begn, Some (wrapf ''failed to read leafdata at index'' err))
      | Inr (Inr entry) \<Rightarrow> gcp_scan_loop G c g begn (endd + 1) (calls @ [(endd, entry)]))"

definition gcp_ScanSequenced ::
    "'g gcs \<Rightarrow> gcsClient \<Rightarrow> 'g \<Rightarrow> u64 \<Rightarrow> ((u64 \<times> bytes) list \<times> u64 \<times> go_error option) option" where
  "gcp_ScanSequenced G c g begn = gcp_scan_loop G c g begn begn []"

definition gcp_GetObjects :: "'g gcs \<Rightarrow> gcsClient \<Rightarrow> 'g \<Rightarrow> string \<Rightarrow> string res list" where
  "gcp_GetObjects G c g entriesDir = g_Objects G g (gc_bucket c) entriesDir"

definition gcp_GetObjectData :: "'g gcs \<Rightarrow> gcsClient \<Rightarrow> 'g \<Rightarrow> string \<Rightarrow> bytes res" where
  "gcp_GetObjectData G c g obj =
     (case g_NewReader G g (gc_bucket c) obj of
        Inl e \<Rightarrow> Inl (errorf ''GetObjectData: failed to create reader'' e)
      | Inr r \<Rightarrow> r)"

subsection \<open>Sequencing\<close>

text \<open>
  Several sequencers may work on one bucket, so \<open>Sequence\<close> is given by the calls it makes one after the
  other: the look-up of the leaf hash, then for one number after the other the look at its object and
  the conditional write, and at last the write of the index object.
\<close>

datatype gcp_phase =
    CheckDupe
  | TryAttrs
  | TryWrite u64
  | WriteIndex u64
  | Returned u64 "go_error option"

definition gcp_check_dupe :: "'g gcs \<Rightarrow> gcsClient \<Rightarrow> 'g \<Rightarrow> string \<Rightarrow> gcp_phase" where
  "gcp_check_dupe G c g leafPath =
     (case g_NewReader G g (gc_bucket c) leafPath of
        Inr (Inl e) \<Rightarrow> Returned 0 (Some e)
      | Inr (Inr seqString) \<Rightarrow>
          (case parse_uint seqString 16 64 of
             Inl e \<Rightarrow> Returned 0 (Some e)
           | Inr origSeq \<Rightarrow> Returned (of_nat origSeq) (Some ErrDupeLeaf))
      | Inl e \<Rightarrow> if \<not> errors_Is e ErrObjectNotExist then Returned 0 (Some e) else TryAttrs)"

fun gcp_advance ::
    "'g gcs \<Rightarrow> string \<Rightarrow> bytes \<Rightarrow> gcsClient \<Rightarrow> gcp_phase \<Rightarrow> 'g \<Rightarrow> gcsClient \<times> gcp_phase \<times> 'g" where
  "gcp_advance G leafPath leaf c CheckDupe g = (c, gcp_check_dupe G c g leafPath, g)"
| "gcp_advance G leafPath leaf c TryAttrs g =
     (case g_Attrs G g (gc_bucket c) (JoinPair (SeqPath [] (gc_nextSeq c))) of
        None \<Rightarrow> (c\<lparr>gc_nextSeq := gc_nextSeq c + 1\<rparr>, TryAttrs, g)
      | Some e \<Rightarrow>
          if \<not> errors_Is e ErrObjectNotExist then (c, Returned 0 (Some (errorf ''couldn't get attr of object'' e)), g)
          else (c, TryWrite (gc_nextSeq c), g))"
| "gcp_advance G leafPath leaf c (TryWrite seq) g =
     (case g_Write G g (gc_bucket c) (JoinPair (SeqPath [] seq)) leaf of
        Some e \<Rightarrow> (c, Returned 0 (Some (wrapf ''failed to write seq file'' e)), g)
      | None \<Rightarrow>
          (case g_Close G g True (gc_bucket c) (JoinPair (SeqPath [] seq)) leaf of
             (Some e, g') \<Rightarrow>
               if errors_Is e ErrPreconditionFailed then (c\<lparr>gc_nextSeq := gc_nextSeq c + 1\<rparr>, TryAttrs, g')
               else (c, Returned 0 (Some (errorf ''couldn't close writer for object'' e)), g')
           | (None, g') \<Rightarrow> (c, WriteIndex seq, g')))"
| "gcp_advance G leafPath leaf c (WriteIndex seq) g =
     (case g_Write G g (gc_bucket c) leafPath (format_uint 16 (unat seq)) of
        Some e \<Rightarrow> (c, Returned 0 (Some (wrapf ''couldn't create leafhash object'' e)), g)
      | None \<Rightarrow>
          (case g_Close G g False (gc_bucket c) leafPath (format_uint 16 (unat seq)) of
             (Some e, g') \<Rightarrow> (c, Returned 0 (Some (errorf ''couldn't close writer for object'' e)), g')
           | (None, g') \<Rightarrow> (c, Returned seq None, g')))"
| "gcp_advance G leafPath leaf c (Returned seq err) g = (c, Returned seq err, g)"

text \<open>A call that no other sequencer interrupts.\<close>

partial_function (option) gcp_sequence_run ::
    "'g gcs \<Rightarrow> string \<Rightarrow> bytes \<Rightarrow> gcsClient \<Rightarrow> gcp_phase \<Rightarrow> 'g \<Rightarrow> ((u64 \<times> go_error option) \<times> gcsClient \<times> 'g) option" where
  "gcp_sequence_run G leafPath leaf c ph g =
     (case ph of
        Returned seq err \<Rightarrow> Some ((seq, err), c, g)
      | _ \<Rightarrow> (case gcp_advance G leafPath leaf c ph g of (c', ph', g') \<Rightarrow> gcp_sequence_run G leafPath leaf c' ph' g'))"

definition gcp_Sequence ::
    "'g gcs \<Rightarrow> gcsClient \<Rightarrow> 'g \<Rightarrow> bytes \<Rightarrow> bytes \<Rightarrow> ((u64 \<times> go_error option) \<times> gcsClient \<times> 'g) option" where
  "gcp_Sequence G c g leafhash leaf =
     (case LeafPath [] leafhash of
        Inl e \<Rightarrow> Some ((0, Some e), c, g)
      | Inr p \<Rightarrow> gcp_sequence_run G (JoinPair p) leaf c CheckDupe g)"

text \<open>Any number of calls at once, each by its own client: a state has the bucket and, for each call, its
  client, its phase and what it sequences; a step advances one of them.\<close>

record seq_call =
  sc_client :: gcsClient
  sc_phase :: gcp_phase
  sc_leafPath :: string
  sc_leaf :: bytes

inductive gcp_step :: "'g gcs \<Rightarrow> seq_call list \<times> 'g \<Rightarrow> seq_call list \<times> 'g \<Rightarrow> bool" for G where
  advance: "\<lbrakk>i < length calls; gcp_advance G (sc_leafPath (calls ! i)) (sc_leaf (calls ! i)) (sc_client (calls ! i)) (sc_phase (calls ! i)) g = (c', ph', g')\<rbrakk> \<Longrightarrow>
    gcp_step G (calls, g) (calls[i := (calls ! i)\<lparr>sc_client := c', sc_phase := ph'\<rparr>], g')"

inductive_cases gcp_stepE: "gcp_step G (calls, g) s"

subsection \<open>Tiles\<close>

text \<open>The statements after the close of the writer are not reachable.\<close>

definition gcp_StoreTile :: "'g gcs \<Rightarrow> gcsClient \<Rightarrow> 'g \<Rightarrow> u64 \<Rightarrow> u64 \<Rightarrow> Tile \<Rightarrow> go_error option \<times> 'g" where
  "gcp_StoreTile G c g level index tile =
     (let tileSize = NumLeaves tile in
      if tileSize = 0 \<or> 256 < tileSize then (Some (Errorf ''tileSize must be > 0 and <= 256''), g)
      else gcp_put G c g (JoinPair (TilePath [] level index (tileSize mod 256))) (MarshalText tile) (wrapf ''failed to write tile object''))"

definition gcp_storage :: "'g gcs \<Rightarrow> (gcsClient \<times> 'g) Storage" where
  "gcp_storage G = \<lparr>
     st_GetTile = (\<lambda>(c, g) level index lsize. gcp_GetTile G c g level index lsize),
     st_StoreTile = (\<lambda>(c, g) level index t. map_prod id (Pair c) (gcp_StoreTile G c g level index t)),
     st_WriteCheckpoint = (\<lambda>(c, g) raw. map_prod id (Pair c) (gcp_WriteCheckpoint G c g raw)),
     st_Sequence = (\<lambda>(c, g) leafhash leaf.
       case gcp_Sequence G c g leafhash leaf of
         Some (r, c', g') \<Rightarrow> (r, c', g')
       | None \<Rightarrow> ((0, Some (Panic ''no return'')), c, g)),
     st_ScanSequenced = (\<lambda>(c, g) b.
       case gcp_ScanSequenced G c g b of Some r \<Rightarrow> r | None \<Rightarrow> ([], 0, Some (Panic ''no return'')))\<rparr>"

end
