(* ===== verification/GcpProofs.thy ===== *)
theory GcpProofs
  imports GcpStorage
begin

section \<open>The bucket keeps a log\<close>

text \<open>
  What is relied on of the service is the locale \<open>gcs_bucket\<close>; it gives the contract of a log's storage,
  so \<open>Integrate\<close> is correct on a bucket, and it makes concurrent calls of \<open>Sequence\<close> safe: no entry is
  overwritten and no two calls return the same number.
\<close>

text \<open>
  \<open>objs\<close> are the objects of each bucket.  Reads and the attributes of an object tell whether it exists;
  a close that succeeds stores the object, under \<^verbatim>\<open>DoesNotExist\<close> only if there was none; a close that
  fails for another reason than the condition may have stored it or not.
\<close>

locale gcs_bucket =
  fixes G :: "'g gcs" and objs :: "'g \<Rightarrow> string \<Rightarrow> string \<Rightarrow> bytes option"
  assumes read_some: "g_NewReader G g bkt n = Inr (Inr b) \<Longrightarrow> objs g bkt n = Some b"
    and read_none: "\<lbrakk>g_NewReader G g bkt n = Inl e; errors_Is e ErrObjectNotExist\<rbrakk> \<Longrightarrow> objs g bkt n = None"
    and read_error: "g_NewReader G g bkt n = Inl e \<Longrightarrow> e \<noteq> ErrNotExist"
    and attrs_some: "g_Attrs G g bkt n = None \<Longrightarrow> objs g bkt n \<noteq> None"
    and close_ok: "g_Close G g only bkt n b = (None, g') \<Longrightarrow>
      objs g' = (objs g)(bkt := put_obj n b (objs g bkt)) \<and> (only \<longrightarrow> objs g bkt n = None)"
    and close_err: "g_Close G g only bkt n b = (Some e, g') \<Longrightarrow>
      objs g' = objs g \<or> objs g' = (objs g)(bkt := put_obj n b (objs g bkt)) \<and> (only \<longrightarrow> objs g bkt n = None)"
    and close_pre: "\<lbrakk>g_Close G g only bkt n b = (Some e, g'); errors_Is e ErrPreconditionFailed\<rbrakk> \<Longrightarrow>
      objs g' = objs g \<and> objs g bkt n \<noteq> None"

definition gcp_view :: "('g \<Rightarrow> string \<Rightarrow> string \<Rightarrow> bytes option) \<Rightarrow> gcsClient \<times> 'g \<Rightarrow> tile_view" where
  "gcp_view objs s = obj_tv [] (objs (snd s) (gc_bucket (fst s)))"

definition gcp_entries :: "('g \<Rightarrow> string \<Rightarrow> string \<Rightarrow> bytes option) \<Rightarrow> gcsClient \<times> 'g \<Rightarrow> nat \<Rightarrow> bytes option" where
  "gcp_entries objs s = obj_entry [] (objs (snd s) (gc_bucket (fst s)))"

definition gcp_inv :: "('g \<Rightarrow> string \<Rightarrow> string \<Rightarrow> bytes option) \<Rightarrow> gcsClient \<times> 'g \<Rightarrow> bool" where
  "gcp_inv objs s = obj_room [] (objs (snd s) (gc_bucket (fst s)))"

lemmas gcp_defs = gcp_view_def gcp_entries_def gcp_inv_def

context gcs_bucket
begin

lemma close_cases:
  assumes "g_Close G g only bkt n b = (err, g')"
  shows "objs g' = (objs g)(bkt := put_obj n b (objs g bkt)) \<and> (only \<longrightarrow> objs g bkt n = None) \<or> err \<noteq> None \<and> objs g' = objs g"
  using close_ok [of g only bkt n b g'] close_err [of g only bkt n b _ g'] assms by (cases err) auto

lemma GetTile_view:
  "gcp_GetTile G c g x y n = Inr t \<Longrightarrow> gcp_view objs (c, g) x y (PartialTileSize x y n) = Some t"
  "gcp_GetTile G c g x y n = Inl e \<Longrightarrow> os_IsNotExist e \<Longrightarrow> gcp_view objs (c, g) x y (PartialTileSize x y n) = None"
  using read_some [of g "gc_bucket c" "JoinPair (TilePath [] x y (PartialTileSize x y n))"]
    read_none [of g "gc_bucket c" "JoinPair (TilePath [] x y (PartialTileSize x y n))"]
    read_error [of g "gc_bucket c" "JoinPair (TilePath [] x y (PartialTileSize x y n))"]
  by (auto simp: gcp_GetTile_def gcp_view_def obj_tv_def parse_tile_def Let_def wrapf_def errorf_def os_IsNotExist_def
      split: sum.splits if_splits)

lemma put_cases:
  assumes "gcp_put G c g n b werr = (err, g')"
  shows "objs g' = (objs g)(gc_bucket c := put_obj n b (objs g (gc_bucket c))) \<or> err \<noteq> None \<and> objs g' = objs g"
  using assms close_cases [of g False "gc_bucket c" n b err g'] by (auto simp: gcp_put_def split: option.splits)

lemma StoreTile_view:
  assumes "gcp_inv objs (c, g)" "0 < NumLeaves t" "NumLeaves t \<le> 256" "gcp_StoreTile G c g x y t = (err, g')"
  shows "gcp_inv objs (c, g') \<and> gcp_entries objs (c, g') = gcp_entries objs (c, g) \<and>
    tile_stored x y t (gcp_view objs (c, g)) (gcp_view objs (c, g')) \<and>
    (err = None \<longrightarrow> gcp_view objs (c, g') x y (NumLeaves t mod 256) = Some (reread t))"
proof -
  let ?k = "JoinPair (TilePath [] x y (NumLeaves t mod 256))"
  have "gcp_put G c g ?k (MarshalText t) (wrapf ''failed to write tile object'') = (err, g')"
    using assms(2-4) by (auto simp: gcp_StoreTile_def Let_def not_less split: if_splits)
  from put_cases [OF this] show ?thesis
  proof
    assume "objs g' = (objs g)(gc_bucket c := put_obj ?k (MarshalText t) (objs g (gc_bucket c)))"
    then show ?thesis using assms(1) put_tile_stored [OF assms(3), where x = x and y = y and root = "[]" and m = "objs g (gc_bucket c)"]
      by (simp add: gcp_defs put_obj_tile(1,2))
  qed (use assms(1) tile_stored_refl in \<open>auto simp: gcp_defs\<close>)
qed

lemma scan_returns:
  assumes "gcp_inv objs (c, g)"
  shows "\<exists>m err. gcp_ScanSequenced G c g b = Some (map (\<lambda>i. (of_nat i, the (gcp_entries objs (c, g) i))) [unat b..<m], of_nat m - b, err) \<and>
     unat b \<le> m \<and> m < 2 ^ 64 \<and> (\<forall>i. unat b \<le> i \<and> i < m \<longrightarrow> gcp_entries objs (c, g) i \<noteq> None) \<and>
     (err = None \<longrightarrow> gcp_entries objs (c, g) m = None)"
proof -
  define rd where "rd = (\<lambda>q. case g_NewReader G g (gc_bucket c) (JoinPair (SeqPath [] q)) of
     Inl e \<Rightarrow> Inl (if errors_Is e ErrObjectNotExist then None else Some (errorf ''ScanSequenced: failed to create reader'' e))
   | Inr (Inl e) \<Rightarrow> Inl (Some (wrapf ''failed to read leafdata at index'' e)) | Inr (Inr x) \<Rightarrow> Inr x)"
  let ?en = "gcp_entries objs (c, g)" and ?L = "gcp_scan_loop G c g b"
  have step: "?L q calls = (case rd q of Inl e \<Rightarrow> Some (calls, q - b, id e) | Inr x \<Rightarrow> ?L (q + 1) (calls @ [(q, x)]))" for q calls
    by (subst gcp_scan_loop.simps) (simp add: rd_def split: sum.splits)
  have some: "\<forall>q x. rd q = Inr x \<longrightarrow> ?en (unat q) = Some x"
    using read_some [of g "gc_bucket c"] by (auto simp: rd_def gcp_entries_def split: sum.splits)
  have none: "\<forall>q e. rd q = Inl e \<and> id e = None \<longrightarrow> ?en (unat q) = None"
    using read_none [of g "gc_bucket c"] by (auto simp: rd_def gcp_entries_def split: sum.splits if_splits)
  have bound: "\<forall>j. ?en j \<noteq> None \<longrightarrow> j < 2 ^ 64 - 1"
    using assms obj_entry_bound unfolding gcp_entries_def gcp_inv_def by blast
  obtain m err where "?L b [] = Some ([] @ map (\<lambda>i. (of_nat i, the (?en i))) [unat b..<m], of_nat m - b, err)"
      "unat b \<le> m" "m < 2 ^ 64" "\<forall>i. unat b \<le> i \<and> i < m \<longrightarrow> ?en i \<noteq> None" "err = None \<longrightarrow> ?en m = None"
    using scan_shape [where L = ?L and rd = rd and stop = id and en = ?en and b = b and q = b and calls = "[]", OF step some none bound]
    by blast
  then show ?thesis by (intro exI [of _ m] exI [of _ err]) (simp only: gcp_ScanSequenced_def append_Nil simp_thms)
qed

end

sublocale gcs_bucket \<subseteq> log: log_storage "gcp_storage G" "gcp_inv objs" "gcp_view objs" "gcp_entries objs"
proof (unfold_locales, goal_cases)
  case (1 s x y n t)
  then show ?case using GetTile_view(1) [of "fst s" "snd s" x y n t] by (simp add: gcp_storage_def case_prod_beta)
next
  case (2 s x y n e)
  then show ?case using GetTile_view(2) [of "fst s" "snd s" x y n e] by (simp add: gcp_storage_def case_prod_beta)
next
  case (3 s t x y err s')
  then obtain g' where g': "gcp_StoreTile G (fst s) (snd s) x y t = (err, g')" "s' = (fst s, g')"
    by (cases "gcp_StoreTile G (fst s) (snd s) x y t") (auto simp: gcp_storage_def case_prod_beta)
  then show ?case using StoreTile_view [of "fst s" "snd s" t x y err g'] 3 by simp
next
  case (4 s b es k)
  from scan_returns [of "fst s" "snd s" b] obtain m err where
    m: "gcp_ScanSequenced G (fst s) (snd s) b = Some (map (\<lambda>i. (of_nat i, the (gcp_entries objs s i))) [unat b..<m], of_nat m - b, err)"
    "unat b \<le> m" "m < 2 ^ 64" "\<forall>i. unat b \<le> i \<and> i < m \<longrightarrow> gcp_entries objs s i \<noteq> None" "err = None \<longrightarrow> gcp_entries objs s m = None"
    using 4(1) by auto
  have es: "es = map (\<lambda>i. (of_nat i, the (gcp_entries objs s i))) [unat b..<m]" and k: "k = of_nat m - b" and "err = None"
    using 4(2) m(1) by (auto simp: gcp_storage_def case_prod_beta)
  then show ?case unfolding es k scan_count [OF m(2,3)] using m(2,4,5) by (intro exI [of _ m] conjI refl) simp_all
next
  case (5 s j)
  then show ?case using obj_entry_bound [of "[]" "objs (snd s) (gc_bucket (fst s))" j] by (simp add: gcp_defs)
qed

subsection \<open>Concurrent calls of \<open>Sequence\<close>\<close>

text \<open>A call that has a number: its conditional write succeeded.\<close>

definition owns :: "seq_call \<Rightarrow> u64 \<Rightarrow> bool" where
  "owns sc q \<longleftrightarrow> sc_phase sc = WriteIndex q \<or> sc_phase sc = Returned q None"

text \<open>Calls on bucket \<open>B\<close> whose index objects are those of leaf hashes.\<close>

definition leaf_name :: "string \<Rightarrow> bool" where
  "leaf_name n \<longleftrightarrow> (\<exists>lh p. LeafPath [] lh = Inr p \<and> 3 < length lh \<and> n = JoinPair p)"

definition bucket_call :: "string \<Rightarrow> seq_call \<Rightarrow> bool" where
  "bucket_call B sc \<longleftrightarrow> gc_bucket (sc_client sc) = B \<and> leaf_name (sc_leafPath sc)"

lemma leaf_name_other:
  assumes "leaf_name n"
  shows "obj_entry [] (put_obj n b m) = obj_entry [] m"
proof -
  obtain lh p where p: "LeafPath [] lh = Inr p" "3 < length lh" "n = JoinPair p" using assms by (auto simp: leaf_name_def)
  show ?thesis unfolding p(3) by (rule put_obj_other(2) [OF leaf_names(1) [OF p(1,2)] leaf_names(2) [OF p(1,2)]])
qed

text \<open>The entries stay, or a free number gets the leaf.\<close>

definition grows :: "bytes \<Rightarrow> (nat \<Rightarrow> bytes option) \<Rightarrow> (nat \<Rightarrow> bytes option) \<Rightarrow> bool" where
  "grows leaf en en' \<longleftrightarrow> en' = en \<or> (\<exists>k. en k = None \<and> en' = en(k \<mapsto> leaf))"

lemma growsI: "grows leaf en en" "en k = None \<Longrightarrow> grows leaf en (en(k \<mapsto> leaf))"
  by (auto simp: grows_def)

lemma grows_keeps: "\<lbrakk>grows leaf en en'; en k = Some b\<rbrakk> \<Longrightarrow> en' k = Some b"
  by (auto simp: grows_def)

context gcs_bucket
begin

abbreviation entry_at :: "string \<Rightarrow> 'g \<Rightarrow> nat \<Rightarrow> bytes option" where
  "entry_at B g \<equiv> obj_entry [] (objs g B)"

text \<open>One step of a call: the entries stay as they are, except that the number a call comes to own was free
  and gets its leaf.  A conditional write whose outcome is unknown may also have taken a free number.\<close>

lemma advance_entries:
  assumes "gcp_advance G n leaf c ph g = (c', ph', g')" "gc_bucket c = B" "leaf_name n"
  shows "gc_bucket c' = B \<and>
    (case ph' of
       WriteIndex q \<Rightarrow> entry_at B g (unat q) = None \<and> entry_at B g' = (entry_at B g)(unat q \<mapsto> leaf) \<and> ph = TryWrite q
     | Returned q None \<Rightarrow> entry_at B g' = entry_at B g \<and> (ph = WriteIndex q \<or> ph = Returned q None)
     | _ \<Rightarrow> grows leaf (entry_at B g) (entry_at B g'))"
proof (cases ph)
  case CheckDupe
  then show ?thesis using assms by (auto simp: gcp_check_dupe_def growsI split: sum.splits if_splits)
next
  case TryAttrs
  then show ?thesis using assms by (auto simp: growsI split: option.splits if_splits)
next
  case (TryWrite q)
  let ?k = "JoinPair (SeqPath [] q)"
  obtain err g1 where c: "g_Close G g True B ?k leaf = (err, g1)" by fastforce
  have e: "entry_at B g1 = (entry_at B g)(unat q \<mapsto> leaf) \<and> entry_at B g (unat q) = None \<or> err \<noteq> None \<and> entry_at B g1 = entry_at B g"
    using close_cases [OF c] by (auto simp: put_obj_seq)
  then have "grows leaf (entry_at B g) (entry_at B g1)" using growsI by metis
  then show ?thesis using assms TryWrite c e by (auto simp: growsI split: option.splits if_splits)
next
  case (WriteIndex q)
  obtain err g1 where c: "g_Close G g False B n (format_uint 16 (unat q)) = (err, g1)" by fastforce
  have "entry_at B g1 = entry_at B g" using close_cases [OF c] leaf_name_other [OF assms(3)] by auto
  then show ?thesis using assms WriteIndex c by (auto simp: growsI split: option.splits)
next
  case (Returned q err)
  then show ?thesis using assms by (auto simp: growsI split: option.splits)
qed

definition seq_inv :: "string \<Rightarrow> (nat \<Rightarrow> bytes option) \<Rightarrow> seq_call list \<times> 'g \<Rightarrow> bool" where
  "seq_inv B en0 s \<longleftrightarrow> (\<forall>sc \<in> set (fst s). bucket_call B sc) \<and>
     (\<forall>k b. en0 k = Some b \<longrightarrow> entry_at B (snd s) k = Some b) \<and>
     (\<forall>i < length (fst s). \<forall>q. owns (fst s ! i) q \<longrightarrow> en0 (unat q) = None \<and> entry_at B (snd s) (unat q) = Some (sc_leaf (fst s ! i))) \<and>
     (\<forall>i < length (fst s). \<forall>j < length (fst s). \<forall>q. owns (fst s ! i) q \<and> owns (fst s ! j) q \<longrightarrow> i = j)"


lemma seq_invD:
  assumes "seq_inv B en0 (calls, g)"
  shows "sc \<in> set calls \<Longrightarrow> bucket_call B sc" "en0 k = Some b \<Longrightarrow> entry_at B g k = Some b"
    "\<lbrakk>i < length calls; owns (calls ! i) q\<rbrakk> \<Longrightarrow> en0 (unat q) = None \<and> entry_at B g (unat q) = Some (sc_leaf (calls ! i))"
    "\<lbrakk>i < length calls; j < length calls; owns (calls ! i) q; owns (calls ! j) q\<rbrakk> \<Longrightarrow> i = j"
  using assms unfolding seq_inv_def fst_conv snd_conv by blast+

text \<open>A call owns after a step what it owned before, or a number that was free.\<close>

lemma advance_owns:
  assumes "gcp_advance G (sc_leafPath sc) (sc_leaf sc) (sc_client sc) (sc_phase sc) g = (c', ph', g')" "bucket_call B sc"
  shows "bucket_call B (sc\<lparr>sc_client := c', sc_phase := ph'\<rparr>)" "grows (sc_leaf sc) (entry_at B g) (entry_at B g')"
    "owns (sc\<lparr>sc_client := c', sc_phase := ph'\<rparr>) q \<Longrightarrow>
       owns sc q \<or> entry_at B g (unat q) = None \<and> entry_at B g' (unat q) = Some (sc_leaf sc)"
  using advance_entries [OF assms(1), of B] assms(2)
  by (auto simp: bucket_call_def owns_def growsI simp del: obj_entry_unat split: gcp_phase.splits option.splits)

lemma seq_inv_step:
  assumes "gcp_step G (calls, g) (calls', g')" "seq_inv B en0 (calls, g)"
  shows "seq_inv B en0 (calls', g')"
proof -
  obtain i c' ph' where calls': "calls' = calls[i := (calls ! i)\<lparr>sc_client := c', sc_phase := ph'\<rparr>]" and i: "i < length calls"
    and adv: "gcp_advance G (sc_leafPath (calls ! i)) (sc_leaf (calls ! i)) (sc_client (calls ! i)) (sc_phase (calls ! i)) g = (c', ph', g')"
    using assms(1) by (auto elim!: gcp_stepE)
  let ?sc = "calls ! i"
  note inv = seq_invD [OF assms(2)]
  have b: "bucket_call B ?sc" using inv(1) i by simp
  note own = advance_owns [OF adv b]
  have keep: "entry_at B g k = Some x \<Longrightarrow> entry_at B g' k = Some x" for k x by (rule grows_keeps [OF own(2)])
  have ent: "en0 (unat q) = None \<and> entry_at B g' (unat q) = Some (sc_leaf (calls' ! j))" if "j < length calls" "owns (calls' ! j) q" for j q
  proof (cases "j = i")
    case True
    then have "owns ?sc q \<or> entry_at B g (unat q) = None \<and> entry_at B g' (unat q) = Some (sc_leaf ?sc)"
      using own(3) that calls' by simp
    then show ?thesis using inv(3) [OF that(1)] inv(2) [of "unat q"] keep True calls' that(1)
      by (cases "en0 (unat q)") (auto simp del: obj_entry_unat)
  next
    case False
    then show ?thesis using inv(3) [OF that(1)] keep that(2) calls' by (simp del: obj_entry_unat)
  qed
  have new: "j = k" if "j < length calls" "k < length calls" "owns (calls' ! j) q" "owns (calls' ! k) q" "k \<noteq> i" for j k q
  proof (cases "j = i")
    case True
    have ok: "owns (calls ! k) q" using that calls' by simp
    then have "entry_at B g (unat q) \<noteq> None" using inv(3) [OF that(2)] by simp
    then have "owns ?sc q" using own(3) [of q] that(1,3) True calls' by auto
    then show ?thesis using inv(4) [OF that(1,2)] ok True by simp
  next
    case False
    then show ?thesis using inv(4) [OF that(1,2)] that(3-5) calls' by simp
  qed
  have "j = k" if "j < length calls" "k < length calls" "owns (calls' ! j) q" "owns (calls' ! k) q" for j k q
  proof (cases "k = i")
    case True
    show ?thesis
    proof (rule ccontr)
      assume ne: "j \<noteq> k"
      then have "j \<noteq> i" using True by simp
      from new [OF that(2,1,4,3) this] show False using ne by simp
    qed
  qed (rule new [OF that])
  then have uni: "\<forall>j < length calls. \<forall>k < length calls. \<forall>q. owns (calls' ! j) q \<and> owns (calls' ! k) q \<longrightarrow> j = k" by blast
  have "\<forall>sc \<in> set calls'. bucket_call B sc" using inv(1) own(1) unfolding calls' by (metis in_set_conv_nth insert_iff set_update_subset_insert subsetD)
  moreover have "\<forall>k x. en0 k = Some x \<longrightarrow> entry_at B g' k = Some x" using inv(2) keep by blast
  moreover have len: "length calls' = length calls" using calls' by simp
  ultimately show ?thesis unfolding seq_inv_def fst_conv snd_conv len using ent uni by blast
qed

lemma seq_inv_run: "\<lbrakk>(gcp_step G)\<^sup>*\<^sup>* s s'; seq_inv B en0 s\<rbrakk> \<Longrightarrow> seq_inv B en0 s' \<and> length (fst s') = length (fst s) \<and> map sc_leaf (fst s') = map sc_leaf (fst s)"
proof (induction rule: rtranclp_induct)
  case (step y z)
  have "seq_inv B en0 z" using seq_inv_step [of "fst y" "snd y" "fst z" "snd z"] step by simp
  moreover have "map sc_leaf (fst z) = map sc_leaf (fst y) \<and> length (fst z) = length (fst y)"
    using step(2)
  proof (induction rule: gcp_step.induct)
    case (advance i calls g c' ph' g')
    have "map sc_leaf (calls[i := (calls ! i)\<lparr>sc_client := c', sc_phase := ph'\<rparr>]) = (map sc_leaf calls)[i := map sc_leaf calls ! i]"
      using advance(1) by (simp add: map_update)
    then show ?case by simp
  qed
  ultimately show ?case using step by simp
qed simp

text \<open>A call that no other sequencer interrupts returns.\<close>

lemma run_step:
  "(\<And>q e. ph \<noteq> Returned q e) \<Longrightarrow>
     gcp_sequence_run G n leaf c ph g =
       (case gcp_advance G n leaf c ph g of (c', ph', g') \<Rightarrow> gcp_sequence_run G n leaf c' ph' g')"
  by (subst gcp_sequence_run.simps) (auto split: gcp_phase.splits)

lemma run_Returned: "gcp_sequence_run G n leaf c (Returned q e) g = Some ((q, e), c, g)"
  by (subst gcp_sequence_run.simps) simp

definition sequenced :: "bytes \<Rightarrow> gcsClient \<Rightarrow> 'g \<Rightarrow> ((u64 \<times> go_error option) \<times> gcsClient \<times> 'g) option \<Rightarrow> bool" where
  "sequenced leaf c g r \<longleftrightarrow> (\<exists>q err c' g'. r = Some ((q, err), c', g') \<and>
     (err = None \<longrightarrow> gc_nextSeq c' = q \<and> entry_at (gc_bucket c) g (unat q) = None \<and>
        entry_at (gc_bucket c) g' = (entry_at (gc_bucket c) g)(unat q \<mapsto> leaf)))"

lemma sequenced_error: "sequenced leaf c g (Some ((q, Some e), c', g'))"
  by (simp add: sequenced_def)

lemma run_TryWrite:
  assumes "leaf_name n" "gc_nextSeq c = q"
  shows "(\<exists>g'. gcp_sequence_run G n leaf c (TryWrite q) g = gcp_sequence_run G n leaf (c\<lparr>gc_nextSeq := q + 1\<rparr>) TryAttrs g' \<and>
      objs g' = objs g \<and> objs g (gc_bucket c) (JoinPair (SeqPath [] q)) \<noteq> None) \<or>
    sequenced leaf c g (gcp_sequence_run G n leaf c (TryWrite q) g)"
proof -
  let ?B = "gc_bucket c" and ?k = "JoinPair (SeqPath [] q)"
  obtain e1 g1 where c1: "g_Close G g True ?B ?k leaf = (e1, g1)" by fastforce
  obtain e2 g2 where c2: "g_Close G g1 False ?B n (format_uint 16 (unat q)) = (e2, g2)" by fastforce
  have g2: "entry_at ?B g2 = entry_at ?B g1" using close_cases [OF c2] leaf_name_other [OF assms(1)] by auto
  have idx: "sequenced leaf c g (gcp_sequence_run G n leaf c (WriteIndex q) g1)" if "e1 = None"
  proof -
    have "entry_at ?B g (unat q) = None" "entry_at ?B g1 = (entry_at ?B g)(unat q \<mapsto> leaf)"
      using close_ok [of g True ?B ?k leaf g1] c1 that by (auto simp: put_obj_seq)
    then show ?thesis using c2 g2 assms(2)
      by (auto simp: run_step run_Returned sequenced_def split: option.splits)
  qed
  show ?thesis using c1 idx close_pre [of g True ?B ?k leaf _ g1] assms(2)
    by (auto simp: run_step [of "TryWrite q"] run_Returned sequenced_error split: option.splits if_splits)
qed

lemma run_TryAttrs:
  assumes "leaf_name n"
  shows "obj_room [] (objs g (gc_bucket c)) \<Longrightarrow> sequenced leaf c g (gcp_sequence_run G n leaf c TryAttrs g)"
proof (induction "2 ^ 64 - unat (gc_nextSeq c)" arbitrary: c g rule: less_induct)
  case less
  let ?q = "gc_nextSeq c" and ?B = "gc_bucket c"
  have nx: "sequenced leaf c g (gcp_sequence_run G n leaf (c\<lparr>gc_nextSeq := ?q + 1\<rparr>) TryAttrs g')"
    if o: "objs g' = objs g" "objs g ?B (JoinPair (SeqPath [] ?q)) \<noteq> None" for g'
  proof -
    have "?q \<noteq> - 1" using o(2) less.prems by (auto simp: obj_room_def)
    then have "unat ?q \<noteq> 2 ^ 64 - 1" by (metis unat_minus_1_u64 word_unat_eq_iff)
    then have lt: "unat ?q + 1 < 2 ^ 64" using unat_lt_u64 [of ?q] by linarith
    have "2 ^ 64 - unat (?q + 1) < 2 ^ 64 - unat ?q" using lt unat_Suc_u64 [OF lt] by linarith
    then have "sequenced leaf (c\<lparr>gc_nextSeq := ?q + 1\<rparr>) g' (gcp_sequence_run G n leaf (c\<lparr>gc_nextSeq := ?q + 1\<rparr>) TryAttrs g')"
      using less.prems o(1) by (intro less.hyps) simp_all
    then show ?thesis using o(1) by (simp add: sequenced_def)
  qed
  show ?case
  proof (cases "g_Attrs G g ?B (JoinPair (SeqPath [] ?q))")
    case None
    then show ?thesis using nx [OF refl attrs_some [OF None]] by (simp add: run_step [of TryAttrs])
  next
    case (Some e)
    then show ?thesis using run_TryWrite [OF assms refl, where c = c and leaf = leaf and g = g] nx
      by (auto simp: run_step [of TryAttrs] run_Returned sequenced_error)
  qed
qed

lemma run_sequenced:
  assumes "leaf_name n" "obj_room [] (objs g (gc_bucket c))"
  shows "sequenced leaf c g (gcp_sequence_run G n leaf c CheckDupe g)"
  using run_TryAttrs [OF assms, of leaf]
  by (auto simp: run_step [of CheckDupe] gcp_check_dupe_def run_Returned sequenced_error split: sum.splits)

lemma Integrate_bucket:
  assumes "compact_range (RF (HashChildren h)) (HashChildren h) rep" "permutes iter" "nonempty_hashes h"
    "log_ready (gcp_inv objs) (gcp_view objs) (gcp_entries objs) h (unat (Size c)) m s"
    "Integrate RF iter (gcp_storage G) h c s = (r, s')"
  shows "integrated (gcp_inv objs) (gcp_view objs) (gcp_entries objs) h (unat (Size c)) m s r s'"
  by (rule log.Integrate_sound [OF assms])

end

text \<open>C16: \<open>Integrate\<close> on a bucket: the checkpoint it returns is the root of all sequenced entries, and
  whatever requests fail no tree that could be read before is damaged.\<close>

theorem Integrate_gcp_correct:
  assumes "gcs_bucket G objs" "compact_range (RF (HashChildren h)) (HashChildren h) rep" "permutes iter" "nonempty_hashes h"
    "log_ready (gcp_inv objs) (gcp_view objs) (gcp_entries objs) h (unat (Size c)) m s"
    "Integrate RF iter (gcp_storage G) h c s = (r, s')"
  shows "integrated (gcp_inv objs) (gcp_view objs) (gcp_entries objs) h (unat (Size c)) m s r s'"
  by (rule gcs_bucket.Integrate_bucket [OF assms])

text \<open>C12: However the calls of any number of sequencers on one bucket interleave, no entry is ever
  overwritten, a call that returned a number without an error has its leaf there, in a place that was
  free at the start, and no two calls return the same number.\<close>

theorem gcp_Sequence_concurrent:
  assumes "gcs_bucket G objs" "\<forall>sc \<in> set calls. bucket_call B sc \<and> sc_phase sc = CheckDupe" "(gcp_step G)\<^sup>*\<^sup>* (calls, g) (calls', g')"
  shows "(\<forall>k b. obj_entry [] (objs g B) k = Some b \<longrightarrow> obj_entry [] (objs g' B) k = Some b) \<and>
    (\<forall>i < length calls. \<forall>q. sc_phase (calls' ! i) = Returned q None \<longrightarrow>
       obj_entry [] (objs g B) (unat q) = None \<and> obj_entry [] (objs g' B) (unat q) = Some (sc_leaf (calls ! i))) \<and>
    (\<forall>i < length calls. \<forall>j < length calls. \<forall>q. sc_phase (calls' ! i) = Returned q None \<and> sc_phase (calls' ! j) = Returned q None \<longrightarrow> i = j)"
proof -
  have "\<not> owns (calls ! i) q" if "i < length calls" for i q using assms(2) that nth_mem [OF that] by (auto simp: owns_def)
  then have "gcs_bucket.seq_inv objs B (obj_entry [] (objs g B)) (calls, g)"
    using assms(2) by (simp add: gcs_bucket.seq_inv_def [OF assms(1)])
  from gcs_bucket.seq_inv_run [OF assms(1,3) this]
  have inv: "gcs_bucket.seq_inv objs B (obj_entry [] (objs g B)) (calls', g')" and len: "length calls' = length calls"
    and leaf: "map sc_leaf calls' = map sc_leaf calls" by simp_all
  have "sc_leaf (calls' ! i) = sc_leaf (calls ! i)" if "i < length calls" for i
    using leaf len that by (metis nth_map)
  then show ?thesis using gcs_bucket.seq_invD(2-4) [OF assms(1) inv] len by (simp add: owns_def)
qed

text \<open>An uninterrupted call of \<open>Sequence\<close> always returns, and if it reports no error the number it
  returns was free and now has the leaf, with no other entry changed.\<close>

theorem gcp_Sequence_returns:
  assumes "gcs_bucket G objs" "LeafPath [] lh = Inr p" "3 < length lh" "gcp_inv objs (c, g)"
  shows "\<exists>q err c' g'. gcp_Sequence G c g lh leaf = Some ((q, err), c', g') \<and>
    (err = None \<longrightarrow> gc_nextSeq c' = q \<and> gcp_entries objs (c, g) (unat q) = None \<and>
       gcp_entries objs (c, g') = (gcp_entries objs (c, g))(unat q \<mapsto> leaf))"
proof -
  have "gcs_bucket.sequenced objs leaf c g (gcp_Sequence G c g lh leaf)"
  proof -
    have "leaf_name (JoinPair p)" using assms(2,3) unfolding leaf_name_def by blast
    then show ?thesis using gcs_bucket.run_sequenced [OF assms(1), of "JoinPair p" g c leaf] assms(2,4)
      by (simp add: gcp_Sequence_def gcp_inv_def)
  qed
  then show ?thesis unfolding gcs_bucket.sequenced_def [OF assms(1)] gcp_entries_def fst_conv snd_conv .
qed

end
