(* ===== verification/StorageExamples.thy ===== *)
theory StorageExamples
  imports Examples WebProofs GcpProofs
begin

section \<open>The browser and bucket storages at concrete inputs\<close>

text \<open>A browser without a quota, a bucket service kept in a list that satisfies \<open>gcs_bucket\<close>, and the
  properties of both storages on a log with one entry.\<close>

lemma empty_log_ready:
  assumes "sinv s" "view s = (\<lambda>x y ps. None)" "log_length (entry s) m"
  shows "log_ready sinv view entry h 0 m s"
  using assms all_good_empty holds_tree_empty by (simp add: log_ready_def)

lemma zero_size: "unat (Size zero_checkpoint) = 0"
  by (simp add: zero_checkpoint_def)

subsection \<open>The browser\<close>

definition demo_browser :: "(string \<times> bytes) list \<Rightarrow> webStore" where
  "demo_browser its = \<lparr>ws_items = its, ws_js = id, ws_throws = (\<lambda>its n b. False)\<rparr>"

definition demo_web :: webStorage where
  "demo_web = \<lparr>wl_root = ''/l'', wl_nextSeq = 0, wl_checkpoint = zero_checkpoint\<rparr>"

abbreviation demo_web_log :: "webStorage \<times> webStore" where
  "demo_web_log \<equiv> (demo_web, demo_browser [(JoinPair (SeqPath ''/l'' 0), ''x'')])"

lemma demo_web_inv: "web_inv (demo_web, demo_browser [])" "web_inv demo_web_log"
  by (simp_all add: web_inv_def js_ok_def demo_web_def demo_browser_def obj_room_def)

lemma demo_web_ready: "log_ready web_inv web_view web_entries demo_hasher (unat (Size zero_checkpoint)) 1 demo_web_log"
  unfolding zero_size
proof (rule empty_log_ready)
  show "web_view demo_web_log = (\<lambda>x y ps. None)"
    by (simp add: fun_eq_iff web_view_def obj_tv_def demo_web_def demo_browser_def)
  show "log_length (web_entries demo_web_log) 1"
    by (simp add: log_length_def web_entries_def obj_entry_def demo_web_def demo_browser_def)
qed (rule demo_web_inv)

theorem Integrate_web_correct_witness:
  "case Integrate ref_compact id web_storage demo_hasher zero_checkpoint demo_web_log of
     (r, s') \<Rightarrow> integrated web_inv web_view web_entries demo_hasher (unat (Size zero_checkpoint)) 1 demo_web_log r s'"
  unfolding case_prod_beta
  by (rule Integrate_web_correct [where rep = "ref_rep (HashChildren demo_hasher)" and RF = ref_compact and h = demo_hasher and iter = id
        and c = zero_checkpoint and s = demo_web_log, OF ref.compact_range_axioms permutes_id(1) demo_nonempty demo_web_ready prod.collapse [symmetric]])

theorem web_Sequence_assigns_witness:
  "\<exists>m w'. web_Sequence demo_web (demo_browser []) ''hash'' ''x'' = Some ((m, None), demo_web\<lparr>wl_nextSeq := m\<rparr>, w') \<and>
     web_entries (demo_web, w') = (web_entries (demo_web, demo_browser []))(unat m \<mapsto> ''x'') \<and>
     web_Sequence (demo_web\<lparr>wl_nextSeq := m\<rparr>) w' ''hash'' ''y'' = Some ((m, Some ErrDupeLeaf), demo_web\<lparr>wl_nextSeq := m\<rparr>, w')"
proof -
  obtain p where p: "LeafPath (wl_root demo_web) ''hash'' = Inr p" by (simp add: LeafPath_def)
  show ?thesis using web_Sequence_assigns [OF demo_web_inv(1) p, of "''x''" "''y''"] by (auto simp: demo_browser_def)
qed

subsection \<open>The bucket\<close>

definition list_gcs :: "((string \<times> string) \<times> bytes) list gcs" where
  "list_gcs =
     \<lparr>g_BucketAttrs = (\<lambda>g b. None), g_BucketCreate = (\<lambda>g b p. (Some ErrExist, g)), g_SetACL = (\<lambda>g b. g),
      g_NewReader = (\<lambda>g b n. case map_of g (b, n) of None \<Rightarrow> Inl ErrObjectNotExist | Some x \<Rightarrow> Inr (Inr x)),
      g_Attrs = (\<lambda>g b n. case map_of g (b, n) of None \<Rightarrow> Some ErrObjectNotExist | Some x \<Rightarrow> None),
      g_Write = (\<lambda>g b n x. None),
      g_Close = (\<lambda>g only b n x. if only \<and> map_of g (b, n) \<noteq> None then (Some ErrPreconditionFailed, g)
                                else (None, AList.update (b, n) x g)),
      g_Objects = (\<lambda>g b p. map (Inr \<circ> snd) (filter (\<lambda>(b', n). b' = b \<and> has_prefix n p) (map fst g)))\<rparr>"

definition list_objs :: "((string \<times> string) \<times> bytes) list \<Rightarrow> string \<Rightarrow> string \<Rightarrow> bytes option" where
  "list_objs g b n = map_of g (b, n)"

interpretation lgcs: gcs_bucket list_gcs list_objs
  by unfold_locales
    (auto simp: list_gcs_def list_objs_def ErrObjectNotExist_def ErrPreconditionFailed_def update_conv' put_obj_def fun_eq_iff
      split: option.splits if_splits)

definition demo_client :: gcsClient where
  "demo_client = \<lparr>gc_projectID = ''p'', gc_bucket = ''b'', gc_nextSeq = 0\<rparr>"

abbreviation demo_gcp_log :: "gcsClient \<times> ((string \<times> string) \<times> bytes) list" where
  "demo_gcp_log \<equiv> (demo_client, [((''b'', JoinPair (SeqPath [] 0)), ''x'')])"

lemma demo_gcp_ready:
  "log_ready (gcp_inv list_objs) (gcp_view list_objs) (gcp_entries list_objs) demo_hasher (unat (Size zero_checkpoint)) 1 demo_gcp_log"
  unfolding zero_size
proof (rule empty_log_ready)
  show "gcp_view list_objs demo_gcp_log = (\<lambda>x y ps. None)"
    by (simp add: fun_eq_iff gcp_view_def obj_tv_def demo_client_def list_objs_def)
  show "log_length (gcp_entries list_objs demo_gcp_log) 1"
    by (simp add: log_length_def gcp_entries_def obj_entry_def demo_client_def list_objs_def)
qed (simp add: gcp_inv_def obj_room_def demo_client_def list_objs_def)

theorem Integrate_gcp_correct_witness:
  "case Integrate ref_compact id (gcp_storage list_gcs) demo_hasher zero_checkpoint demo_gcp_log of
     (r, s') \<Rightarrow> integrated (gcp_inv list_objs) (gcp_view list_objs) (gcp_entries list_objs) demo_hasher
       (unat (Size zero_checkpoint)) 1 demo_gcp_log r s'"
  unfolding case_prod_beta
  by (rule Integrate_gcp_correct [where rep = "ref_rep (HashChildren demo_hasher)" and RF = ref_compact and h = demo_hasher and iter = id
        and c = zero_checkpoint and s = demo_gcp_log and G = list_gcs and objs = list_objs, OF lgcs.gcs_bucket_axioms ref.compact_range_axioms permutes_id(1) demo_nonempty demo_gcp_ready prod.collapse [symmetric]])

lemma demo_leaf_path: "\<exists>p. LeafPath [] ''hash'' = Inr p"
  by (simp add: LeafPath_def)

theorem gcp_Sequence_returns_witness:
  "\<exists>q err c' g'. gcp_Sequence list_gcs demo_client [] ''hash'' ''x'' = Some ((q, err), c', g') \<and>
    (err = None \<longrightarrow> gc_nextSeq c' = q \<and> gcp_entries list_objs (demo_client, []) (unat q) = None \<and>
       gcp_entries list_objs (demo_client, g') = (gcp_entries list_objs (demo_client, []))(unat q \<mapsto> ''x''))"
proof -
  obtain p where p: "LeafPath [] ''hash'' = Inr p" using demo_leaf_path by blast
  show ?thesis by (rule gcp_Sequence_returns [OF lgcs.gcs_bucket_axioms p]) (simp_all add: gcp_inv_def obj_room_def list_objs_def)
qed

theorem gcp_Sequence_concurrent_witness:
  "\<exists>calls :: seq_call list. length calls = 2 \<and>
    (\<forall>calls' g'. (gcp_step list_gcs)\<^sup>*\<^sup>* (calls, []) (calls', g') \<longrightarrow>
       (\<forall>i < length calls. \<forall>j < length calls. \<forall>q. sc_phase (calls' ! i) = Returned q None \<and> sc_phase (calls' ! j) = Returned q None \<longrightarrow> i = j))"
proof -
  obtain p where p: "LeafPath [] ''hash'' = Inr p" using demo_leaf_path by blast
  let ?c = "\<lparr>sc_client = demo_client, sc_phase = CheckDupe, sc_leafPath = JoinPair p, sc_leaf = ''x''\<rparr>"
  have "leaf_name (JoinPair p)" unfolding leaf_name_def using p by (intro exI [of _ "''hash''"] exI [of _ p]) simp
  then have "\<forall>sc \<in> set [?c, ?c]. bucket_call ''b'' sc \<and> sc_phase sc = CheckDupe" by (simp add: bucket_call_def demo_client_def)
  note conc = gcp_Sequence_concurrent [OF lgcs.gcs_bucket_axioms this]
  have "length [?c, ?c] = 2" by simp
  then show ?thesis using conc by (intro exI [of _ "[?c, ?c]"] conjI allI impI) blast+
qed

theorem web_StoreTile_again_fails_witness:
  "\<exists>w'. web_StoreTile demo_web (demo_browser []) 0 0 \<lparr>NumLeaves = 1, Nodes = []\<rparr> = (None, w') \<and>
     web_StoreTile demo_web w' 0 0 \<lparr>NumLeaves = 1, Nodes = []\<rparr> = (Some (Wrapf ''failed to write temporary tile file'' ErrExist), w')"
proof -
  obtain w' where w': "web_StoreTile demo_web (demo_browser []) 0 0 \<lparr>NumLeaves = 1, Nodes = []\<rparr> = (None, w')"
    by (simp add: web_StoreTile_def Let_def web_createExclusive_def web_exists_def web_get_def web_setItem_def demo_browser_def)
  then show ?thesis using web_StoreTile_again_fails [OF demo_web_inv(1) _ _ w'] by (intro exI [of _ w']) simp
qed

end
