(* ===== verification/LogTools.thy ===== *)
theory LogTools
  imports FsLive NoteLib
begin

section \<open>The command-line tools of a serverless log\<close>

text \<open>
  \<^verbatim>\<open>serverless/cmd/sequence/main.go\<close> and \<^verbatim>\<open>serverless/cmd/integrate/main.go\<close> on the file-system storage.
  Flags and the environment are arguments; the result of a run is \<open>None\<close> for exit status 0 and the
  error that is logged otherwise, with the file system it leaves behind.
\<close>

text \<open>The constructors of \<^verbatim>\<open>golang.org/x/mod/sumdb/note\<close> that the tools call.\<close>

record ('v, 's) key_lib =
  key_NewVerifier :: "string \<Rightarrow> 'v res"
  key_NewSigner :: "string \<Rightarrow> 's res"

type_synonym environ = "string \<Rightarrow> string"

definition getKeyFile :: "os \<Rightarrow> string \<Rightarrow> string res" where
  "getKeyFile f path =
     (case os_ReadFile f path of Inl e \<Rightarrow> Inl (wrapf ''failed to read key file'' e) | Inr k \<Rightarrow> Inr k)"

text \<open>A key from a file, or from the environment when no file is named.\<close>

definition integrate_key :: "os \<Rightarrow> environ \<Rightarrow> string \<Rightarrow> string \<Rightarrow> string res" where
  "integrate_key f env keyFile var =
     (if 0 < length keyFile
      then (case getKeyFile f keyFile of Inl e \<Rightarrow> Inl (errorf ''Unable to get key'' e) | Inr k \<Rightarrow> Inr k)
      else (let k = env var in if length k = 0 then Inl (Errorf ''Supply key file path'') else Inr k))"

definition signAndWrite ::
    "('v, 's) note_lib \<Rightarrow> string \<Rightarrow> Checkpoint \<Rightarrow> Note \<Rightarrow> 's \<Rightarrow> fsStorage \<Rightarrow> os \<Rightarrow> go_error option \<times> os" where
  "signAndWrite N origin c cpNote s st f =
     (let c = c\<lparr>Origin := origin\<rparr>; cpNote = cpNote\<lparr>NoteText := MarshalCheckpoint N c\<rparr> in
      case note_Sign N cpNote [s] of
        Inl e \<Rightarrow> (Some (wrapf ''failed to sign Checkpoint'' e), f)
      | Inr cpNoteSigned \<Rightarrow>
          (case WriteCheckpoint st f cpNoteSigned of
             (Some e, f') \<Rightarrow> (Some (wrapf ''failed to store new log checkpoint'' e), f')
           | (None, f') \<Rightarrow> (None, f')))"

record integrate_flags =
  if_storageDir :: string
  if_initialise :: bool
  if_pubKeyFile :: string
  if_privKeyFile :: string
  if_origin :: string

definition empty_note :: Note where
  "empty_note = \<lparr>NoteText = [], Sigs = [], UnverifiedSigs = []\<rparr>"

text \<open>\<^verbatim>\<open>--initialise\<close>: a new log with the checkpoint of the empty tree.\<close>

definition integrate_init :: "('v, 's) note_lib \<Rightarrow> hasher \<Rightarrow> integrate_flags \<Rightarrow> 's \<Rightarrow> os \<Rightarrow> go_error option \<times> os" where
  "integrate_init N h fl s f =
     (case Create f (if_storageDir fl) of
        (Inl e, f1) \<Rightarrow> (Some (errorf ''Failed to create log'' e), f1)
      | (Inr st, f1) \<Rightarrow>
          (case signAndWrite N (if_origin fl) \<lparr>Origin = [], Size = 0, Hash = EmptyRoot h\<rparr> empty_note s st f1 of
             (Some e, f2) \<Rightarrow> (Some (errorf ''Failed to sign'' e), f2)
           | (None, f2) \<Rightarrow> (None, f2)))"

definition integrate_run ::
    "('v, 's) key_lib \<Rightarrow> ('v, 's) note_lib \<Rightarrow> (hash_fn \<Rightarrow> 'r compact) \<Rightarrow> ((tileKey \<times> Tile) list \<Rightarrow> (tileKey \<times> Tile) list) \<Rightarrow>
     hasher \<Rightarrow> integrate_flags \<Rightarrow> string \<Rightarrow> 's \<Rightarrow> os \<Rightarrow> go_error option \<times> os" where
  "integrate_run K N RF iter h fl pubKey s f =
     (case ReadCheckpoint f (if_storageDir fl) of
        Inl e \<Rightarrow> (Some (errorf ''Failed to read log checkpoint'' e), f)
      | Inr cpRaw \<Rightarrow>
        (case key_NewVerifier K pubKey of
           Inl e \<Rightarrow> (Some (errorf ''Failed to instantiate Verifier'' e), f)
         | Inr v \<Rightarrow>
           (case ParseCheckpoint N cpRaw (if_origin fl) v [] of
              Inl e \<Rightarrow> (Some (errorf ''Failed to open Checkpoint'' e), f)
            | Inr (c, _) \<Rightarrow>
              (case Load f (if_storageDir fl) (Size c) of
                 Inl e \<Rightarrow> (Some (errorf ''Failed to load storage'' e), f)
               | Inr st \<Rightarrow>
                 (case Integrate RF iter fs_storage h c (st, f) of
                    (Inl e, st1, f1) \<Rightarrow> (Some (errorf ''Failed to integrate'' e), f1)
                  | (Inr None, st1, f1) \<Rightarrow> (Some (Errorf ''Nothing to integrate''), f1)
                  | (Inr (Some newCp), st1, f1) \<Rightarrow>
                      (case signAndWrite N (if_origin fl) newCp empty_note s st1 f1 of
                         (Some e, f2) \<Rightarrow> (Some (errorf ''Failed to sign'' e), f2)
                       | (None, f2) \<Rightarrow> (None, f2)))))))"

definition integrate_main ::
    "('v, 's) key_lib \<Rightarrow> ('v, 's) note_lib \<Rightarrow> (hash_fn \<Rightarrow> 'r compact) \<Rightarrow> ((tileKey \<times> Tile) list \<Rightarrow> (tileKey \<times> Tile) list) \<Rightarrow>
     hasher \<Rightarrow> environ \<Rightarrow> integrate_flags \<Rightarrow> os \<Rightarrow> go_error option \<times> os" where
  "integrate_main K N RF iter h env fl f =
     (if length (if_origin fl) = 0 then (Some (Errorf ''Please set --origin flag to log identifier.''), f)
      else (case integrate_key f env (if_pubKeyFile fl) ''SERVERLESS_LOG_PUBLIC_KEY'' of
        Inl e \<Rightarrow> (Some e, f)
      | Inr pubKey \<Rightarrow>
        (case integrate_key f env (if_privKeyFile fl) ''SERVERLESS_LOG_PRIVATE_KEY'' of
           Inl e \<Rightarrow> (Some e, f)
         | Inr privKey \<Rightarrow>
           (case key_NewSigner K privKey of
              Inl e \<Rightarrow> (Some (errorf ''Failed to instantiate signer'' e), f)
            | Inr s \<Rightarrow>
                if if_initialise fl then integrate_init N h fl s f
                else integrate_run K N RF iter h fl pubKey s f))))"

subsection \<open>Sequencing entries\<close>

record sequence_flags =
  sf_storageDir :: string
  sf_entries :: string
  sf_pubKeyFile :: string
  sf_origin :: string

text \<open>A goroutine reads the entry files and sends them to the main loop over a channel; if a file cannot
  be read it exits the process, at which time the main loop has sequenced the first entries only,
  \<open>behind\<close> many less than were read (that the exit can fall into the middle of sequencing an entry is not
  modelled).  The entry files are not files of the log directory.  The log line of an entry is its number, its name and whether it is
  a duplicate.\<close>

fun read_entries :: "os \<Rightarrow> string list \<Rightarrow> (string \<times> bytes) list \<times> go_error option" where
  "read_entries f [] = ([], None)"
| "read_entries f (fp # fps) =
     (case os_ReadFile f fp of
        Inl e \<Rightarrow> ([], Some (errorf ''Failed to read entry file'' e))
      | Inr b \<Rightarrow> (let (es, err) = read_entries f fps in ((fp, b) # es, err)))"

type_synonym seq_line = "u64 \<times> string \<times> bool"

fun sequence_entries ::
    "hasher \<Rightarrow> fsStorage \<Rightarrow> os \<Rightarrow> (string \<times> bytes) list \<Rightarrow> seq_line list \<Rightarrow>
     (go_error option \<times> seq_line list \<times> fsStorage \<times> os) option" where
  "sequence_entries h st f [] lns = Some (None, lns, st, f)"
| "sequence_entries h st f ((name, b) # es) lns =
     (case Sequence st f (HashLeaf h b) b of
        None \<Rightarrow> None
      | Some ((seq, err), st', f') \<Rightarrow>
          (case err of
             None \<Rightarrow> sequence_entries h st' f' es (lns @ [(seq, name, False)])
           | Some e \<Rightarrow>
               if errors_Is e ErrDupeLeaf then sequence_entries h st' f' es (lns @ [(seq, name, True)])
               else Some (Some (errorf ''failed to sequence'' e), lns, st', f')))"

definition sequence_main ::
    "('v, 's) key_lib \<Rightarrow> ('v, 's) note_lib \<Rightarrow> (os \<Rightarrow> string \<Rightarrow> string list res) \<Rightarrow> nat \<Rightarrow> hasher \<Rightarrow> environ \<Rightarrow> sequence_flags \<Rightarrow> os \<Rightarrow>
     (go_error option \<times> seq_line list \<times> os) option" where
  "sequence_main K N glob behind h env fl f =
     (let exit = (\<lambda>m e. Some (Some (errorf m e), [], f)) in
      case (if 0 < length (sf_pubKeyFile fl)
            then (case os_ReadFile f (sf_pubKeyFile fl) of Inl e \<Rightarrow> Inl (errorf ''failed to read public_key file'' e) | Inr k \<Rightarrow> Inr k)
            else if length (env ''SERVERLESS_LOG_PUBLIC_KEY'') = 0 then Inl (Errorf ''supply public key file path'')
            else Inr (env ''SERVERLESS_LOG_PUBLIC_KEY'')) of
        Inl e \<Rightarrow> Some (Some e, [], f)
      | Inr pubKey \<Rightarrow>
        (case glob f (sf_entries fl) of
           Inl e \<Rightarrow> exit ''Failed to glob entries'' e
         | Inr toAdd \<Rightarrow>
           if length toAdd = 0 then Some (Some (Errorf ''Sequence must be run with at least one valid entry''), [], f)
           else (case ReadCheckpoint f (sf_storageDir fl) of
              Inl e \<Rightarrow> exit ''Failed to read log checkpoint'' e
            | Inr cpRaw \<Rightarrow>
              (case key_NewVerifier K pubKey of
                 Inl e \<Rightarrow> exit ''Failed to instantiate Verifier'' e
               | Inr v \<Rightarrow>
                 (case ParseCheckpoint N cpRaw (sf_origin fl) v [] of
                    Inl e \<Rightarrow> exit ''Failed to parse Checkpoint'' e
                  | Inr (c, _) \<Rightarrow>
                    (case Load f (sf_storageDir fl) (Size c) of
                       Inl e \<Rightarrow> exit ''Failed to load storage'' e
                     | Inr st \<Rightarrow>
                       (let (es, rerr) = read_entries f toAdd;
                            es' = (if rerr = None then es else take (length es - behind) es)
                        in case sequence_entries h st f es' [] of
                             None \<Rightarrow> None
                           | Some (Some e, lns, st', f') \<Rightarrow> Some (Some e, lns, f')
                           | Some (None, lns, st', f') \<Rightarrow> Some (rerr, lns, f'))))))))"

end
