(* ===== verification/ClientTool.thy ===== *)
theory ClientTool
  imports LogTools Notes WitnessHttp
begin

section \<open>serverless/cmd/client/client.go\<close>

text \<open>
  The command-line client of a serverless log.  Flags, environment and the URL and HTTP packages are
  arguments.  A run gives \<open>None\<close> for exit status 0 or the error that is logged, and the file system it leaves
  behind.  All fetching happens before the first file is written, so a fetcher of local files reads the file
  system the run starts with.
\<close>

text \<open>\<open>'u\<close> is a parsed URL: parsing, resolving a reference against a base, and its parts.\<close>

record 'u url_lib =
  u_Parse :: "string \<Rightarrow> 'u res"
  u_Resolve :: "'u \<Rightarrow> string \<Rightarrow> 'u res"
  u_Scheme :: "'u \<Rightarrow> string"
  u_Path :: "'u \<Rightarrow> string"
  u_String :: "'u \<Rightarrow> string"

record client_flags =
  cf_cacheDir :: string
  cf_distributorURLs :: "string list"
  cf_logURL :: string
  cf_logPubKeyFile :: string
  cf_logID :: string
  cf_origin :: string
  cf_witnessPubKeyFiles :: "string list"
  cf_witnessSigsRequired :: int
  cf_outputCheckpoint :: string
  cf_outputConsistency :: string
  cf_outputInclusion :: string
  cf_inclusionHash :: bool

definition readHTTP :: "'c http_client \<Rightarrow> 'c \<Rightarrow> string \<Rightarrow> bytes res" where
  "readHTTP c st u =
     (case NewRequest c ''GET'' u [] of
        Inl e \<Rightarrow> Inl e
      | Inr req \<Rightarrow>
        (case fst (client_Do c st req) of
           Inl e \<Rightarrow> Inl e
         | Inr resp \<Rightarrow>
             if StatusCode resp = 404 then Inl ErrNotExist
             else if StatusCode resp = 200 then rs_Body resp
             else Inl (Errorf ''unexpected http status'')))"

definition getByScheme :: "'u url_lib \<Rightarrow> 'c http_client \<Rightarrow> 'c \<Rightarrow> os \<Rightarrow> string \<Rightarrow> ('u \<Rightarrow> bytes res) option" where
  "getByScheme U c st f scheme =
     (if scheme = ''http'' \<or> scheme = ''https'' then Some (\<lambda>u. readHTTP c st (u_String U u))
      else if scheme = ''file'' then Some (\<lambda>u. os_ReadFile f (u_Path U u))
      else None)"

definition newFetcher :: "'u url_lib \<Rightarrow> 'c http_client \<Rightarrow> 'c \<Rightarrow> os \<Rightarrow> 'u \<Rightarrow> Fetcher res" where
  "newFetcher U c st f root =
     (case getByScheme U c st f (u_Scheme U root) of
        None \<Rightarrow> Inl (Panic ''unsupported URL scheme'')
      | Some get \<Rightarrow> Inr (\<lambda>p. case u_Resolve U root p of Inl e \<Rightarrow> Inl e | Inr u \<Rightarrow> get u))"

subsection \<open>Keys, distributors and the local cache\<close>

definition logSigVerifier :: "('v, 's) key_lib \<Rightarrow> environ \<Rightarrow> os \<Rightarrow> string \<Rightarrow> ('v \<times> bytes) res" where
  "logSigVerifier K env f file =
     (case (if 0 < length file
            then (case os_ReadFile f file of Inl e \<Rightarrow> Inl (errorf ''failed to read public key from file'' e) | Inr k \<Rightarrow> Inr k)
            else if length (env ''SERVERLESS_LOG_PUBLIC_KEY'') = 0 then Inl (Errorf ''supply public key file path'')
            else Inr (env ''SERVERLESS_LOG_PUBLIC_KEY'')) of
        Inl e \<Rightarrow> Inl e
      | Inr pubKey \<Rightarrow>
          (case key_NewVerifier K pubKey of
             Inl e \<Rightarrow> Inl (errorf ''failed to create verifier'' e)
           | Inr v \<Rightarrow> Inr (v, pubKey)))"

definition sigVerifierFromFile :: "('v, 's) key_lib \<Rightarrow> os \<Rightarrow> string \<Rightarrow> 'v res" where
  "sigVerifierFromFile K f file =
     (case os_ReadFile f file of
        Inl e \<Rightarrow> Inl (errorf ''failed to read public key from file'' e)
      | Inr k \<Rightarrow> key_NewVerifier K k)"

definition witnessSigVerifiers :: "('v, 's) key_lib \<Rightarrow> os \<Rightarrow> string list \<Rightarrow> 'v list res" where
  "witnessSigVerifiers K f fs = mapE (sigVerifierFromFile K f) fs"

definition distributors :: "'u url_lib \<Rightarrow> 'c http_client \<Rightarrow> 'c \<Rightarrow> os \<Rightarrow> string list \<Rightarrow> Fetcher list res" where
  "distributors U c st f urls =
     mapE (\<lambda>d. case u_Parse U d of Inl e \<Rightarrow> Inl (errorf ''invalid distributor URL'' e) | Inr u \<Rightarrow> newFetcher U c st f u) urls"

definition loadLocalCheckpoint :: "string \<Rightarrow> string \<Rightarrow> os \<Rightarrow> bytes res" where
  "loadLocalCheckpoint cacheDir logID f = os_ReadFile f (Join [cacheDir, logID, ''checkpoint''])"

definition storeLocalCheckpoint :: "string \<Rightarrow> string \<Rightarrow> os \<Rightarrow> bytes \<Rightarrow> go_error option \<times> os" where
  "storeLocalCheckpoint cacheDir logID f cpRaw =
     (let cpDir = Join [cacheDir, logID] in
      case os_MkdirAll f cpDir of
        (Some e, f1) \<Rightarrow> (Some e, f1)
      | (None, f1) \<Rightarrow>
          (let cpPath = Join [cpDir, ''checkpoint'']; cpPathTmp = cpPath @ ''.tmp'' in
           case os_WriteFile f1 cpPathTmp cpRaw of
             (Some e, f2) \<Rightarrow> (Some e, f2)
           | (None, f2) \<Rightarrow> os_Rename f2 cpPathTmp cpPath))"

definition merkleProof_Marshal :: "bytes list \<Rightarrow> string" where
  "merkleProof_Marshal p = concat (map (\<lambda>l. encode l @ [newline]) p)"

subsection \<open>The tool\<close>

record 'v logClientTool =
  ct_Fetcher :: Fetcher
  ct_Hasher :: hasher
  ct_Tracker :: "'v LogStateTracker"

definition update_go_error :: "update_error \<Rightarrow> go_error" where
  "update_go_error e = (case e of UpdateErr e \<Rightarrow> e | ErrInconsistency _ _ _ w \<Rightarrow> wrapf ''log consistency check failed'' w)"

definition newLogClientTool ::
    "('v, 's) note_lib \<Rightarrow> (hash_fn \<Rightarrow> 'r compact) \<Rightarrow> 'n proof_lib \<Rightarrow> ((Checkpoint \<times> Note \<times> bytes) list \<Rightarrow> (Checkpoint \<times> Note \<times> bytes) list) \<Rightarrow>
     hasher \<Rightarrow> client_flags \<Rightarrow> os \<Rightarrow> string \<Rightarrow> Fetcher \<Rightarrow> 'v \<Rightarrow> 'v list \<Rightarrow> Fetcher list \<Rightarrow> 'v logClientTool res" where
  "newLogClientTool N RF P arrive h fl f logID logFetcher logSigV witnesses distribs =
     (case (if 0 < length (cf_cacheDir fl)
            then (case loadLocalCheckpoint (cf_cacheDir fl) logID f of
                    Inl e \<Rightarrow> if \<not> errors_Is e ErrNotExist then Inl (errorf ''failed to load cached checkpoint'' e) else Inr []
                  | Inr raw \<Rightarrow> Inr raw)
            else Inr []) of
        Inl e \<Rightarrow> Inl e
      | Inr cpRaw \<Rightarrow>
        (case (if cf_witnessSigsRequired fl = 0 then Inr (UnilateralConsensus N logFetcher)
               else CheckpointNConsensus N arrive logID distribs witnesses (cf_witnessSigsRequired fl)) of
           Inl e \<Rightarrow> Inl (errorf ''failed to create consensus func'' e)
         | Inr cons \<Rightarrow>
           (case NewLogStateTracker RF P N logFetcher h cpRaw logSigV (cf_origin fl) cons of
              (tracker, Some e) \<Rightarrow> Inl (errorf ''failed to create LogStateTracker'' (update_go_error e))
            | (tracker, None) \<Rightarrow> Inr \<lparr>ct_Fetcher = logFetcher, ct_Hasher = h, ct_Tracker = tracker\<rparr>)))"

definition consistencyProof ::
    "(hash_fn \<Rightarrow> 'r compact) \<Rightarrow> 'n proof_lib \<Rightarrow> client_flags \<Rightarrow> 'v logClientTool \<Rightarrow> os \<Rightarrow> string list \<Rightarrow> go_error option \<times> os" where
  "consistencyProof RF P fl l f args =
     (if length args \<noteq> 2 then (Some (Errorf ''usage: consistency <from-size> <to-size>''), f)
      else (case parse_uint (args ! 0) 10 64 of
        Inl e \<Rightarrow> (Some (wrapf ''invalid from-size'' e), f)
      | Inr frm \<Rightarrow>
        (case parse_uint (args ! 1) 10 64 of
           Inl e \<Rightarrow> (Some (wrapf ''invalid to-size'' e), f)
         | Inr to \<Rightarrow>
             if to \<le> frm then (Some (Errorf ''from-size must be less than to-size''), f)
             else (case NewProofBuilder RF (LatestConsistent (ct_Tracker l)) (HashChildren (ct_Hasher l)) (ct_Fetcher l) of
               Inl e \<Rightarrow> (Some (wrapf ''failed to create proof builder'' e), f)
             | Inr builder \<Rightarrow>
               (case fst (ConsistencyProof P builder (of_nat frm) (of_nat to)) of
                  Inl e \<Rightarrow> (Some (wrapf ''failed to build consistency proof'' e), f)
                | Inr p \<Rightarrow>
                    if 0 < length (cf_outputConsistency fl)
                    then (case os_WriteFile f (cf_outputConsistency fl) (merkleProof_Marshal p) of
                            (Some e, f') \<Rightarrow> (Some (errorf ''failed to write inclusion proof'' e), f')
                          | (None, f') \<Rightarrow> (None, f'))
                    else (None, f))))))"

definition inclusionProofArgs :: "client_flags \<Rightarrow> 'v logClientTool \<Rightarrow> os \<Rightarrow> string list \<Rightarrow> (bytes \<times> u64) res" where
  "inclusionProofArgs fl l f args =
     (if length args < 1 \<or> 2 < length args then Inl (Errorf ''usage: inclusion <file or leaf hash> [index-in-log]'')
      else (case (if cf_inclusionHash fl
                  then (case decode (args ! 0) of Inl e \<Rightarrow> Inl (wrapf ''failed to base64 decode leaf hash'' e) | Inr lh \<Rightarrow> Inr lh)
                  else (case os_ReadFile f (args ! 0) of
                          Inl e \<Rightarrow> Inl (wrapf ''failed to read entry'' e)
                        | Inr entry \<Rightarrow> Inr (HashLeaf (ct_Hasher l) entry))) of
              Inl e \<Rightarrow> Inl e
            | Inr lh \<Rightarrow>
                if length args = 2
                then (case parse_uint (args ! 1) 16 64 of
                        Inl e \<Rightarrow> Inl (wrapf ''invalid index-in-log'' e)
                      | Inr idx \<Rightarrow> Inr (lh, of_nat idx))
                else (case LookupIndex (ct_Fetcher l) lh of
                        Inl e \<Rightarrow> Inl (wrapf ''failed to lookup leaf index'' e)
                      | Inr idx \<Rightarrow> Inr (lh, idx))))"

text \<open>Failing to write an output file is only a warning for the next two commands.\<close>

definition write_output :: "os \<Rightarrow> string \<Rightarrow> bytes \<Rightarrow> os" where
  "write_output f p b = (if 0 < length p then snd (os_WriteFile f p b) else f)"

definition inclusionProof ::
    "(hash_fn \<Rightarrow> 'r compact) \<Rightarrow> 'n proof_lib \<Rightarrow> client_flags \<Rightarrow> 'v logClientTool \<Rightarrow> os \<Rightarrow> string list \<Rightarrow> go_error option \<times> os" where
  "inclusionProof RF P fl l f args =
     (case inclusionProofArgs fl l f args of
        Inl e \<Rightarrow> (Some (wrapf ''failed to decode arguments'' e), f)
      | Inr (lh, idx) \<Rightarrow>
        (let c = LatestConsistent (ct_Tracker l) in
         case NewProofBuilder RF c (HashChildren (ct_Hasher l)) (ct_Fetcher l) of
           Inl e \<Rightarrow> (Some (wrapf ''failed to create proof builder'' e), f)
         | Inr builder \<Rightarrow>
           (case fst (InclusionProof P builder idx) of
              Inl e \<Rightarrow> (Some (wrapf ''failed to get inclusion proof'' e), f)
            | Inr p \<Rightarrow>
              (case VerifyInclusion P (ct_Hasher l) idx (Size c) lh p (Hash c) of
                 Some e \<Rightarrow> (Some (errorf ''failed to verify inclusion proof'' e), f)
               | None \<Rightarrow> (None, write_output f (cf_outputInclusion fl) (merkleProof_Marshal p))))))"

definition updateCheckpoint ::
    "(hash_fn \<Rightarrow> 'r compact) \<Rightarrow> 'n proof_lib \<Rightarrow> client_flags \<Rightarrow> 'v logClientTool \<Rightarrow> os \<Rightarrow> string list \<Rightarrow>
     go_error option \<times> 'v logClientTool \<times> os" where
  "updateCheckpoint RF P fl l f args =
     (if length args \<noteq> 0 then (Some (Errorf ''usage: update''), l, f)
      else (let c = LatestConsistent (ct_Tracker l) in
        case Update RF P (ct_Tracker l) of
          (Inl e, t) \<Rightarrow> (Some (wrapf ''failed to update checkpoint'' (update_go_error e)), l\<lparr>ct_Tracker := t\<rparr>, f)
        | (Inr (_, p, newCPRaw), t) \<Rightarrow>
            (let f1 = write_output f (cf_outputCheckpoint fl) newCPRaw in
             if Size (LatestConsistent t) = Size c then (None, l\<lparr>ct_Tracker := t\<rparr>, f1)
             else (None, l\<lparr>ct_Tracker := t\<rparr>, write_output f1 (cf_outputConsistency fl) (merkleProof_Marshal p)))))"

definition usage :: go_error where
  "usage = Errorf ''Please specify one of the commands and its arguments''"

definition run_command ::
    "(hash_fn \<Rightarrow> 'r compact) \<Rightarrow> 'n proof_lib \<Rightarrow> client_flags \<Rightarrow> 'v logClientTool \<Rightarrow> os \<Rightarrow> string list \<Rightarrow>
     go_error option \<times> 'v logClientTool \<times> os" where
  "run_command RF P fl l f args =
     (if args = [] then (Some usage, l, f)
      else if hd args = ''consistency'' then (let (err, f') = consistencyProof RF P fl l f (drop 1 args) in (err, l, f'))
      else if hd args = ''inclusion'' then (let (err, f') = inclusionProof RF P fl l f (drop 1 args) in (err, l, f'))
      else if hd args = ''update'' then updateCheckpoint RF P fl l f (drop 1 args)
      else (Some usage, l, f))"

text \<open>The client that the flags configure, and the log's ID.  \<open>logid\<close> is \<^verbatim>\<open>log.ID\<close> of the formats package.\<close>

definition client_setup ::
    "('v, 's) key_lib \<Rightarrow> ('v, 's) note_lib \<Rightarrow> 'u url_lib \<Rightarrow> 'c http_client \<Rightarrow> 'c \<Rightarrow> (hash_fn \<Rightarrow> 'r compact) \<Rightarrow> 'n proof_lib \<Rightarrow>
     ((Checkpoint \<times> Note \<times> bytes) list \<Rightarrow> (Checkpoint \<times> Note \<times> bytes) list) \<Rightarrow> (string \<Rightarrow> bytes \<Rightarrow> string) \<Rightarrow>
     hasher \<Rightarrow> environ \<Rightarrow> client_flags \<Rightarrow> os \<Rightarrow> (string \<times> 'v logClientTool) res" where
  "client_setup K N U c st RF P arrive logid h env fl f =
     (case logSigVerifier K env f (cf_logPubKeyFile fl) of
        Inl e \<Rightarrow> Inl (errorf ''failed to read log public key'' e)
      | Inr (logSigV, pubK) \<Rightarrow>
        (let logID = (if cf_logID fl = [] then logid (cf_origin fl) pubK else cf_logID fl); u = cf_logURL fl in
         if length u = 0 then Inl (Errorf ''--log_url must be provided'')
         else (case u_Parse U (if has_suffix u ''/'' then u else u @ ''/'') of
           Inl e \<Rightarrow> Inl (errorf ''Invalid log URL'' e)
         | Inr rootURL \<Rightarrow>
           (case witnessSigVerifiers K f (cf_witnessPubKeyFiles fl) of
              Inl e \<Rightarrow> Inl (errorf ''Failed to read witness pub keys'' e)
            | Inr witnesses \<Rightarrow>
              if int (length witnesses) < cf_witnessSigsRequired fl then Inl (Errorf ''only fewer witnesses configured'')
              else (case distributors U c st f (cf_distributorURLs fl) of
                Inl e \<Rightarrow> if is_panic e then Inl e else Inl (errorf ''Failed to create distributors list'' e)
              | Inr distribs \<Rightarrow>
                (case newFetcher U c st f rootURL of
                   Inl e \<Rightarrow> Inl e
                 | Inr fetch \<Rightarrow>
                   (case newLogClientTool N RF P arrive h fl f logID fetch logSigV witnesses distribs of
                      Inl e \<Rightarrow> Inl (errorf ''Failed to create new client'' e)
                    | Inr lc \<Rightarrow> Inr (logID, lc))))))))"

definition client_main ::
    "('v, 's) key_lib \<Rightarrow> ('v, 's) note_lib \<Rightarrow> 'u url_lib \<Rightarrow> 'c http_client \<Rightarrow> 'c \<Rightarrow> (hash_fn \<Rightarrow> 'r compact) \<Rightarrow> 'n proof_lib \<Rightarrow>
     ((Checkpoint \<times> Note \<times> bytes) list \<Rightarrow> (Checkpoint \<times> Note \<times> bytes) list) \<Rightarrow> (string \<Rightarrow> bytes \<Rightarrow> string) \<Rightarrow>
     hasher \<Rightarrow> environ \<Rightarrow> client_flags \<Rightarrow> string list \<Rightarrow> os \<Rightarrow> go_error option \<times> os" where
  "client_main K N U c st RF P arrive logid h env fl args f =
     (case client_setup K N U c st RF P arrive logid h env fl f of
        Inl e \<Rightarrow> (Some e, f)
      | Inr (logID, lc) \<Rightarrow>
        (case run_command RF P fl lc f args of
           (Some e, _, f1) \<Rightarrow> (Some (if e = usage then e else errorf ''Command failed'' e), f1)
         | (None, lc', f1) \<Rightarrow>
             if 0 < length (cf_cacheDir fl)
             then (case storeLocalCheckpoint (cf_cacheDir fl) logID f1 (LatestConsistentRaw (ct_Tracker lc')) of
                     (Some e, f2) \<Rightarrow> (Some (errorf ''Failed to persist local log state'' e), f2)
                   | (None, f2) \<Rightarrow> (None, f2))
             else (None, f1)))"

end
