(* ===== verification/FsSequence.thy ===== *)
theory FsSequence
  imports FsTheorems ObjLog
begin

section \<open>Sequencing an entry and writing the checkpoint on the file system\<close>

text \<open>
  Most of what \<open>Sequence\<close> and \<open>WriteCheckpoint\<close> do happens away from the sequenced entries and the
  tiles: in the directories, in \<^verbatim>\<open>leaves/\<close> and in temporary files.  Such changes are quiet; the one that is
  not is the link that makes the entry.
\<close>

definition quiet :: "string \<Rightarrow> os \<Rightarrow> os \<Rightarrow> bool" where
  "quiet root f g \<longleftrightarrow> tree g \<and> fault g = fault f \<and> (\<forall>cs. (length cs = 6 \<and> hd cs \<in> {''seq'', ''tile''}) \<longrightarrow> ent g (rk root cs) = ent f (rk root cs))"

lemma log_keys:
  "\<exists>cs. seq_key root q = rk root cs \<and> length cs = 6 \<and> hd cs \<in> {''seq'', ''tile''}"
  "\<exists>cs. full_key root x y = rk root cs \<and> length cs = 6 \<and> hd cs \<in> {''seq'', ''tile''}"
  "\<exists>cs. sfx_key root x y s = rk root cs \<and> length cs = 6 \<and> hd cs \<in> {''seq'', ''tile''}"
  by (auto simp: seq_key_def full_key_def sfx_key_def seq_comps_def tile_dir_def)

lemma quiet_ent:
  assumes "quiet root f g"
  shows "ent g (seq_key root q) = ent f (seq_key root q)" "ent g (full_key root x y) = ent f (full_key root x y)"
    "ent g (sfx_key root x y s) = ent f (sfx_key root x y s)"
  using assms log_keys(1) [of root q] log_keys(2) [of root x y] log_keys(3) [of root x y s] unfolding quiet_def by metis+

lemma quiet_ok:
  assumes "fs_ok root f" "quiet root f g"
  shows "fs_ok root g" "fs_tv root g = fs_tv root f" "fs_entry root g = fs_entry root f" "fault g = fault f"
proof -
  have "same_files root f g" by (simp add: same_files_def quiet_ent [OF assms(2)])
  then show "fs_ok root g" "fs_tv root g = fs_tv root f" "fs_entry root g = fs_entry root f" "fault g = fault f"
    using same_files_ok [OF assms(1), of g] assms(2) by (auto simp: quiet_def)
qed

lemma quiet_refl: "tree f \<Longrightarrow> quiet root f f"
  by (simp add: quiet_def)

lemma quiet_trans: "\<lbrakk>quiet root f g; quiet root g h\<rbrakk> \<Longrightarrow> quiet root f h"
  by (simp add: quiet_def)

lemma dirs_ok_file:
  "\<lbrakk>dirs_ok f k; ent f k' \<noteq> Some Dir\<rbrakk> \<Longrightarrow> dirs_ok (put k' n f) k" "\<lbrakk>dirs_ok f k; ent f k' \<noteq> Some Dir\<rbrakk> \<Longrightarrow> dirs_ok (del k' f) k"
  by (auto simp: dirs_ok_def)

lemma quiet_put:
  assumes "tree f" "ent f k \<noteq> Some Dir" "cleaned (fst k) (snd k)" "dirs_ok f k"
    "\<And>cs. \<lbrakk>length cs = 6; hd cs \<in> {''seq'', ''tile''}\<rbrakk> \<Longrightarrow> k \<noteq> rk root cs"
  shows "quiet root f (put k n f)"
  using tree_put [OF assms(1-4)] assms(5) by (auto simp: quiet_def)

lemma quiet_del:
  assumes "tree f" "ent f k \<noteq> Some Dir" "\<And>cs. \<lbrakk>length cs = 6; hd cs \<in> {''seq'', ''tile''}\<rbrakk> \<Longrightarrow> k \<noteq> rk root cs"
  shows "quiet root f (del k f)"
  using tree_del [OF assms(1,2)] assms(3) by (auto simp: quiet_def)

text \<open>Names away from the entries and tiles.\<close>

definition aside :: "string \<Rightarrow> string \<Rightarrow> bool" where
  "aside root p \<longleftrightarrow> (\<exists>cs. key_of p = rk root cs \<and> cs \<noteq> [] \<and> hd cs \<notin> {''seq'', ''tile''})"

lemma asideD: "aside root p \<Longrightarrow> hd cs \<in> {''seq'', ''tile''} \<Longrightarrow> key_of p \<noteq> rk root cs"
  by (auto simp: aside_def)

lemma aside_not_root: "aside root p \<Longrightarrow> snd (key_of p) \<noteq> []"
  by (auto simp: aside_def rk_def)

lemma mkdir_quiet:
  assumes "tree f" "key_of p = rk root cs" "length cs < 6" "os_MkdirAll f p = (err, f')"
  shows "quiet root f f'" "err = None \<Longrightarrow> dirs_ok f' (rk root (cs @ [c]))" "ent f k \<noteq> None \<Longrightarrow> ent f' k = ent f k"
    "ent f' k \<noteq> None \<Longrightarrow> ent f k \<noteq> None \<or> ent f' k = Some Dir"
proof -
  note mk = MkdirAll_sound [OF assms(1,4), unfolded assms(2)]
  have "ent f' (rk root ds) = ent f (rk root ds)" if "length ds = 6" for ds
    using mk(3) [of "rk root ds"] prefix_keys [of _ root cs ds] assms(3) that by metis
  then show "quiet root f f'" using mk(1,2) by (simp add: quiet_def)
  show "err = None \<Longrightarrow> dirs_ok f' (rk root (cs @ [c]))"
    using prefixes_of_dirs_ok [of "is_rooted root" "root_comps root @ cs" f' c] mk(4) by (simp add: rk_def)
  show "ent f k \<noteq> None \<Longrightarrow> ent f' k = ent f k" "ent f' k \<noteq> None \<Longrightarrow> ent f k \<noteq> None \<or> ent f' k = Some Dir"
    using mk(3) [of k] by auto
qed

lemma createExclusive_quiet:
  assumes "tree f" "aside root p" "createExclusive f p d = (err, f')"
  shows "quiet root f f'" "err = None \<Longrightarrow> ent f (key_of p) = None \<and> f' = put (key_of p) (File d) (put (key_of p) (File []) f)"
    "k \<noteq> key_of p \<Longrightarrow> ent f' k = ent f k"
proof -
  let ?k = "key_of p"
  have out: "\<And>cs. \<lbrakk>length cs = 6; hd cs \<in> {''seq'', ''tile''}\<rbrakk> \<Longrightarrow> ?k \<noteq> rk root cs" using asideD [OF assms(2)] by blast
  have cases: "f' = f \<and> err \<noteq> None \<or> dirs_ok f ?k \<and> ent f ?k = None \<and>
      (f' = put ?k (File []) f \<and> err \<noteq> None \<or> f' = put ?k (File d) (put ?k (File []) f) \<and> err = None)"
    using assms(3) by (auto simp: createExclusive_def os_CreateExcl_def os_Write_def Let_def dir_err_None
        split: option.splits if_splits prod.splits)
  have q: "quiet root f (put ?k (File b) f)" if "dirs_ok f ?k" "ent f ?k = None" for b
    using quiet_put [OF assms(1), of ?k root "File b"] that out by simp
  have "quiet root f (put ?k (File d) (put ?k (File []) f))" if d: "dirs_ok f ?k" "ent f ?k = None"
  proof (rule quiet_trans [OF q [OF d]], rule quiet_put)
    show "tree (put ?k (File []) f)" using q [OF d] by (simp add: quiet_def)
    show "dirs_ok (put ?k (File []) f) ?k" using dirs_ok_file(1) d by simp
  qed (use out aside_not_root [OF assms(2)] in auto)
  then show "quiet root f f'" using cases q quiet_refl [OF assms(1)] by (elim disjE conjE) simp_all
  show "err = None \<Longrightarrow> ent f ?k = None \<and> f' = put ?k (File d) (put ?k (File []) f)" using cases by auto
  show "k \<noteq> ?k \<Longrightarrow> ent f' k = ent f k" using cases by auto
qed

lemma Remove_quiet:
  assumes "tree f" "aside root p"
  shows "quiet root f (os_Remove f p)" "k \<noteq> key_of p \<Longrightarrow> ent (os_Remove f p) k = ent f k"
  using quiet_del [OF assms(1), of "key_of p" root] asideD [OF assms(2)] quiet_refl [OF assms(1)]
  by (auto simp: os_Remove_def)

text \<open>A link to an existing file.\<close>

lemma Link_cases:
  assumes "tree f" "ent f (key_of old) = Some (File b)" "dirs_ok f (key_of new)" "os_Link f old new = (err, f')"
  shows "if ent f (key_of new) \<noteq> None then err = Some ErrExist \<and> f' = f
    else err = Some ErrIO \<and> f' = f \<or> err = None \<and> f' = put (key_of new) (File b) f"
proof -
  have "dir_err f (key_of old) = None" "dir_err f (key_of new) = None"
    using assms(1-3) unfolding dir_err_None tree_def by blast+
  then show ?thesis using assms(2,4) by (auto simp: os_Link_def split: if_splits)
qed

lemma Rename_moved:
  assumes "ent f (key_of old) = Some (File b)" "key_of old \<noteq> key_of new" "os_Rename f old new = (err, f')"
  shows "err \<noteq> None \<and> f' = f \<or> err = None \<and> f' = put (key_of new) (File b) (del (key_of old) f) \<and>
    dirs_ok f (key_of new) \<and> ent f (key_of new) \<noteq> Some Dir"
  using assms unfolding os_Rename_def dir_err_None [symmetric]
  by (cases "dir_err f (key_of old)"; cases "dir_err f (key_of new)"; cases err) (auto split: if_splits)

subsection \<open>The checkpoint\<close>

lemma key_of_checkpoint:
  "key_of (Join [root, CheckpointPath]) = cp_key root" "key_of (Join [root, CheckpointPath] @ ''.tmp'') = rk root [CheckpointPath @ ''.tmp'']"
proof -
  have p: "Join [root, CheckpointPath] = path_of (is_rooted root) (root_comps root @ [CheckpointPath])"
    by (simp add: Join_root CheckpointPath_def)
  show "key_of (Join [root, CheckpointPath]) = cp_key root"
    unfolding p cp_key_def by (rule key_of_rk) (simp add: CheckpointPath_def)
  have n: "normal_comp (CheckpointPath @ ''.tmp'')" by (simp add: normal_comp_def CheckpointPath_def)
  have "CheckpointPath \<noteq> []" by (simp add: CheckpointPath_def)
  from path_of_snoc [OF this, of "is_rooted root" "root_comps root" "''.tmp''"]
  show "key_of (Join [root, CheckpointPath] @ ''.tmp'') = rk root [CheckpointPath @ ''.tmp'']"
    unfolding p using key_of_rk [of "[CheckpointPath @ ''.tmp'']" root] n by simp
qed

lemma aside_checkpoint: "aside root (Join [root, CheckpointPath])" "aside root (Join [root, CheckpointPath] @ ''.tmp'')"
  unfolding aside_def key_of_checkpoint cp_key_def by (auto simp: CheckpointPath_def)

lemma WriteCheckpoint_quiet:
  assumes "fs_ok (rootDir st) f" "WriteCheckpoint st f raw = (err, f')"
  shows "quiet (rootDir st) f f'" "err = None \<Longrightarrow> ent f' (cp_key (rootDir st)) = Some (File raw)"
    "err \<noteq> None \<Longrightarrow> ent f' (cp_key (rootDir st)) = ent f (cp_key (rootDir st))"
proof -
  let ?root = "rootDir st"
  let ?p = "Join [?root, CheckpointPath]" and ?k = "cp_key ?root" and ?t = "rk ?root [CheckpointPath @ ''.tmp'']"
  have tr: "tree f" using fs_okD(2) [OF assms(1)] .
  have ne: "?t \<noteq> ?k" "snd ?k \<noteq> []" "snd ?t \<noteq> []" by (simp_all add: cp_key_def rk_def)
  obtain e1 f1 where c: "createExclusive f (?p @ ''.tmp'') raw = (e1, f1)" by fastforce
  note cq = createExclusive_quiet [OF tr aside_checkpoint(2) c, unfolded key_of_checkpoint]
  have tr1: "tree f1" using cq(1) by (simp add: quiet_def)
  have "quiet ?root f f' \<and> (err = None \<longrightarrow> ent f' ?k = Some (File raw)) \<and> (err \<noteq> None \<longrightarrow> ent f' ?k = ent f ?k)"
  proof (cases "f' = f1 \<and> err \<noteq> None")
    case True
    then show ?thesis using cq(1) cq(3) [of ?k] ne(1) by auto
  next
    case False
    then have e1: "e1 = None" using assms(2) c by (cases e1) (auto simp: WriteCheckpoint_def Let_def)
    have t1: "ent f1 ?t = Some (File raw)" using cq(2) [OF e1] ne(3) by simp
    have r: "os_Rename f1 (?p @ ''.tmp'') ?p = (err, f')" using assms(2) c e1 by (simp add: WriteCheckpoint_def Let_def)
    have f': "f' = put ?k (File raw) (del ?t f1)" "err = None" "dirs_ok f1 ?k" "ent f1 ?k \<noteq> Some Dir"
      using Rename_moved [OF _ _ r, unfolded key_of_checkpoint, OF t1 ne(1)] False by auto
    have q2: "quiet ?root f1 (del ?t f1)"
      using quiet_del [OF tr1, of ?t ?root] t1 asideD [OF aside_checkpoint(2) [of ?root]] unfolding key_of_checkpoint by auto
    have "dirs_ok (del ?t f1) ?k" using dirs_ok_file(2) [OF f'(3)] t1 by simp
    moreover have "cleaned (fst ?k) (snd ?k)" using key_of_cleaned [of ?p] unfolding key_of_checkpoint .
    ultimately have "quiet ?root (del ?t f1) (put ?k (File raw) (del ?t f1))"
      using q2 f'(4) asideD [OF aside_checkpoint(1) [of ?root]] unfolding key_of_checkpoint
      by (intro quiet_put) (auto simp: quiet_def)
    then show ?thesis using f'(1,2) ne(2) quiet_trans [OF cq(1) quiet_trans [OF q2]] by simp
  qed
  then show "quiet ?root f f'" "err = None \<Longrightarrow> ent f' ?k = Some (File raw)" "err \<noteq> None \<Longrightarrow> ent f' ?k = ent f ?k" by blast+
qed

lemma ReadCheckpoint_written:
  assumes "tree f" "ent f (cp_key root) = Some (File raw)" "\<not> fault f OpRead (cp_key root)"
  shows "ReadCheckpoint f root = Inr raw"
  using assms follow_plain [OF assms(1,2)] by (simp add: ReadCheckpoint_def os_ReadFile_def key_of_checkpoint)

subsection \<open>The entry\<close>

text \<open>Linking an entry in place.\<close>

lemma put_entry:
  assumes "fs_ok root f" "ent f (seq_key root q) = None" "q \<noteq> - 1" "dirs_ok f (seq_key root q)"
  shows "fs_ok root (put (seq_key root q) (File b) f)" "fs_tv root (put (seq_key root q) (File b) f) = fs_tv root f"
    "fs_entry root (put (seq_key root q) (File b) f) = (fs_entry root f)(unat q \<mapsto> b)"
proof -
  let ?g = "put (seq_key root q) (File b) f"
  have ne: "snd (seq_key root q) \<noteq> []" by simp
  have c: "cleaned (fst (seq_key root q)) (snd (seq_key root q))" using key_of_cleaned [of "JoinPair (SeqPath root q)"] unfolding key_of_seq .
  have t: "tree ?g" using tree_put [OF fs_okD(2) [OF assms(1)] _ c assms(4)] assms(2) by simp
  have inj: "seq_key root a = seq_key root q \<longleftrightarrow> a = q" for a by (simp add: seq_key_def seq_comps_inj)
  have e: "ent ?g (full_key root x y) = ent f (full_key root x y)" "ent ?g (sfx_key root x y s) = ent f (sfx_key root x y s)"
    "ent ?g (seq_key root a) = (if a = q then Some (File b) else ent f (seq_key root a))" for x y s a
    using ne by (simp_all add: inj)
  show "fs_ok root ?g" using assms(1,3) t unfolding fs_ok_def e by simp
  have tk: "ent ?g (tile_key root x y ps) = ent f (tile_key root x y ps)" for x y ps by (simp add: tile_key_def)
  show "fs_tv root ?g = fs_tv root f" unfolding fun_eq_iff fs_tv_def tk e(1) by blast
  have "of_nat k = q \<longleftrightarrow> k = unat q" if "k < 2 ^ 64" for k using that unat_of_nat_u64 [of k] by auto
  then show "fs_entry root ?g = (fs_entry root f)(unat q \<mapsto> b)" unfolding fun_eq_iff fs_entry_def e(3) by simp
qed

text \<open>The index file, whose failure leaves the entry in place.\<close>

lemma write_leaf_index_quiet:
  assumes "tree f" "aside root p" "aside root (p @ ''.tmp'')" "key_of (p @ ''.tmp'') \<noteq> key_of p" "dirs_ok f (key_of p)"
    "write_leaf_index f p seq = ((q, err), f')"
  shows "quiet root f f'" "err = None \<Longrightarrow> q = seq \<and> (ent f (key_of p) = None \<longrightarrow> ent f' (key_of p) = Some (File (format_uint 16 (unat seq))))"
    "k \<notin> {key_of p, key_of (p @ ''.tmp'')} \<Longrightarrow> ent f' k = ent f k"
proof -
  let ?t = "p @ ''.tmp''" and ?d = "format_uint 16 (unat seq)"
  obtain e1 f1 where c: "createExclusive f ?t ?d = (e1, f1)" by fastforce
  note cq = createExclusive_quiet [OF assms(1,3) c]
  have tr1: "tree f1" using cq(1) by (simp add: quiet_def)
  have "quiet root f f' \<and> (err = None \<longrightarrow> q = seq \<and> (ent f (key_of p) = None \<longrightarrow> ent f' (key_of p) = Some (File ?d))) \<and>
      (k \<notin> {key_of p, key_of ?t} \<longrightarrow> ent f' k = ent f k)"
  proof (cases e1)
    case (Some e)
    then show ?thesis using assms(6) c cq(1) cq(3) [of k] by (auto simp: write_leaf_index_def Let_def)
  next
    case None
    obtain e2 f2 where l: "os_Link f1 ?t p = (e2, f2)" by fastforce
    have t1: "ent f1 (key_of ?t) = Some (File ?d)" using cq(2) [OF None] aside_not_root [OF assms(3)] by simp
    have p1: "ent f1 (key_of p) = ent f (key_of p)" using cq(3) assms(4) by metis
    have "dirs_ok f1 (key_of p)"
      using assms(5) cq(2) [OF None] unfolding dirs_ok_def by auto
    then have lc: "if ent f1 (key_of p) \<noteq> None then e2 = Some ErrExist \<and> f2 = f1
        else e2 = Some ErrIO \<and> f2 = f1 \<or> e2 = None \<and> f2 = put (key_of p) (File ?d) f1"
      using Link_cases [OF tr1 t1 _ l] by blast
    have q2: "quiet root f1 f2"
    proof (cases "f2 = f1")
      case False
      then have "f2 = put (key_of p) (File ?d) f1" "ent f1 (key_of p) = None" using lc by (auto split: if_splits)
      then show ?thesis using quiet_put [OF tr1, of "key_of p" root "File ?d"] \<open>dirs_ok f1 (key_of p)\<close> asideD [OF assms(2)] by simp
    qed (simp add: quiet_refl [OF tr1])
    then have tr2: "tree f2" by (simp add: quiet_def)
    note rq = Remove_quiet [OF tr2 assms(3)]
    have f': "f' = os_Remove f2 ?t" "err = None \<Longrightarrow> q = seq \<and> (e2 = None \<or> e2 = Some ErrExist)"
      using assms(6) c None l lc by (auto simp: write_leaf_index_def Let_def split: if_splits option.splits)
    have "ent f' (key_of p) = ent f2 (key_of p)" using rq(2) assms(4) unfolding f'(1) by metis
    moreover have "ent f2 (key_of p) = Some (File ?d)" if "err = None" "ent f (key_of p) = None"
      using f'(2) [OF that(1)] lc p1 that(2) aside_not_root [OF assms(2)] by (auto split: if_splits)
    moreover have "ent f' k = ent f k" if "k \<notin> {key_of p, key_of ?t}"
      using that rq(2) [of k] lc cq(3) [of k] unfolding f'(1) by (auto split: if_splits)
    ultimately show ?thesis using quiet_trans [OF quiet_trans [OF cq(1) q2] rq(1)] f' by auto
  qed
  then show "quiet root f f'" "err = None \<Longrightarrow> q = seq \<and> (ent f (key_of p) = None \<longrightarrow> ent f' (key_of p) = Some (File ?d))"
    "k \<notin> {key_of p, key_of ?t} \<Longrightarrow> ent f' k = ent f k" by blast+
qed

lemma aside_not_prefix:
  assumes "aside root p" "hd cs \<in> {''seq'', ''tile''}"
  shows "key_of p \<notin> set (prefixes_of (rk root cs))"
proof
  assume "key_of p \<in> set (prefixes_of (rk root cs))"
  then obtain j where j: "key_of p = (is_rooted root, take j (root_comps root @ cs))" by (auto simp: prefixes_of_def rk_def)
  obtain ds where ds: "key_of p = rk root ds" "ds \<noteq> []" "hd ds \<notin> {''seq'', ''tile''}" using assms(1) by (auto simp: aside_def)
  have e: "root_comps root @ ds = take j (root_comps root) @ take (j - length (root_comps root)) cs" using j ds(1) by (simp add: rk_def)
  have "length (root_comps root) < j"
  proof (rule ccontr)
    assume "\<not> length (root_comps root) < j"
    then have "length (root_comps root @ ds) \<le> length (root_comps root)" using arg_cong [OF e, of length] by simp
    then show False using ds(2) by simp
  qed
  then have "ds = take (j - length (root_comps root)) cs" "0 < j - length (root_comps root)" using e by simp_all
  then have "hd ds = hd cs" using ds(2) by (cases cs; cases "j - length (root_comps root)") auto
  then show False using ds(3) assms(2) by simp
qed

text \<open>What the outcome of the loop means for the log, whether it fails or not.\<close>

definition seq_out :: "string \<Rightarrow> bytes \<Rightarrow> u64 \<Rightarrow> os \<Rightarrow> u64 \<Rightarrow> go_error option \<Rightarrow> os \<Rightarrow> bool" where
  "seq_out root leaf n f q err f' \<longleftrightarrow> fs_ok root f' \<and> fs_tv root f' = fs_tv root f \<and> fault f' = fault f \<and>
     (err \<noteq> None \<and> fs_entry root f' = fs_entry root f \<or>
      (\<exists>m \<ge> n. fs_entry root f (unat m) = None \<and> (\<forall>i. n \<le> i \<and> i < m \<longrightarrow> fs_entry root f (unat i) \<noteq> None) \<and>
         fs_entry root f' = (fs_entry root f)(unat m \<mapsto> leaf) \<and> (err = None \<longrightarrow> q = m)))"

lemma seq_out_quiet:
  "\<lbrakk>fs_ok root f; quiet root f g; seq_out root leaf n g q err h\<rbrakk> \<Longrightarrow> seq_out root leaf n f q err h"
  "\<lbrakk>seq_out root leaf n f q err g; quiet root g h\<rbrakk> \<Longrightarrow> seq_out root leaf n f q err h"
  "\<lbrakk>fs_ok root f; quiet root f g; err \<noteq> None\<rbrakk> \<Longrightarrow> seq_out root leaf n f q err g"
  using quiet_ok [of root f g] quiet_ok [of root g h] by (auto simp: seq_out_def)

lemma seq_out_skip:
  assumes "seq_out root leaf (n + 1) f q err f'" "fs_entry root f (unat n) \<noteq> None" "unat n + 1 < 2 ^ 64"
  shows "seq_out root leaf n f q err f'"
proof -
  have n1: "unat (n + 1) = unat n + 1" using assms(3) by (rule unat_Suc_u64)
  have "n \<le> m" if "n + 1 \<le> m" for m using that n1 by (simp add: word_le_nat_alt)
  moreover have "i = n \<or> n + 1 \<le> i" if "n \<le> i" for i
    using that n1 by (cases "unat i = unat n") (auto simp: word_le_nat_alt word_unat_eq_iff)
  ultimately show ?thesis using assms(1,2) unfolding seq_out_def by metis
qed

lemma fs_entry_ent: "fs_ok root f \<Longrightarrow> fs_entry root f (unat q) = None \<longleftrightarrow> ent f (seq_key root q) = None"
  using fs_okD(3) [of root f q] by (auto simp: fs_entry_unat)

lemma key_of_seq_dir: "key_of (fst (SeqPath root q)) = rk root (butlast (seq_comps q))" "seq_key root q = rk root (butlast (seq_comps q) @ [last (seq_comps q)])"
proof -
  have p: "fst (SeqPath root q) = path_of (is_rooted root) (root_comps root @ butlast (seq_comps q))"
    using Join_root [of "butlast (seq_comps q)" root] by (simp add: SeqPath_def seq_comps_def)
  show "key_of (fst (SeqPath root q)) = rk root (butlast (seq_comps q))"
    unfolding p by (rule key_of_rk) (auto simp: seq_comps_def)
  show "seq_key root q = rk root (butlast (seq_comps q) @ [last (seq_comps q)])" by (simp add: seq_key_def seq_comps_def)
qed

lemma sequence_loop_fs:
  assumes aside: "aside root p" "aside root (p @ ''.tmp'')" "key_of (p @ ''.tmp'') \<noteq> key_of p"
  shows "\<lbrakk>rootDir st = root; fs_ok root f; ent f (key_of tmp) = Some (File leaf); dirs_ok f (key_of p);
      unat (nextSeq st) \<le> k; k < 2 ^ 64 - 1; fs_entry root f k = None\<rbrakk> \<Longrightarrow>
    \<exists>q err st' f'. sequence_loop st f tmp p = Some ((q, err), st', f') \<and> rootDir st' = root \<and>
      seq_out root leaf (nextSeq st) f q err f' \<and> (unat (nextSeq st') \<le> k \<and> (err = None \<longrightarrow> nextSeq st' = q)) \<and>
      (err = None \<and> ent f (key_of p) = None \<longrightarrow> ent f' (key_of p) = Some (File (format_uint 16 (unat q))))"
proof (induction "2 ^ 64 - unat (nextSeq st)" arbitrary: st f rule: less_induct)
  case less
  let ?q = "nextSeq st"
  let ?k = "seq_key root ?q"
  have tr: "tree f" using fs_okD(2) [OF less.prems(2)] .
  obtain e1 f1 where mk: "os_MkdirAll f (fst (SeqPath root ?q)) = (e1, f1)" by fastforce
  have "length (butlast (seq_comps ?q)) < 6" by (simp add: seq_comps_def)
  note mq = mkdir_quiet [OF tr key_of_seq_dir(1) this mk]
  note o1 = quiet_ok [OF less.prems(2) mq(1)]
  have tr1: "tree f1" using mq(1) by (simp add: quiet_def)
  have p1: "ent f1 (key_of p) = ent f (key_of p)"
    using MkdirAll_sound(3) [OF tr mk, of "key_of p"] aside_not_prefix [OF aside(1), of "butlast (seq_comps ?q)"]
    unfolding key_of_seq_dir(1) by (auto simp: seq_comps_def)
  obtain sd sf where sp: "SeqPath root ?q = (sd, sf)" by fastforce
  have path: "key_of (Join [sd, sf]) = ?k" using key_of_seq [of root ?q] by (simp add: JoinPair_def sp)
  note run = sequence_loop.simps [of st f tmp p, unfolded less.prems(1), unfolded Let_def sp prod.case]
  show ?case
  proof (cases e1)
    case (Some e)
    then have "sequence_loop st f tmp p = Some ((0, Some (wrapf ''failed to make seq directory structure'' e)), st, f1)"
      using mk sp by (subst run) simp
    then show ?thesis using seq_out_quiet(3) [OF less.prems(2) mq(1)] less.prems(1,5) by auto
  next
    case None
    have t1: "ent f1 (key_of tmp) = Some (File leaf)" using mq(3) [of "key_of tmp"] less.prems(3) by simp
    have d1: "dirs_ok f1 ?k" using mq(2) [OF None] unfolding key_of_seq_dir(2) .
    have dp: "dirs_ok f1 (key_of p)" using less.prems(4) mq(3) unfolding dirs_ok_def by (metis option.distinct(1))
    obtain e2 f2 where l: "os_Link f1 tmp (Join [sd, sf]) = (e2, f2)" by fastforce
    note lc = Link_cases [OF tr1 t1 _ l, unfolded path, OF d1]
    show ?thesis
    proof (cases "ent f1 ?k = None")
      case used: False
      then have sk: "sequence_loop st f tmp p = sequence_loop (st\<lparr>nextSeq := ?q + 1\<rparr>) f1 tmp p"
        using mk sp None l lc by (subst run) simp
      have ne: "fs_entry root f (unat ?q) \<noteq> None" using used fs_entry_ent [OF o1(1)] o1(3) by simp
      then have kq: "unat ?q < k" using less.prems(5,7) by (cases "unat ?q = k") auto
      then have lt: "unat ?q + 1 < 2 ^ 64" using less.prems(6) by linarith
      have n1: "unat (?q + 1) = unat ?q + 1" by (rule unat_Suc_u64 [OF lt])
      have m: "2 ^ 64 - unat (nextSeq (st\<lparr>nextSeq := ?q + 1\<rparr>)) < 2 ^ 64 - unat ?q" using n1 lt by simp
      obtain q err st' f' where IH: "sequence_loop (st\<lparr>nextSeq := ?q + 1\<rparr>) f1 tmp p = Some ((q, err), st', f')" "rootDir st' = root"
          "seq_out root leaf (?q + 1) f1 q err f'" "unat (nextSeq st') \<le> k \<and> (err = None \<longrightarrow> nextSeq st' = q)"
          "err = None \<and> ent f1 (key_of p) = None \<longrightarrow> ent f' (key_of p) = Some (File (format_uint 16 (unat q)))"
        using less.hyps [OF m _ o1(1) t1 dp] less.prems(1,6,7) o1(3) kq n1 by auto
      have "seq_out root leaf ?q f q err f'"
        using seq_out_skip [OF _ ne lt] seq_out_quiet(1) [OF less.prems(2) mq(1) IH(3)] by blast
      then show ?thesis using sk IH(1,2,4,5) p1 by auto
    next
      case free: True
      have fe: "fs_entry root f (unat ?q) = None" using free fs_entry_ent [OF o1(1)] o1(3) by simp
      show ?thesis
      proof (cases e2)
        case (Some e)
        then have "sequence_loop st f tmp p = Some ((0, Some (wrapf ''failed to link seq file'' ErrIO)), st, f1)"
          using mk sp None l lc free by (subst run) simp
        then show ?thesis using seq_out_quiet(3) [OF less.prems(2) mq(1)] less.prems(1,5) by auto
      next
        case e2: None
        then have f2: "f2 = put ?k (File leaf) f1" using lc free by simp
        have "?q \<noteq> - 1" using less.prems(5,6) unat_minus_1_u64 by (metis leD le_trans word_unat_eq_iff nat_less_le not_less)
        note pe = put_entry [OF o1(1) free this d1, of leaf, folded f2]
        obtain q err f3 where w: "write_leaf_index f2 p ?q = ((q, err), f3)" by (metis prod.collapse)
        have dp2: "dirs_ok f2 (key_of p)" unfolding f2 by (rule dirs_ok_file(1) [OF dp]) (simp add: free)
        have pk: "?k \<noteq> key_of p" using asideD [OF aside(1), of "seq_comps ?q"] by (auto simp: seq_key_def seq_comps_def)
        note wq = write_leaf_index_quiet [OF fs_okD(2) [OF pe(1)] aside dp2 w]
        have "fs_entry root f2 = (fs_entry root f)(unat ?q \<mapsto> leaf)" using pe(3) o1(3) by simp
        moreover have "fault f2 = fault f" using o1(4) f2 by simp
        ultimately have "seq_out root leaf ?q f q err f2" using pe(1,2) o1(2) fe wq(2) unfolding seq_out_def by auto
        then have "seq_out root leaf ?q f q err f3" using seq_out_quiet(2) wq(1) by blast
        moreover have "sequence_loop st f tmp p = Some ((q, err), st, f3)"
          using mk sp None l e2 w by (subst run) simp
        moreover have "ent f2 (key_of p) = ent f (key_of p)" using pk p1 by (simp add: f2)
        ultimately show ?thesis using less.prems(1,5) wq(2) by auto
      qed
    qed
  qed
qed

subsection \<open>A call of \<open>Sequence\<close>\<close>

definition leaf_key :: "string \<Rightarrow> bytes \<Rightarrow> fkey" where
  "leaf_key root lh = rk root (leaf_comps lh)"

lemma leaf_path_keys:
  assumes "3 < length lh"
  obtains d b where "LeafPath root lh = Inr (d, b)" "key_of d = rk root (butlast (leaf_comps lh))"
    "key_of (Join [d, b]) = leaf_key root lh" "aside root (Join [d, b])" "aside root (Join [d, b] @ ''.tmp'')"
    "key_of (Join [d, b] @ ''.tmp'') \<noteq> leaf_key root lh" "cp_key root \<noteq> key_of (Join [d, b] @ ''.tmp'')"
proof -
  obtain p where p: "LeafPath root lh = Inr p" "JoinPair p = path_of (is_rooted root) (root_comps root @ leaf_comps lh)"
    using LeafPath_comps [OF assms] by blast
  obtain d b where db: "p = (d, b)" by fastforce
  have j: "Join [d, b] = path_of (is_rooted root) (root_comps root @ leaf_comps lh)" using p(2) by (simp add: db JoinPair_def)
  have nl: "\<forall>c \<in> set (leaf_comps lh). normal_comp c" using normal_leaf_comps [OF assms] by blast
  have k: "key_of (Join [d, b]) = leaf_key root lh" unfolding j leaf_key_def by (rule key_of_rk [OF nl])
  have "d = Join (root # butlast (leaf_comps lh))" using p(1) assms by (simp add: db LeafPath_def leaf_comps_def)
  also have "\<dots> = path_of (is_rooted root) (root_comps root @ butlast (leaf_comps lh))"
    using nl by (intro Join_root) (auto simp: leaf_comps_def)
  finally have kd: "key_of d = rk root (butlast (leaf_comps lh))" using key_of_rk [of "butlast (leaf_comps lh)" root] nl
    by (simp add: in_set_butlastD)
  let ?l = "hex_bytes (drop 3 lh)" and ?c = "butlast (leaf_comps lh) @ [hex_bytes (drop 3 lh) @ ''.tmp'']"
  have lc: "leaf_comps lh = butlast (leaf_comps lh) @ [?l]" "?l \<noteq> []" using assms by (simp_all add: leaf_comps_def)
  have "normal_comp (?l @ ''.tmp'')"
    using nl lc by (auto simp: normal_comp_def leaf_comps_def)
  moreover have "\<forall>c \<in> set (butlast (leaf_comps lh)). normal_comp c" using nl by (simp add: in_set_butlastD)
  ultimately have nt: "\<forall>c \<in> set ?c. normal_comp c" by simp
  have "Join [d, b] @ ''.tmp'' = path_of (is_rooted root) (root_comps root @ ?c)"
    using path_of_snoc [OF lc(2), of "is_rooted root" "root_comps root @ butlast (leaf_comps lh)" "''.tmp''"] lc(1) unfolding j by (metis append_assoc)
  then have kt: "key_of (Join [d, b] @ ''.tmp'') = rk root ?c" using key_of_rk [OF nt] by simp
  have "?c \<noteq> leaf_comps lh" by (simp add: leaf_comps_def)
  then show ?thesis using that p(1) db kd k kt unfolding leaf_key_def aside_def cp_key_def by (auto simp: leaf_comps_def)
qed

lemma pending_key:
  assumes "3 < length lh"
  shows "key_of (Join [root, ''leaves/pending/'' @ hex_bytes lh]) = rk root [''leaves'', ''pending'', hex_bytes lh]"
proof -
  have n: "\<forall>c \<in> set [''leaves'', ''pending'', hex_bytes lh]. normal_comp c"
    using assms normal_hex_bytes [of lh] by (cases lh) (auto simp: normal_comp_def [of "''pending''"])
  have "''leaves/pending/'' @ hex_bytes lh = path_of False [''leaves'', ''pending'', hex_bytes lh]" by (simp add: path_of_def)
  then show ?thesis using Join_relative [of "[''leaves'', ''pending'', hex_bytes lh]" root] key_of_rk [OF n, of root] n by simp
qed

lemma mkdirs_existing: "\<forall>k \<in> set ks. ent f k = Some Dir \<Longrightarrow> mkdirs f ks = (None, f)"
  by (induction ks) auto

text \<open>Once the index of a leaf hash is in place, the hash is recognised.\<close>

lemma Sequence_dupe:
  assumes "tree f" "3 < length lh" "ent f (leaf_key (rootDir st) lh) = Some (File (format_uint 16 (unat q)))"
    "\<not> fault f OpRead (leaf_key (rootDir st) lh)"
  shows "Sequence st f lh leaf = Some ((q, Some ErrDupeLeaf), st, f)"
proof -
  obtain d b where db: "LeafPath (rootDir st) lh = Inr (d, b)" "key_of d = rk (rootDir st) (butlast (leaf_comps lh))"
    "key_of (Join [d, b]) = leaf_key (rootDir st) lh" using leaf_path_keys [OF assms(2)] by metis
  have dk: "dirs_ok f (leaf_key (rootDir st) lh)" using assms(1,3) unfolding tree_def by blast
  have "ent f k = Some Dir" if pk: "k \<in> set (prefixes_of (rk (rootDir st) (butlast (leaf_comps lh))))" for k
  proof -
    obtain j where j: "k = (is_rooted (rootDir st), take j (root_comps (rootDir st) @ butlast (leaf_comps lh)))"
        "j < Suc (length (root_comps (rootDir st) @ butlast (leaf_comps lh)))"
      using pk unfolding prefixes_of_def rk_def fst_conv snd_conv set_map set_upt by (elim imageE) (simp only: atLeastLessThan_iff)
    have "leaf_comps lh = butlast (leaf_comps lh) @ [last (leaf_comps lh)]" by (simp add: leaf_comps_def)
    then have "take j (root_comps (rootDir st) @ leaf_comps lh) = take j (root_comps (rootDir st) @ butlast (leaf_comps lh))"
      using j(2) by (metis append_assoc less_Suc_eq_le take_append take_all_iff append_Nil2 diff_is_0_eq take_0)
    moreover have "j < length (snd (leaf_key (rootDir st) lh))" using j(2) by (simp add: leaf_key_def rk_def leaf_comps_def)
    ultimately show ?thesis using dk j(1) unfolding dirs_ok_def by (metis leaf_key_def rk_def fst_conv snd_conv)
  qed
  then have "os_MkdirAll f d = (None, f)" unfolding os_MkdirAll_def db(2) by (intro mkdirs_existing) blast
  moreover have "os_ReadFile f (Join [d, b]) = Inr (format_uint 16 (unat q))"
    using follow_plain [OF assms(1,3)] assms(4) by (simp add: os_ReadFile_def db(3))
  moreover have "parse_uint (format_uint 16 (unat q)) 16 64 = Inr (unat q)"
    using unat_lt_u64 [of q] by (intro parse_uint_format) simp_all
  ultimately show ?thesis using db(1) by (simp add: Sequence_def)
qed

lemma Sequence_outcome:
  assumes "fs_ok (rootDir st) f" "3 < length lh" "unat (nextSeq st) \<le> k" "k < 2 ^ 64 - 1" "fs_entry (rootDir st) f k = None"
  shows "\<exists>q err st' f'. Sequence st f lh leaf = Some ((q, err), st', f') \<and> rootDir st' = rootDir st \<and>
    seq_out (rootDir st) leaf (nextSeq st) f q err f' \<and> (unat (nextSeq st') \<le> k \<and> (err = None \<longrightarrow> nextSeq st' = q)) \<and>
    (err = None \<and> ent f (leaf_key (rootDir st) lh) = None \<longrightarrow>
       ent f' (leaf_key (rootDir st) lh) = Some (File (format_uint 16 (unat q))))"
proof -
  let ?root = "rootDir st" and ?lk = "leaf_key (rootDir st) lh"
  let ?tmp = "Join [?root, ''leaves/pending/'' @ hex_bytes lh]"
  have tr: "tree f" using fs_okD(2) [OF assms(1)] .
  obtain d b where db: "LeafPath ?root lh = Inr (d, b)" "key_of d = rk ?root (butlast (leaf_comps lh))"
    "key_of (Join [d, b]) = ?lk" "aside ?root (Join [d, b])" "aside ?root (Join [d, b] @ ''.tmp'')"
    "key_of (Join [d, b] @ ''.tmp'') \<noteq> ?lk" using leaf_path_keys [OF assms(2)] by metis
  have ap: "aside ?root ?tmp" unfolding aside_def pending_key [OF assms(2)] by (intro exI conjI) auto
  have tk: "key_of ?tmp \<noteq> ?lk" unfolding pending_key [OF assms(2)] by (simp add: leaf_key_def leaf_comps_def)
  obtain e1 f1 where mk: "os_MkdirAll f d = (e1, f1)" by fastforce
  have len: "length (butlast (leaf_comps lh)) < 6" by (simp add: leaf_comps_def)
  note mq = mkdir_quiet [OF tr db(2) len mk]
  note o1 = quiet_ok [OF assms(1) mq(1)]
  have tr1: "tree f1" using mq(1) by (simp add: quiet_def)
  have l1: "ent f1 ?lk = ent f ?lk" using MkdirAll_sound(3) [OF tr mk, of ?lk] prefix_keys [of ?lk ?root "butlast (leaf_comps lh)" "leaf_comps lh"]
    unfolding db(2) leaf_key_def by (auto simp: leaf_comps_def)
  note fail = seq_out_quiet(3) [OF assms(1) mq(1)]
  show ?thesis
  proof (cases "e1 = None \<and> (\<exists>err. os_ReadFile f1 (Join [d, b]) = Inl err \<and> os_IsNotExist err)")
    case False
    have dupe: "\<exists>q e. (case parse_uint ss 16 64 of Inl e \<Rightarrow> Some ((0, Some e), st, f1)
        | Inr origSeq \<Rightarrow> Some ((of_nat origSeq, Some ErrDupeLeaf), st, f1)) = Some ((q, Some e), st, f1)" for ss
      by (cases "parse_uint ss 16 64") auto
    have "\<exists>q e. Sequence st f lh leaf = Some ((q, Some e), st, f1)" using False db(1) mk dupe
      by (cases e1; cases "os_ReadFile f1 (Join [d, b])") (simp_all add: Sequence_def)
    then show ?thesis using fail assms(3) by auto
  next
    case True
    obtain e2 f2 where c: "createExclusive f1 ?tmp leaf = (e2, f2)" by fastforce
    note cq = createExclusive_quiet [OF tr1 ap c]
    note q2 = quiet_trans [OF mq(1) cq(1)]
    show ?thesis
    proof (cases e2)
      case (Some e)
      then have "Sequence st f lh leaf = Some ((0, Some (wrapf ''unable to write temporary file'' e)), st, f2)"
        using db(1) mk True c by (auto simp: Sequence_def)
      then show ?thesis using seq_out_quiet(3) [OF assms(1) q2] assms(3) by auto
    next
      case None
      have t2: "ent f2 (key_of ?tmp) = Some (File leaf)" using cq(2) [OF None] aside_not_root [OF ap] by simp
      have "dirs_ok f1 ?lk"
      proof -
        have "leaf_comps lh = butlast (leaf_comps lh) @ [last (leaf_comps lh)]" by (simp add: leaf_comps_def)
        then show ?thesis using mq(2) [of "last (leaf_comps lh)"] True unfolding leaf_key_def by metis
      qed
      then have d2: "dirs_ok f2 (key_of (Join [d, b]))" unfolding db(3) using cq(2) [OF None]
        by (simp add: dirs_ok_file(1) aside_not_root [OF ap])
      have l2: "ent f2 ?lk = ent f ?lk" using cq(3) [of ?lk] tk l1 by auto
      note o2 = quiet_ok [OF assms(1) q2]
      obtain q err st' f3 where lp: "sequence_loop st f2 ?tmp (Join [d, b]) = Some ((q, err), st', f3)" "rootDir st' = ?root"
          "seq_out ?root leaf (nextSeq st) f2 q err f3" "unat (nextSeq st') \<le> k \<and> (err = None \<longrightarrow> nextSeq st' = q)"
          "err = None \<and> ent f2 ?lk = None \<longrightarrow> ent f3 ?lk = Some (File (format_uint 16 (unat q)))"
        using sequence_loop_fs [OF db(4,5), unfolded db(3), OF db(6) refl o2(1) t2 d2 [unfolded db(3)] assms(3,4)] o2(3) assms(5) by auto
      have tr3: "tree f3" using lp(3) fs_okD(2) unfolding seq_out_def by blast
      note rq = Remove_quiet [OF tr3 ap]
      have "Sequence st f lh leaf = Some ((q, err), st', os_Remove f3 ?tmp)"
        using db(1) mk True c None lp(1) by (auto simp: Sequence_def)
      moreover have "seq_out ?root leaf (nextSeq st) f q err (os_Remove f3 ?tmp)"
        using seq_out_quiet(1) [OF assms(1) q2 seq_out_quiet(2) [OF lp(3) rq(1)]] .
      moreover have "ent (os_Remove f3 ?tmp) ?lk = ent f3 ?lk" using rq(2) tk by metis
      ultimately show ?thesis using lp(2,4,5) l2 by auto
    qed
  qed
qed

text \<open>C13: \<open>Sequence\<close> on a log that is not full always returns.  It never changes a tile or an existing entry,
  whatever file operation fails; at most the first free number at or after \<open>nextSeq\<close> gets the leaf, and
  if it reports no error that is the number it returns.  After a success for a new leaf hash, sequencing
  the same hash again returns the same number and \<open>ErrDupeLeaf\<close>.\<close>

theorem Sequence_fs_assigns:
  assumes "fs_inv (st, f)" "3 < length lh" "unat (nextSeq st) \<le> k" "k < 2 ^ 64 - 1" "fs_entries (st, f) k = None"
  shows "\<exists>q err st' f'. Sequence st f lh leaf = Some ((q, err), st', f') \<and> rootDir st' = rootDir st \<and>
    fs_inv (st', f') \<and> fs_view (st', f') = fs_view (st, f) \<and>
    (err \<noteq> None \<and> fs_entries (st', f') = fs_entries (st, f) \<or>
     (\<exists>m \<ge> nextSeq st. fs_entries (st, f) (unat m) = None \<and> (\<forall>i. nextSeq st \<le> i \<and> i < m \<longrightarrow> fs_entries (st, f) (unat i) \<noteq> None) \<and>
        fs_entries (st', f') = (fs_entries (st, f))(unat m \<mapsto> leaf) \<and> (err = None \<longrightarrow> q = m \<and> nextSeq st' = m))) \<and>
    (err = None \<and> ent f (leaf_key (rootDir st) lh) = None \<and> \<not> fault f OpRead (leaf_key (rootDir st) lh) \<longrightarrow>
       Sequence st' f' lh leaf2 = Some ((q, Some ErrDupeLeaf), st', f'))"
proof -
  obtain q err st' f' where o: "Sequence st f lh leaf = Some ((q, err), st', f')" "rootDir st' = rootDir st"
      "seq_out (rootDir st) leaf (nextSeq st) f q err f'" "err = None \<longrightarrow> nextSeq st' = q"
      "err = None \<and> ent f (leaf_key (rootDir st) lh) = None \<longrightarrow> ent f' (leaf_key (rootDir st) lh) = Some (File (format_uint 16 (unat q)))"
    using Sequence_outcome [of st f lh k leaf] assms by (auto simp: fs_inv_def fs_entries_def)
  note s = o(3) [unfolded seq_out_def]
  have "Sequence st' f' lh leaf2 = Some ((q, Some ErrDupeLeaf), st', f')"
    if "err = None" "ent f (leaf_key (rootDir st) lh) = None" "\<not> fault f OpRead (leaf_key (rootDir st) lh)"
    using Sequence_dupe [of f' lh st' q leaf2] s fs_okD(2) [of "rootDir st" f'] o(2,5) that assms(2) by auto
  then show ?thesis using o(1,2,4) s
    by (intro exI [of _ q] exI [of _ err] exI [of _ st'] exI [of _ f']) (auto simp: fs_inv_def fs_view_def fs_entries_def)
qed

end
