(* ===== verification/LogToolsProofs.thy ===== *)
theory LogToolsProofs
  imports LogTools FsSequence Examples
begin

section \<open>Properties of the command-line tools\<close>

text \<open>
  The integrate tool publishes a checkpoint only over tiles that hold its tree, and never damages a log;
  the sequence tool adds the entries it reports.
\<close>

subsection \<open>Integration changes tiles only\<close>

text \<open>The storage contract with the storage object and everything outside the tile directory fixed.\<close>

definition fs_at :: "fsStorage \<Rightarrow> (fkey \<Rightarrow> fnode option) \<Rightarrow> fsStorage \<times> os \<Rightarrow> bool" where
  "fs_at st n s \<longleftrightarrow> fs_inv s \<and> fst s = st \<and> (\<forall>k. off_tile (rootDir st) k \<longrightarrow> ent (snd s) k = n k)"

interpretation fsat: log_storage fs_storage "fs_at st n" fs_view fs_entries for st n
proof (unfold_locales, goal_cases)
  case (3 s t x y err s')
  then obtain f' where f': "StoreTile (fst s) (snd s) x y t = (err, f')" "s' = (fst s, f')"
    by (cases "StoreTile (fst s) (snd s) x y t") (auto simp: fs_storage_def case_prod_beta)
  have "tile_step (rootDir (fst s)) x y t (snd s) f'"
    using 3 StoreTile_fs [OF _ _ _ _ f'(1)] by (auto simp: fs_at_def fs_inv_def fs_view_def)
  then show ?case using 3 fs.store [of s t x y err s'] f'(2) by (simp add: fs_at_def tile_step_def)
qed (use fs.get_some fs.get_none fs.scan fs.entry_bound in \<open>auto simp: fs_at_def\<close>)

lemma log_ready_at:
  "log_ready (fs_at st n) fs_view fs_entries h k m s \<longleftrightarrow>
     log_ready fs_inv fs_view fs_entries h k m s \<and> fst s = st \<and> (\<forall>k. off_tile (rootDir st) k \<longrightarrow> ent (snd s) k = n k)"
  by (auto simp: log_ready_def fs_at_def)

lemma Integrate_frame:
  assumes "compact_range (RF (HashChildren h)) (HashChildren h) rep" "permutes iter" "nonempty_hashes h"
    "log_ready fs_inv fs_view fs_entries h (unat (Size c)) m (st, f)" "Integrate RF iter fs_storage h c (st, f) = (r, st1, f1)"
  shows "st1 = st" "off_tile (rootDir st) k \<Longrightarrow> ent f1 k = ent f k"
proof -
  let ?at = "fs_at st (ent f)"
  have rd: "log_ready ?at fs_view fs_entries h (unat (Size c)) m (st, f)" using assms(4) by (simp add: log_ready_at)
  have "log_ready ?at fs_view fs_entries h (unat (Size c)) m (st1, f1)"
    using fsat.Integrate_sound [OF assms(1-3) rd assms(5)] rd log_readyD(3) [OF rd] unfolding integrated_def by blast
  then show "st1 = st" "off_tile (rootDir st) k \<Longrightarrow> ent f1 k = ent f k" by (simp_all add: log_ready_at del: split_paired_All)
qed

subsection \<open>The integrate tool\<close>

text \<open>The storage object only names the directory.\<close>

abbreviation dir_state :: "string \<Rightarrow> os \<Rightarrow> fsStorage \<times> os" where
  "dir_state root f \<equiv> (\<lparr>rootDir = root, nextSeq = 0\<rparr>, f)"

lemma log_ready_dir:
  "rootDir st = root \<Longrightarrow> log_ready fs_inv fs_view fs_entries h n m (st, f) = log_ready fs_inv fs_view fs_entries h n m (dir_state root f)"
  by (simp add: log_ready_def fs_inv_def fs_view_def fs_entries_def)

lemma log_ready_quiet:
  assumes "quiet root f g" "log_ready fs_inv fs_view fs_entries h n m (dir_state root f)"
  shows "log_ready fs_inv fs_view fs_entries h n m (dir_state root g)"
proof -
  have ok: "fs_ok root f" using log_readyD(1) [OF assms(2)] by (simp add: fs_inv_def)
  show ?thesis using assms(2) quiet_ok [OF ok assms(1)] by (simp add: log_ready_def fs_inv_def fs_view_def fs_entries_def)
qed

lemma signAndWrite_quiet:
  assumes "fs_ok (rootDir st) f" "signAndWrite N origin c cn s st f = (err, f')"
  shows "quiet (rootDir st) f f'"
    "err = None \<Longrightarrow> \<exists>raw. note_Sign N (cn\<lparr>NoteText := MarshalCheckpoint N (c\<lparr>Origin := origin\<rparr>)\<rparr>) [s] = Inr raw \<and>
       ent f' (cp_key (rootDir st)) = Some (File raw)"
    "err \<noteq> None \<Longrightarrow> ent f' (cp_key (rootDir st)) = ent f (cp_key (rootDir st))"
proof -
  have "quiet (rootDir st) f f' \<and> (err = None \<longrightarrow> (\<exists>raw. note_Sign N (cn\<lparr>NoteText := MarshalCheckpoint N (c\<lparr>Origin := origin\<rparr>)\<rparr>) [s] = Inr raw \<and>
       ent f' (cp_key (rootDir st)) = Some (File raw))) \<and>
     (err \<noteq> None \<longrightarrow> ent f' (cp_key (rootDir st)) = ent f (cp_key (rootDir st)))"
  proof (cases "note_Sign N (cn\<lparr>NoteText := MarshalCheckpoint N (c\<lparr>Origin := origin\<rparr>)\<rparr>) [s]")
    case (Inl e)
    then show ?thesis using assms quiet_refl [OF fs_okD(2) [OF assms(1)]] by (auto simp: signAndWrite_def Let_def)
  next
    case (Inr raw)
    obtain e f1 where w: "WriteCheckpoint st f raw = (e, f1)" by fastforce
    then have "f' = f1" "err = None \<longleftrightarrow> e = None" using assms(2) Inr by (auto simp: signAndWrite_def Let_def split: option.splits)
    then show ?thesis using WriteCheckpoint_quiet [OF assms(1) w] Inr by auto
  qed
  then show "quiet (rootDir st) f f'"
    "err = None \<Longrightarrow> \<exists>raw. note_Sign N (cn\<lparr>NoteText := MarshalCheckpoint N (c\<lparr>Origin := origin\<rparr>)\<rparr>) [s] = Inr raw \<and>
       ent f' (cp_key (rootDir st)) = Some (File raw)"
    "err \<noteq> None \<Longrightarrow> ent f' (cp_key (rootDir st)) = ent f (cp_key (rootDir st))" by blast+
qed

text \<open>What a run that integrates leaves behind: the published checkpoint is the one of all entries.\<close>

definition published ::
    "('v, 's) note_lib \<Rightarrow> hasher \<Rightarrow> string \<Rightarrow> string \<Rightarrow> 's \<Rightarrow> nat \<Rightarrow> os \<Rightarrow> os \<Rightarrow> bool" where
  "published N h root origin s m f f' \<longleftrightarrow> 0 < m \<and>
     (\<exists>raw. note_Sign N (empty_note\<lparr>NoteText := MarshalCheckpoint N
          \<lparr>Origin = origin, Size = of_nat m, Hash = mth (HashChildren h) (leaf_fn h (fs_entries (dir_state root f))) 0 m\<rparr>\<rparr>) [s] = Inr raw \<and>
        ent f' (cp_key root) = Some (File raw)) \<and> log_ready fs_inv fs_view fs_entries h m m (dir_state root f')"

lemma integrate_run_outcome:
  assumes "compact_range (RF (HashChildren h)) (HashChildren h) rep" "permutes iter" "nonempty_hashes h"
    "\<forall>raw v c n. ReadCheckpoint f (if_storageDir fl) = Inr raw \<and> key_NewVerifier K pubKey = Inr v \<and>
       ParseCheckpoint N raw (if_origin fl) v [] = Inr (c, n) \<longrightarrow>
       log_ready fs_inv fs_view fs_entries h (unat (Size c)) m (dir_state (if_storageDir fl) f)"
    "fs_ok (if_storageDir fl) f" "integrate_run K N RF iter h fl pubKey s f = (err, f')"
  shows "fs_entries (dir_state (if_storageDir fl) f') = fs_entries (dir_state (if_storageDir fl) f) \<and>
    (\<forall>k \<le> m. log_ready fs_inv fs_view fs_entries h k m (dir_state (if_storageDir fl) f) \<longrightarrow>
       log_ready fs_inv fs_view fs_entries h k m (dir_state (if_storageDir fl) f')) \<and>
    (err \<noteq> None \<longrightarrow> ent f' (cp_key (if_storageDir fl)) = ent f (cp_key (if_storageDir fl))) \<and>
    (err = None \<longrightarrow> published N h (if_storageDir fl) (if_origin fl) s m f f')"
proof -
  let ?root = "if_storageDir fl"
  have same: ?thesis if "f' = f" "err \<noteq> None" using that by auto
  show ?thesis
  proof (cases "f' = f \<and> err \<noteq> None")
    case False
    then obtain raw v c n st where rd: "ReadCheckpoint f ?root = Inr raw" "key_NewVerifier K pubKey = Inr v"
        "ParseCheckpoint N raw (if_origin fl) v [] = Inr (c, n)" "Load f ?root (Size c) = Inr st"
      using assms(6) by (auto simp: integrate_run_def split: sum.splits)
    have root: "rootDir st = ?root" using rd(4) by (auto simp: Load_def split: sum.splits if_splits)
    have ready: "log_ready fs_inv fs_view fs_entries h (unat (Size c)) m (st, f)"
      unfolding log_ready_dir [OF root] using assms(4) rd(1-3) by blast
    obtain r st1 f1 where i: "Integrate RF iter fs_storage h c (st, f) = (r, st1, f1)" by (metis prod_cases3)
    note out = fs.Integrate_sound [OF assms(1-3) ready i, unfolded integrated_def]
    note frame = Integrate_frame [OF assms(1-3) ready i, unfolded root]
    note cp = frame(1) frame(2) [OF off_tile_cp]
    have st1: "rootDir st1 = ?root" using cp(1) root by simp
    have ent1: "fs_entries (dir_state ?root f1) = fs_entries (dir_state ?root f)"
      using out root st1 by (simp add: fs_entries_def)
    have keep1: "log_ready fs_inv fs_view fs_entries h k m (dir_state ?root f1)"
      if "k \<le> m" "log_ready fs_inv fs_view fs_entries h k m (dir_state ?root f)" for k
      using out that unfolding log_ready_dir [OF root] log_ready_dir [OF st1] by blast
    show ?thesis
    proof (cases "f' = f1 \<and> err \<noteq> None")
      case True
      then show ?thesis using ent1 keep1 cp(2) by auto
    next
      case more: False
      then obtain c' e where c': "r = Inr (Some c')" and w: "signAndWrite N (if_origin fl) c' empty_note s st1 f1 = (e, f')"
          and e: "err = None \<longleftrightarrow> e = None"
        using assms(6) rd i by (auto simp: integrate_run_def split: sum.splits option.splits prod.splits)
      have ok1: "fs_ok (rootDir st1) f1" using keep1 [OF _ ] log_readyD(1,3) [OF ready] ready st1 root
        unfolding log_ready_dir [OF root] by (auto simp: fs_inv_def log_ready_def)
      note sw = signAndWrite_quiet [OF ok1 w, unfolded st1]
      have q: "log_ready fs_inv fs_view fs_entries h k m (dir_state ?root f1) \<Longrightarrow> log_ready fs_inv fs_view fs_entries h k m (dir_state ?root f')" for k
        by (rule log_ready_quiet [OF sw(1)])
      have ent2: "fs_entries (dir_state ?root f') = fs_entries (dir_state ?root f1)"
        using quiet_ok(3) [OF ok1 [unfolded st1] sw(1)] by (simp add: fs_entries_def)
      have c'': "c' = \<lparr>Origin = [], Size = of_nat m, Hash = mth (HashChildren h) (leaf_fn h (fs_entries (dir_state ?root f))) 0 m\<rparr>"
          and rd1: "log_ready fs_inv fs_view fs_entries h m m (dir_state ?root f1)" and pos: "0 < m"
        using out c' root unfolding log_ready_dir [OF st1] by (simp_all add: fs_entries_def)
      have "published N h ?root (if_origin fl) s m f f'" if "err = None"
        using sw(2) that e q [OF rd1] pos unfolding published_def c'' by auto
      moreover have "ent f' (cp_key ?root) = ent f (cp_key ?root)" if "err \<noteq> None" using sw(3) that e cp(2) by simp
      ultimately show ?thesis using ent1 ent2 keep1 q by auto
    qed
  qed (use same in blast)
qed

text \<open>C11: A run of the integrate tool on a log directory whose checkpoint, if it can be read and verified, is one
  whose tree the tiles hold.  Whatever fails on the way, the run keeps the entries and every tree that could
  be read.  If it exits with status 0, the checkpoint file is the note of the checkpoint of all \<open>m\<close> sequenced
  entries signed with the configured key, it is what \<open>ReadCheckpoint\<close> then returns (unless reading
  fails), and the tiles hold the tree of all entries.\<close>

theorem integrate_main_publishes:
  assumes "compact_range (RF (HashChildren h)) (HashChildren h) rep" "permutes iter" "nonempty_hashes h" "\<not> if_initialise fl"
    "fs_ok (if_storageDir fl) f"
    "\<forall>raw pubKey v c n. ReadCheckpoint f (if_storageDir fl) = Inr raw \<and> key_NewVerifier K pubKey = Inr v \<and>
       ParseCheckpoint N raw (if_origin fl) v [] = Inr (c, n) \<longrightarrow>
       log_ready fs_inv fs_view fs_entries h (unat (Size c)) m (dir_state (if_storageDir fl) f)"
    "integrate_main K N RF iter h env fl f = (err, f')"
  shows "fs_entries (dir_state (if_storageDir fl) f') = fs_entries (dir_state (if_storageDir fl) f) \<and>
    (\<forall>k \<le> m. log_ready fs_inv fs_view fs_entries h k m (dir_state (if_storageDir fl) f) \<longrightarrow>
       log_ready fs_inv fs_view fs_entries h k m (dir_state (if_storageDir fl) f')) \<and>
    (err = None \<longrightarrow> log_ready fs_inv fs_view fs_entries h m m (dir_state (if_storageDir fl) f') \<and>
       (\<exists>privKey s raw. integrate_key f env (if_privKeyFile fl) ''SERVERLESS_LOG_PRIVATE_KEY'' = Inr privKey \<and> key_NewSigner K privKey = Inr s \<and>
          note_Sign N (empty_note\<lparr>NoteText := MarshalCheckpoint N \<lparr>Origin = if_origin fl, Size = of_nat m,
            Hash = mth (HashChildren h) (leaf_fn h (fs_entries (dir_state (if_storageDir fl) f))) 0 m\<rparr>\<rparr>) [s] = Inr raw \<and>
          (\<not> fault f' OpRead (cp_key (if_storageDir fl)) \<longrightarrow> ReadCheckpoint f' (if_storageDir fl) = Inr raw)))"
proof (cases "f' = f \<and> err \<noteq> None")
  case False
  then obtain pubKey privKey s where k: "integrate_key f env (if_privKeyFile fl) ''SERVERLESS_LOG_PRIVATE_KEY'' = Inr privKey"
      "key_NewSigner K privKey = Inr s" "integrate_run K N RF iter h fl pubKey s f = (err, f')"
    using assms(4,7) by (auto simp: integrate_main_def split: sum.splits if_splits)
  have "\<forall>raw v c n. ReadCheckpoint f (if_storageDir fl) = Inr raw \<and> key_NewVerifier K pubKey = Inr v \<and>
       ParseCheckpoint N raw (if_origin fl) v [] = Inr (c, n) \<longrightarrow>
       log_ready fs_inv fs_view fs_entries h (unat (Size c)) m (dir_state (if_storageDir fl) f)" using assms(6) by blast
  note out = integrate_run_outcome [OF assms(1-3) this assms(5) k(3)]
  have "\<exists>raw. note_Sign N (empty_note\<lparr>NoteText := MarshalCheckpoint N \<lparr>Origin = if_origin fl, Size = of_nat m,
            Hash = mth (HashChildren h) (leaf_fn h (fs_entries (dir_state (if_storageDir fl) f))) 0 m\<rparr>\<rparr>) [s] = Inr raw \<and>
          (\<not> fault f' OpRead (cp_key (if_storageDir fl)) \<longrightarrow> ReadCheckpoint f' (if_storageDir fl) = Inr raw)"
      "log_ready fs_inv fs_view fs_entries h m m (dir_state (if_storageDir fl) f')"
    if ok: "err = None"
  proof -
    have p: "published N h (if_storageDir fl) (if_origin fl) s m f f'" using out ok by blast
    then show rd: "log_ready fs_inv fs_view fs_entries h m m (dir_state (if_storageDir fl) f')" by (simp add: published_def)
    have "tree f'" using log_readyD(1) [OF rd] fs_okD(2) by (simp add: fs_inv_def)
    then show "\<exists>raw. note_Sign N (empty_note\<lparr>NoteText := MarshalCheckpoint N \<lparr>Origin = if_origin fl, Size = of_nat m,
            Hash = mth (HashChildren h) (leaf_fn h (fs_entries (dir_state (if_storageDir fl) f))) 0 m\<rparr>\<rparr>) [s] = Inr raw \<and>
          (\<not> fault f' OpRead (cp_key (if_storageDir fl)) \<longrightarrow> ReadCheckpoint f' (if_storageDir fl) = Inr raw)"
      using p ReadCheckpoint_written unfolding published_def by blast
  qed
  then show ?thesis using out k(1,2) by blast
qed auto

end
