(* ===== verification/LogDir.thy ===== *)
theory LogDir
  imports LogToolsProofs
begin

section \<open>A log directory over any number of runs of the tools\<close>

text \<open>
  The state that the tools share is the log directory.  Its invariant: the entries are numbered without
  gaps, every tile on disk is right for the entries, and the published checkpoint commits to a prefix of the
  entries whose tree the tiles hold.  Each run of the sequence and integrate tools keeps it, whatever fails.
\<close>

subsection \<open>Operations that leave the checkpoint alone\<close>

lemma MkdirAll_cp:
  assumes "os_MkdirAll f d = (e, f')" "key_of d = rk root cs" "take 1 cs \<noteq> [CheckpointPath]"
  shows "ent f' (cp_key root) = ent f (cp_key root)"
proof -
  have "cp_key root \<notin> set (prefixes_of (key_of d))" using cp_key_prefix [of "cp_key root" root cs] assms(2,3) by auto
  then show ?thesis using mkdirs_ent [OF assms(1) [unfolded os_MkdirAll_def]] by blast
qed

lemma createExclusive_keeps: "createExclusive f p d = (e, f') \<Longrightarrow> k \<noteq> key_of p \<Longrightarrow> ent f' k = ent f k"
  by (auto simp: createExclusive_def os_CreateExcl_def os_Write_def Let_def split: option.splits if_splits prod.splits)

lemma Link_keeps: "os_Link f old new = (e, f') \<Longrightarrow> k \<noteq> key_of new \<Longrightarrow> ent f' k = ent f k"
  by (auto simp: os_Link_def split: option.splits if_splits)

lemma Remove_keeps: "k \<noteq> key_of p \<Longrightarrow> ent (os_Remove f p) k = ent f k"
  by (simp add: os_Remove_def)

lemma write_leaf_index_keeps:
  assumes "write_leaf_index f p q = (r, f')" "k \<noteq> key_of p" "k \<noteq> key_of (p @ ''.tmp'')"
  shows "ent f' k = ent f k"
proof -
  obtain e1 f1 where c: "createExclusive f (p @ ''.tmp'') (format_uint 16 (unat q)) = (e1, f1)" by fastforce
  obtain e2 f2 where l: "os_Link f1 (p @ ''.tmp'') p = (e2, f2)" by fastforce
  have "ent f1 k = ent f k" "ent f2 k = ent f1 k" "ent (os_Remove f2 (p @ ''.tmp'')) k = ent f2 k"
    using createExclusive_keeps [OF c assms(3)] Link_keeps [OF l assms(2)] Remove_keeps [OF assms(3)] .
  then show ?thesis using assms(1) c l by (auto simp: write_leaf_index_def Let_def split: option.splits if_splits)
qed

lemma sequence_loop_keeps:
  "sequence_loop st0 f0 tmp0 p0 = Some y0 \<Longrightarrow> cp_key (rootDir st0) \<noteq> key_of p0 \<and> cp_key (rootDir st0) \<noteq> key_of (p0 @ ''.tmp'') \<longrightarrow>
     ent (snd (snd y0)) (cp_key (rootDir st0)) = ent f0 (cp_key (rootDir st0))"
proof (rule sequence_loop.raw_induct [where P = "\<lambda>st f tmp p y. cp_key (rootDir st) \<noteq> key_of p \<and> cp_key (rootDir st) \<noteq> key_of (p @ ''.tmp'') \<longrightarrow>
     ent (snd (snd y)) (cp_key (rootDir st)) = ent f (cp_key (rootDir st))"], goal_cases)
  case (1 loop st f tmp p y)
  let ?root = "rootDir st"
  let ?c = "cp_key ?root"
  show ?case
  proof (intro impI)
    assume p: "?c \<noteq> key_of p \<and> ?c \<noteq> key_of (p @ ''.tmp'')"
    obtain sd sf where sp: "SeqPath ?root (nextSeq st) = (sd, sf)" by fastforce
    obtain e1 f1 where mk: "os_MkdirAll f sd = (e1, f1)" by fastforce
    have "key_of sd = rk ?root (butlast (seq_comps (nextSeq st)))" using key_of_seq_dir(1) [of ?root "nextSeq st"] sp by simp
    then have m: "ent f1 ?c = ent f ?c" using MkdirAll_cp [OF mk] by (simp add: seq_comps_def CheckpointPath_def)
    obtain e2 f2 where l: "os_Link f1 tmp (Join [sd, sf]) = (e2, f2)" by fastforce
    have "key_of (Join [sd, sf]) = seq_key ?root (nextSeq st)" using key_of_seq [of ?root "nextSeq st"] by (simp add: JoinPair_def sp)
    then have l2: "ent f2 ?c = ent f1 ?c" using Link_keeps [OF l] by simp
    obtain r f3 where w: "write_leaf_index f2 p (nextSeq st) = (r, f3)" by fastforce
    have w3: "ent f3 ?c = ent f2 ?c" using write_leaf_index_keeps [OF w] p by blast
    show "ent (snd (snd y)) ?c = ent f ?c"
    proof (cases "e1 = None \<and> (\<exists>e. e2 = Some e \<and> errors_Is e ErrExist)")
      case True
      then have "loop (st\<lparr>nextSeq := nextSeq st + 1\<rparr>) f2 tmp p = Some y" using 1(3) sp mk l by (auto simp: Let_def)
      then show ?thesis using 1(2) p m l2 by fastforce
    next
      case False
      then show ?thesis using 1(3) sp mk l w m l2 w3 by (auto simp: Let_def split: option.splits if_splits)
    qed
  qed
qed simp

lemma Sequence_cp:
  assumes "Sequence st f lh leaf = Some (r, st', f')" "3 < length lh"
  shows "ent f' (cp_key (rootDir st)) = ent f (cp_key (rootDir st))"
proof -
  let ?root = "rootDir st"
  let ?c = "cp_key ?root" and ?tmp = "Join [?root, ''leaves/pending/'' @ hex_bytes lh]"
  obtain d b where db: "LeafPath ?root lh = Inr (d, b)" "key_of d = rk ?root (butlast (leaf_comps lh))"
      "key_of (Join [d, b]) = leaf_key ?root lh" "?c \<noteq> key_of (Join [d, b] @ ''.tmp'')"
    using leaf_path_keys [OF assms(2)] by metis
  obtain e1 f1 where mk: "os_MkdirAll f d = (e1, f1)" by fastforce
  have m: "ent f1 ?c = ent f ?c" using MkdirAll_cp [OF mk db(2)] by (simp add: leaf_comps_def CheckpointPath_def)
  have lk: "?c \<noteq> key_of (Join [d, b])" unfolding db(3) by (simp add: leaf_key_def leaf_comps_def cp_key_def)
  have tk: "?c \<noteq> key_of ?tmp" unfolding pending_key [OF assms(2)] by (simp add: cp_key_def)
  obtain e2 f2 where c: "createExclusive f1 ?tmp leaf = (e2, f2)" by fastforce
  note m2 = createExclusive_keeps [OF c tk]
  note loop = sequence_loop_keeps [of st f2 ?tmp "Join [d, b]", THEN mp, OF _ conjI [OF lk db(4)]]
  have rm: "ent (os_Remove g ?tmp) ?c = ent g ?c" for g using Remove_keeps [OF tk] .
  show ?thesis
  proof (cases "e1 = None \<and> (\<exists>e. os_ReadFile f1 (Join [d, b]) = Inl e \<and> os_IsNotExist e) \<and> e2 = None")
    case True
    then obtain y where "sequence_loop st f2 ?tmp (Join [d, b]) = Some y" "f' = os_Remove (snd (snd y)) ?tmp"
      using assms(1) db(1) mk c by (auto simp: Sequence_def Let_def split: option.splits)
    then show ?thesis using loop rm m m2 by metis
  next
    case False
    then have "f' = f1 \<or> f' = f2"
      using assms(1) db(1) mk c by (auto simp: Sequence_def Let_def split: option.splits sum.splits if_splits)
    then show ?thesis using m m2 by auto
  qed
qed

subsection \<open>Adding an entry keeps the tiles good\<close>

definition agree :: "nat \<Rightarrow> (nat \<Rightarrow> 'a) \<Rightarrow> (nat \<Rightarrow> 'a) \<Rightarrow> bool" where
  "agree m g g' \<longleftrightarrow> (\<forall>k < m. g' k = g k)"

lemma node_hash_agree: "\<lbrakk>agree m lf lf'; complete 0 m l i\<rbrakk> \<Longrightarrow> node_hash hc lf' l i = node_hash hc lf l i"
proof (induction l arbitrary: i)
  case (Suc l)
  then show ?case using complete_child [OF Suc.prems(2)] by simp
qed (simp add: agree_def complete_def)

lemma mth_agree: "\<lbrakk>agree m lf lf'; b + n \<le> m; 0 < n\<rbrakk> \<Longrightarrow> mth hc lf' b n = mth hc lf b n"
proof (induction hc lf b n rule: mth.induct)
  case (1 hc lf b n)
  show ?case
  proof (cases "n \<le> 1")
    case True
    then show ?thesis using 1(3-5) by (subst (1 2) mth.simps) (simp add: agree_def)
  next
    case False
    have b: "0 < pow2_lt n" "pow2_lt n < n" using pow2_lt_bounds [of n] False by auto
    then have "mth hc lf' b (pow2_lt n) = mth hc lf b (pow2_lt n)"
      "mth hc lf' (b + pow2_lt n) (n - pow2_lt n) = mth hc lf (b + pow2_lt n) (n - pow2_lt n)"
      using 1 False by auto
    then show ?thesis using False by (subst (1 2) mth.simps) (simp add: Let_def)
  qed
qed

lemma tile_good_agree:
  assumes "agree m lf lf'" "w \<le> tile_width l i m" "tile_good hc lf w l i t"
  shows "tile_good hc lf' w l i t"
proof -
  have "tile_hash hc lf' l i nl ni = tile_hash hc lf l i nl ni"
    if "nl < 8" "ni < 2 ^ (8 - nl)" "(ni + 1) * 2 ^ nl \<le> w" for nl ni
    using node_hash_agree [OF assms(1)] complete_width [OF that(1,2)] that(3) assms(2) by (metis le_trans)
  then show ?thesis using assms(3) unfolding tile_good_def by metis
qed

lemma all_good_agree:
  assumes "all_good hc lf m tv" "agree m lf lf'" "m \<le> m'"
  shows "all_good hc lf' m' tv"
  unfolding all_good_def
proof (intro allI impI)
  fix x y ps t assume "tv x y ps = Some t"
  then obtain w where w: "w \<le> tile_width (unat x) (unat y) m" "tile_good hc lf w (unat x) (unat y) t" "0 < w" "w = 256 \<or> unat ps = w mod 256"
    using assms(1) unfolding all_good_def by blast
  then show "\<exists>w \<le> tile_width (unat x) (unat y) m'. tile_good hc lf' w (unat x) (unat y) t \<and> 0 < w \<and> (w = 256 \<or> unat ps = w mod 256)"
    using w(3,4) tile_good_agree [OF assms(2) w(1,2)] le_trans [OF w(1) tile_width_mono [OF assms(3)]] by (intro exI [of _ w] conjI)
qed

lemma holds_tree_agree:
  assumes "all_good hc lf m tv" "holds_tree hc lf n tv" "agree m lf lf'"
  shows "holds_tree hc lf' n tv"
  unfolding holds_tree_def
proof (intro allI impI)
  fix x y :: u64
  let ?n = "tile_width (unat x) (unat y) n"
  assume "unat x < 8 \<and> 0 < ?n"
  then obtain t w where t: "tv x y (of_nat (?n mod 256)) = Some t" "?n \<le> w" "tile_good hc lf w (unat x) (unat y) t"
    using assms(2) unfolding holds_tree_def by blast
  then have "w \<le> tile_width (unat x) (unat y) m" using assms(1) tile_good_width unfolding all_good_def by metis
  then show "\<exists>t w. tv x y (of_nat (?n mod 256)) = Some t \<and> ?n \<le> w \<and> tile_good hc lf' w (unat x) (unat y) t"
    using t tile_good_agree [OF assms(3)] by blast
qed

lemma log_ready_grow:
  assumes "log_ready sinv tv entry h k m s" "sinv s'" "tv s' = tv s" "entry s' = (entry s)(m \<mapsto> leaf)" "entry s (m + 1) = None"
  shows "log_ready sinv tv entry h k (m + 1) s'"
proof -
  note rd = log_readyD [OF assms(1)]
  have "agree m (leaf_fn h (entry s)) (leaf_fn h (entry s'))" by (simp add: agree_def leaf_fn_def assms(4))
  moreover have "log_length (entry s') (m + 1)"
    using rd(2) assms(4,5) by (auto simp: log_length_def less_Suc_eq)
  ultimately show ?thesis unfolding log_ready_def assms(3)
    using assms(2) rd(3) all_good_agree [OF rd(4)] holds_tree_agree [OF rd(4,5)] by auto
qed

subsection \<open>The invariant\<close>

definition tree_root :: "hasher \<Rightarrow> (nat \<Rightarrow> bytes) \<Rightarrow> nat \<Rightarrow> bytes" where
  "tree_root h lf n = (if n = 0 then EmptyRoot h else mth (HashChildren h) lf 0 n)"

definition dir_entries :: "string \<Rightarrow> os \<Rightarrow> nat \<Rightarrow> bytes option" where
  "dir_entries root f = fs_entries (dir_state root f)"

abbreviation dir_ready :: "hasher \<Rightarrow> nat \<Rightarrow> nat \<Rightarrow> string \<Rightarrow> os \<Rightarrow> bool" where
  "dir_ready h n m root f \<equiv> log_ready fs_inv fs_view fs_entries h n m (dir_state root f)"

text \<open>A checkpoint commits to the first entries, and the tiles hold their tree.\<close>

definition commits :: "('v, 's) note_lib \<Rightarrow> hasher \<Rightarrow> string \<Rightarrow> string \<Rightarrow> nat \<Rightarrow> os \<Rightarrow> bytes \<Rightarrow> bool" where
  "commits N h origin root m f raw \<longleftrightarrow> (\<forall>v c n. ParseCheckpoint N raw origin v [] = Inr (c, n) \<longrightarrow>
     dir_ready h (unat (Size c)) m root f \<and> Hash c = tree_root h (leaf_fn h (dir_entries root f)) (unat (Size c)))"

lemma commitsD:
  assumes "commits N h origin root m f raw" "ParseCheckpoint N raw origin v [] = Inr (c, n)"
  shows "dir_ready h (unat (Size c)) m root f" "Hash c = tree_root h (leaf_fn h (dir_entries root f)) (unat (Size c))"
  using assms by (auto simp: commits_def)

definition log_dir :: "('v, 's) note_lib \<Rightarrow> hasher \<Rightarrow> string \<Rightarrow> string \<Rightarrow> nat \<Rightarrow> os \<Rightarrow> bool" where
  "log_dir N h origin root m f \<longleftrightarrow> dir_ready h 0 m root f \<and> (\<forall>j \<ge> m. dir_entries root f j = None) \<and>
     (case ent f (cp_key root) of None \<Rightarrow> True | Some (File raw) \<Rightarrow> commits N h origin root m f raw | Some _ \<Rightarrow> False)"

lemma log_dirD:
  assumes "log_dir N h origin root m f"
  shows "dir_ready h 0 m root f" "m \<le> j \<Longrightarrow> dir_entries root f j = None" "j < m \<Longrightarrow> dir_entries root f j \<noteq> None"
    "fs_ok root f" "m < 2 ^ 64"
proof -
  show rd: "dir_ready h 0 m root f" and none: "m \<le> j \<Longrightarrow> dir_entries root f j = None" for j using assms by (simp_all add: log_dir_def)
  note i = log_readyD(1) [OF rd] and l = log_readyD(2) [OF rd]
  show "j < m \<Longrightarrow> dir_entries root f j \<noteq> None" using l by (simp add: log_length_def dir_entries_def)
  show "fs_ok root f" using i by (simp add: fs_inv_def)
  show "m < 2 ^ 64" by (rule fs.log_length_bound [OF i l])
qed

lemma ReadCheckpoint_ent:
  assumes "log_dir N h origin root m f" "ReadCheckpoint f root = Inr raw"
  shows "ent f (cp_key root) = Some (File raw)" "commits N h origin root m f raw"
proof -
  have tr: "tree f" using fs_okD(2) log_dirD(4) [OF assms(1)] by blast
  have "ent f (cp_key root) \<noteq> None"
    using assms(2) by (auto simp: ReadCheckpoint_def os_ReadFile_def key_of_checkpoint follow.simps [of 40] split: option.splits if_splits)
  then obtain b where b: "ent f (cp_key root) = Some (File b)" "commits N h origin root m f b"
    using assms(1) unfolding log_dir_def by (auto split: option.splits fnode.splits)
  then have "b = raw" using assms(2) follow_plain [OF tr b(1)]
    by (simp add: ReadCheckpoint_def os_ReadFile_def key_of_checkpoint split: if_splits)
  then show "ent f (cp_key root) = Some (File raw)" "commits N h origin root m f raw" using b by simp_all
qed

text \<open>A change that only adds entries at the end and keeps every tree that can be read.\<close>

definition extends :: "hasher \<Rightarrow> string \<Rightarrow> nat \<Rightarrow> os \<Rightarrow> nat \<Rightarrow> os \<Rightarrow> bool" where
  "extends h root m f m' g \<longleftrightarrow> m \<le> m' \<and> agree m (dir_entries root f) (dir_entries root g) \<and>
     (\<forall>k. dir_ready h k m root f \<longrightarrow> dir_ready h k m' root g)"

lemma extends_refl [simp]: "extends h root m f m f"
  by (simp add: extends_def agree_def)

lemma extends_trans: "\<lbrakk>extends h root m f m' g; extends h root m' g m'' k\<rbrakk> \<Longrightarrow> extends h root m f m'' k"
  by (auto simp: extends_def agree_def)

lemma commits_keep:
  assumes "commits N h origin root m f raw" "extends h root m f m' g"
  shows "commits N h origin root m' g raw"
proof -
  have "tree_root h (leaf_fn h (dir_entries root g)) k = tree_root h (leaf_fn h (dir_entries root f)) k" if "k \<le> m" for k
  proof -
    have "agree m (leaf_fn h (dir_entries root f)) (leaf_fn h (dir_entries root g))" using assms(2) by (simp add: extends_def agree_def leaf_fn_def)
    then show ?thesis using mth_agree that by (simp add: tree_root_def)
  qed
  then show ?thesis using assms log_readyD(3) unfolding commits_def extends_def by metis
qed

lemma log_dir_keep:
  assumes "log_dir N h origin root m f" "extends h root m f m' g" "\<forall>j \<ge> m'. dir_entries root g j = None"
    "ent g (cp_key root) = ent f (cp_key root) \<or> (\<exists>raw. ent g (cp_key root) = Some (File raw) \<and> commits N h origin root m' g raw)"
  shows "log_dir N h origin root m' g"
proof -
  have "case ent g (cp_key root) of None \<Rightarrow> True | Some (File raw) \<Rightarrow> commits N h origin root m' g raw | Some _ \<Rightarrow> False"
    using assms(1,4) commits_keep [OF _ assms(2)] unfolding log_dir_def by (auto split: option.splits fnode.splits)
  then show ?thesis using assms(1-3) by (simp add: log_dir_def extends_def)
qed

lemma log_dir_quiet:
  assumes "log_dir N h origin root m f" "quiet root f g"
    "ent g (cp_key root) = ent f (cp_key root) \<or> (\<exists>raw. ent g (cp_key root) = Some (File raw) \<and> commits N h origin root m g raw)"
  shows "log_dir N h origin root m g" "extends h root m f m g"
proof -
  have e: "dir_entries root g = dir_entries root f"
    using quiet_ok(3) [OF log_dirD(4) [OF assms(1)] assms(2)] by (simp add: dir_entries_def fs_entries_def)
  then show x: "extends h root m f m g" using log_ready_quiet [OF assms(2)] by (simp add: extends_def agree_def)
  show "log_dir N h origin root m g" using log_dirD(2) [OF assms(1)] e by (intro log_dir_keep [OF assms(1) x _ assms(3)]) simp
qed

subsection \<open>The sequence tool\<close>

definition leaf_hashes_long :: "hasher \<Rightarrow> bool" where
  "leaf_hashes_long h \<longleftrightarrow> (\<forall>e. 3 < length (HashLeaf h e))"

lemma Sequence_log_dir:
  assumes "log_dir N h origin root m f" "rootDir st = root" "unat (nextSeq st) \<le> m" "m < 2 ^ 64 - 1" "3 < length lh"
    "Sequence st f lh leaf = Some ((q, err), st', f')"
  shows "\<exists>m'. m \<le> m' \<and> m' \<le> m + 1 \<and> log_dir N h origin root m' f' \<and> rootDir st' = root \<and> unat (nextSeq st') \<le> m' \<and>
    extends h root m f m' f'"
proof -
  let ?e = "fs_entry root f"
  have e: "dir_entries root g = fs_entry root g" for g by (simp add: dir_entries_def fs_entries_def)
  note d = log_dirD [OF assms(1), unfolded e]
  have o: "rootDir st' = root" "unat (nextSeq st') \<le> m" "seq_out root leaf (nextSeq st) f q err f'"
    using Sequence_outcome [of st f lh m leaf] assms(2-6) d(2,4) by auto
  have cp: "ent f' (cp_key root) = ent f (cp_key root)" using Sequence_cp [OF assms(6,5)] assms(2) by simp
  have ok: "fs_ok root f'" and tv: "fs_tv root f' = fs_tv root f" using o(3) by (auto simp: seq_out_def)
  show ?thesis
  proof (cases "fs_entry root f' = ?e")
    case True
    have "dir_ready h k m root f'" if "dir_ready h k m root f" for k
      using that ok tv True by (simp add: log_ready_def fs_inv_def fs_view_def fs_entries_def)
    then have x: "extends h root m f m f'" using True by (simp add: extends_def agree_def e)
    have "log_dir N h origin root m f'" using d(2) True cp by (intro log_dir_keep [OF assms(1) x]) (auto simp: e)
    then show ?thesis using o(1,2) x by (intro exI [of _ m]) simp
  next
    case False
    then obtain j where j: "nextSeq st \<le> j" "?e (unat j) = None" "\<forall>i. nextSeq st \<le> i \<and> i < j \<longrightarrow> ?e (unat i) \<noteq> None"
        "fs_entry root f' = ?e(unat j \<mapsto> leaf)" using o(3) unfolding seq_out_def by auto
    have um: "unat (of_nat m :: u64) = m" using d(5) by (rule unat_of_nat_u64)
    have "m \<le> unat j" using j(2) d(3) not_less by blast
    moreover have "\<not> m < unat j" using j(3) d(2) [of m] assms(3) um
      by (metis le_refl word_le_nat_alt word_less_nat_alt)
    ultimately have uj: "unat j = m" by simp
    have grow: "dir_ready h k (m + 1) root f'" if "dir_ready h k m root f" for k
      using log_ready_grow [OF that, of "dir_state root f'" leaf] ok tv j(4) uj d(2) [of "m + 1"]
      by (simp add: fs_inv_def fs_view_def fs_entries_def)
    then have x: "extends h root m f (m + 1) f'" using j(4) uj by (simp add: extends_def agree_def e)
    have "log_dir N h origin root (m + 1) f'"
      using cp j(4) uj d(2) by (intro log_dir_keep [OF assms(1) x]) (auto simp: e)
    then show ?thesis using o(1,2) x by (intro exI [of _ "m + 1"]) simp
  qed
qed

lemma sequence_entries_log_dir:
  "\<lbrakk>log_dir N h origin root m f; leaf_hashes_long h; rootDir st = root; unat (nextSeq st) \<le> m; m + length es < 2 ^ 64 - 1;
    sequence_entries h st f es lns = Some (err, lns', st', f')\<rbrakk> \<Longrightarrow>
   \<exists>m'. log_dir N h origin root m' f' \<and> extends h root m f m' f'"
proof (induction es arbitrary: m st f lns)
  case Nil
  then show ?case by (intro exI [of _ m]) auto
next
  case (Cons e es)
  obtain name b where e: "e = (name, b)" by fastforce
  obtain q er st1 f1 where s: "Sequence st f (HashLeaf h b) b = Some ((q, er), st1, f1)"
    using Cons.prems(6) by (auto simp: e split: option.splits)
  have lh: "3 < length (HashLeaf h b)" using Cons.prems(2) by (simp add: leaf_hashes_long_def)
  obtain m1 where m1: "m \<le> m1" "m1 \<le> m + 1" "log_dir N h origin root m1 f1" "rootDir st1 = root" "unat (nextSeq st1) \<le> m1"
      "extends h root m f m1 f1"
    using Sequence_log_dir [OF Cons.prems(1,3,4) _ lh s] Cons.prems(5) by auto
  show ?case
  proof (cases "f' = f1")
    case True
    then show ?thesis using m1 by (intro exI [of _ m1]) simp
  next
    case False
    then obtain lns1 where "sequence_entries h st1 f1 es lns1 = Some (err, lns', st', f')"
      using Cons.prems(6) s by (auto simp: e split: option.splits if_splits)
    from Cons.IH [OF m1(3) Cons.prems(2) m1(4,5) _ this] m1(1,2) Cons.prems(5)
    obtain m' where "log_dir N h origin root m' f'" "extends h root m1 f1 m' f'" by auto
    then show ?thesis using extends_trans [OF m1(6)] by blast
  qed
qed

lemma read_entries_length: "length (fst (read_entries f fps)) \<le> length fps"
  by (induction fps) (auto split: sum.splits prod.splits)

lemma sequence_main_log_dir:
  assumes "log_dir N h (sf_origin fl) (sf_storageDir fl) m f" "leaf_hashes_long h"
    "\<forall>toAdd. glob f (sf_entries fl) = Inr toAdd \<longrightarrow> m + length toAdd < 2 ^ 64 - 1"
    "sequence_main K N glob behind h env fl f = Some (err, lns, f')"
  shows "\<exists>m'. log_dir N h (sf_origin fl) (sf_storageDir fl) m' f' \<and> extends h (sf_storageDir fl) m f m' f'"
proof (cases "f' = f")
  case True
  then show ?thesis using assms(1) by (intro exI [of _ m]) simp
next
  case False
  let ?root = "sf_storageDir fl"
  define pk where "pk = (if 0 < length (sf_pubKeyFile fl)
            then (case os_ReadFile f (sf_pubKeyFile fl) of Inl e \<Rightarrow> Inl (errorf ''failed to read public_key file'' e) | Inr k \<Rightarrow> Inr k)
            else if length (env ''SERVERLESS_LOG_PUBLIC_KEY'') = 0 then Inl (Errorf ''supply public key file path'')
            else Inr (env ''SERVERLESS_LOG_PUBLIC_KEY''))"
  note run = assms(4) [unfolded sequence_main_def Let_def, folded pk_def]
  obtain pubKey where pk: "pk = Inr pubKey" using run False by (cases pk) auto
  obtain toAdd where toAdd: "glob f (sf_entries fl) = Inr toAdd" using run pk False by (cases "glob f (sf_entries fl)") auto
  have ne: "length toAdd \<noteq> 0" using run pk toAdd False by auto
  obtain raw where raw: "ReadCheckpoint f ?root = Inr raw" using run pk toAdd ne False by (cases "ReadCheckpoint f ?root") auto
  obtain v where v: "key_NewVerifier K pubKey = Inr v" using run pk toAdd ne raw False by (cases "key_NewVerifier K pubKey") auto
  obtain c n where c: "ParseCheckpoint N raw (sf_origin fl) v [] = Inr (c, n)"
    using run pk toAdd ne raw v False by (cases "ParseCheckpoint N raw (sf_origin fl) v []") auto
  obtain st where st: "Load f ?root (Size c) = Inr st" using run pk toAdd ne raw v c False by (cases "Load f ?root (Size c)") auto
  obtain es rerr where re: "read_entries f toAdd = (es, rerr)" by fastforce
  define es' where "es' = (if rerr = None then es else take (length es - behind) es)"
  have len: "length es' \<le> length (fst (read_entries f toAdd))" by (simp add: es'_def re)
  obtain er lns' st' where seq: "sequence_entries h st f es' [] = Some (er, lns', st', f')"
  proof -
    have "(case sequence_entries h st f es' [] of None \<Rightarrow> None | Some (Some e, lns, st', f') \<Rightarrow> Some (Some e, lns, f')
        | Some (None, lns, st', f') \<Rightarrow> Some (rerr, lns, f')) = Some (err, lns, f')"
      using run pk toAdd ne raw v c st re by (simp add: es'_def)
    then show ?thesis using that by (cases "sequence_entries h st f es' []") (auto split: option.splits)
  qed
  note r = toAdd raw c st seq len
  have st': "rootDir st = ?root" "nextSeq st = Size c" using r(4) by (auto simp: Load_def split: sum.splits if_splits)
  have "unat (Size c) \<le> m" using log_readyD(3) [OF commitsD(1) [OF ReadCheckpoint_ent(2) [OF assms(1) r(2)] r(3)]] .
  moreover have "m + length es' < 2 ^ 64 - 1" using assms(3) r(1,6) read_entries_length [of f toAdd] by fastforce
  ultimately show ?thesis using sequence_entries_log_dir [OF assms(1,2) st'(1) _ _ r(5)] st'(2) by simp
qed

subsection \<open>The integrate tool\<close>

text \<open>What the note packages promise: a note signed over a checkpoint reads back as that checkpoint.\<close>

locale checkpoint_notes =
  fixes N :: "('v, 's) note_lib"
  assumes parse_signed: "\<lbrakk>note_Sign N (empty_note\<lparr>NoteText := MarshalCheckpoint N c\<rparr>) [s] = Inr raw;
    ParseCheckpoint N raw (Origin c) v [] = Inr (c', n)\<rbrakk> \<Longrightarrow> c' = c"
begin

lemma signed_commits:
  assumes "note_Sign N (empty_note\<lparr>NoteText := MarshalCheckpoint N c\<rparr>) [s] = Inr raw" "Origin c = origin"
    "dir_ready h (unat (Size c)) m root f" "Hash c = tree_root h (leaf_fn h (dir_entries root f)) (unat (Size c))"
  shows "commits N h origin root m f raw"
  using assms parse_signed unfolding commits_def by blast

end

lemma create_dirs_quiet:
  "\<lbrakk>tree f; \<forall>sfx \<in> set sfxs. \<exists>cs. key_of (Join [root, sfx]) = rk root cs \<and> length cs < 6 \<and> take 1 cs \<noteq> [CheckpointPath];
    create_dirs f root sfxs = (err, f')\<rbrakk> \<Longrightarrow> quiet root f f' \<and> ent f' (cp_key root) = ent f (cp_key root)"
proof (induction sfxs arbitrary: f)
  case Nil
  then show ?case by (simp add: quiet_refl)
next
  case (Cons sfx sfxs)
  obtain cs where cs: "key_of (Join [root, sfx]) = rk root cs" "length cs < 6" "take 1 cs \<noteq> [CheckpointPath]"
    using Cons.prems(2) by auto
  obtain e1 f1 where mk: "os_MkdirAll f (Join [root, sfx]) = (e1, f1)" by fastforce
  note q = mkdir_quiet(1) [OF Cons.prems(1) cs(1,2) mk] and c = MkdirAll_cp [OF mk cs(1,3)]
  have "tree f1" using q by (simp add: quiet_def)
  then show ?case using Cons.IH [of f1] Cons.prems(2,3) mk q c quiet_trans [OF q] by (cases e1) auto
qed

lemma key_of_root: "key_of root = rk root []"
  by (auto simp: key_of_def rk_def root_comps_def clean_comps_def clean_push_def)

lemma log_subdirs:
  "\<forall>sfx \<in> set [''leaves/pending'', ''seq'', ''tile'']. \<exists>cs. key_of (Join [root, sfx]) = rk root cs \<and> length cs < 6 \<and> take 1 cs \<noteq> [CheckpointPath]"
proof -
  have "key_of (Join [root, path_of False cs]) = rk root cs" if "cs \<noteq> []" "\<forall>c \<in> set cs. normal_comp c" for cs
    using Join_relative [OF that] key_of_rk [OF that(2)] by simp
  from this [of "[''leaves'', ''pending'']"] this [of "[''seq'']"] this [of "[''tile'']"]
  show ?thesis by (auto simp: path_of_def normal_comp_def CheckpointPath_def intro!: exI)
qed

lemma Create_quiet:
  assumes "fs_ok root f" "Create f root = (r, f')"
  shows "quiet root f f'" "ent f' (cp_key root) = ent f (cp_key root)" "r = Inr st \<Longrightarrow> rootDir st = root"
proof -
  have tr: "tree f" using fs_okD(2) [OF assms(1)] .
  obtain e1 f1 where mk: "os_MkdirAll f root = (e1, f1)" by fastforce
  note q = mkdir_quiet(1) [OF tr key_of_root _ mk] and c = MkdirAll_cp [OF mk key_of_root]
  have tr1: "tree f1" using q by (simp add: quiet_def)
  obtain e2 f2 where cd: "create_dirs f1 root [''leaves/pending'', ''seq'', ''tile''] = (e2, f2)" by fastforce
  note d = create_dirs_quiet [OF tr1 log_subdirs cd]
  have "f' \<in> {f, f1, f2}" "r = Inr st \<Longrightarrow> rootDir st = root"
    using assms(2) mk cd by (auto simp: Create_def split: sum.splits option.splits)
  then show "quiet root f f'" "ent f' (cp_key root) = ent f (cp_key root)" "r = Inr st \<Longrightarrow> rootDir st = root"
    using q c d quiet_trans [of root f f1] quiet_refl [OF tr] by auto
qed

lemma integrate_init_log_dir:
  assumes "checkpoint_notes N" "log_dir N h (if_origin fl) (if_storageDir fl) m f" "integrate_init N h fl s f = (err, f')"
  shows "log_dir N h (if_origin fl) (if_storageDir fl) m f' \<and> extends h (if_storageDir fl) m f m f'"
proof -
  let ?root = "if_storageDir fl" and ?c0 = "\<lparr>Origin = [], Size = 0, Hash = EmptyRoot h\<rparr>"
  obtain r f1 where cr: "Create f ?root = (r, f1)" by fastforce
  note q = Create_quiet [OF log_dirD(4) [OF assms(2)] cr]
  note d1 = log_dir_quiet [OF assms(2) q(1), OF disjI1 [OF q(2)]]
  show ?thesis
  proof (cases r)
    case (Inl e)
    then show ?thesis using assms(3) cr d1 by (auto simp: integrate_init_def)
  next
    case (Inr st)
    note root = q(3) [OF Inr]
    obtain e f2 where w: "signAndWrite N (if_origin fl) ?c0 empty_note s st f1 = (e, f2)" by fastforce
    have f': "f' = f2" using assms(3) cr Inr w by (auto simp: integrate_init_def split: option.splits)
    note sw = signAndWrite_quiet [OF _ w, unfolded root, OF log_dirD(4) [OF d1(1)]]
    have "\<exists>raw. ent f2 (cp_key ?root) = Some (File raw) \<and> commits N h (if_origin fl) ?root m f2 raw" if ok: "e = None"
    proof -
      obtain raw where raw: "note_Sign N (empty_note\<lparr>NoteText := MarshalCheckpoint N (?c0\<lparr>Origin := if_origin fl\<rparr>)\<rparr>) [s] = Inr raw"
          "ent f2 (cp_key ?root) = Some (File raw)" using sw(2) [OF ok] by blast
      have "dir_ready h 0 m ?root f2" using log_ready_quiet [OF sw(1) log_dirD(1) [OF d1(1)]] .
      then show ?thesis using checkpoint_notes.signed_commits [OF assms(1) raw(1)] raw(2) by (simp add: tree_root_def)
    qed
    then have "ent f2 (cp_key ?root) = ent f1 (cp_key ?root) \<or> (\<exists>raw. ent f2 (cp_key ?root) = Some (File raw) \<and> commits N h (if_origin fl) ?root m f2 raw)"
      using sw(3) by blast
    from log_dir_quiet [OF d1(1) sw(1) this] show ?thesis using extends_trans [OF d1(2)] f' by blast
  qed
qed

lemma integrate_main_log_dir:
  assumes "checkpoint_notes N" "compact_range (RF (HashChildren h)) (HashChildren h) rep" "permutes iter" "nonempty_hashes h"
    "log_dir N h (if_origin fl) (if_storageDir fl) m f" "integrate_main K N RF iter h env fl f = (err, f')"
  shows "log_dir N h (if_origin fl) (if_storageDir fl) m f' \<and> extends h (if_storageDir fl) m f m f'"
proof (cases "f' = f")
  case True
  then show ?thesis using assms(5) by simp
next
  case False
  let ?root = "if_storageDir fl"
  obtain pubKey s where k: "if if_initialise fl then integrate_init N h fl s f = (err, f') else integrate_run K N RF iter h fl pubKey s f = (err, f')"
    using assms(6) False by (auto simp: integrate_main_def split: sum.splits if_splits)
  show ?thesis
  proof (cases "if_initialise fl")
    case True
    then show ?thesis using integrate_init_log_dir [OF assms(1,5)] k by simp
  next
    case ni: False
    have rd: "\<forall>raw v c n. ReadCheckpoint f ?root = Inr raw \<and> key_NewVerifier K pubKey = Inr v \<and>
        ParseCheckpoint N raw (if_origin fl) v [] = Inr (c, n) \<longrightarrow> dir_ready h (unat (Size c)) m ?root f"
      using commitsD(1) [OF ReadCheckpoint_ent(2) [OF assms(5)]] by blast
    have run: "integrate_run K N RF iter h fl pubKey s f = (err, f')" using k ni by simp
    note out = integrate_run_outcome [OF assms(2-4) rd log_dirD(4) [OF assms(5)] run, folded dir_entries_def]
    have ents: "dir_entries ?root f' = dir_entries ?root f" using out by blast
    have "\<exists>raw. ent f' (cp_key ?root) = Some (File raw) \<and> commits N h (if_origin fl) ?root m f' raw" if ok: "err = None"
    proof -
      have pub: "published N h ?root (if_origin fl) s m f f'" using out ok by blast
      let ?c = "\<lparr>Origin = if_origin fl, Size = of_nat m, Hash = mth (HashChildren h) (leaf_fn h (dir_entries ?root f)) 0 m\<rparr>"
      obtain raw where raw: "note_Sign N (empty_note\<lparr>NoteText := MarshalCheckpoint N ?c\<rparr>) [s] = Inr raw"
          "ent f' (cp_key ?root) = Some (File raw)" "0 < m" "dir_ready h m m ?root f'"
        using pub unfolding published_def dir_entries_def by blast
      have um: "unat (Size ?c) = m" using unat_of_nat_u64 [OF log_dirD(5) [OF assms(5)]] by simp
      have "commits N h (if_origin fl) ?root m f' raw"
      proof (rule checkpoint_notes.signed_commits [OF assms(1) raw(1)])
        show "dir_ready h (unat (Size ?c)) m ?root f'" unfolding um by (rule raw(4))
        show "Hash ?c = tree_root h (leaf_fn h (dir_entries ?root f')) (unat (Size ?c))"
          unfolding um ents using raw(3) by (simp add: tree_root_def)
      qed simp
      then show ?thesis using raw(2) by blast
    qed
    moreover have "ent f' (cp_key ?root) = ent f (cp_key ?root)" if "err \<noteq> None" using out that by blast
    ultimately have cp: "ent f' (cp_key ?root) = ent f (cp_key ?root) \<or> (\<exists>raw. ent f' (cp_key ?root) = Some (File raw) \<and> commits N h (if_origin fl) ?root m f' raw)"
      by blast
    have keep: "\<forall>k. dir_ready h k m ?root f \<longrightarrow> dir_ready h k m ?root f'"
    proof (intro allI impI)
      fix k assume rk: "dir_ready h k m ?root f"
      show "dir_ready h k m ?root f'" using out log_readyD(3) [OF rk] rk by blast
    qed
    then have x: "extends h ?root m f m f'" using ents by (simp add: extends_def agree_def)
    show ?thesis using log_dir_keep [OF assms(5) x _ cp] x ents log_dirD(2) [OF assms(5)] by simp
  qed
qed

subsection \<open>Runs of the tools\<close>

text \<open>A run of the integrate tool, a run of the sequence tool that does not exhaust the numbers, or a change of
  what fails from now on.\<close>

inductive tool_step ::
    "('v, 's) key_lib \<Rightarrow> ('v, 's) note_lib \<Rightarrow> (hash_fn \<Rightarrow> 'r compact) \<Rightarrow> hasher \<Rightarrow> string \<Rightarrow> string \<Rightarrow> os \<Rightarrow> os \<Rightarrow> bool"
  for K N RF h origin root where
  step_integrate: "\<lbrakk>if_storageDir fl = root; if_origin fl = origin; permutes iter; integrate_main K N RF iter h env fl f = (err, f')\<rbrakk> \<Longrightarrow>
    tool_step K N RF h origin root f f'"
| step_sequence: "\<lbrakk>sf_storageDir fl = root; sf_origin fl = origin; sequence_main K N glob behind h env fl f = Some (err, lns, f');
    \<forall>toAdd. glob f (sf_entries fl) = Inr toAdd \<longrightarrow> card (dom (dir_entries root f)) + length toAdd < 2 ^ 64 - 1\<rbrakk> \<Longrightarrow>
    tool_step K N RF h origin root f f'"
| step_fault: "tool_step K N RF h origin root f (f\<lparr>fault := faults\<rparr>)"

lemma ent_fault [simp]: "ent (f\<lparr>fault := faults\<rparr>) = ent f"
  by (simp add: ent_def fun_eq_iff)

lemma dir_state_fault:
  "dir_entries root (f\<lparr>fault := faults\<rparr>) = dir_entries root f" "dir_ready h k m root (f\<lparr>fault := faults\<rparr>) = dir_ready h k m root f"
proof -
  have "fs_entry root (f\<lparr>fault := faults\<rparr>) = fs_entry root f" "fs_tv root (f\<lparr>fault := faults\<rparr>) = fs_tv root f"
    "fs_ok root (f\<lparr>fault := faults\<rparr>) = fs_ok root f"
    unfolding fun_eq_iff fs_entry_def fs_tv_def fs_ok_def tree_def dirs_ok_def ent_fault by (intro allI refl)+
  then show "dir_entries root (f\<lparr>fault := faults\<rparr>) = dir_entries root f" "dir_ready h k m root (f\<lparr>fault := faults\<rparr>) = dir_ready h k m root f"
    by (simp_all add: dir_entries_def log_ready_def fs_entries_def fs_view_def fs_inv_def)
qed

lemma log_dir_card: "log_dir N h origin root m f \<Longrightarrow> card (dom (dir_entries root f)) = m"
proof -
  assume d: "log_dir N h origin root m f"
  have "j \<in> dom (dir_entries root f) \<longleftrightarrow> j < m" for j using log_dirD(2,3) [OF d, of j] by (cases "j < m") auto
  then have "dom (dir_entries root f) = {..<m}" by auto
  then show ?thesis by simp
qed

lemma tool_step_log_dir:
  assumes "checkpoint_notes N" "compact_range (RF (HashChildren h)) (HashChildren h) rep" "nonempty_hashes h" "leaf_hashes_long h"
    "log_dir N h origin root m f" "tool_step K N RF h origin root f f'"
  shows "\<exists>m'. log_dir N h origin root m' f' \<and> extends h root m f m' f'"
  using assms(6)
proof cases
  case (step_integrate fl iter env err)
  then show ?thesis using integrate_main_log_dir [where RF = RF, OF assms(1,2) step_integrate(3) assms(3)] assms(5) by blast
next
  case (step_sequence fl glob behind env err lns)
  then show ?thesis using sequence_main_log_dir [of N h fl m f glob K behind env err lns f'] assms(4,5) log_dir_card [OF assms(5)] by simp
next
  case (step_fault faults)
  have x: "extends h root m f m f'" by (simp add: extends_def agree_def dir_state_fault step_fault)
  have "log_dir N h origin root m f'"
    using log_dirD(2) [OF assms(5)] by (intro log_dir_keep [OF assms(5) x]) (simp_all add: dir_state_fault step_fault)
  then show ?thesis using x by blast
qed

text \<open>C2: The log directory over its life.  From a good directory, after any number of runs of the sequence and integrate
  tools with any flags, keys and entry files, with any file operation failing at any time, the directory is good
  again: the entries are numbered without gaps, every tile is right for them, and the checkpoint commits to
  a prefix of the entries whose tree the tiles hold.  The log only grows: the old entries keep their
  numbers, and a checkpoint that was published before still is the root of a prefix of the entries whose tree
  can be read.\<close>

theorem tools_keep_log:
  assumes "checkpoint_notes N" "compact_range (RF (HashChildren h)) (HashChildren h) rep" "nonempty_hashes h" "leaf_hashes_long h"
    "log_dir N h origin root m f" "(tool_step K N RF h origin root)\<^sup>*\<^sup>* f f'"
  shows "\<exists>m' \<ge> m. log_dir N h origin root m' f' \<and> (\<forall>j < m. dir_entries root f' j = dir_entries root f j) \<and>
    (\<forall>raw. ReadCheckpoint f root = Inr raw \<longrightarrow> commits N h origin root m' f' raw)"
proof -
  have "\<exists>m'. log_dir N h origin root m' f' \<and> extends h root m f m' f'"
    using assms(6)
  proof (induction rule: rtranclp_induct)
    case base
    show ?case using assms(5) extends_refl by blast
  next
    case (step g g')
    then show ?case using tool_step_log_dir [where RF = RF, OF assms(1-4)] extends_trans by metis
  qed
  then obtain m' where m': "log_dir N h origin root m' f'" "extends h root m f m' f'" by blast
  have "commits N h origin root m' f' raw" if "ReadCheckpoint f root = Inr raw" for raw
    using commits_keep [OF ReadCheckpoint_ent(2) [OF assms(5) that] m'(2)] .
  then show ?thesis using m' by (auto simp: extends_def agree_def)
qed

end
