(* ===== verification/ClientToolProofs.thy ===== *)
theory ClientToolProofs
  imports ClientTool LogDir
begin

section \<open>Properties of the command-line client\<close>

text \<open>
  Given the URL of a log directory, the client reads exactly the files of the directory, so it verifies every entry
  of a good log; and its cache of the last checkpoint only moves forward along verified proofs.
\<close>

subsection \<open>A log behind a file URL\<close>

text \<open>The paths that the client resolves against the URL of the log.\<close>

definition log_path :: "string \<Rightarrow> bool" where
  "log_path p \<longleftrightarrow> p = CheckpointPath \<or> (\<exists>x y ps. p = JoinPair (TilePath [] x y ps)) \<or> (\<exists>lh q. LeafPath [] lh = Inr q \<and> p = JoinPair q)"

text \<open>What the URL package promises for a file URL of a directory.\<close>

definition file_url :: "'u url_lib \<Rightarrow> 'u \<Rightarrow> string \<Rightarrow> bool" where
  "file_url U root dir \<longleftrightarrow> u_Scheme U root = ''file'' \<and> dir \<noteq> [] \<and>
     (\<forall>p. log_path p \<longrightarrow> (\<exists>u. u_Resolve U root p = Inr u \<and> u_Path U u = dir @ ''/'' @ p))"

lemma key_of_Clean: "key_of (Clean s) = key_of s"
  unfolding Clean_def by (simp add: key_of_path cleaned_clean_comps) (simp add: key_of_def)

lemma file_fetch:
  assumes "file_url U root dir" "newFetcher U c st f root = Inr fetch" "log_path p"
  shows "fetch p = dir_fetcher f dir p"
proof -
  obtain u where u: "u_Resolve U root p = Inr u" "u_Path U u = dir @ ''/'' @ p" using assms(1,3) by (auto simp: file_url_def)
  have "Join [dir, p] = Clean (dir @ ''/'' @ p)" using assms(1) by (simp add: Join_def file_url_def)
  then have "os_ReadFile f (Join [dir, p]) = os_ReadFile f (dir @ ''/'' @ p)" by (simp add: os_ReadFile_def key_of_Clean)
  then show ?thesis using assms(1,2) u by (auto simp: newFetcher_def getByScheme_def file_url_def dir_fetcher_def)
qed

lemma file_tiles:
  assumes "file_url U root dir" "newFetcher U c st f root = Inr fetch"
  shows "newTileFetcher fetch n = newTileFetcher (dir_fetcher f dir) n"
proof (intro ext)
  fix x y
  have "log_path (JoinPair (TilePath [] x y (PartialTileSize x y n)))" unfolding log_path_def by blast
  from file_fetch [OF assms this] show "newTileFetcher fetch n x y = newTileFetcher (dir_fetcher f dir) n x y"
    by (simp add: newTileFetcher_def Let_def)
qed

text \<open>The number of a leaf hash, once it was sequenced.\<close>

lemma dir_LookupIndex:
  assumes "tree f" "3 < length lh" "ent f (leaf_key root lh) = Some (File (format_uint 16 (unat q)))" "\<not> fault f OpRead (leaf_key root lh)"
  shows "LookupIndex (dir_fetcher f root) lh = Inr q"
proof -
  obtain p where p: "LeafPath [] lh = Inr p" "JoinPair p = path_of False (leaf_comps lh)"
    using LeafPath_comps [OF assms(2), of "[]"] by (auto simp: is_rooted_def has_prefix_def root_comps_def)
  have n: "\<forall>c \<in> set (leaf_comps lh). normal_comp c" "leaf_comps lh \<noteq> []" using normal_leaf_comps [OF assms(2)] by (auto simp: leaf_comps_def)
  have k: "key_of (Join [root, JoinPair p]) = leaf_key root lh"
    unfolding p(2) Join_relative [OF n(2,1)] leaf_key_def by (rule key_of_rk [OF n(1)])
  have "os_ReadFile f (Join [root, JoinPair p]) = Inr (format_uint 16 (unat q))"
    using follow_plain [OF assms(1,3)] assms(4) by (simp add: os_ReadFile_def k)
  moreover have "parse_uint (format_uint 16 (unat q)) 16 64 = Inr (unat q)"
    using unat_lt_u64 [of q] by (intro parse_uint_format) simp_all
  ultimately show ?thesis using p(1) by (simp add: LookupIndex_def dir_fetcher_def)
qed

subsection \<open>Every entry of the log is verified\<close>

lemma proof_builder_over_dir:
  assumes "\<And>g. compact_range (RF g) g (rep g)" "dir_ready h (unat (Size c)) m dir f" "fs_healthy dir f" "0 < unat (Size c)"
    "Hash c = tree_root h (leaf_fn h (dir_entries dir f)) (unat (Size c))"
    "newTileFetcher fetch (Size c) = newTileFetcher (dir_fetcher f dir) (Size c)"
  shows "\<exists>pb. NewProofBuilder RF c (HashChildren h) fetch = Inr pb \<and> builder_ok (HashChildren h) (leaf_fn h (dir_entries dir f)) pb \<and> cp pb = c"
proof -
  let ?lf = "leaf_fn h (dir_entries dir f)"
  have "tiles_hold (HashChildren h) ?lf (unat (Size c)) (newTileFetcher fetch (Size c))"
    using client_tiles_hold [OF assms(2)] assms(3) unfolding assms(6) by (simp add: dir_entries_def)
  moreover have "Hash c = root_of (HashChildren h) ?lf (unat (Size c))" using assms(4,5) by (simp add: tree_root_def root_of_def)
  ultimately show ?thesis using NewProofBuilder_cases [of RF "HashChildren h" "rep (HashChildren h)" ?lf c fetch] assms(1) by auto
qed

lemma Update_advanced:
  assumes "Update RF P lst = (Inr (oldRaw, p, newRaw), lst')"
  shows "\<exists>cn. ConsensusCheckpoint lst (CpSigVerifier lst) (lst_Origin lst) = Inr (LatestConsistent lst', LatestConsistentRaw lst', cn)"
    "0 < Size (LatestConsistent lst) \<and> Size (LatestConsistent lst) < Size (LatestConsistent lst') \<longrightarrow>
       VerifyConsistency P (Hasher lst) (Size (LatestConsistent lst)) (Size (LatestConsistent lst')) p
         (Hash (LatestConsistent lst)) (Hash (LatestConsistent lst')) = None"
  using assms by (auto simp: Update_def Let_def split: sum.splits prod.splits option.splits if_splits)

text \<open>The URL with a slash at its end, and the ID under which the checkpoint is cached.\<close>

definition slash_url :: "string \<Rightarrow> string" where
  "slash_url u = (if has_suffix u ''/'' then u else u @ ''/'')"

definition client_log_id :: "(string \<Rightarrow> bytes \<Rightarrow> string) \<Rightarrow> client_flags \<Rightarrow> bytes \<Rightarrow> string" where
  "client_log_id logid fl pk = (if cf_logID fl = [] then logid (cf_origin fl) pk else cf_logID fl)"

text \<open>The checkpoint that the client starts from: the cached one, which commits to entries of this log, or the published
  one if there is no cache or nothing is cached yet.\<close>

definition client_starts ::
    "('v, 's) note_lib \<Rightarrow> hasher \<Rightarrow> client_flags \<Rightarrow> string \<Rightarrow> nat \<Rightarrow> string \<Rightarrow> os \<Rightarrow> bytes \<Rightarrow> bool" where
  "client_starts N h fl dir m i f raw \<longleftrightarrow>
     (let cached = loadLocalCheckpoint (cf_cacheDir fl) i f; published = (ReadCheckpoint f dir = Inr raw) in
      if cf_cacheDir fl = [] then published
      else (case cached of
              Inl e \<Rightarrow> errors_Is e ErrNotExist \<and> published
            | Inr b \<Rightarrow> if b = [] then published else b = raw \<and> commits N h (cf_origin fl) dir m f raw))"

lemma client_starts_commits:
  assumes "log_dir N h (cf_origin fl) dir m f" "client_starts N h fl dir m i f raw"
  shows "commits N h (cf_origin fl) dir m f raw"
  using assms(2) ReadCheckpoint_ent(2) [OF assms(1)] by (auto simp: client_starts_def Let_def split: if_splits sum.splits)

text \<open>Setting up a client that takes the log's own checkpoint.\<close>

lemma setup_starts:
  assumes "client_starts N h fl dir m (client_log_id logid fl pk) f raw" "cf_witnessSigsRequired fl = 0"
    "witnessSigVerifiers K f (cf_witnessPubKeyFiles fl) = Inr ws" "distributors U hc st f (cf_distributorURLs fl) = Inr ds"
    "logSigVerifier K env f (cf_logPubKeyFile fl) = Inr (v, pk)" "cf_logURL fl \<noteq> []" "u_Parse U (slash_url (cf_logURL fl)) = Inr root"
    "newFetcher U hc st f root = Inr fetch" "fetch CheckpointPath = ReadCheckpoint f dir" "ParseCheckpoint N raw (cf_origin fl) v [] = Inr (c, n)"
  shows "\<exists>lc. client_setup K N U hc st RF P arrive logid h env fl f = Inr (client_log_id logid fl pk, lc) \<and>
    ct_Fetcher lc = fetch \<and> ct_Hasher lc = h \<and> LatestConsistent (ct_Tracker lc) = c \<and> LatestConsistentRaw (ct_Tracker lc) = raw"
proof -
  let ?cached = "\<lambda>b. 0 < length (cf_cacheDir fl) \<and> loadLocalCheckpoint (cf_cacheDir fl) (client_log_id logid fl pk) f = Inr b \<and> 0 < length b"
  obtain lc where lc: "newLogClientTool N RF P arrive h fl f (client_log_id logid fl pk) fetch v ws ds = Inr lc"
    "ct_Fetcher lc = fetch" "ct_Hasher lc = h" "LatestConsistent (ct_Tracker lc) = c" "LatestConsistentRaw (ct_Tracker lc) = raw"
  proof (cases "\<exists>b. ?cached b")
    case True
    then show ?thesis using assms(1,2,10) that by (auto simp: newLogClientTool_def NewLogStateTracker_def client_starts_def Let_def)
  next
    case False
    then have "ReadCheckpoint f dir = Inr raw" using assms(1) by (auto simp: client_starts_def Let_def split: if_splits sum.splits)
    then show ?thesis using False assms(1,2,9,10) that
      by (cases "cf_cacheDir fl = []"; cases "loadLocalCheckpoint (cf_cacheDir fl) (client_log_id logid fl pk) f")
        (auto simp: newLogClientTool_def NewLogStateTracker_def UnilateralConsensus_def FetchCheckpoint_def Update_def zero_checkpoint_def client_starts_def Let_def)
  qed
  then show ?thesis using assms(2-8) by (auto simp: client_setup_def Let_def client_log_id_def slash_url_def)
qed

text \<open>The checkpoint of a client is one that the log's key verifies.\<close>

lemma consensus_signed:
  assumes "(if n = 0 then Inr (UnilateralConsensus N fetch) else CheckpointNConsensus N arrive i ds ws n) = Inr cc" "permutes arrive"
    "cc v origin = Inr (c, raw, cn)"
  shows "\<exists>ws nt. ParseCheckpoint N raw origin v ws = Inr (c, nt)"
proof (cases "n = 0")
  case True
  then show ?thesis using assms(1,3) by (auto simp: UnilateralConsensus_def FetchCheckpoint_def split: sum.splits intro!: exI)
next
  case False
  let ?rs = "map (\<lambda>f. getCheckpointN N f i n v origin ws) ds"
  have "best_checkpoint n (arrive (map projr (filter is_ok ?rs))) None = Some (c, cn, raw)"
    using assms(1,3) False by (auto simp: CheckpointNConsensus_def Let_def split: if_splits option.splits)
  from best_checkpoint_from [OF this] have "(c, cn, raw) \<in> set (arrive (map projr (filter is_ok ?rs)))" by simp
  then have "(c, cn, raw) \<in> set (map projr (filter is_ok ?rs))" using assms(2) unfolding permutes_def by (metis set_mset_mset)
  then obtain g where "is_ok (getCheckpointN N g i n v origin ws)" "projr (getCheckpointN N g i n v origin ws) = (c, cn, raw)" by auto
  then have "getCheckpointN N g i n v origin ws = Inr (c, cn, raw)" by (cases "getCheckpointN N g i n v origin ws") simp_all
  then show ?thesis by (auto simp: getCheckpointN_def split: sum.splits prod.splits)
qed

lemma setup_signed:
  assumes "client_setup K N U hc st RF P arrive logid h env fl f = Inr (i, lc)" "permutes arrive"
  shows "ct_Hasher lc = h"
    "\<exists>v pk raw ws n. logSigVerifier K env f (cf_logPubKeyFile fl) = Inr (v, pk) \<and> ParseCheckpoint N raw (cf_origin fl) v ws = Inr (LatestConsistent (ct_Tracker lc), n)"
proof -
  obtain fetch v pk ws ds where t: "logSigVerifier K env f (cf_logPubKeyFile fl) = Inr (v, pk)" "newLogClientTool N RF P arrive h fl f i fetch v ws ds = Inr lc"
    using assms(1) by (auto simp: client_setup_def Let_def split: sum.splits if_splits)
  then obtain raw0 cc where cc: "(if cf_witnessSigsRequired fl = 0 then Inr (UnilateralConsensus N fetch)
               else CheckpointNConsensus N arrive i ds ws (cf_witnessSigsRequired fl)) = Inr cc"
      and tr: "NewLogStateTracker RF P N fetch h raw0 v (cf_origin fl) cc = (ct_Tracker lc, None)" and "ct_Hasher lc = h"
    by (auto simp: newLogClientTool_def split: sum.splits prod.splits option.splits)
  then show "ct_Hasher lc = h" by simp
  have "\<exists>raw ws n. ParseCheckpoint N raw (cf_origin fl) v ws = Inr (LatestConsistent (ct_Tracker lc), n)"
  proof (cases "0 < length raw0")
    case True
    then obtain a b where "ParseCheckpoint N raw0 (cf_origin fl) v [] = Inr (a, b)"
        "ct_Tracker lc = \<lparr>Hasher = h, lst_Fetcher = fetch, lst_Origin = cf_origin fl, ConsensusCheckpoint = cc,
         LatestConsistentRaw = raw0, LatestConsistent = a, CheckpointNote = None, CpSigVerifier = v\<rparr>"
      using tr by (auto simp: NewLogStateTracker_def Let_def split: sum.splits)
    then show ?thesis by (auto intro!: exI)
  next
    case False
    then obtain out lst where "Update RF P lst = (Inr out, ct_Tracker lc)" "ConsensusCheckpoint lst = cc" "CpSigVerifier lst = v" "lst_Origin lst = cf_origin fl"
      using tr by (auto simp: NewLogStateTracker_def Let_def split: sum.splits prod.splits)
    then show ?thesis using consensus_signed [OF cc assms(2)] by (cases out) (metis Update_advanced(1) prod.collapse)
  qed
  then show "\<exists>v pk raw ws n. logSigVerifier K env f (cf_logPubKeyFile fl) = Inr (v, pk) \<and> ParseCheckpoint N raw (cf_origin fl) v ws = Inr (LatestConsistent (ct_Tracker lc), n)"
    using t(1) by blast
qed

text \<open>A leaf hash that the arguments name, included in a checkpoint that the log's key verifies.\<close>

definition included ::
    "('v, 's) key_lib \<Rightarrow> ('v, 's) note_lib \<Rightarrow> 'n proof_lib \<Rightarrow> hasher \<Rightarrow> environ \<Rightarrow> client_flags \<Rightarrow> string list \<Rightarrow> os \<Rightarrow> bool" where
  "included K N P h env fl as f \<longleftrightarrow>
     (\<exists>v pk raw ws c n lh idx p. logSigVerifier K env f (cf_logPubKeyFile fl) = Inr (v, pk) \<and> ParseCheckpoint N raw (cf_origin fl) v ws = Inr (c, n) \<and>
        (if cf_inclusionHash fl then decode (as ! 0) = Inr lh else \<exists>entry. os_ReadFile f (as ! 0) = Inr entry \<and> lh = HashLeaf h entry) \<and>
        VerifyInclusion P h idx (Size c) lh p (Hash c) = None)"

lemma client_inclusion_sound:
  assumes "client_main K N U hc st RF P arrive logid h env fl (''inclusion'' # as) f = (None, f')" "permutes arrive"
  shows "included K N P h env fl as f"
proof -
  obtain i lc where lc: "client_setup K N U hc st RF P arrive logid h env fl f = Inr (i, lc)" using assms(1) by (auto simp: client_main_def split: sum.splits)
  note sg = setup_signed [OF lc assms(2)]
  obtain err f1 where ip: "inclusionProof RF P fl lc f as = (err, f1)" by fastforce
  have "err = None" using assms(1) lc ip by (cases err) (auto simp: client_main_def run_command_def)
  then obtain lh idx p where a: "inclusionProofArgs fl lc f as = Inr (lh, idx)"
      and "VerifyInclusion P h idx (Size (LatestConsistent (ct_Tracker lc))) lh p (Hash (LatestConsistent (ct_Tracker lc))) = None"
    using ip sg(1) by (auto simp: inclusionProof_def Let_def split: sum.splits option.splits)
  moreover have "if cf_inclusionHash fl then decode (as ! 0) = Inr lh else \<exists>entry. os_ReadFile f (as ! 0) = Inr entry \<and> lh = HashLeaf h entry"
    using a sg(1) by (auto simp: inclusionProofArgs_def split: if_splits sum.splits)
  ultimately show ?thesis using sg(2) unfolding included_def by blast
qed

text \<open>The end of a successful command.\<close>

definition persisted :: "client_flags \<Rightarrow> string \<Rightarrow> os \<Rightarrow> bytes \<Rightarrow> go_error option \<times> os" where
  "persisted fl i f raw =
     (if cf_cacheDir fl = [] then (None, f)
      else map_prod (map_option (errorf ''Failed to persist local log state'')) id (storeLocalCheckpoint (cf_cacheDir fl) i f raw))"

text \<open>C3: The \<open>inclusion\<close> command.  A client that requires no witness signatures is pointed at the file URL of a good log directory,
  with or without a cache directory (with a cached checkpoint of this log, or none yet), and is asked for the inclusion of a file whose content
  is an entry below the checkpoint it starts from, giving nothing but the file.  The index is found by the leaf hash, a
  proof is built from the tiles that verifies against the checkpoint, the proof is written to the output file, and nothing
  but persisting the checkpoint in the cache can fail.  Conversely, for any flags, arguments and files (witnesses and
  distributors included), exit status 0 means that a proof was verified that the leaf hash named by the arguments is
  included in a checkpoint which the log's key verifies.\<close>

theorem client_verifies_entry:
  assumes "\<And>g. compact_range (RF g) g (rep g)" "merkle_proofs P h" "permutes arrive"
    "log_dir N h (cf_origin fl) dir m f" "fs_healthy dir f" "client_starts N h fl dir m (client_log_id logid fl pk) f raw"
    "logSigVerifier K env f (cf_logPubKeyFile fl) = Inr (v, pk)" "ParseCheckpoint N raw (cf_origin fl) v [] = Inr (c, n)"
    "cf_witnessSigsRequired fl = 0" "witnessSigVerifiers K f (cf_witnessPubKeyFiles fl) = Inr ws" "distributors U hc st f (cf_distributorURLs fl) = Inr ds"
    "cf_logURL fl \<noteq> []" "u_Parse U (slash_url (cf_logURL fl)) = Inr root" "file_url U root dir" "\<not> cf_inclusionHash fl"
    "os_ReadFile f entryFile = Inr entry" "dir_entries dir f (unat q) = Some entry" "q < Size c" "3 < length (HashLeaf h entry)"
    "ent f (leaf_key dir (HashLeaf h entry)) = Some (File (format_uint 16 (unat q)))"
  shows "(\<exists>p. VerifyInclusion P h q (Size c) (HashLeaf h entry) p (Hash c) = None \<and>
      client_main K N U hc st RF P arrive logid h env fl [''inclusion'', entryFile] f =
        persisted fl (client_log_id logid fl pk) (write_output f (cf_outputInclusion fl) (merkleProof_Marshal p)) raw) \<and>
    (\<forall>fl' as f0 f1. client_main K N U hc st RF P arrive logid h env fl' (''inclusion'' # as) f0 = (None, f1) \<longrightarrow> included K N P h env fl' as f0)"
proof -
  let ?lf = "leaf_fn h (dir_entries dir f)"
  obtain fetch where fe: "newFetcher U hc st f root = Inr fetch" using assms(14) by (auto simp: newFetcher_def getByScheme_def file_url_def)
  note ff = file_fetch [OF assms(14) fe]
  have tr: "tree f" using fs_okD(2) log_dirD(4) [OF assms(4)] by blast
  have cpf: "fetch CheckpointPath = ReadCheckpoint f dir"
    using ff [of CheckpointPath] by (simp add: log_path_def dir_fetcher_def ReadCheckpoint_def)
  obtain lc where lc: "client_setup K N U hc st RF P arrive logid h env fl f = Inr (client_log_id logid fl pk, lc)" "ct_Fetcher lc = fetch" "ct_Hasher lc = h"
      "LatestConsistent (ct_Tracker lc) = c" "LatestConsistentRaw (ct_Tracker lc) = raw"
    using setup_starts [OF assms(6,9-11,7,12,13) fe cpf assms(8)] by blast
  have "LookupIndex fetch (HashLeaf h entry) = LookupIndex (dir_fetcher f dir) (HashLeaf h entry)"
  proof (cases "LeafPath [] (HashLeaf h entry)")
    case (Inr lp)
    then have "log_path (JoinPair lp)" unfolding log_path_def by blast
    then show ?thesis using ff by (simp add: LookupIndex_def Inr)
  qed (simp add: LookupIndex_def)
  also have "\<dots> = Inr q" using dir_LookupIndex [OF tr assms(19,20)] assms(5) unfolding fs_healthy_def by blast
  finally have args: "inclusionProofArgs fl lc f [entryFile] = Inr (HashLeaf h entry, q)"
    using lc(2,3) assms(15,16) by (simp add: inclusionProofArgs_def)
  note com = commitsD [OF client_starts_commits [OF assms(4,6)] assms(8)]
  have pos: "0 < unat (Size c)" using assms(18) by (simp add: word_less_nat_alt)
  obtain pb where pb: "NewProofBuilder RF c (HashChildren h) fetch = Inr pb" "builder_ok (HashChildren h) ?lf pb" "cp pb = c"
    using proof_builder_over_dir [OF assms(1) com(1) assms(5) pos com(2) file_tiles [OF assms(14) fe]] by blast
  obtain p pb' where p: "InclusionProof P pb q = (Inr p, pb')"
      "VerifyInclusion P h q (Size c) (?lf (unat q)) p (mth (HashChildren h) ?lf 0 (unat (Size c))) = None"
    using merkle_proofs.InclusionProof_verifies [OF assms(2) pb(2), of q] assms(18) pb(3) by auto
  have "?lf (unat q) = HashLeaf h entry" "Hash c = mth (HashChildren h) ?lf 0 (unat (Size c))"
    using assms(17) com(2) pos by (simp_all add: leaf_fn_def tree_root_def)
  then have v: "VerifyInclusion P h q (Size c) (HashLeaf h entry) p (Hash c) = None" using p(2) by simp
  then have "inclusionProof RF P fl lc f [entryFile] = (None, write_output f (cf_outputInclusion fl) (merkleProof_Marshal p))"
    using args pb(1) p(1) lc(2-4) by (simp add: inclusionProof_def Let_def)
  then have "client_main K N U hc st RF P arrive logid h env fl [''inclusion'', entryFile] f =
      persisted fl (client_log_id logid fl pk) (write_output f (cf_outputInclusion fl) (merkleProof_Marshal p)) raw"
    using lc(1,5) by (auto simp: client_main_def run_command_def persisted_def split: prod.splits option.splits)
  then show ?thesis using v client_inclusion_sound [of K N U hc st RF P arrive logid h env, OF _ assms(3)] by (intro conjI allI impI exI [of _ p])
qed

subsection \<open>The cache\<close>

definition cache_key :: "string \<Rightarrow> string \<Rightarrow> fkey" where
  "cache_key d i = rk d [i, ''checkpoint'']"

lemma cache_paths:
  assumes "normal_comp i"
  shows "key_of (Join [d, i]) = rk d [i]" "key_of (Join [d, i, ''checkpoint'']) = cache_key d i"
    "key_of (Join [Join [d, i], ''checkpoint'']) = cache_key d i"
    "key_of (Join [Join [d, i], ''checkpoint''] @ ''.tmp'') = rk d [i, ''checkpoint.tmp'']"
proof -
  have n: "normal_comp ''checkpoint''" "normal_comp ''checkpoint.tmp''" by (simp_all add: normal_comp_def)
  have j: "Join [d, i] = path_of (is_rooted d) (root_comps d @ [i])" using assms by (simp add: Join_root)
  have c: "cleaned (is_rooted d) (root_comps d @ [i])" using assms by (intro cleaned_append_normal) simp_all
  have jc: "Join [Join [d, i], ''checkpoint''] = path_of (is_rooted d) (root_comps d @ [i, ''checkpoint''])"
    unfolding j Join_path_of [OF c n(1)] by simp
  show "key_of (Join [d, i]) = rk d [i]" unfolding j by (rule key_of_rk) (simp add: assms)
  show "key_of (Join [d, i, ''checkpoint'']) = cache_key d i"
    using key_of_rk [of "[i, ''checkpoint'']" d] assms n(1) by (simp add: Join_root cache_key_def)
  show "key_of (Join [Join [d, i], ''checkpoint'']) = cache_key d i"
    unfolding jc using key_of_rk [of "[i, ''checkpoint'']" d] assms n(1) by (simp add: cache_key_def)
  have "path_of (is_rooted d) (root_comps d @ [i, ''checkpoint'']) @ ''.tmp'' = path_of (is_rooted d) (root_comps d @ [i, ''checkpoint.tmp''])"
    using path_of_snoc [of "''checkpoint''" "is_rooted d" "root_comps d @ [i]" "''.tmp''"] by simp
  then show "key_of (Join [Join [d, i], ''checkpoint''] @ ''.tmp'') = rk d [i, ''checkpoint.tmp'']"
    unfolding jc using key_of_rk [of "[i, ''checkpoint.tmp'']" d] assms n(2) by simp
qed

text \<open>What is stored in the cache is loaded by the next run.\<close>

lemma store_then_load:
  assumes "tree f" "normal_comp i" "\<forall>t. ent f (rk d [i, ''checkpoint.tmp'']) \<noteq> Some (Symlink t)" "\<not> fault f OpRead (cache_key d i)"
    "storeLocalCheckpoint d i f raw = (None, f')"
  shows "loadLocalCheckpoint d i f' = Inr raw"
proof -
  note k = cache_paths [OF assms(2), of d]
  let ?p = "Join [Join [d, i], ''checkpoint'']" and ?tk = "rk d [i, ''checkpoint.tmp'']"
  have ne: "?tk \<noteq> cache_key d i" "snd ?tk \<noteq> []" "snd (cache_key d i) \<noteq> []" by (simp_all add: cache_key_def rk_def)
  obtain e1 f1 where mk: "os_MkdirAll f (Join [d, i]) = (e1, f1)" by fastforce
  obtain e2 f2 where w: "os_WriteFile f1 (?p @ ''.tmp'') raw = (e2, f2)" by fastforce
  have run: "e1 = None" "e2 = None" "os_Rename f2 (?p @ ''.tmp'') ?p = (None, f')"
    using assms(5) mk w by (auto simp: storeLocalCheckpoint_def Let_def split: option.splits)
  note m = MkdirAll_sound [OF assms(1) mk]
  have "ent f1 ?tk \<noteq> Some (Symlink t)" for t using m(3) [of ?tk] assms(3) by auto
  then have f2: "f2 = put ?tk (File raw) f1" "ent f1 ?tk \<noteq> Some Dir" "dirs_ok f1 ?tk"
    using WriteFile_plain [of f1 "?p @ ''.tmp''" raw e2 f2] w run(2) k(4) by auto
  have c: "cleaned (fst (key_of p)) (snd (key_of p))" for p by simp
  have t2: "tree f2" unfolding f2(1) using tree_put [OF m(1) f2(2) _ f2(3)] c [of "?p @ ''.tmp''"] unfolding k(4) by blast
  have e2: "ent f2 ?tk = Some (File raw)" using f2(1) ne(2) by simp
  from Rename_cases [OF run(3), unfolded k(3,4)] ne(1) e2
  have r: "ent f2 (cache_key d i) \<noteq> Some Dir" "dirs_ok f2 (cache_key d i)" "f' = put (cache_key d i) (File raw) (del ?tk f2)" by auto
  have "tree (del ?tk f2)" using tree_del [OF t2, of ?tk] e2 by simp
  moreover have "dirs_ok (del ?tk f2) (cache_key d i)" using dirs_ok_file(2) [OF r(2), of ?tk] e2 by simp
  moreover have "ent (del ?tk f2) (cache_key d i) \<noteq> Some Dir" using r(1) by simp
  ultimately have t': "tree f'" unfolding r(3) using tree_put c [of ?p] unfolding k(3) by blast
  have "ent f' (cache_key d i) = Some (File raw)" using r(3) ne(3) by simp
  moreover have "fault f' = fault f" using m(2) by (simp add: r(3) f2(1))
  ultimately show ?thesis using follow_plain [OF t'] assms(4) by (simp add: loadLocalCheckpoint_def os_ReadFile_def k(2))
qed

text \<open>The tracker of a client with a cached checkpoint starts at that checkpoint.\<close>

lemma setup_cached:
  assumes "client_setup K N U hc st RF P arrive logid h env fl f = Inr (i, lc)" "0 < length (cf_cacheDir fl)"
    "loadLocalCheckpoint (cf_cacheDir fl) i f = Inr raw" "raw \<noteq> []"
  shows "LatestConsistentRaw (ct_Tracker lc) = raw" "Hasher (ct_Tracker lc) = h" "lst_Origin (ct_Tracker lc) = cf_origin fl"
    "\<exists>n. ParseCheckpoint N raw (cf_origin fl) (CpSigVerifier (ct_Tracker lc)) [] = Inr (LatestConsistent (ct_Tracker lc), n)"
proof -
  obtain fetch v ws ds where t: "newLogClientTool N RF P arrive h fl f i fetch v ws ds = Inr lc"
    using assms(1) by (auto simp: client_setup_def Let_def split: sum.splits if_splits)
  define cons where "cons = (if cf_witnessSigsRequired fl = 0 then Inr (UnilateralConsensus N fetch)
               else CheckpointNConsensus N arrive i ds ws (cf_witnessSigsRequired fl))"
  note run = t [unfolded newLogClientTool_def, folded cons_def]
  obtain cc where cc: "cons = Inr cc" using run assms(2,3) by (cases cons) auto
  have tr: "NewLogStateTracker RF P N fetch h raw v (cf_origin fl) cc = (ct_Tracker lc, None)"
    using run assms(2,3) cc by (auto split: prod.splits option.splits)
  then obtain a b where ab: "ParseCheckpoint N raw (cf_origin fl) v [] = Inr (a, b)"
      "ct_Tracker lc = \<lparr>Hasher = h, lst_Fetcher = fetch, lst_Origin = cf_origin fl, ConsensusCheckpoint = cc,
         LatestConsistentRaw = raw, LatestConsistent = a, CheckpointNote = None, CpSigVerifier = v\<rparr>"
    using assms(4) by (auto simp: NewLogStateTracker_def Let_def split: sum.splits)
  then show "LatestConsistentRaw (ct_Tracker lc) = raw" "Hasher (ct_Tracker lc) = h" "lst_Origin (ct_Tracker lc) = cf_origin fl"
    "\<exists>n. ParseCheckpoint N raw (cf_origin fl) (CpSigVerifier (ct_Tracker lc)) [] = Inr (LatestConsistent (ct_Tracker lc), n)"
    by simp_all
qed

lemma run_command_tracker:
  assumes "run_command RF P fl lc f args = (None, lc', f1)" "cf_outputCheckpoint fl = []" "cf_outputConsistency fl = []" "cf_outputInclusion fl = []"
  shows "f1 = f" "lc' = lc \<or> (\<exists>out. Update RF P (ct_Tracker lc) = (Inr out, ct_Tracker lc'))"
proof -
  have w: "write_output g [] b = g" for g b by (simp add: write_output_def)
  have i: "snd (inclusionProof RF P fl lc f as) = f" for as
    using assms(4) w by (simp add: inclusionProof_def Let_def split: sum.splits option.splits prod.splits)
  have c: "snd (consistencyProof RF P fl lc f as) = f" for as
    using assms(3) by (simp add: consistencyProof_def split: sum.splits)
  have u: "f2 = f \<and> (l2 = lc \<or> (\<exists>out. Update RF P (ct_Tracker lc) = (Inr out, ct_Tracker l2)))"
    if "updateCheckpoint RF P fl lc f as = (None, l2, f2)" for as l2 f2
    using that assms(2,3) w by (auto simp: updateCheckpoint_def Let_def split: if_splits prod.splits sum.splits)
  have "f1 = f \<and> (lc' = lc \<or> (\<exists>out. Update RF P (ct_Tracker lc) = (Inr out, ct_Tracker lc')))"
    using assms(1) i [of "drop 1 args"] c [of "drop 1 args"] u [of "drop 1 args"]
    by (auto simp: run_command_def split: if_splits prod.splits)
  then show "f1 = f" "lc' = lc \<or> (\<exists>out. Update RF P (ct_Tracker lc) = (Inr out, ct_Tracker lc'))" by blast+
qed

text \<open>C14: The checkpoint that the client keeps between runs.  A run that exits with status 0 leaves in the cache, for
  the next run to load, the checkpoint it started from or one that the consensus gave it; and if that is larger
  than a non-empty one it started from, a consistency proof between the two has been verified.\<close>

theorem client_cache_moves_forward:
  assumes "client_main K N U hc st RF P arrive logid h env fl args f = (None, f')" "cf_logID fl = i" "normal_comp i"
    "0 < length (cf_cacheDir fl)" "loadLocalCheckpoint (cf_cacheDir fl) i f = Inr oldRaw" "oldRaw \<noteq> []"
    "cf_outputCheckpoint fl = []" "cf_outputConsistency fl = []" "cf_outputInclusion fl = []"
    "tree f" "\<forall>t. ent f (rk (cf_cacheDir fl) [i, ''checkpoint.tmp'']) \<noteq> Some (Symlink t)" "\<not> fault f OpRead (cache_key (cf_cacheDir fl) i)"
  shows "\<exists>lc newRaw. client_setup K N U hc st RF P arrive logid h env fl f = Inr (i, lc) \<and>
    (\<exists>n. ParseCheckpoint N oldRaw (cf_origin fl) (CpSigVerifier (ct_Tracker lc)) [] = Inr (LatestConsistent (ct_Tracker lc), n)) \<and>
    loadLocalCheckpoint (cf_cacheDir fl) i f' = Inr newRaw \<and>
    (newRaw = oldRaw \<or> (\<exists>c' cn. ConsensusCheckpoint (ct_Tracker lc) (CpSigVerifier (ct_Tracker lc)) (cf_origin fl) = Inr (c', newRaw, cn) \<and>
       (0 < Size (LatestConsistent (ct_Tracker lc)) \<and> Size (LatestConsistent (ct_Tracker lc)) < Size c' \<longrightarrow>
         (\<exists>p. VerifyConsistency P h (Size (LatestConsistent (ct_Tracker lc))) (Size c') p (Hash (LatestConsistent (ct_Tracker lc))) (Hash c') = None))))"
proof -
  obtain j lc where j: "client_setup K N U hc st RF P arrive logid h env fl f = Inr (j, lc)"
    using assms(1) by (auto simp: client_main_def split: sum.splits)
  have "j = i" using j assms(2,3) by (auto simp: client_setup_def Let_def normal_comp_def split: sum.splits if_splits)
  note set = setup_cached [OF j [unfolded \<open>j = i\<close>] assms(4-6)]
  obtain err lc' f1 where r: "run_command RF P fl lc f args = (err, lc', f1)" by (metis prod_cases3)
  have err: "err = None" using assms(1) j r by (cases err) (auto simp: client_main_def)
  note t = run_command_tracker [OF r [unfolded err] assms(7-9)]
  let ?t = "ct_Tracker lc" and ?t' = "ct_Tracker lc'"
  have "storeLocalCheckpoint (cf_cacheDir fl) i f (LatestConsistentRaw ?t') = (None, f')"
    using assms(1,4) j r err t(1) \<open>j = i\<close> by (auto simp: client_main_def split: prod.splits option.splits if_splits)
  from store_then_load [OF assms(10,3,11,12) this] have load: "loadLocalCheckpoint (cf_cacheDir fl) i f' = Inr (LatestConsistentRaw ?t')" .
  have "LatestConsistentRaw ?t' = oldRaw \<or> (\<exists>c' cn. ConsensusCheckpoint ?t (CpSigVerifier ?t) (cf_origin fl) = Inr (c', LatestConsistentRaw ?t', cn) \<and>
       (0 < Size (LatestConsistent ?t) \<and> Size (LatestConsistent ?t) < Size c' \<longrightarrow>
         (\<exists>p. VerifyConsistency P h (Size (LatestConsistent ?t)) (Size c') p (Hash (LatestConsistent ?t)) (Hash c') = None)))"
    using t(2)
  proof
    assume "\<exists>out. Update RF P ?t = (Inr out, ?t')"
    then obtain o1 p o2 where "Update RF P ?t = (Inr (o1, p, o2), ?t')" by (metis prod_cases3)
    then show ?thesis using Update_advanced [of RF P ?t o1 p o2 ?t'] set(2,3) by auto
  qed (simp add: set(1))
  then show ?thesis using j \<open>j = i\<close> set(4) load by blast
qed

end
