(* ===== verification/ToolExamples.thy ===== *)
theory ToolExamples
  imports LogDir StorageExamples
begin

section \<open>The tools at concrete inputs\<close>

text \<open>The directory of \<open>Examples\<close> with a checkpoint of the empty tree, and a note library whose notes are
  their text and whose only readable checkpoint is that one.\<close>

definition tool_notes :: "(unit, unit) note_lib" where
  "tool_notes = \<lparr>note_Open = (\<lambda>raw vs. OpenFailed ErrIO), note_Sign = (\<lambda>n _. Inr (NoteText n)), KeyHash = (\<lambda>_. 0),
     ParseCheckpoint = (\<lambda>raw _ _ _. if raw = [] then Inr (zero_checkpoint, empty_note) else Inl ErrIO),
     MarshalCheckpoint = Hash\<rparr>"

definition tool_keys :: "(unit, unit) key_lib" where
  "tool_keys = \<lparr>key_NewVerifier = (\<lambda>_. Inr ()), key_NewSigner = (\<lambda>_. Inr ())\<rparr>"

definition tool_flags :: integrate_flags where
  "tool_flags = \<lparr>if_storageDir = ''/l'', if_initialise = False, if_pubKeyFile = [], if_privKeyFile = [], if_origin = ''o''\<rparr>"

definition tool_fs :: os where
  "tool_fs = put (cp_key ''/l'') (File []) demo_fs"

lemma demo_fs_ok: "fs_ok ''/l'' demo_fs"
  using demo_ok by (simp add: fs_inv_def demo_st_def)

lemma tool_quiet: "quiet ''/l'' demo_fs tool_fs"
  unfolding tool_fs_def
proof (rule quiet_put [OF demo_tree])
  show "cleaned (fst (cp_key ''/l'')) (snd (cp_key ''/l''))" using key_of_cleaned [of "Join [''/l'', CheckpointPath]"]
    unfolding key_of_checkpoint .
  show "ent demo_fs (cp_key ''/l'') \<noteq> Some Dir" by (simp add: cp_key_def demo_rk ent_def demo_fs_def CheckpointPath_def)
  show "dirs_ok demo_fs (cp_key ''/l'')"
    by (auto simp: dirs_ok_def cp_key_def demo_rk ent_def demo_fs_def less_Suc_eq)
  show "cp_key ''/l'' \<noteq> rk ''/l'' cs" if "length cs = 6" for cs using that by (auto simp: cp_key_def demo_rk)
qed

lemma tool_ready: "log_ready fs_inv fs_view fs_entries demo_hasher 0 1 (dir_state ''/l'' tool_fs)"
  using log_ready_quiet [OF tool_quiet] demo_ready by (simp add: demo_st_def)

theorem integrate_main_publishes_witness:
  "let f' = snd (integrate_main tool_keys tool_notes ref_compact id demo_hasher (\<lambda>_. ''k'') tool_flags tool_fs) in
    ReadCheckpoint tool_fs ''/l'' = Inr [] \<and> log_ready fs_inv fs_view fs_entries demo_hasher 0 1 (dir_state ''/l'' f')"
proof -
  have rd: "ReadCheckpoint tool_fs ''/l'' = Inr []"
    using ReadCheckpoint_written [of tool_fs "''/l''"] tool_quiet by (simp add: quiet_def tool_fs_def demo_fs_def cp_key_def rk_def)
  have "Size c = 0" if "ParseCheckpoint tool_notes [] og v vs = Inr (c, n)" for og v vs c n
    using that by (auto simp: tool_notes_def zero_checkpoint_def)
  then have "\<forall>raw pubKey v c n. ReadCheckpoint tool_fs (if_storageDir tool_flags) = Inr raw \<and> key_NewVerifier tool_keys pubKey = Inr v \<and>
       ParseCheckpoint tool_notes raw (if_origin tool_flags) v [] = Inr (c, n) \<longrightarrow>
       log_ready fs_inv fs_view fs_entries demo_hasher (unat (Size c)) 1 (dir_state (if_storageDir tool_flags) tool_fs)"
    using rd tool_ready by (fastforce simp: tool_flags_def)
  from integrate_main_publishes [where RF = ref_compact and rep = "ref_rep (HashChildren demo_hasher)" and iter = id
      and env = "\<lambda>_. ''k''", OF ref.compact_range_axioms permutes_id(1) demo_nonempty _ _ this prod.collapse [symmetric]]
  have "log_ready fs_inv fs_view fs_entries demo_hasher 0 1
      (dir_state ''/l'' (snd (integrate_main tool_keys tool_notes ref_compact id demo_hasher (\<lambda>_. ''k'') tool_flags tool_fs)))"
    using tool_ready log_readyD(1) [OF tool_ready] by (auto simp: tool_flags_def fs_inv_def)
  then show ?thesis using rd by (simp add: Let_def)
qed

theorem Sequence_fs_assigns_witness:
  "\<exists>q err st' f'. Sequence demo_st demo_fs ''hash'' ''y'' = Some ((q, err), st', f') \<and>
     (err = None \<longrightarrow> Sequence st' f' ''hash'' ''z'' = Some ((q, Some ErrDupeLeaf), st', f'))"
proof -
  have "fs_entries (demo_st, demo_fs) 1 = None" by (simp add: fs_entries_def demo_st_def fs_entry_def demo_keys)
  moreover have "ent demo_fs (leaf_key ''/l'' ''hash'') = None"
    by (simp add: leaf_key_def leaf_comps_def demo_rk ent_def demo_fs_def)
  ultimately show ?thesis
    using Sequence_fs_assigns [OF demo_ok, of "''hash''" 1 "''y''" "''z''"] by (auto simp: demo_st_def demo_fs_def)
qed

subsection \<open>A life of a log directory\<close>

text \<open>Notes of two lines, the size and the hash.\<close>

definition line_notes :: "(unit, unit) note_lib" where
  "line_notes = \<lparr>note_Open = (\<lambda>raw vs. OpenFailed ErrIO), note_Sign = (\<lambda>n _. Inr (NoteText n)), KeyHash = (\<lambda>_. 0),
     ParseCheckpoint = (\<lambda>raw origin _ _. case parse_uint (takeWhile (\<lambda>c. c \<noteq> newline) raw) 10 64 of
         Inl e \<Rightarrow> Inl e
       | Inr n \<Rightarrow> Inr (\<lparr>Origin = origin, Size = of_nat n, Hash = drop 1 (dropWhile (\<lambda>c. c \<noteq> newline) raw)\<rparr>, empty_note)),
     MarshalCheckpoint = (\<lambda>c. format_uint 10 (unat (Size c)) @ newline # Hash c)\<rparr>"

lemma line_parse: "ParseCheckpoint line_notes (MarshalCheckpoint line_notes c) (Origin c) v [] = Inr (c, empty_note)"
proof -
  let ?raw = "format_uint 10 (unat (Size c)) @ newline # Hash c"
  have nl: "\<forall>x \<in> set (format_uint 10 (unat (Size c))). x \<noteq> newline" using format_uint_no_newline [of "unat (Size c)"] by auto
  then have "takeWhile (\<lambda>c. c \<noteq> newline) ?raw = format_uint 10 (unat (Size c))" "dropWhile (\<lambda>c. c \<noteq> newline) ?raw = newline # Hash c"
    by (simp_all add: takeWhile_append2 dropWhile_append2)
  moreover have "parse_uint (format_uint 10 (unat (Size c))) 10 64 = Inr (unat (Size c))"
    using unat_lt_u64 [of "Size c"] by (intro parse_uint_format) simp_all
  ultimately show ?thesis by (simp add: line_notes_def)
qed

interpretation linen: checkpoint_notes line_notes
proof
  fix c :: Checkpoint and s raw v c' n
  assume "note_Sign line_notes (empty_note\<lparr>NoteText := MarshalCheckpoint line_notes c\<rparr>) [s] = Inr raw"
    and p: "ParseCheckpoint line_notes raw (Origin c) v [] = Inr (c', n)"
  then have "raw = MarshalCheckpoint line_notes c" by (simp add: line_notes_def)
  then show "c' = c" using p line_parse by simp
qed

definition long_hasher :: hasher where
  "long_hasher = \<lparr>HashLeaf = (\<lambda>e. ''leaf'' @ e), HashChildren = (\<lambda>a b. ''N'' @ a @ b), EmptyRoot = ''E''\<rparr>"

definition empty_fs :: os where
  "empty_fs = \<lparr>ents = [], fault = (\<lambda>_ _. False)\<rparr>"

lemma empty_fs_ent: "snd k \<noteq> [] \<Longrightarrow> ent empty_fs k = None"
  by (simp add: ent_def empty_fs_def)

lemma empty_log_dir: "log_dir N h origin ''/l'' 0 empty_fs"
proof -
  have keys: "ent empty_fs (seq_key ''/l'' q) = None" "ent empty_fs (full_key ''/l'' x y) = None" "ent empty_fs (sfx_key ''/l'' x y s) = None"
    "ent empty_fs (cp_key ''/l'') = None" for q x y s
    by (simp_all add: empty_fs_ent seq_key_def full_key_def sfx_key_def cp_key_def rk_def seq_comps_def)
  have "tree empty_fs" unfolding tree_def
  proof (intro allI impI)
    fix k assume "ent empty_fs k \<noteq> None"
    then have "snd k = []" using empty_fs_ent [of k] by (cases "snd k = []") simp_all
    then show "cleaned (fst k) (snd k) \<and> dirs_ok empty_fs k" by (simp add: cleaned_def dirs_ok_def)
  qed
  then have ok: "fs_inv (dir_state ''/l'' empty_fs)" by (simp add: fs_inv_def fs_ok_def keys is_rooted_def has_prefix_def)
  have e: "fs_entries (dir_state ''/l'' empty_fs) = (\<lambda>_. None)" by (simp add: fun_eq_iff fs_entries_def fs_entry_def keys)
  have "fs_view (dir_state ''/l'' empty_fs) = (\<lambda>x y ps. None)" by (simp add: fun_eq_iff fs_view_def fs_tv_def tile_key_def keys)
  moreover have "log_length (fs_entries (dir_state ''/l'' empty_fs)) 0" by (simp add: e log_length_def)
  ultimately have "dir_ready h 0 0 ''/l'' empty_fs" by (intro empty_log_ready ok)
  then show ?thesis by (simp add: log_dir_def dir_entries_def e keys)
qed

text \<open>A log is initialised, with every later file operation failing, and integrated once more.\<close>

theorem tools_keep_log_witness:
  "let f1 = snd (integrate_main tool_keys line_notes ref_compact id long_hasher (\<lambda>_. ''k'') (tool_flags\<lparr>if_initialise := True\<rparr>) empty_fs);
       f2 = f1\<lparr>fault := (\<lambda>_ _. True)\<rparr>;
       f3 = snd (integrate_main tool_keys line_notes ref_compact id long_hasher (\<lambda>_. ''k'') tool_flags f2)
   in \<exists>m. log_dir line_notes long_hasher ''o'' ''/l'' m f3"
proof -
  define f1 where "f1 = snd (integrate_main tool_keys line_notes ref_compact id long_hasher (\<lambda>_. ''k'') (tool_flags\<lparr>if_initialise := True\<rparr>) empty_fs)"
  define f2 where "f2 = f1\<lparr>fault := (\<lambda>_ _. True)\<rparr>"
  define f3 where "f3 = snd (integrate_main tool_keys line_notes ref_compact id long_hasher (\<lambda>_. ''k'') tool_flags f2)"
  let ?step = "tool_step tool_keys line_notes ref_compact long_hasher ''o'' ''/l''"
  have "?step empty_fs f1"
    using step_integrate [of "tool_flags\<lparr>if_initialise := True\<rparr>" "''/l''" "''o''" id tool_keys line_notes ref_compact long_hasher "\<lambda>_. ''k''" empty_fs]
    by (simp add: f1_def tool_flags_def prod_eq_iff)
  moreover have "?step f1 f2" unfolding f2_def by (rule step_fault)
  moreover have "?step f2 f3"
    using step_integrate [of tool_flags "''/l''" "''o''" id tool_keys line_notes ref_compact long_hasher "\<lambda>_. ''k''" f2]
    by (simp add: f3_def tool_flags_def prod_eq_iff)
  ultimately have "?step\<^sup>*\<^sup>* empty_fs f3" by (meson rtranclp.rtrancl_refl rtranclp.rtrancl_into_rtrancl)
  from tools_keep_log [where RF = ref_compact, OF linen.checkpoint_notes_axioms ref.compact_range_axioms _ _ empty_log_dir this]
  have "\<exists>m. log_dir line_notes long_hasher ''o'' ''/l'' m f3"
    by (auto simp: nonempty_hashes_def leaf_hashes_long_def long_hasher_def)
  then show ?thesis unfolding f3_def f2_def f1_def Let_def .
qed

end
