(* ===== verification/ClientExamples.thy ===== *)
theory ClientExamples
  imports ClientToolProofs ToolExamples
begin

section \<open>The client tool at concrete inputs\<close>

subsection \<open>A log of one entry\<close>

text \<open>The entry's sequenced file and leaf file, the tile that integration writes and the checkpoint.\<close>

lemma long_nonempty: "nonempty_hashes long_hasher"
  by (simp add: nonempty_hashes_def long_hasher_def)

lemma healthy_quiet:
  assumes "fs_healthy root f" "quiet root f g" "\<forall>k \<in> layout_dirs root. ent g k = ent f k \<or> ent g k = Some Dir"
  shows "fs_healthy root g"
  using assms quiet_ent [OF assms(2)] unfolding fs_healthy_def quiet_def by metis

lemma aside_layout:
  assumes "cs \<noteq> []" "hd cs \<notin> {''seq'', ''tile''}" "\<forall>c \<in> set cs. normal_comp c"
  shows "rk root cs \<notin> layout_dirs root"
proof -
  let ?p = "path_of (is_rooted root) (root_comps root @ cs)"
  have k: "key_of ?p = rk root cs" using key_of_rk [OF assms(3)] .
  then have "aside root ?p" unfolding aside_def using assms(1,2) by blast
  then have "rk root cs \<notin> set (prefixes_of (rk root ds))" if "hd ds \<in> {''seq'', ''tile''}" for ds
    using aside_not_prefix that k by metis
  then show ?thesis by (auto simp: layout_dirs_def tile_dir_def seq_comps_def)
qed

lemma healthy_put_aside:
  assumes "fs_healthy root f" "quiet root f (put (rk root cs) n f)" "cs \<noteq> []" "hd cs \<notin> {''seq'', ''tile''}" "\<forall>c \<in> set cs. normal_comp c"
  shows "fs_healthy root (put (rk root cs) n f)"
proof (rule healthy_quiet [OF assms(1,2)], intro ballI disjI1)
  fix k assume "k \<in> layout_dirs root"
  then have "k \<noteq> rk root cs" using aside_layout [OF assms(3-5), of root] by auto
  then show "ent (put (rk root cs) n f) k = ent f k" by simp
qed

abbreviation x_leaf :: string where
  "x_leaf \<equiv> ''leafx''"

lemma x_leaf_normal: "\<forall>c \<in> set (leaf_comps x_leaf). normal_comp c"
  using normal_leaf_comps [of x_leaf] by simp

text \<open>The sequenced entry with its leaf file, before integration.\<close>

lemma leaf_dir:
  obtains f where "quiet ''/l'' demo_fs f" "fs_healthy ''/l'' f" "ent f (cp_key ''/l'') = None"
    "ent f (leaf_key ''/l'' x_leaf) = Some (File (format_uint 16 0))"
proof -
  obtain d b where db: "key_of d = rk ''/l'' (butlast (leaf_comps x_leaf))"
    using leaf_path_keys [of x_leaf "''/l''"] by force
  obtain e g where mk: "os_MkdirAll demo_fs d = (e, g)" by fastforce
  have len: "length (butlast (leaf_comps x_leaf)) = 4" by (simp add: leaf_comps_def)
  have sh: "ent demo_fs k = None \<or> ent demo_fs k = Some Dir" if "k \<in> set (prefixes_of (key_of d))" for k
    using that len by (intro demo_ent_short) (auto simp: db prefixes_of_def demo_rk)
  have "e = None" using mkdirs_live [OF sh _ mk [unfolded os_MkdirAll_def]] by (simp add: demo_fs_def)
  note q = mkdir_quiet [OF demo_tree db _ mk, unfolded len] and m = mkdirs_ent [OF mk [unfolded os_MkdirAll_def]]
  have lk: "leaf_key ''/l'' x_leaf = rk ''/l'' (butlast (leaf_comps x_leaf) @ [last (leaf_comps x_leaf)])"
    by (simp add: leaf_key_def leaf_comps_def)
  let ?k = "leaf_key ''/l'' x_leaf" and ?n = "File (format_uint 16 0)"
  have tr: "tree g" using q(1) by (simp add: quiet_def)
  have "fs_healthy ''/l'' demo_fs" using demo_healthy by (simp add: demo_st_def)
  moreover have "\<forall>k \<in> layout_dirs ''/l''. ent g k = ent demo_fs k \<or> ent g k = Some Dir" using m by blast
  ultimately have hg: "fs_healthy ''/l'' g" using healthy_quiet q(1) by simp
  have "quiet ''/l'' g (put ?k ?n g)"
  proof (rule quiet_put [OF tr])
    have "ent demo_fs ?k = None" by (simp add: leaf_key_def leaf_comps_def demo_rk ent_def demo_fs_def)
    moreover have "?k \<notin> set (prefixes_of (key_of d))" using prefix_keys [of ?k "''/l''" "butlast (leaf_comps x_leaf)" "leaf_comps x_leaf"]
      by (auto simp: db leaf_key_def leaf_comps_def)
    ultimately show "ent g ?k \<noteq> Some Dir" using m by (metis option.distinct(1))
    show "cleaned (fst ?k) (snd ?k)" using cleaned_append_normal x_leaf_normal by (simp add: leaf_key_def rk_def)
    show "dirs_ok g ?k" unfolding lk using q(2) \<open>e = None\<close> by simp
    show "?k \<noteq> rk ''/l'' cs" if "hd cs \<in> {''seq'', ''tile''}" for cs using that by (auto simp: leaf_key_def leaf_comps_def)
  qed
  note q2 = this
  have h: "fs_healthy ''/l'' (put ?k ?n g)" using q2 unfolding leaf_key_def
    by (intro healthy_put_aside [OF hg]) (simp_all add: leaf_comps_def x_leaf_normal [unfolded leaf_comps_def])
  have "ent demo_fs (cp_key ''/l'') = None" by (simp add: cp_key_def demo_rk ent_def demo_fs_def CheckpointPath_def)
  then have "ent g (cp_key ''/l'') = None" using MkdirAll_cp [OF mk db] by (simp add: leaf_comps_def CheckpointPath_def)
  moreover have "cp_key ''/l'' \<noteq> ?k" "snd ?k \<noteq> []" by (simp_all add: cp_key_def leaf_key_def leaf_comps_def rk_def)
  ultimately show ?thesis using that [of "put ?k ?n g"] quiet_trans [OF q(1) q2] h by simp
qed

definition x_cp :: Checkpoint where
  "x_cp = \<lparr>Origin = ''o'', Size = 1, Hash = x_leaf\<rparr>"

definition x_raw :: bytes where
  "x_raw = MarshalCheckpoint line_notes x_cp"

lemma x_parse: "ParseCheckpoint line_notes x_raw ''o'' v [] = Inr (x_cp, empty_note)"
  using line_parse [of x_cp v] by (simp add: x_raw_def x_cp_def)

text \<open>Integrated, with the checkpoint that commits to the entry.\<close>

lemma one_entry_log:
  obtains f where "log_dir line_notes long_hasher ''o'' ''/l'' 1 f" "fs_healthy ''/l'' f" "ent f (cp_key ''/l'') = Some (File x_raw)"
    "ent f (leaf_key ''/l'' x_leaf) = Some (File (format_uint 16 0))" "dir_entries ''/l'' f 0 = Some ''x''"
proof -
  obtain f0 where f0: "quiet ''/l'' demo_fs f0" "fs_healthy ''/l'' f0" "ent f0 (cp_key ''/l'') = None"
      "ent f0 (leaf_key ''/l'' x_leaf) = Some (File (format_uint 16 0))" by (rule leaf_dir)
  have view: "fs_view (demo_st, demo_fs) = (\<lambda>x y ps. None)" by (simp add: fun_eq_iff fs_view_def demo_st_def fs_tv_def tile_key_def demo_keys)
  have ents: "fs_entries (demo_st, demo_fs) = (\<lambda>n. if n = 0 then Some ''x'' else None)"
    by (auto simp: fun_eq_iff fs_entries_def demo_st_def fs_entry_def demo_keys word_unat_eq_iff unat_of_nat_u64)
  have "log_length (fs_entries (demo_st, demo_fs)) 1" by (simp add: ents log_length_def)
  from empty_log_ready [where sinv = fs_inv and view = fs_view and entry = fs_entries, OF demo_ok view this] have rd: "dir_ready long_hasher 0 1 ''/l'' demo_fs" by (simp add: demo_st_def)
  have rd0: "dir_ready long_hasher 0 1 ''/l'' f0" using log_ready_quiet [OF f0(1) rd] .
  have e0: "dir_entries ''/l'' f0 = (\<lambda>n. if n = 0 then Some ''x'' else None)"
    using quiet_ok(3) [OF demo_fs_ok f0(1)] ents by (simp add: dir_entries_def fs_entries_def demo_st_def)
  obtain r st f1 where i: "Integrate ref_compact id fs_storage long_hasher zero_checkpoint (dir_state ''/l'' f0) = (r, st, f1)" by (metis prod_cases3)
  note z = rd0 [folded zero_size]
  note frame = Integrate_frame [where RF = ref_compact, OF ref.compact_range_axioms permutes_id(1) long_nonempty z i]
  note sound = fs.Integrate_sound [where RF = ref_compact, OF ref.compact_range_axioms permutes_id(1) long_nonempty z i]
  note live = fs.Integrate_live [where RF = ref_compact, OF ref.compact_range_axioms permutes_id(1) z _ i long_nonempty]
  have st: "st = fst (dir_state ''/l'' f0)" using frame(1) by simp
  have r: "is_ok r" and h1: "fs_healthy ''/l'' f1" using live f0(2) st by simp_all
  have e1: "dir_entries ''/l'' f1 = dir_entries ''/l'' f0" and rd1: "dir_ready long_hasher 1 1 ''/l'' f1" "dir_ready long_hasher 0 1 ''/l'' f1"
    using sound r rd0 st by (auto simp: integrated_def dir_entries_def zero_size split: sum.splits option.splits)
  have "off_tile ''/l'' (leaf_key ''/l'' x_leaf)" by (auto simp: off_tile_def leaf_key_def leaf_comps_def)
  then have cp1: "ent f1 (cp_key ''/l'') = None" and lf1: "ent f1 (leaf_key ''/l'' x_leaf) = Some (File (format_uint 16 0))"
    using frame(2) [of "cp_key ''/l''"] frame(2) [of "leaf_key ''/l'' x_leaf"] f0(3,4) by simp_all
  have d1: "log_dir line_notes long_hasher ''o'' ''/l'' 1 f1" using rd1(2) cp1 e1 e0 by (simp add: log_dir_def)
  let ?f = "put (cp_key ''/l'') (File x_raw) f1"
  have tr1: "tree f1" using fs_okD(2) log_dirD(4) [OF d1] by blast
  have seq: "ent f1 (seq_key ''/l'' 0) \<noteq> None"
    using e1 e0 by (auto simp: dir_entries_def fs_entries_def fs_entry_def fun_eq_iff split: option.splits dest: spec [of _ 0])
  have q: "quiet ''/l'' f1 ?f"
  proof (rule quiet_put [OF tr1])
    show "dirs_ok f1 (cp_key ''/l'')"
    proof -
      have "dirs_ok f1 (seq_key ''/l'' 0)" using tr1 seq unfolding tree_def by blast
      then show ?thesis by (auto simp: dirs_ok_def seq_key_def cp_key_def demo_rk seq_comps_0 less_Suc_eq)
    qed
  qed (use cp1 in \<open>auto simp: cp_key_def demo_rk CheckpointPath_def cleaned_def normal_comp_def intro!: exI [of _ "[''l'', CheckpointPath]"]\<close>)
  have "commits line_notes long_hasher ''o'' ''/l'' 1 ?f x_raw"
  proof (rule linen.signed_commits [where c = x_cp])
    show "dir_ready long_hasher (unat (Size x_cp)) 1 ''/l'' ?f" using log_ready_quiet [OF q rd1(1)] by (simp add: x_cp_def)
    have "dir_entries ''/l'' ?f = dir_entries ''/l'' f0"
      using quiet_ok(3) [OF log_dirD(4) [OF d1] q] e1 by (simp add: dir_entries_def fs_entries_def)
    then show "Hash x_cp = tree_root long_hasher (leaf_fn long_hasher (dir_entries ''/l'' ?f)) (unat (Size x_cp))"
      using e0 by (simp add: x_cp_def tree_root_def leaf_fn_def mth.simps long_hasher_def)
  qed (simp_all add: x_cp_def x_raw_def line_notes_def)
  then have "log_dir line_notes long_hasher ''o'' ''/l'' 1 ?f" by (intro log_dir_quiet(1) [OF d1 q]) simp
  moreover have "fs_healthy ''/l'' ?f" using q unfolding cp_key_def
    by (intro healthy_put_aside [OF h1]) (simp_all add: CheckpointPath_def normal_comp_def)
  moreover have "dir_entries ''/l'' ?f 0 = Some ''x''"
    using quiet_ok(3) [OF log_dirD(4) [OF d1] q] e1 e0 by (simp add: dir_entries_def fs_entries_def)
  moreover have "leaf_key ''/l'' x_leaf \<noteq> cp_key ''/l''" by (simp add: cp_key_def leaf_key_def leaf_comps_def)
  moreover have "snd (cp_key ''/l'') \<noteq> []" by (simp add: cp_key_def rk_def)
  ultimately show ?thesis using that [of ?f] lf1 by simp
qed

subsection \<open>Inclusion\<close>

text \<open>URLs are their strings, and a reference is resolved below the directory.\<close>

definition plain_urls :: "string url_lib" where
  "plain_urls = \<lparr>u_Parse = Inr, u_Resolve = (\<lambda>r p. Inr (''/l/'' @ p)), u_Scheme = (\<lambda>_. ''file''), u_Path = id, u_String = id\<rparr>"

definition x_flags :: client_flags where
  "x_flags = \<lparr>cf_cacheDir = [], cf_distributorURLs = [], cf_logURL = ''file:///l/'', cf_logPubKeyFile = [], cf_logID = [], cf_origin = ''o'',
     cf_witnessPubKeyFiles = [], cf_witnessSigsRequired = 0, cf_outputCheckpoint = [], cf_outputConsistency = [], cf_outputInclusion = [],
     cf_inclusionHash = False\<rparr>"

lemma x_hash: "HashLeaf long_hasher ''x'' = x_leaf"
  by (simp add: long_hasher_def)

text \<open>A server that answers every request with the same page.\<close>

definition page_client :: "bytes http_client" where
  "page_client = \<lparr>url_Parse = Inr, NewRequest = (\<lambda>m u b. Inr \<lparr>rq_Method = m, rq_URL = u, rq_Body = Inr b\<rparr>),
     client_Do = (\<lambda>page _. (Inr \<lparr>StatusCode = 200, rs_Body = Inr page\<rparr>, page))\<rparr>"

theorem client_verifies_entry_witness:
  "\<exists>f p. log_dir line_notes long_hasher ''o'' ''/l'' 1 f \<and> dir_entries ''/l'' f 0 = Some ''x'' \<and>
    VerifyInclusion rfc6962_proofs long_hasher 0 1 (HashLeaf long_hasher ''x'') p (Hash x_cp) = None \<and>
    client_main tool_keys line_notes plain_urls page_client [] ref_compact rfc6962_proofs id (\<lambda>_ _. []) long_hasher (\<lambda>_. ''k'') x_flags
      [''inclusion'', JoinPair (SeqPath ''/l'' 0)] f = (None, f) \<and>
    included tool_keys line_notes rfc6962_proofs long_hasher (\<lambda>_. ''k'') x_flags [JoinPair (SeqPath ''/l'' 0)] f"
proof -
  obtain f where f: "log_dir line_notes long_hasher ''o'' ''/l'' 1 f" "fs_healthy ''/l'' f" "ent f (cp_key ''/l'') = Some (File x_raw)"
    "ent f (leaf_key ''/l'' x_leaf) = Some (File (format_uint 16 0))" "dir_entries ''/l'' f 0 = Some ''x''" by (rule one_entry_log)
  have ok: "fs_ok ''/l'' f" using log_dirD(4) [OF f(1)] .
  have nf: "\<not> fault f p k" for p k using healthyD(1) [OF f(2)] .
  have rd: "ReadCheckpoint f ''/l'' = Inr x_raw" using ReadCheckpoint_written [OF fs_okD(2) [OF ok] f(3) nf] .
  have "ent f (seq_key ''/l'' 0) = Some (File ''x'')"
    using f(5) by (auto simp: dir_entries_def fs_entries_def fs_entry_def split: option.splits fnode.splits)
  then have "os_ReadFile f (JoinPair (SeqPath ''/l'' 0)) = Inr ''x''"
    using follow_plain [OF fs_okD(2) [OF ok]] nf by (simp add: os_ReadFile_def key_of_seq)
  then have "(\<exists>p. VerifyInclusion rfc6962_proofs long_hasher 0 (Size x_cp) (HashLeaf long_hasher ''x'') p (Hash x_cp) = None \<and>
      client_main tool_keys line_notes plain_urls page_client [] ref_compact rfc6962_proofs id (\<lambda>_ _. []) long_hasher (\<lambda>_. ''k'') x_flags
        [''inclusion'', JoinPair (SeqPath ''/l'' 0)] f =
          persisted x_flags (client_log_id (\<lambda>_ _. []) x_flags ''k'') (write_output f (cf_outputInclusion x_flags) (merkleProof_Marshal p)) x_raw) \<and>
    (\<forall>fl' as f0 f1. client_main tool_keys line_notes plain_urls page_client [] ref_compact rfc6962_proofs id (\<lambda>_ _. []) long_hasher (\<lambda>_. ''k'') fl'
        (''inclusion'' # as) f0 = (None, f1) \<longrightarrow> included tool_keys line_notes rfc6962_proofs long_hasher (\<lambda>_. ''k'') fl' as f0)"
    using f(1,4,5) x_parse rd
    by (intro client_verifies_entry [where rep = ref_rep and m = 1 and dir = "''/l''" and ws = "[]" and ds = "[]" and n = empty_note and v = "()" and
          root = "''file:///l/''", OF ref.compact_range_axioms rfc.merkle_proofs_axioms permutes_id(1) _ f(2)])
      (simp_all add: x_hash x_flags_def logSigVerifier_def tool_keys_def plain_urls_def file_url_def x_cp_def client_starts_def Let_def
        witnessSigVerifiers_def distributors_def slash_url_def has_suffix_def has_prefix_def)
  moreover have "persisted x_flags i (write_output f (cf_outputInclusion x_flags) b) x_raw = (None, f)" for i b
    by (simp add: persisted_def write_output_def x_flags_def)
  ultimately show ?thesis using f(1,5) by (auto simp: x_cp_def)
qed

subsection \<open>The cache\<close>

definition x_cache :: os where
  "x_cache = \<lparr>ents = [((True, [''c'']), Dir), ((True, [''c'', ''i'']), Dir),
     ((True, [''c'', ''i'', ''checkpoint'']), File (MarshalCheckpoint line_notes zero_checkpoint))], fault = (\<lambda>_ _. False)\<rparr>"

definition cache_flags :: client_flags where
  "cache_flags = x_flags\<lparr>cf_cacheDir := ''/c'', cf_logID := ''i'', cf_logURL := ''http://l/'', cf_origin := []\<rparr>"

definition new_cp :: Checkpoint where
  "new_cp = \<lparr>Origin = [], Size = 5, Hash = ''root''\<rparr>"

abbreviation new_raw :: bytes where
  "new_raw \<equiv> MarshalCheckpoint line_notes new_cp"

lemma cache_rk: "rk ''/c'' cs = (True, ''c'' # cs)"
  by (auto simp: rk_def root_comps_def clean_comps_def clean_push_def is_rooted_def has_prefix_def)

lemma cache_dirs: "dirs_ok x_cache (True, [''c'', ''i'', s])"
  by (auto simp: dirs_ok_def ent_def x_cache_def less_Suc_eq)

lemma cache_tree: "tree x_cache"
  unfolding tree_def
proof (intro allI impI)
  fix k assume "ent x_cache k \<noteq> None"
  then have "snd k = [] \<or> k \<in> {(True, [''c'']), (True, [''c'', ''i'']), (True, [''c'', ''i'', ''checkpoint''])}"
    by (auto simp: ent_def x_cache_def split: if_splits)
  moreover have "cleaned True cs" if "\<forall>c \<in> set cs. normal_comp c" for cs
    using that unfolding cleaned_def by (intro exI [of _ 0] exI [of _ cs]) simp
  moreover have "cleaned r []" for r by (simp add: cleaned_def)
  ultimately show "cleaned (fst k) (snd k) \<and> dirs_ok x_cache k"
    using cache_dirs [of "''checkpoint''"] by (auto simp: dirs_ok_def ent_def x_cache_def less_Suc_eq normal_comp_def)
qed

lemmas cache_keys = cache_paths [of "''i''" "''/c''", unfolded cache_key_def cache_rk]

lemma cache_normal: "normal_comp ''i''"
  by (simp add: normal_comp_def)

lemma cache_load: "loadLocalCheckpoint ''/c'' ''i'' x_cache = Inr (MarshalCheckpoint line_notes zero_checkpoint)"
proof -
  let ?k = "(True, [''c'', ''i'', ''checkpoint''])"
  have "ent x_cache ?k = Some (File (MarshalCheckpoint line_notes zero_checkpoint))" "fault x_cache OpRead ?k = False"
    by (simp_all add: ent_def x_cache_def)
  then show ?thesis using follow_plain [OF cache_tree, of ?k]
    by (simp add: loadLocalCheckpoint_def os_ReadFile_def cache_keys [OF cache_normal])
qed

lemma cache_store: "fst (storeLocalCheckpoint ''/c'' ''i'' x_cache raw) = None"
proof -
  let ?t = "(True, [''c'', ''i'', ''checkpoint.tmp''])" and ?k = "(True, [''c'', ''i'', ''checkpoint''])"
  let ?g = "put ?t (File raw) x_cache"
  have nf: "\<not> fault x_cache p k" for p k by (simp add: x_cache_def)
  have "ent x_cache (True, [''c'']) = Some Dir" "ent x_cache (True, [''c'', ''i'']) = Some Dir" by (simp_all add: ent_def x_cache_def)
  then have 1: "os_MkdirAll x_cache (Join [''/c'', ''i'']) = (None, x_cache)"
    by (simp add: os_MkdirAll_def cache_keys [OF cache_normal] prefixes_of_def)
  have t: "ent x_cache ?t = None" by (simp add: ent_def x_cache_def)
  have "write_key 40 x_cache ?t = Inr ?t" using cache_dirs [of "''checkpoint.tmp''"] t by (simp add: write_key.simps dir_err_None [symmetric])
  then have 2: "os_WriteFile x_cache (Join [Join [''/c'', ''i''], ''checkpoint''] @ ''.tmp'') raw = (None, ?g)"
    using nf unfolding os_WriteFile_def cache_keys [OF cache_normal] by simp
  have "dirs_ok ?g (True, [''c'', ''i'', s])" for s using dirs_ok_file(1) [OF cache_dirs] t by simp
  then have d: "dir_err ?g (True, [''c'', ''i'', s]) = None" for s using dir_err_None by blast
  have "ent ?g ?k \<noteq> Some Dir" "ent ?g ?t = Some (File raw)" "\<not> fault ?g p k" for p k by (simp_all add: nf) (simp add: ent_def x_cache_def)
  then have "fst (os_Rename ?g (Join [Join [''/c'', ''i''], ''checkpoint''] @ ''.tmp'') (Join [Join [''/c'', ''i''], ''checkpoint''])) = None"
    using d unfolding os_Rename_def cache_keys [OF cache_normal] by simp
  then show ?thesis by (simp add: storeLocalCheckpoint_def Let_def 1 2)
qed

lemma cache_run:
  "fst (client_main tool_keys line_notes (plain_urls\<lparr>u_Scheme := (\<lambda>_. ''http'')\<rparr>) page_client new_raw ref_compact rfc6962_proofs id
     (\<lambda>_ _. []) long_hasher (\<lambda>_. ''k'') cache_flags [''update''] x_cache) = None"
proof -
  have p: "ParseCheckpoint line_notes (MarshalCheckpoint line_notes zero_checkpoint) [] v [] = Inr (zero_checkpoint, empty_note)"
    "ParseCheckpoint line_notes new_raw [] v [] = Inr (new_cp, empty_note)" for v
    using line_parse [of zero_checkpoint v] line_parse [of new_cp v] by (simp_all add: zero_checkpoint_def new_cp_def)
  have l: "MarshalCheckpoint line_notes zero_checkpoint \<noteq> []" by (simp add: line_notes_def)
  have "\<exists>lc. client_setup tool_keys line_notes (plain_urls\<lparr>u_Scheme := (\<lambda>_. ''http'')\<rparr>) page_client new_raw ref_compact rfc6962_proofs id
     (\<lambda>_ _. []) long_hasher (\<lambda>_. ''k'') cache_flags x_cache = Inr (''i'', lc) \<and> fst (updateCheckpoint ref_compact rfc6962_proofs cache_flags lc x_cache []) = None
       \<and> snd (snd (updateCheckpoint ref_compact rfc6962_proofs cache_flags lc x_cache [])) = x_cache"
    using p l
    by (simp add: client_setup_def Let_def has_suffix_iff witnessSigVerifiers_def distributors_def newLogClientTool_def NewLogStateTracker_def
      UnilateralConsensus_def FetchCheckpoint_def Update_def cache_flags_def x_flags_def plain_urls_def logSigVerifier_def tool_keys_def
      newFetcher_def getByScheme_def readHTTP_def page_client_def cache_load updateCheckpoint_def write_output_def zero_checkpoint_def split: if_splits)
  then obtain lc where lc: "client_setup tool_keys line_notes (plain_urls\<lparr>u_Scheme := (\<lambda>_. ''http'')\<rparr>) page_client new_raw ref_compact rfc6962_proofs id
     (\<lambda>_ _. []) long_hasher (\<lambda>_. ''k'') cache_flags x_cache = Inr (''i'', lc)"
     "fst (updateCheckpoint ref_compact rfc6962_proofs cache_flags lc x_cache []) = None"
     "snd (snd (updateCheckpoint ref_compact rfc6962_proofs cache_flags lc x_cache [])) = x_cache" by blast
  then obtain lc' where u: "updateCheckpoint ref_compact rfc6962_proofs cache_flags lc x_cache [] = (None, lc', x_cache)" by (metis prod.collapse)
  obtain f2 where "storeLocalCheckpoint ''/c'' ''i'' x_cache (LatestConsistentRaw (ct_Tracker lc')) = (None, f2)"
    using cache_store by (metis prod.collapse)
  then show ?thesis using lc(1) u by (simp add: client_main_def run_command_def) (simp add: cache_flags_def x_flags_def)
qed

theorem client_cache_moves_forward_witness:
  "\<exists>f' newRaw. client_main tool_keys line_notes (plain_urls\<lparr>u_Scheme := (\<lambda>_. ''http'')\<rparr>) page_client new_raw ref_compact rfc6962_proofs id
     (\<lambda>_ _. []) long_hasher (\<lambda>_. ''k'') cache_flags [''update''] x_cache = (None, f') \<and> loadLocalCheckpoint ''/c'' ''i'' f' = Inr newRaw"
proof -
  obtain f' where f': "client_main tool_keys line_notes (plain_urls\<lparr>u_Scheme := (\<lambda>_. ''http'')\<rparr>) page_client new_raw ref_compact rfc6962_proofs id
     (\<lambda>_ _. []) long_hasher (\<lambda>_. ''k'') cache_flags [''update''] x_cache = (None, f')" using cache_run by (metis prod.collapse)
  have "\<forall>t. ent x_cache (rk (cf_cacheDir cache_flags) [''i'', ''checkpoint.tmp'']) \<noteq> Some (Symlink t)"
    "\<not> fault x_cache OpRead (cache_key (cf_cacheDir cache_flags) ''i'')"
    by (simp_all add: cache_flags_def cache_rk ent_def x_cache_def)
  then show ?thesis
    using client_cache_moves_forward [OF f' _ cache_normal _ _ _ _ _ _ cache_tree] cache_load f'
    by (auto simp: cache_flags_def x_flags_def line_notes_def)
qed

end
