(* ===== verification/GcpFunction.thy ===== *)
theory GcpFunction
  imports GcpStorage LogTools WitnessHttp
begin

section \<open>serverless/experimental/gcp-log/function.go\<close>

text \<open>
  The two cloud functions that sequence and integrate entries of a log in a bucket.  The response writer keeps
  the first status that is written and the text so far; a handler returns whether it panicked, the writer
  and the state of the storage service.  Parameters: the decoding of the request, the error of making a
  storage client, the bytes that a failed read of the checkpoint leaves, and what \<^verbatim>\<open>ParseCheckpoint\<close> does when it is
  given no verifier.
\<close>

record responseWriter =
  hw_status :: "nat option"
  hw_body :: string

definition w_Write :: "responseWriter \<Rightarrow> string \<Rightarrow> responseWriter" where
  "w_Write w t = w\<lparr>hw_status := Some (case hw_status w of None \<Rightarrow> 200 | Some c \<Rightarrow> c), hw_body := hw_body w @ t\<rparr>"

definition w_Error :: "responseWriter \<Rightarrow> string \<Rightarrow> nat \<Rightarrow> responseWriter" where
  "w_Error w msg code = w\<lparr>hw_status := Some (case hw_status w of None \<Rightarrow> code | Some c \<Rightarrow> c), hw_body := hw_body w @ msg @ [newline]\<rparr>"

definition validateCommonArgs :: "environ \<Rightarrow> responseWriter \<Rightarrow> string \<Rightarrow> (bool \<times> string) \<times> responseWriter" where
  "validateCommonArgs env w origin =
     (if length origin = 0 then ((False, []), w_Error w ''Please set `origin` in HTTP body to log identifier.'' 400)
      else (let pubKey = env ''SERVERLESS_LOG_PUBLIC_KEY'' in
        if length pubKey = 0 then ((False, []), w_Error w ''Please set SERVERLESS_LOG_PUBLIC_KEY environment variable'' 400)
        else ((True, pubKey), w)))"

subsection \<open>Sequence\<close>

record sequence_request =
  sq_Bucket :: string
  sq_EntriesDir :: string
  sq_Origin :: string

fun gcf_sequence_loop ::
    "'g gcs \<Rightarrow> hasher \<Rightarrow> string \<Rightarrow> gcsClient \<Rightarrow> 'g \<Rightarrow> responseWriter \<Rightarrow> string res list \<Rightarrow>
     (go_error option \<times> responseWriter \<times> 'g) option" where
  "gcf_sequence_loop G h dir c g w [] = Some (None, w, g)"
| "gcf_sequence_loop G h dir c g w (Inl e # items) = Some (None, w_Error w ''Bucket.Objects'' 500, g)"
| "gcf_sequence_loop G h dir c g w (Inr name # items) =
     (if name = dir then gcf_sequence_loop G h dir c g w items
      else (case gcp_GetObjectData G c g name of
        Inl e \<Rightarrow> Some (None, w_Error w ''Failed to get data of object'' 500, g)
      | Inr b \<Rightarrow>
          (case gcp_Sequence G c g (HashLeaf h b) b of
             None \<Rightarrow> None
           | Some ((seq, None), c', g') \<Rightarrow> gcf_sequence_loop G h dir c' g' w items
           | Some ((seq, Some e), c', g') \<Rightarrow>
               if is_panic e then Some (Some e, w, g')
               else if errors_Is e ErrDupeLeaf then gcf_sequence_loop G h dir c' g' w items
               else Some (None, w_Error w ''Failed to sequence'' 500, g'))))"

definition gcf_Sequence ::
    "'g gcs \<Rightarrow> ('v, 's) key_lib \<Rightarrow> ('v, 's) note_lib \<Rightarrow> hasher \<Rightarrow> environ \<Rightarrow> go_error option \<Rightarrow> ('q \<Rightarrow> sequence_request res) \<Rightarrow>
     responseWriter \<Rightarrow> 'q \<Rightarrow> 'g \<Rightarrow> (go_error option \<times> responseWriter \<times> 'g) option" where
  "gcf_Sequence G K N h env newc dec w r g =
     (case dec r of
        Inl e \<Rightarrow> Some (None, w_Error w ''Bad Request'' 400, g)
      | Inr d \<Rightarrow>
        (case validateCommonArgs env w (sq_Origin d) of
           ((False, _), w1) \<Rightarrow> Some (None, w1, g)
         | ((True, pubKey), w1) \<Rightarrow>
           (case gcp_NewClient newc (env ''GCP_PROJECT'') (sq_Bucket d) of
              Inl e \<Rightarrow> Some (None, w_Error w1 ''Failed to create GCS client'' 500, g)
            | Inr c \<Rightarrow>
              (case gcp_ReadCheckpoint G c g of
                 Inl e \<Rightarrow> Some (None, w_Error w1 ''Failed to read log checkpoint'' 500, g)
               | Inr cpRaw \<Rightarrow>
                 (case key_NewVerifier K pubKey of
                    Inl e \<Rightarrow> Some (None, w_Error w1 ''Failed to instantiate Verifier'' 500, g)
                  | Inr v \<Rightarrow>
                    (case ParseCheckpoint N cpRaw (sq_Origin d) v [] of
                       Inl e \<Rightarrow> Some (None, w_Error w1 ''Failed to parse Checkpoint'' 500, g)
                     | Inr (ckpt, _) \<Rightarrow>
                         (let c = gcp_SetNextSeq c (Size ckpt) in
                          gcf_sequence_loop G h (sq_EntriesDir d) c g w1 (gcp_GetObjects G c g (sq_EntriesDir d)))))))))"

subsection \<open>Integrate\<close>

record integrate_request =
  ir_Origin :: string
  ir_Initialise :: bool
  ir_Bucket :: string

definition nil_deref :: go_error where
  "nil_deref = Panic ''runtime error: invalid memory address or nil pointer dereference''"

definition gcf_signAndWrite ::
    "'g gcs \<Rightarrow> ('v, 's) note_lib \<Rightarrow> Checkpoint \<Rightarrow> Note \<Rightarrow> 's \<Rightarrow> gcsClient \<Rightarrow> string \<Rightarrow> 'g \<Rightarrow> go_error option \<times> 'g" where
  "gcf_signAndWrite G N ckpt cpNote s c origin g =
     (let ckpt = ckpt\<lparr>Origin := origin\<rparr>; cpNote = cpNote\<lparr>NoteText := MarshalCheckpoint N ckpt\<rparr> in
      case note_Sign N cpNote [s] of
        Inl e \<Rightarrow> (Some (wrapf ''failed to sign Checkpoint'' e), g)
      | Inr cpNoteSigned \<Rightarrow>
          (case gcp_WriteCheckpoint G c g cpNoteSigned of
             (Some e, g') \<Rightarrow> (Some (wrapf ''failed to store new log checkpoint'' e), g')
           | (None, g') \<Rightarrow> (None, g')))"

definition gcf_initialise ::
    "'g gcs \<Rightarrow> ('v, 's) note_lib \<Rightarrow> hasher \<Rightarrow> integrate_request \<Rightarrow> 's \<Rightarrow> gcsClient \<Rightarrow> responseWriter \<Rightarrow> 'g \<Rightarrow> responseWriter \<times> 'g" where
  "gcf_initialise G N h d s c w g =
     (case gcp_Create G c g (ir_Bucket d) of
        (Some e, _, g1) \<Rightarrow> (w_Error w ''Failed to create bucket for log'' 400, g1)
      | (None, c1, g1) \<Rightarrow>
          (case gcf_signAndWrite G N \<lparr>Origin = [], Size = 0, Hash = EmptyRoot h\<rparr> empty_note s c1 (ir_Origin d) g1 of
             (err, g2) \<Rightarrow> (w_Write (if err = None then w else w_Error w ''Failed to sign'' 500) ''Initialised log'', g2)))"

text \<open>The errors of reading the checkpoint and of making the verifier are reported, and the function goes on.  A
  checkpoint that could not be parsed and one that \<^verbatim>\<open>Integrate\<close> did not make are nil pointers, which are then
  dereferenced.\<close>

definition gcf_run ::
    "'g gcs \<Rightarrow> ('v, 's) key_lib \<Rightarrow> ('v, 's) note_lib \<Rightarrow> (hash_fn \<Rightarrow> 'r compact) \<Rightarrow> ((tileKey \<times> Tile) list \<Rightarrow> (tileKey \<times> Tile) list) \<Rightarrow> hasher \<Rightarrow>
     bytes \<Rightarrow> (bytes \<Rightarrow> string \<Rightarrow> (Checkpoint \<times> Note) res) \<Rightarrow> integrate_request \<Rightarrow> string \<Rightarrow> 's \<Rightarrow> gcsClient \<Rightarrow> responseWriter \<Rightarrow> 'g \<Rightarrow>
     go_error option \<times> responseWriter \<times> 'g" where
  "gcf_run G K N RF iter h got nilv d pubKey s c w g =
     (let (cpRaw, w1) = (case gcp_ReadCheckpoint G c g of
            Inl e \<Rightarrow> (got, w_Error w ''Failed to read log checkpoint'' 500) | Inr raw \<Rightarrow> (raw, w));
          (parsed, w2) = (case key_NewVerifier K pubKey of
            Inl e \<Rightarrow> (nilv cpRaw (ir_Origin d), w_Error w1 ''Failed to instantiate Verifier'' 500)
          | Inr v \<Rightarrow> (ParseCheckpoint N cpRaw (ir_Origin d) v [], w1))
      in case parsed of
           Inl e \<Rightarrow> if is_panic e then (Some e, w2, g) else (Some nil_deref, w_Error w2 ''Failed to open Checkpoint'' 500, g)
         | Inr (ckpt, _) \<Rightarrow>
             (case Integrate RF iter (gcp_storage G) h ckpt (c, g) of
                (Inl e, _, g1) \<Rightarrow> if is_panic e then (Some e, w2, g1) else (None, w_Error w2 ''Failed to integrate'' 500, g1)
              | (Inr None, _, g1) \<Rightarrow> (Some nil_deref, w_Error w2 ''Nothing to integrate'' 500, g1)
              | (Inr (Some newCp), c1, g1) \<Rightarrow>
                  (case gcf_signAndWrite G N newCp empty_note s c1 (ir_Origin d) g1 of
                     (err, g2) \<Rightarrow> (None, if err = None then w2 else w_Error w2 ''Failed to sign'' 500, g2))))"

definition gcf_Integrate ::
    "'g gcs \<Rightarrow> ('v, 's) key_lib \<Rightarrow> ('v, 's) note_lib \<Rightarrow> (hash_fn \<Rightarrow> 'r compact) \<Rightarrow> ((tileKey \<times> Tile) list \<Rightarrow> (tileKey \<times> Tile) list) \<Rightarrow> hasher \<Rightarrow>
     environ \<Rightarrow> go_error option \<Rightarrow> bytes \<Rightarrow> (bytes \<Rightarrow> string \<Rightarrow> (Checkpoint \<times> Note) res) \<Rightarrow> ('q \<Rightarrow> integrate_request res) \<Rightarrow>
     responseWriter \<Rightarrow> 'q \<Rightarrow> 'g \<Rightarrow> go_error option \<times> responseWriter \<times> 'g" where
  "gcf_Integrate G K N RF iter h env newc got nilv dec w r g =
     (case dec r of
        Inl e \<Rightarrow> (None, w_Error w ''Bad Request'' 400, g)
      | Inr d \<Rightarrow>
        (case validateCommonArgs env w (ir_Origin d) of
           ((False, _), w1) \<Rightarrow> (None, w1, g)
         | ((True, pubKey), w1) \<Rightarrow>
           (let privKey = env ''SERVERLESS_LOG_PRIVATE_KEY'';
                w2 = (if length privKey = 0 then w_Error w1 ''Please set SERVERLESS_LOG_PUBLIC_KEY environment variable'' 400 else w1)
            in case key_NewSigner K privKey of
                 Inl e \<Rightarrow> (None, w_Error w2 ''Failed to instantiate signer'' 500, g)
               | Inr s \<Rightarrow>
                   (case gcp_NewClient newc (env ''GCP_PROJECT'') (ir_Bucket d) of
                      Inl e \<Rightarrow> (None, w_Error w2 ''Failed to create GCS client'' 400, g)
                    | Inr c \<Rightarrow>
                        if ir_Initialise d then (None, gcf_initialise G N h d s c w2 g)
                        else gcf_run G K N RF iter h got nilv d pubKey s c w2 g))))"

end
