(* ===== verification/GcpFunctionProofs.thy ===== *)
theory GcpFunctionProofs
  imports GcpFunction GcpProofs LogDir
begin

section \<open>A log in a bucket over any number of calls of the cloud functions\<close>

text \<open>
  The same invariant as for a log directory, for the objects of a bucket: entries without gaps, right tiles, a
  checkpoint that commits to a prefix of the entries.  Both functions keep it, whatever requests fail, and
  \<open>Sequence\<close> always returns.
\<close>

subsection \<open>The invariant\<close>

type_synonym objects = "string \<Rightarrow> bytes option"

abbreviation obj_ready :: "hasher \<Rightarrow> nat \<Rightarrow> nat \<Rightarrow> objects \<Rightarrow> bool" where
  "obj_ready \<equiv> log_ready (obj_room []) (obj_tv []) (obj_entry [])"

lemma log_ready_objs:
  "log_ready (gcp_inv objs) (gcp_view objs) (gcp_entries objs) h k m (c, g) = obj_ready h k m (objs g (gc_bucket c))"
  by (simp add: log_ready_def gcp_defs)

definition obj_commits :: "('v, 's) note_lib \<Rightarrow> hasher \<Rightarrow> string \<Rightarrow> nat \<Rightarrow> objects \<Rightarrow> bytes \<Rightarrow> bool" where
  "obj_commits N h origin m mp raw \<longleftrightarrow> (\<forall>v c n. ParseCheckpoint N raw origin v [] = Inr (c, n) \<longrightarrow>
     obj_ready h (unat (Size c)) m mp \<and> Hash c = tree_root h (leaf_fn h (obj_entry [] mp)) (unat (Size c)))"

definition bucket_log :: "('v, 's) note_lib \<Rightarrow> hasher \<Rightarrow> string \<Rightarrow> nat \<Rightarrow> objects \<Rightarrow> bool" where
  "bucket_log N h origin m mp \<longleftrightarrow> obj_ready h 0 m mp \<and> (\<forall>j \<ge> m. obj_entry [] mp j = None) \<and>
     (\<forall>raw. mp CheckpointPath = Some raw \<longrightarrow> obj_commits N h origin m mp raw)"

lemma bucket_logD:
  assumes "bucket_log N h origin m mp"
  shows "obj_ready h 0 m mp" "obj_entry [] mp j \<noteq> None \<longleftrightarrow> j < m" "obj_room [] mp" "m < 2 ^ 64"
    "mp CheckpointPath = Some raw \<Longrightarrow> obj_commits N h origin m mp raw"
proof -
  show rd: "obj_ready h 0 m mp" and "mp CheckpointPath = Some raw \<Longrightarrow> obj_commits N h origin m mp raw"
    using assms by (simp_all add: bucket_log_def)
  note l = log_readyD(2) [OF rd]
  show room: "obj_room [] mp" by (rule log_readyD(1) [OF rd])
  have iff: "obj_entry [] mp j \<noteq> None \<longleftrightarrow> j < m" for j
    using assms l by (cases "j < m") (auto simp: bucket_log_def log_length_def not_less)
  then show "obj_entry [] mp j \<noteq> None \<longleftrightarrow> j < m" .
  show "m < 2 ^ 64"
  proof (cases m)
    case (Suc k)
    then have "k < 2 ^ 64 - 1" using iff [of k] obj_entry_bound [OF room] by simp
    then show ?thesis using Suc by simp
  qed simp
qed

definition obj_extends :: "hasher \<Rightarrow> nat \<Rightarrow> objects \<Rightarrow> nat \<Rightarrow> objects \<Rightarrow> bool" where
  "obj_extends h m mp m' mp' \<longleftrightarrow> m \<le> m' \<and> agree m (obj_entry [] mp) (obj_entry [] mp') \<and>
     (\<forall>k. obj_ready h k m mp \<longrightarrow> obj_ready h k m' mp')"

lemma obj_extends_refl [simp]: "obj_extends h m mp m mp"
  by (simp add: obj_extends_def agree_def)

lemma obj_extends_trans: "\<lbrakk>obj_extends h m mp m' mp'; obj_extends h m' mp' m'' mp''\<rbrakk> \<Longrightarrow> obj_extends h m mp m'' mp''"
  by (auto simp: obj_extends_def agree_def)

lemma obj_commits_keep:
  assumes "obj_commits N h origin m mp raw" "obj_extends h m mp m' mp'"
  shows "obj_commits N h origin m' mp' raw"
proof -
  have "tree_root h (leaf_fn h (obj_entry [] mp')) k = tree_root h (leaf_fn h (obj_entry [] mp)) k" if "k \<le> m" for k
  proof -
    have "agree m (leaf_fn h (obj_entry [] mp)) (leaf_fn h (obj_entry [] mp'))" using assms(2) by (simp add: obj_extends_def agree_def leaf_fn_def)
    then show ?thesis using mth_agree that by (simp add: tree_root_def)
  qed
  then show ?thesis using assms log_readyD(3) unfolding obj_commits_def obj_extends_def by metis
qed

lemma bucket_log_keep:
  assumes "bucket_log N h origin m mp" "obj_extends h m mp m' mp'" "\<forall>j \<ge> m'. obj_entry [] mp' j = None"
    "\<And>raw. mp' CheckpointPath = Some raw \<Longrightarrow> mp CheckpointPath = Some raw \<or> obj_commits N h origin m' mp' raw"
  shows "bucket_log N h origin m' mp'"
  using assms obj_commits_keep [OF _ assms(2)] unfolding bucket_log_def obj_extends_def by blast

text \<open>Objects that are not part of the log do not matter.\<close>

definition log_object :: "string \<Rightarrow> bool" where
  "log_object n \<longleftrightarrow> n = CheckpointPath \<or> (\<exists>q. n = JoinPair (SeqPath [] q)) \<or> (\<exists>x y ps. n = JoinPair (TilePath [] x y ps))"

lemma same_log_objects:
  assumes "bucket_log N h origin m mp" "\<forall>n. (\<exists>q. n = JoinPair (SeqPath [] q)) \<or> (\<exists>x y ps. n = JoinPair (TilePath [] x y ps)) \<longrightarrow> mp' n = mp n"
    "\<And>raw. mp' CheckpointPath = Some raw \<Longrightarrow> mp CheckpointPath = Some raw \<or> obj_commits N h origin m mp' raw"
  shows "bucket_log N h origin m mp'" "obj_extends h m mp m mp'"
proof -
  have e: "obj_tv [] mp' = obj_tv [] mp" "obj_entry [] mp' = obj_entry [] mp" "obj_room [] mp' = obj_room [] mp"
    using assms(2) by (auto simp: obj_tv_def obj_entry_def obj_room_def fun_eq_iff)
  then show x: "obj_extends h m mp m mp'" by (simp add: obj_extends_def agree_def log_ready_def)
  show "bucket_log N h origin m mp'" using assms(1) e(2) by (intro bucket_log_keep [OF assms(1) x _ assms(3)]) (simp_all add: bucket_log_def)
qed

lemma Join_checkpoint: "Join [[], CheckpointPath] = CheckpointPath"
  by (simp add: CheckpointPath_def Join_def Clean_def clean_comps_def clean_push_def path_of_def is_rooted_def has_prefix_def)

lemma checkpoint_name [simp]:
  "CheckpointPath \<noteq> JoinPair (SeqPath [] q)" "JoinPair (SeqPath [] q) \<noteq> CheckpointPath"
  "CheckpointPath \<noteq> JoinPair (TilePath [] x y ps)" "JoinPair (TilePath [] x y ps) \<noteq> CheckpointPath"
  using checkpoint_names [of "[]", unfolded Join_checkpoint] by metis+

lemma leaf_name_neq:
  assumes "leaf_name n"
  shows "n \<noteq> CheckpointPath" "n \<noteq> JoinPair (SeqPath [] q)" "n \<noteq> JoinPair (TilePath [] x y ps)"
proof -
  obtain lh p where p: "LeafPath [] lh = Inr p" "3 < length lh" "n = JoinPair p" using assms by (auto simp: leaf_name_def)
  then show "n \<noteq> JoinPair (SeqPath [] q)" "n \<noteq> JoinPair (TilePath [] x y ps)" using leaf_names by auto
  show "n \<noteq> CheckpointPath"
    using p object_path_eq_iff [of "LeafObj lh" CheckpointObj "[]"] by (simp add: Join_checkpoint)
qed

subsection \<open>Sequence\<close>

text \<open>What the functions rely on of the service beyond \<open>gcs_bucket\<close>: making a bucket and setting its access leave
  the objects alone, and no error of the service is the log's \<open>ErrDupeLeaf\<close>.\<close>

definition service_error :: "go_error \<Rightarrow> bool" where
  "service_error e \<longleftrightarrow> \<not> errors_Is e ErrDupeLeaf \<and> \<not> is_panic e"

lemma dupe_no_panic [simp]: "\<not> is_panic ErrDupeLeaf" "errors_Is ErrDupeLeaf ErrDupeLeaf"
  by (simp_all add: ErrDupeLeaf_def)

lemma parse_digits_error: "parse_digits b m a s = Inl e \<Longrightarrow> service_error e"
  by (induction b m a s rule: parse_digits.induct)
    (auto simp: service_error_def ErrDupeLeaf_def Let_def split: option.splits if_splits)

lemma parse_uint_error: "parse_uint s b n = Inl e \<Longrightarrow> service_error e"
  using parse_digits_error by (auto simp: parse_uint_def service_error_def ErrDupeLeaf_def split: if_splits)

locale gcs_service = gcs_bucket +
  assumes create: "g_BucketCreate G g bkt p = (err, g') \<Longrightarrow> objs g' = objs g"
    and acl: "objs (g_SetACL G g bkt) = objs g"
    and reader_err: "g_NewReader G g bkt n = Inl e \<Longrightarrow> service_error e" "g_NewReader G g bkt n = Inr (Inl e) \<Longrightarrow> service_error e"
    and attrs_err: "g_Attrs G g bkt n = Some e \<Longrightarrow> service_error e"
    and write_err: "g_Write G g bkt n b = Some e \<Longrightarrow> service_error e"
    and close_error: "g_Close G g only bkt n b = (Some e, g') \<Longrightarrow> service_error e"
begin

text \<open>The objects during a call that sequences \<open>leaf\<close>, with \<open>m\<close> entries before it.\<close>

definition seq_at :: "string \<Rightarrow> nat \<Rightarrow> objects \<Rightarrow> string \<Rightarrow> bytes \<Rightarrow> gcsClient \<Rightarrow> gcp_phase \<Rightarrow> 'a \<Rightarrow> bool" where
  "seq_at B m mp n leaf c ph g \<longleftrightarrow> gc_bucket c = B \<and> unat (gc_nextSeq c) \<le> m \<and>
     (let new = put_obj (JoinPair (SeqPath [] (of_nat m))) leaf mp in
      case ph of
        WriteIndex q \<Rightarrow> objs g B = new
      | Returned q err \<Rightarrow>
          (objs g B = mp \<and> (\<exists>e. err = Some e \<and> (errors_Is e ErrDupeLeaf \<longrightarrow> mp n \<noteq> None) \<and> \<not> is_panic e)) \<or>
          (objs g B = new \<and> (\<exists>e. err = Some e \<and> service_error e)) \<or>
          (\<exists>i. objs g B = put_obj n i new \<and> (\<forall>e. err = Some e \<longrightarrow> service_error e))
      | TryWrite q \<Rightarrow> q = gc_nextSeq c \<and> objs g B = mp
      | _ \<Rightarrow> objs g B = mp)"

lemma service_error_wrap [simp]: "service_error e \<Longrightarrow> service_error (wrapf msg e)" "service_error e \<Longrightarrow> service_error (errorf msg e)"
  by (auto simp: service_error_def wrapf_def errorf_def ErrDupeLeaf_def)

lemma service_errorD: "service_error e \<Longrightarrow> \<not> errors_Is e ErrDupeLeaf \<and> \<not> is_panic e"
  by (simp add: service_error_def)

lemma used_lt:
  assumes "bucket_log N h origin m mp" "mp (JoinPair (SeqPath [] q)) \<noteq> None"
  shows "unat (q + 1) \<le> m"
proof -
  have "unat q < m" using bucket_logD(2) [OF assms(1), of "unat q"] assms(2) by simp
  then show ?thesis using bucket_logD(4) [OF assms(1)] unat_Suc_u64 [of q] by simp
qed

lemma free_eq:
  assumes "bucket_log N h origin m mp" "mp (JoinPair (SeqPath [] q)) = None" "unat q \<le> m"
  shows "q = of_nat m"
proof -
  have "\<not> unat q < m" using bucket_logD(2) [OF assms(1), of "unat q"] assms(2) by simp
  then have "unat q = m" using assms(3) by simp
  then show ?thesis by (metis unat_of_nat_u64 bucket_logD(4) [OF assms(1)] word_unat_eq_iff)
qed

lemma advance_at:
  assumes "bucket_log N h origin m mp" "leaf_name n" "seq_at B m mp n leaf c ph g" "gcp_advance G n leaf c ph g = (c', ph', g')"
  shows "seq_at B m mp n leaf c' ph' g'"
proof (cases ph)
  case CheckDupe
  have at: "gc_bucket c = B" "unat (gc_nextSeq c) \<le> m" "objs g B = mp" using assms(3) CheckDupe by (simp_all add: seq_at_def)
  have r: "mp n \<noteq> None" if "g_NewReader G g B n = Inr (Inr b)" for b using read_some [OF that] at(3) by simp
  have pe: "\<not> errors_Is e ErrDupeLeaf \<and> \<not> is_panic e" if "parse_uint t b k = Inl e" for t b k e
    using service_errorD [OF parse_uint_error [OF that]] .
  show ?thesis using assms(4) at r pe service_errorD [OF reader_err(1) [of g B n]] service_errorD [OF reader_err(2) [of g B n]]
    by (auto simp: CheckDupe gcp_check_dupe_def seq_at_def Let_def split: sum.splits if_splits)
next
  case TryAttrs
  have at: "gc_bucket c = B" "unat (gc_nextSeq c) \<le> m" "objs g B = mp" using assms(3) TryAttrs by (simp_all add: seq_at_def)
  let ?k = "JoinPair (SeqPath [] (gc_nextSeq c))"
  have "unat (gc_nextSeq c + 1) \<le> m" if "g_Attrs G g B ?k = None" using used_lt [OF assms(1)] attrs_some [OF that] at(3) by simp
  moreover have "\<not> errors_Is e ErrDupeLeaf \<and> \<not> is_panic e" if "g_Attrs G g B ?k = Some e" for e using service_errorD [OF attrs_err [OF that]] .
  ultimately show ?thesis using assms(4) at
    by (auto simp: TryAttrs seq_at_def Let_def errorf_def ErrDupeLeaf_def split: option.splits if_splits)
next
  case (TryWrite q)
  have at: "gc_bucket c = B" "unat (gc_nextSeq c) \<le> m" "objs g B = mp" "q = gc_nextSeq c" using assms(3) TryWrite by (simp_all add: seq_at_def)
  let ?k = "JoinPair (SeqPath [] q)"
  obtain err g1 where c: "g_Close G g True B ?k leaf = (err, g1)" by fastforce
  have new: "objs g1 B = put_obj (JoinPair (SeqPath [] (of_nat m))) leaf mp"
    if "objs g1 = (objs g)(B := put_obj ?k leaf (objs g B))" "objs g B ?k = None"
  proof -
    have "q = of_nat m" using free_eq [OF assms(1)] that(2) at(2-4) by simp
    then show ?thesis using that(1) at(3) by simp
  qed
  show ?thesis
  proof (cases "g_Write G g B ?k leaf")
    case (Some e)
    then show ?thesis using assms(4) at service_errorD [OF service_error_wrap(1) [OF write_err [OF Some]]]
      by (auto simp: TryWrite seq_at_def Let_def)
  next
    case w: None
    show ?thesis
    proof (cases err)
      case None
      then show ?thesis using assms(4) at w c new close_ok [OF c [unfolded None]] by (auto simp: TryWrite seq_at_def Let_def)
    next
      case (Some e)
      note ce = c [unfolded Some]
      show ?thesis
      proof (cases "errors_Is e ErrPreconditionFailed")
        case True
        then show ?thesis using assms(4) at w c Some close_pre [OF ce True] used_lt [OF assms(1), of q]
          by (auto simp: TryWrite seq_at_def Let_def)
      next
        case False
        have se: "service_error (errorf ''couldn't close writer for object'' e)" using close_error [OF ce] by simp
        have "objs g1 B = mp \<or> objs g1 B = put_obj (JoinPair (SeqPath [] (of_nat m))) leaf mp"
          using close_err [OF ce] new at(3) by auto
        then show ?thesis using assms(4) at w c Some False se service_errorD [OF se] by (auto simp: TryWrite seq_at_def Let_def)
      qed
    qed
  qed
next
  case (WriteIndex q)
  let ?i = "format_uint 16 (unat q)" and ?new = "put_obj (JoinPair (SeqPath [] (of_nat m))) leaf mp"
  have at: "gc_bucket c = B" "unat (gc_nextSeq c) \<le> m" "objs g B = ?new" using assms(3) WriteIndex by (simp_all add: seq_at_def Let_def)
  obtain err g1 where c: "g_Close G g False B n ?i = (err, g1)" by fastforce
  have "objs g1 B = put_obj n ?i ?new \<or> err \<noteq> None \<and> objs g1 B = ?new" using close_cases [OF c] at(3) by auto
  moreover have "service_error (errorf ''couldn't close writer for object'' e)" if "err = Some e" for e using close_error [OF c [unfolded that]] by simp
  moreover have "service_error (wrapf ''couldn't create leafhash object'' e)" if "g_Write G g B n ?i = Some e" for e using write_err [OF that] by simp
  ultimately show ?thesis using assms(4) at c by (auto simp: WriteIndex seq_at_def Let_def split: option.splits)
next
  case (Returned q err)
  then show ?thesis using assms(3,4) by simp
qed

lemma run_at:
  assumes "bucket_log N h origin m mp" "leaf_name n"
  shows "gcp_sequence_run G n leaf c ph g = Some y \<Longrightarrow> seq_at B m mp n leaf c ph g \<longrightarrow>
    seq_at B m mp n leaf (fst (snd y)) (Returned (fst (fst y)) (snd (fst y))) (snd (snd y))"
proof -
  have "gcp_sequence_run G n leaf c ph g = Some y \<Longrightarrow> G = G \<and> n = n \<and> leaf = leaf \<longrightarrow> seq_at B m mp n leaf c ph g \<longrightarrow>
    seq_at B m mp n leaf (fst (snd y)) (Returned (fst (fst y)) (snd (fst y))) (snd (snd y))"
  proof (rule gcp_sequence_run.raw_induct [where P = "\<lambda>G' n' leaf' c ph g y. G' = G \<and> n' = n \<and> leaf' = leaf \<longrightarrow>
      seq_at B m mp n leaf c ph g \<longrightarrow> seq_at B m mp n leaf (fst (snd y)) (Returned (fst (fst y)) (snd (fst y))) (snd (snd y))"], goal_cases)
    case (1 run G' n' leaf' c ph g y)
    obtain c' ph' g' where adv: "gcp_advance G n leaf c ph g = (c', ph', g')" by (metis prod_cases3)
    show ?case
    proof (intro impI)
      assume eq: "G' = G \<and> n' = n \<and> leaf' = leaf" and at: "seq_at B m mp n leaf c ph g"
      note at' = advance_at [OF assms at adv]
      show "seq_at B m mp n leaf (fst (snd y)) (Returned (fst (fst y)) (snd (fst y))) (snd (snd y))"
      proof (cases "\<exists>q e. ph = Returned q e")
        case True
        then show ?thesis using 1(3) at by auto
      next
        case False
        then have "run G n leaf c' ph' g' = Some y" using 1(3) eq adv by (auto split: gcp_phase.splits)
        then show ?thesis using 1(2) at' by blast
      qed
    qed
  qed simp
  then show "gcp_sequence_run G n leaf c ph g = Some y \<Longrightarrow> seq_at B m mp n leaf c ph g \<longrightarrow>
    seq_at B m mp n leaf (fst (snd y)) (Returned (fst (fst y)) (snd (fst y))) (snd (snd y))" by blast
qed

lemma Sequence_at:
  assumes "bucket_log N h origin m (objs g (gc_bucket c))" "3 < length lh" "unat (gc_nextSeq c) \<le> m"
  obtains q err c' g' p where "gcp_Sequence G c g lh leaf = Some ((q, err), c', g')" "LeafPath [] lh = Inr p" "leaf_name (JoinPair p)"
    "seq_at (gc_bucket c) m (objs g (gc_bucket c)) (JoinPair p) leaf c' (Returned q err) g'"
proof -
  obtain p where p: "LeafPath [] lh = Inr p" using LeafPath_comps [OF assms(2), of "[]"] by blast
  then have ln: "leaf_name (JoinPair p)" using assms(2) unfolding leaf_name_def by blast
  obtain q err c' g' where r: "gcp_sequence_run G (JoinPair p) leaf c CheckDupe g = Some ((q, err), c', g')"
    using run_sequenced [OF ln, of g c leaf] bucket_logD(3) [OF assms(1)] by (auto simp: sequenced_def)
  have "seq_at (gc_bucket c) m (objs g (gc_bucket c)) (JoinPair p) leaf c CheckDupe g" using assms(3) by (simp add: seq_at_def)
  then show ?thesis using that [of q err c' g' p] p ln run_at [OF assms(1) ln r] r by (simp add: gcp_Sequence_def)
qed

end

lemma new_entry_log:
  assumes "bucket_log N h origin m mp" "m < 2 ^ 64 - 1"
  shows "bucket_log N h origin (m + 1) (put_obj (JoinPair (SeqPath [] (of_nat m))) leaf mp)"
    "obj_extends h m mp (m + 1) (put_obj (JoinPair (SeqPath [] (of_nat m))) leaf mp)"
proof -
  let ?mp = "put_obj (JoinPair (SeqPath [] (of_nat m))) leaf mp"
  note d = bucket_logD [OF assms(1)]
  have um: "unat (of_nat m :: u64) = m" using d(4) by (rule unat_of_nat_u64)
  have "of_nat m \<noteq> (- 1 :: u64)" using um unat_minus_1_u64 assms(2) by (metis less_irrefl)
  then have room: "obj_room [] ?mp" using d(3) put_obj_seq(3) [of "[]" "of_nat m" leaf mp] by blast
  have e: "obj_entry [] ?mp = (obj_entry [] mp)(m \<mapsto> leaf)" using put_obj_seq(2) [of "[]" "of_nat m" leaf mp] unfolding um .
  have none: "obj_entry [] mp (m + 1) = None" using d(2) [of "m + 1"] by simp
  have "obj_ready h k (m + 1) ?mp" if "obj_ready h k m mp" for k
    by (rule log_ready_grow [where sinv = "obj_room []" and tv = "obj_tv []" and entry = "obj_entry []", OF that room put_obj_seq(1) e none])
  then show x: "obj_extends h m mp (m + 1) ?mp" using e by (simp add: obj_extends_def agree_def)
  have "\<forall>j \<ge> m + 1. obj_entry [] ?mp j = None"
  proof (intro allI impI)
    fix j assume "m + 1 \<le> j"
    then show "obj_entry [] ?mp j = None" unfolding e using d(2) [of j] by auto
  qed
  moreover have "?mp CheckpointPath = mp CheckpointPath" by (simp add: put_obj_def)
  ultimately show "bucket_log N h origin (m + 1) ?mp" by (intro bucket_log_keep [OF assms(1) x]) auto
qed

lemma leaf_obj_log:
  assumes "bucket_log N h origin m mp" "leaf_name n"
  shows "bucket_log N h origin m (put_obj n b mp)" "obj_extends h m mp m (put_obj n b mp)"
  using same_log_objects [OF assms(1), of "put_obj n b mp"] leaf_name_neq [OF assms(2)] by (auto simp: put_obj_def)

context gcs_service
begin

lemma seq_at_log:
  assumes "bucket_log N h origin m mp" "m < 2 ^ 64 - 1" "leaf_name n" "seq_at B m mp n leaf c (Returned q err) g"
  shows "\<exists>m'. m \<le> m' \<and> m' \<le> m + 1 \<and> bucket_log N h origin m' (objs g B) \<and> obj_extends h m mp m' (objs g B) \<and> unat (gc_nextSeq c) \<le> m'"
proof -
  let ?new = "put_obj (JoinPair (SeqPath [] (of_nat m))) leaf mp"
  note new = new_entry_log [OF assms(1,2), of leaf]
  have nx: "unat (gc_nextSeq c) \<le> m" using assms(4) by (simp add: seq_at_def)
  consider "objs g B = mp" | "objs g B = ?new" | i where "objs g B = put_obj n i ?new"
    using assms(4) by (auto simp: seq_at_def Let_def)
  then show ?thesis
  proof cases
    case 1
    then show ?thesis using assms(1) nx by (intro exI [of _ m]) simp
  next
    case 2
    then show ?thesis using new nx by (intro exI [of _ "m + 1"]) simp
  next
    case 3
    then show ?thesis using leaf_obj_log [OF new(1) assms(3)] obj_extends_trans [OF new(2)] nx by (intro exI [of _ "m + 1"]) simp
  qed
qed

end

text \<open>The log has an index object for the leaf hash of \<open>b\<close>.\<close>

definition known :: "hasher \<Rightarrow> objects \<Rightarrow> bytes \<Rightarrow> bool" where
  "known h mp b \<longleftrightarrow> (\<exists>p. LeafPath [] (HashLeaf h b) = Inr p \<and> mp (JoinPair p) \<noteq> None)"

text \<open>Objects that sequencing does not write.\<close>

definition uploaded :: "string \<Rightarrow> bool" where
  "uploaded n \<longleftrightarrow> \<not> leaf_name n \<and> (\<forall>q. n \<noteq> JoinPair (SeqPath [] q))"

lemma known_mono: "\<lbrakk>known h mp b; \<And>n. mp n \<noteq> None \<Longrightarrow> mp' n \<noteq> None\<rbrakk> \<Longrightarrow> known h mp' b"
  unfolding known_def by blast

text \<open>What a failed read of the checkpoint leaves is only a checkpoint if it is all of it, and without a verifier
  no checkpoint can be parsed.\<close>

definition rest_ok :: "('v, 's) note_lib \<Rightarrow> string \<Rightarrow> bytes \<Rightarrow> (bytes \<Rightarrow> string \<Rightarrow> (Checkpoint \<times> Note) res) \<Rightarrow> objects \<Rightarrow> bool" where
  "rest_ok N origin got nilv mp \<longleftrightarrow> (\<forall>v x. ParseCheckpoint N got origin v [] = Inr x \<longrightarrow> mp CheckpointPath = Some got) \<and>
     (\<forall>raw x. nilv raw origin \<noteq> Inr x)"

lemma LeafPath_long: "leaf_hashes_long h \<Longrightarrow> 3 < length (HashLeaf h b)"
  by (simp add: leaf_hashes_long_def)

text \<open>What a run of the loop over the listed objects has done.\<close>

definition loop_done :: "('v, 's) note_lib \<Rightarrow> hasher \<Rightarrow> string \<Rightarrow> string \<Rightarrow> nat \<Rightarrow> objects \<Rightarrow> string res list \<Rightarrow> nat \<Rightarrow> objects \<Rightarrow> bool \<Rightarrow> bool" where
  "loop_done N h origin dir m mp items m' mp' good \<longleftrightarrow> bucket_log N h origin m' mp' \<and> obj_extends h m mp m' mp' \<and>
     (\<forall>n. mp n \<noteq> None \<longrightarrow> mp' n \<noteq> None) \<and> (\<forall>n. uploaded n \<longrightarrow> mp' n = mp n) \<and>
     (good \<longrightarrow> (\<forall>name b. Inr name \<in> set items \<and> name \<noteq> dir \<and> uploaded name \<and> mp name = Some b \<longrightarrow> known h mp' b))"

lemma loop_done_stop: "bucket_log N h origin m mp \<Longrightarrow> loop_done N h origin dir m mp items m mp False"
  by (simp add: loop_done_def)

lemma loop_done_mono: "loop_done N h origin dir m mp items m' mp' good \<Longrightarrow> loop_done N h origin dir m mp items m' mp' False"
  by (simp add: loop_done_def)

lemma loop_done_cons:
  assumes "loop_done N h origin dir m mp [Inr name] m1 mp1 True" "loop_done N h origin dir m1 mp1 items m' mp' good"
  shows "loop_done N h origin dir m mp (Inr name # items) m' mp' good"
  unfolding loop_done_def
proof (intro conjI impI allI)
  show "obj_extends h m mp m' mp'" using assms obj_extends_trans unfolding loop_done_def by blast
next
  fix name' b assume good and n: "Inr name' \<in> set (Inr name # items) \<and> name' \<noteq> dir \<and> uploaded name' \<and> mp name' = Some b"
  have "mp1 name' = Some b" using assms(1) n unfolding loop_done_def by simp
  then have "known h mp' b \<or> name' = name" using assms(2) n \<open>good\<close> unfolding loop_done_def by auto
  moreover have "known h mp' b" if "name' = name"
  proof (rule known_mono)
    show "known h mp1 b" using assms(1) n that unfolding loop_done_def by auto
  qed (use assms(2) in \<open>simp add: loop_done_def\<close>)
  ultimately show "known h mp' b" by blast
qed (use assms in \<open>simp_all add: loop_done_def\<close>)

lemma put_obj_frame:
  assumes "mp' = mp \<or> mp' = put_obj (JoinPair (SeqPath [] q)) leaf mp \<or> (\<exists>i. mp' = put_obj n i (put_obj (JoinPair (SeqPath [] q)) leaf mp))" "leaf_name n"
  shows "mp k \<noteq> None \<Longrightarrow> mp' k \<noteq> None" "uploaded k \<Longrightarrow> mp' k = mp k"
  using assms by (auto simp: put_obj_def uploaded_def)

lemma w_Error_status [simp]: "hw_status (w_Error w msg code) \<noteq> None"
  by (simp add: w_Error_def)

context gcs_service
begin

lemma seq_at_done:
  assumes "bucket_log N h origin m mp" "m < 2 ^ 64 - 1" "LeafPath [] (HashLeaf h b) = Inr p" "leaf_name (JoinPair p)"
    "seq_at B m mp (JoinPair p) b c (Returned q err) g" "mp name = Some b"
  shows "\<exists>m'. m' \<le> m + 1 \<and> unat (gc_nextSeq c) \<le> m' \<and>
    loop_done N h origin dir m mp [Inr name] m' (objs g B) (\<forall>e. err = Some e \<longrightarrow> errors_Is e ErrDupeLeaf)"
proof -
  let ?S = "JoinPair (SeqPath [] (of_nat m))"
  have o: "objs g B = mp \<or> objs g B = put_obj ?S b mp \<or> (\<exists>i. objs g B = put_obj (JoinPair p) i (put_obj ?S b mp))"
    using assms(5) by (auto simp: seq_at_def Let_def)
  note fr = put_obj_frame [OF o assms(4)]
  have "known h (objs g B) b" if good: "\<forall>e. err = Some e \<longrightarrow> errors_Is e ErrDupeLeaf"
  proof -
    have "objs g B (JoinPair p) \<noteq> None"
      using assms(5) good service_errorD by (cases err) (auto simp: seq_at_def Let_def put_obj_def)
    then show ?thesis using assms(3) unfolding known_def by blast
  qed
  then show ?thesis using seq_at_log [OF assms(1,2,4,5)] fr assms(6) unfolding loop_done_def by auto
qed

lemma sequence_loop_done:
  "\<lbrakk>bucket_log N h origin m (objs g B); leaf_hashes_long h; gc_bucket c = B; unat (gc_nextSeq c) \<le> m; m + length items < 2 ^ 64 - 1\<rbrakk> \<Longrightarrow>
   \<exists>w' g' m'. gcf_sequence_loop G h dir c g w items = Some (None, w', g') \<and>
     loop_done N h origin dir m (objs g B) items m' (objs g' B) (hw_status w' = None)"
proof (induction items arbitrary: m c g)
  case Nil
  then show ?case by (intro exI [of _ w] exI [of _ g] exI [of _ m]) (simp add: loop_done_def)
next
  case (Cons it items)
  note stop = loop_done_stop [OF Cons.prems(1), of dir]
  show ?case
  proof (cases it)
    case (Inl e)
    then show ?thesis using stop by (intro exI [of _ "w_Error w ''Bucket.Objects'' 500"] exI [of _ g] exI [of _ m]) simp
  next
    case it: (Inr name)
    show ?thesis
    proof (cases "name = dir")
      case True
      obtain w' g' m' where "gcf_sequence_loop G h dir c g w items = Some (None, w', g')"
          "loop_done N h origin dir m (objs g B) items m' (objs g' B) (hw_status w' = None)"
        using Cons.IH [OF Cons.prems(1-4)] Cons.prems(5) by auto
      then show ?thesis using it True by (intro exI [of _ w'] exI [of _ g'] exI [of _ m']) (auto simp: loop_done_def)
    next
      case nd: False
      show ?thesis
      proof (cases "gcp_GetObjectData G c g name")
        case (Inl e)
        then show ?thesis using it nd stop
          by (intro exI [of _ "w_Error w ''Failed to get data of object'' 500"] exI [of _ g] exI [of _ m]) simp
      next
        case (Inr b)
        have nb: "objs g B name = Some b"
          using Inr Cons.prems(3) read_some [of g B name b] by (auto simp: gcp_GetObjectData_def split: sum.splits)
        obtain q err c' g1 p where s: "gcp_Sequence G c g (HashLeaf h b) b = Some ((q, err), c', g1)" "LeafPath [] (HashLeaf h b) = Inr p"
            "leaf_name (JoinPair p)" "seq_at B m (objs g B) (JoinPair p) b c' (Returned q err) g1"
          using Sequence_at [of N h origin m g c "HashLeaf h b" b] Cons.prems(1,3,4) LeafPath_long [OF Cons.prems(2)] by metis
        obtain m1 where m1: "m1 \<le> m + 1" "unat (gc_nextSeq c') \<le> m1"
            "loop_done N h origin dir m (objs g B) [Inr name] m1 (objs g1 B) (\<forall>e. err = Some e \<longrightarrow> errors_Is e ErrDupeLeaf)"
          using seq_at_done [OF Cons.prems(1) _ s(2-4) nb] Cons.prems(5) by auto
        have bk: "gc_bucket c' = B" "\<And>e. err = Some e \<Longrightarrow> \<not> is_panic e" using s(4) service_errorD by (auto simp: seq_at_def Let_def)
        show ?thesis
        proof (cases "\<forall>e. err = Some e \<longrightarrow> errors_Is e ErrDupeLeaf")
          case True
          have "bucket_log N h origin m1 (objs g1 B)" using m1(3) by (simp add: loop_done_def)
          from Cons.IH [OF this Cons.prems(2) bk(1) m1(2)] m1(1) Cons.prems(5)
          obtain w' g' m' where r: "gcf_sequence_loop G h dir c' g1 w items = Some (None, w', g')"
              "loop_done N h origin dir m1 (objs g1 B) items m' (objs g' B) (hw_status w' = None)" by auto
          have "gcf_sequence_loop G h dir c g w (it # items) = Some (None, w', g')"
            using it nd Inr s(1) r(1) True bk(2) by (cases err) auto
          then show ?thesis using loop_done_cons [OF _ r(2)] m1(3) True it by (intro exI [of _ w'] exI [of _ g'] exI [of _ m']) simp
        next
          case False
          then obtain e where e: "err = Some e" "\<not> errors_Is e ErrDupeLeaf" by blast
          then have "gcf_sequence_loop G h dir c g w (it # items) = Some (None, w_Error w ''Failed to sequence'' 500, g1)"
            using it nd Inr s(1) bk(2) by simp
          moreover have "loop_done N h origin dir m (objs g B) (it # items) m1 (objs g1 B) False" using m1(3) by (simp add: loop_done_def)
          ultimately show ?thesis by (intro exI [of _ "w_Error w ''Failed to sequence'' 500"] exI [of _ g1] exI [of _ m1]) simp
        qed
      qed
    qed
  qed
qed

lemma Sequence_function:
  assumes "bucket_log N h origin m (objs g B)" "leaf_hashes_long h" "\<And>d. dec r = Inr d \<Longrightarrow> sq_Bucket d = B \<and> sq_Origin d = origin"
    "\<And>d. dec r = Inr d \<Longrightarrow> m + length (g_Objects G g B (sq_EntriesDir d)) < 2 ^ 64 - 1"
  shows "\<exists>w' g' m'. gcf_Sequence G K N h env newc dec w r g = Some (None, w', g') \<and>
    (case dec r of Inl _ \<Rightarrow> w' = w_Error w ''Bad Request'' 400 \<and> g' = g \<and> m' = m
     | Inr d \<Rightarrow> loop_done N h origin (sq_EntriesDir d) m (objs g B) (g_Objects G g B (sq_EntriesDir d)) m' (objs g' B) (hw_status w' = None))"
proof (cases "dec r")
  case (Inl e)
  then show ?thesis by (simp add: gcf_Sequence_def)
next
  case d: (Inr d)
  let ?done = "\<lambda>w' g'. \<exists>m'. loop_done N h origin (sq_EntriesDir d) m (objs g B) (g_Objects G g B (sq_EntriesDir d)) m' (objs g' B) (hw_status w' = None)"
  have B: "sq_Bucket d = B" "sq_Origin d = origin" using assms(3) [OF d] by simp_all
  have stop: "?done (w_Error w0 msg code) g" for w0 msg code using loop_done_stop [OF assms(1)] by fastforce
  have "\<exists>w' g'. gcf_Sequence G K N h env newc dec w r g = Some (None, w', g') \<and> ?done w' g'"
  proof (cases "fst (fst (validateCommonArgs env w origin))")
    case False
    then obtain msg code where "validateCommonArgs env w origin = ((False, []), w_Error w msg code)"
      by (auto simp: validateCommonArgs_def Let_def split: if_splits)
    then show ?thesis using d B stop by (auto simp: gcf_Sequence_def)
  next
    case True
    then have v: "validateCommonArgs env w origin = ((True, env ''SERVERLESS_LOG_PUBLIC_KEY''), w)"
      by (auto simp: validateCommonArgs_def Let_def split: if_splits)
    note run = gcf_Sequence_def [of G K N h env newc dec w r g, unfolded d sum.case B v prod.case bool.case]
    show ?thesis
    proof (cases "gcp_NewClient newc (env ''GCP_PROJECT'') B")
      case (Inl e)
      then show ?thesis using run stop by auto
    next
      case c: (Inr c)
      then have cb: "gc_bucket c = B" by (auto simp: gcp_NewClient_def split: option.splits)
      show ?thesis
      proof (cases "\<exists>raw vf ck n. gcp_ReadCheckpoint G c g = Inr raw \<and> key_NewVerifier K (env ''SERVERLESS_LOG_PUBLIC_KEY'') = Inr vf \<and>
            ParseCheckpoint N raw origin vf [] = Inr (ck, n)")
        case False
        then show ?thesis using run c stop
          by (cases "gcp_ReadCheckpoint G c g"; cases "key_NewVerifier K (env ''SERVERLESS_LOG_PUBLIC_KEY'')")
            (auto split: sum.splits)
      next
        case True
        then obtain raw vf ck n where p: "gcp_ReadCheckpoint G c g = Inr raw" "key_NewVerifier K (env ''SERVERLESS_LOG_PUBLIC_KEY'') = Inr vf"
            "ParseCheckpoint N raw origin vf [] = Inr (ck, n)" by blast
        let ?c = "gcp_SetNextSeq c (Size ck)"
        have "objs g B CheckpointPath = Some raw" using p(1) read_some [of g B CheckpointPath raw] cb
          by (auto simp: gcp_ReadCheckpoint_def split: sum.splits)
        then have "obj_ready h (unat (Size ck)) m (objs g B)" using bucket_logD(5) [OF assms(1)] p(3) by (auto simp: obj_commits_def)
        then have "unat (gc_nextSeq ?c) \<le> m" using log_readyD(3) by (simp add: gcp_SetNextSeq_def)
        from sequence_loop_done [OF assms(1,2) _ this assms(4) [OF d], of "sq_EntriesDir d" w] cb
        show ?thesis using run c p by (auto simp: gcp_SetNextSeq_def gcp_GetObjects_def)
      qed
    qed
  qed
  then show ?thesis using d by fastforce
qed

subsection \<open>Integrate\<close>

text \<open>Integration changes tiles only.\<close>

definition gcp_at :: "gcsClient \<Rightarrow> objects \<Rightarrow> gcsClient \<times> 'a \<Rightarrow> bool" where
  "gcp_at c n s \<longleftrightarrow> gcp_inv objs s \<and> fst s = c \<and> (\<forall>k. (\<forall>x y ps. k \<noteq> JoinPair (TilePath [] x y ps)) \<longrightarrow> objs (snd s) (gc_bucket c) k = n k)"

lemma at_storage: "log_storage (gcp_storage G) (gcp_at c n) (gcp_view objs) (gcp_entries objs)"
proof (unfold_locales, goal_cases)
  case (3 s t x y err s')
  then obtain g' where g': "gcp_StoreTile G (fst s) (snd s) x y t = (err, g')" "s' = (fst s, g')"
    by (cases "gcp_StoreTile G (fst s) (snd s) x y t") (auto simp: gcp_storage_def case_prod_beta)
  have "gcp_put G c (snd s) (JoinPair (TilePath [] x y (NumLeaves t mod 256))) (MarshalText t) (wrapf ''failed to write tile object'') = (err, g')"
    using g'(1) 3 by (auto simp: gcp_StoreTile_def Let_def not_less gcp_at_def split: if_splits)
  from put_cases [OF this] have "\<forall>k. (\<forall>x y ps. k \<noteq> JoinPair (TilePath [] x y ps)) \<longrightarrow> objs g' (gc_bucket c) k = objs (snd s) (gc_bucket c) k"
    by (auto simp: put_obj_def)
  then show ?case using 3 log.store [of s t x y err s'] g'(2) by (simp add: gcp_at_def)
qed (use log.get_some log.get_none log.scan log.entry_bound in \<open>auto simp: gcp_at_def\<close>)

lemma Integrate_objects:
  assumes "compact_range (RF (HashChildren h)) (HashChildren h) rep" "permutes iter" "nonempty_hashes h"
    "obj_ready h (unat (Size ck)) m (objs g (gc_bucket c))" "Integrate RF iter (gcp_storage G) h ck (c, g) = (r, c1, g1)"
  shows "c1 = c" "\<lbrakk>\<And>x y ps. k \<noteq> JoinPair (TilePath [] x y ps)\<rbrakk> \<Longrightarrow> objs g1 (gc_bucket c) k = objs g (gc_bucket c) k"
    "integrated (obj_room []) (obj_tv []) (obj_entry []) h (unat (Size ck)) m (objs g (gc_bucket c)) r (objs g1 (gc_bucket c))"
proof -
  let ?mp = "objs g (gc_bucket c)"
  have rd: "log_ready (gcp_at c ?mp) (gcp_view objs) (gcp_entries objs) h (unat (Size ck)) m (c, g)"
    using assms(4) by (simp add: log_ready_def gcp_at_def gcp_defs)
  note i = log_storage.Integrate_sound [OF at_storage assms(1-3) rd assms(5)]
  then have "log_ready (gcp_at c ?mp) (gcp_view objs) (gcp_entries objs) h (unat (Size ck)) m (c1, g1)"
    using rd log_readyD(3) [OF rd] unfolding integrated_def by blast
  then have a: "gcp_at c ?mp (c1, g1)" by (simp add: log_ready_def)
  then show c1: "c1 = c" and "\<lbrakk>\<And>x y ps. k \<noteq> JoinPair (TilePath [] x y ps)\<rbrakk> \<Longrightarrow> objs g1 (gc_bucket c) k = ?mp k" by (simp_all add: gcp_at_def)
  have rd2: "log_ready (gcp_inv objs) (gcp_view objs) (gcp_entries objs) h (unat (Size ck)) m (c, g)" using assms(4) by (simp add: log_ready_objs)
  show "integrated (obj_room []) (obj_tv []) (obj_entry []) h (unat (Size ck)) m ?mp r (objs g1 (gc_bucket c))"
    using Integrate_bucket [OF assms(1-3) rd2 assms(5)] unfolding c1 integrated_def log_ready_objs
    by (auto simp: gcp_entries_def split: sum.splits option.splits)
qed

lemma signAndWrite_objects:
  assumes "gcf_signAndWrite G N ck nt s c origin g = (err, g')"
  shows "objs g' (gc_bucket c) = objs g (gc_bucket c) \<and> err \<noteq> None \<or>
    (\<exists>raw. note_Sign N (nt\<lparr>NoteText := MarshalCheckpoint N (ck\<lparr>Origin := origin\<rparr>)\<rparr>) [s] = Inr raw \<and>
       objs g' (gc_bucket c) = put_obj CheckpointPath raw (objs g (gc_bucket c)))"
proof (cases "note_Sign N (nt\<lparr>NoteText := MarshalCheckpoint N (ck\<lparr>Origin := origin\<rparr>)\<rparr>) [s]")
  case (Inl e)
  then show ?thesis using assms by (auto simp: gcf_signAndWrite_def Let_def)
next
  case (Inr raw)
  obtain e1 g1 where w: "gcp_WriteCheckpoint G c g raw = (e1, g1)" by fastforce
  have "g' = g1" "err = None \<longleftrightarrow> e1 = None" using assms Inr w by (auto simp: gcf_signAndWrite_def Let_def split: option.splits)
  then show ?thesis using put_cases [OF w [unfolded gcp_WriteCheckpoint_def]] Inr by auto
qed

text \<open>A new checkpoint over entries whose tree the tiles hold.\<close>

lemma checkpoint_log:
  assumes "checkpoint_notes N" "bucket_log N h origin m mp" "note_Sign N (empty_note\<lparr>NoteText := MarshalCheckpoint N ck\<rparr>) [s] = Inr raw"
    "Origin ck = origin" "obj_ready h (unat (Size ck)) m mp" "Hash ck = tree_root h (leaf_fn h (obj_entry [] mp)) (unat (Size ck))"
  shows "bucket_log N h origin m (put_obj CheckpointPath raw mp) \<and> obj_extends h m mp m (put_obj CheckpointPath raw mp)"
proof -
  let ?mp = "put_obj CheckpointPath raw mp"
  have e: "obj_tv [] ?mp = obj_tv [] mp" "obj_entry [] ?mp = obj_entry [] mp" "obj_room [] ?mp = obj_room [] mp" by (rule put_obj_other; simp)+
  have "c = ck" if "ParseCheckpoint N raw origin v [] = Inr (c, n)" for v c n
    using checkpoint_notes.parse_signed [OF assms(1,3)] that assms(4) by blast
  then have "obj_commits N h origin m ?mp raw" using assms(5,6) unfolding obj_commits_def log_ready_def e by blast
  then have "\<And>r. ?mp CheckpointPath = Some r \<Longrightarrow> mp CheckpointPath = Some r \<or> obj_commits N h origin m ?mp r" by (simp add: put_obj_def)
  moreover have "\<forall>n. (\<exists>q. n = JoinPair (SeqPath [] q)) \<or> (\<exists>x y ps. n = JoinPair (TilePath [] x y ps)) \<longrightarrow> ?mp n = mp n" by (auto simp: put_obj_def)
  ultimately show ?thesis using same_log_objects [OF assms(2), of ?mp] by blast
qed

lemma Create_objects: "gcp_Create G c g bkt = (err, c1, g1) \<Longrightarrow> objs g1 = objs g \<and> (err = None \<longrightarrow> gc_bucket c1 = bkt)"
  using create [of g bkt "gc_projectID c"] acl by (auto simp: gcp_Create_def split: option.splits if_splits prod.splits)

lemma initialise_log:
  assumes "checkpoint_notes N" "bucket_log N h origin m (objs g B)" "ir_Bucket d = B" "ir_Origin d = origin"
    "gcf_initialise G N h d s c w g = (w', g')"
  shows "bucket_log N h origin m (objs g' B) \<and> obj_extends h m (objs g B) m (objs g' B)"
proof -
  obtain e1 c1 g1 where cr: "gcp_Create G c g B = (e1, c1, g1)" by (metis prod_cases3)
  note o = Create_objects [OF cr]
  show ?thesis
  proof (cases e1)
    case (Some e)
    then show ?thesis using assms(2,3,5) cr o by (simp add: gcf_initialise_def)
  next
    case None
    let ?ck = "\<lparr>Origin = [], Size = 0, Hash = EmptyRoot h\<rparr>"
    obtain e2 g2 where sw: "gcf_signAndWrite G N ?ck empty_note s c1 origin g1 = (e2, g2)" by fastforce
    have g': "g' = g2" using assms(3-5) cr None sw by (simp add: gcf_initialise_def)
    have cb: "gc_bucket c1 = B" using o None by simp
    have "bucket_log N h origin m (put_obj CheckpointPath raw (objs g B)) \<and> obj_extends h m (objs g B) m (put_obj CheckpointPath raw (objs g B))"
      if "note_Sign N (empty_note\<lparr>NoteText := MarshalCheckpoint N (?ck\<lparr>Origin := origin\<rparr>)\<rparr>) [s] = Inr raw" for raw
      using checkpoint_log [OF assms(1,2) that] bucket_logD(1) [OF assms(2)] by (simp add: tree_root_def)
    then show ?thesis using signAndWrite_objects [OF sw, unfolded cb] o assms(2) g' by auto
  qed
qed

lemma run_log:
  assumes "checkpoint_notes N" "compact_range (RF (HashChildren h)) (HashChildren h) rep" "permutes iter" "nonempty_hashes h"
    "bucket_log N h origin m (objs g B)" "rest_ok N origin got nilv (objs g B)" "gc_bucket c = B" "ir_Origin d = origin"
    "gcf_run G K N RF iter h got nilv d pubKey s c w g = (p, w', g')"
  shows "bucket_log N h origin m (objs g' B) \<and> obj_extends h m (objs g B) m (objs g' B) \<and>
    (p = None \<and> hw_status w' = None \<longrightarrow> (\<exists>raw. note_Sign N (empty_note\<lparr>NoteText := MarshalCheckpoint N
         \<lparr>Origin = origin, Size = of_nat m, Hash = mth (HashChildren h) (leaf_fn h (obj_entry [] (objs g B))) 0 m\<rparr>\<rparr>) [s] = Inr raw \<and>
       objs g' B CheckpointPath = Some raw \<and> obj_ready h m m (objs g' B)))"
proof -
  obtain raw w1 where rw: "(case gcp_ReadCheckpoint G c g of Inl e \<Rightarrow> (got, w_Error w ''Failed to read log checkpoint'' 500) | Inr raw \<Rightarrow> (raw, w)) = (raw, w1)"
    by fastforce
  obtain parsed w2 where pw: "(case key_NewVerifier K pubKey of Inl e \<Rightarrow> (nilv raw origin, w_Error w1 ''Failed to instantiate Verifier'' 500)
      | Inr v \<Rightarrow> (ParseCheckpoint N raw origin v [], w1)) = (parsed, w2)" by fastforce
  note run = assms(9) [unfolded gcf_run_def assms(8) Let_def rw prod.case pw]
  show ?thesis
  proof (cases parsed)
    case (Inl e)
    then show ?thesis using run assms(5) by (auto split: if_splits)
  next
    case (Inr x)
    obtain ck n where x: "x = (ck, n)" by fastforce
    obtain v where v: "key_NewVerifier K pubKey = Inr v" "ParseCheckpoint N raw origin v [] = Inr (ck, n)" "w2 = w1"
      using pw Inr x assms(6) by (cases "key_NewVerifier K pubKey") (auto simp: rest_ok_def)
    have "objs g B CheckpointPath = Some raw"
    proof (cases "gcp_ReadCheckpoint G c g")
      case (Inl e)
      then show ?thesis using rw v(2) assms(6) by (auto simp: rest_ok_def)
    next
      case (Inr r)
      then show ?thesis using rw read_some [of g B CheckpointPath r] assms(7) by (auto simp: gcp_ReadCheckpoint_def split: sum.splits)
    qed
    then have rd: "obj_ready h (unat (Size ck)) m (objs g (gc_bucket c))"
      using bucket_logD(5) [OF assms(5)] v(2) assms(7) by (auto simp: obj_commits_def)
    obtain r c1 g1 where i: "Integrate RF iter (gcp_storage G) h ck (c, g) = (r, c1, g1)" by (metis prod_cases3)
    note io = Integrate_objects [OF assms(2-4) rd i, unfolded assms(7)]
    have e1: "obj_entry [] (objs g1 B) = obj_entry [] (objs g B)" using io(3) by (simp add: integrated_def)
    have "obj_ready h k m (objs g1 B)" if "obj_ready h k m (objs g B)" for k
      using io(3) log_readyD(3) [OF that] that unfolding integrated_def by blast
    then have x1: "obj_extends h m (objs g B) m (objs g1 B)" using e1 by (simp add: obj_extends_def agree_def)
    have cp1: "objs g1 B CheckpointPath = objs g B CheckpointPath" by (rule io(2)) simp
    have l1: "bucket_log N h origin m (objs g1 B)"
      by (rule bucket_log_keep [OF assms(5) x1]) (use e1 cp1 assms(5) in \<open>simp_all add: bucket_log_def\<close>)
    show ?thesis
    proof (cases "\<exists>nc. r = Inr (Some nc)")
      case False
      then show ?thesis using run Inr x i l1 x1 by (auto split: sum.splits option.splits if_splits)
    next
      case True
      let ?nc = "\<lparr>Origin = [], Size = of_nat m, Hash = mth (HashChildren h) (leaf_fn h (obj_entry [] (objs g B))) 0 m\<rparr>"
      have r: "r = Inr (Some ?nc)" "0 < m" "obj_ready h m m (objs g1 B)" using True io(3) by (auto simp: integrated_def)
      obtain e2 g2 where sw: "gcf_signAndWrite G N ?nc empty_note s c1 origin g1 = (e2, g2)" by fastforce
      have res: "g' = g2" "p = None" "w' = (if e2 = None then w2 else w_Error w2 ''Failed to sign'' 500)" using run Inr x i r(1) sw by auto
      have um: "unat (of_nat m :: u64) = m" using bucket_logD(4) [OF assms(5)] by (rule unat_of_nat_u64)
      have new: "bucket_log N h origin m (put_obj CheckpointPath rw (objs g1 B)) \<and> obj_extends h m (objs g1 B) m (put_obj CheckpointPath rw (objs g1 B))"
        if "note_Sign N (empty_note\<lparr>NoteText := MarshalCheckpoint N (?nc\<lparr>Origin := origin\<rparr>)\<rparr>) [s] = Inr rw" for rw
        using checkpoint_log [OF assms(1) l1 that] r(2,3) e1 um by (simp add: tree_root_def)
      have c1: "gc_bucket c1 = B" using io(1) assms(7) by simp
      from signAndWrite_objects [OF sw, unfolded c1] show ?thesis
      proof (elim disjE exE conjE)
        assume "objs g2 B = objs g1 B" "e2 \<noteq> None"
        then show ?thesis using l1 x1 res by auto
      next
        fix rw assume rw: "note_Sign N (empty_note\<lparr>NoteText := MarshalCheckpoint N (?nc\<lparr>Origin := origin\<rparr>)\<rparr>) [s] = Inr rw"
          and o: "objs g2 B = put_obj CheckpointPath rw (objs g1 B)"
        note nw = new [OF rw]
        have "objs g' B CheckpointPath = Some rw" using res(1) o by (simp add: put_obj_def)
        moreover have "obj_ready h m m (objs g' B)" using nw r(3) res(1) o by (simp add: obj_extends_def)
        ultimately show ?thesis using nw obj_extends_trans [OF x1] res(1) o rw by auto
      qed
    qed
  qed
qed

lemma Integrate_function:
  assumes "checkpoint_notes N" "compact_range (RF (HashChildren h)) (HashChildren h) rep" "permutes iter" "nonempty_hashes h"
    "bucket_log N h origin m (objs g B)" "rest_ok N origin got nilv (objs g B)" "\<And>d. dec r = Inr d \<Longrightarrow> ir_Bucket d = B \<and> ir_Origin d = origin"
    "gcf_Integrate G K N RF iter h env newc got nilv dec w r g = (p, w', g')"
  shows "bucket_log N h origin m (objs g' B) \<and> obj_extends h m (objs g B) m (objs g' B)"
proof (cases "g' = g")
  case True
  then show ?thesis using assms(5) by simp
next
  case False
  obtain d where d: "dec r = Inr d" using assms(8) False by (cases "dec r") (simp_all add: gcf_Integrate_def)
  note B = assms(7) [OF d]
  obtain b pubKey w1 where v: "validateCommonArgs env w origin = ((b, pubKey), w1)" by (metis surj_pair)
  define w2 where "w2 = (if length (env ''SERVERLESS_LOG_PRIVATE_KEY'') = 0
    then w_Error w1 ''Please set SERVERLESS_LOG_PUBLIC_KEY environment variable'' 400 else w1)"
  have b: "b" using assms(8) False d B v by (cases b) (simp_all add: gcf_Integrate_def)
  note run = assms(8) [unfolded gcf_Integrate_def d sum.case B [THEN conjunct2] v b [THEN eqTrueI] prod.case bool.case Let_def, folded w2_def]
  obtain s where s: "key_NewSigner K (env ''SERVERLESS_LOG_PRIVATE_KEY'') = Inr s"
    using run False by (cases "key_NewSigner K (env ''SERVERLESS_LOG_PRIVATE_KEY'')") auto
  obtain c where c: "gcp_NewClient newc (env ''GCP_PROJECT'') B = Inr c"
    using run False s B by (cases "gcp_NewClient newc (env ''GCP_PROJECT'') B") auto
  have k: "gc_bucket c = B"
      "(p, w', g') = (if ir_Initialise d then (None, gcf_initialise G N h d s c w2 g) else gcf_run G K N RF iter h got nilv d pubKey s c w2 g)"
    using run s c B by (auto simp: gcp_NewClient_def split: option.splits)
  show ?thesis
  proof (cases "ir_Initialise d")
    case True
    then show ?thesis using initialise_log [OF assms(1,5), of d s c w2 w' g'] B k(2) by simp
  next
    case False
    then have "gcf_run G K N RF iter h got nilv d pubKey s c w2 g = (p, w', g')" using k(2) by simp
    then show ?thesis using run_log [where RF = RF, OF assms(1-6) k(1)] B by blast
  qed
qed

end

subsection \<open>Calls of the functions\<close>

text \<open>A call of \<open>Integrate\<close> or \<open>Sequence\<close> for the log, or a change of objects that are not part of it.\<close>

inductive function_step ::
    "'g gcs \<Rightarrow> ('g \<Rightarrow> string \<Rightarrow> objects) \<Rightarrow> ('v, 's) key_lib \<Rightarrow> ('v, 's) note_lib \<Rightarrow> (hash_fn \<Rightarrow> 'r compact) \<Rightarrow> hasher \<Rightarrow> string \<Rightarrow> string \<Rightarrow>
     'g \<Rightarrow> 'g \<Rightarrow> bool" for G objs K N RF h origin B where
  call_integrate: "\<lbrakk>\<forall>d. dec body = Inr d \<longrightarrow> ir_Bucket d = B \<and> ir_Origin d = origin; permutes iter; rest_ok N origin got nilv (objs g B);
    gcf_Integrate G K N RF iter h env newc got nilv dec w (body :: string) g = (p, w', g')\<rbrakk> \<Longrightarrow> function_step G objs K N RF h origin B g g'"
| call_sequence: "\<lbrakk>\<forall>d. dec body = Inr d \<longrightarrow> sq_Bucket d = B \<and> sq_Origin d = origin \<and>
      card (dom (obj_entry [] (objs g B))) + length (g_Objects G g B (sq_EntriesDir d)) < 2 ^ 64 - 1;
    gcf_Sequence G K N h env newc dec w (body :: string) g = Some (p, w', g')\<rbrakk> \<Longrightarrow> function_step G objs K N RF h origin B g g'"
| upload: "\<forall>n. log_object n \<longrightarrow> objs g' B n = objs g B n \<Longrightarrow> function_step G objs K N RF h origin B g g'"

lemma bucket_log_card: "bucket_log N h origin m mp \<Longrightarrow> card (dom (obj_entry [] mp)) = m"
proof -
  assume "bucket_log N h origin m mp"
  from bucket_logD(2) [OF this] have "dom (obj_entry [] mp) = {..<m}" by (auto simp: dom_def)
  then show ?thesis by simp
qed

lemma function_step_log:
  assumes "gcs_service G objs" "checkpoint_notes N" "compact_range (RF (HashChildren h)) (HashChildren h) rep" "nonempty_hashes h"
    "leaf_hashes_long h" "bucket_log N h origin m (objs g B)" "function_step G objs K N RF h origin B g g'"
  shows "\<exists>m'. bucket_log N h origin m' (objs g' B) \<and> obj_extends h m (objs g B) m' (objs g' B)"
  using assms(7)
proof cases
  case (call_integrate dec body iter got nilv env newc w p w')
  then show ?thesis
    using gcs_service.Integrate_function [where RF = RF, OF assms(1-3) call_integrate(2) assms(4,6) call_integrate(3) _ call_integrate(4)] by blast
next
  case (call_sequence dec body env newc w p w')
  then obtain w1 m' where m': "case dec body of Inl _ \<Rightarrow> w1 = w_Error w ''Bad Request'' 400 \<and> g' = g \<and> m' = m
     | Inr d \<Rightarrow> loop_done N h origin (sq_EntriesDir d) m (objs g B) (g_Objects G g B (sq_EntriesDir d)) m' (objs g' B) (hw_status w1 = None)"
    using gcs_service.Sequence_function [OF assms(1,6,5), of dec body K env newc w] bucket_log_card [OF assms(6)] by auto
  show ?thesis
  proof (cases "dec body")
    case (Inl e)
    then show ?thesis using m' assms(6) by (intro exI [of _ m]) simp
  next
    case (Inr d)
    then show ?thesis using m' by (auto simp: loop_done_def)
  qed
next
  case upload
  then have "\<forall>n. (\<exists>q. n = JoinPair (SeqPath [] q)) \<or> (\<exists>x y ps. n = JoinPair (TilePath [] x y ps)) \<longrightarrow> objs g' B n = objs g B n"
    "objs g' B CheckpointPath = objs g B CheckpointPath" by (auto simp: log_object_def)
  from same_log_objects [OF assms(6) this(1)] this(2) show ?thesis by auto
qed

text \<open>C10: A log in a bucket over its life.  After any number of calls of the two cloud functions for it, with any
  request failing at any time, and of uploads of other objects, the entries are numbered without gaps, every tile
  is right, and the checkpoint commits to a prefix of the entries whose tree the tiles hold; entries keep their
  numbers, and checkpoints published before stay valid.\<close>

theorem functions_keep_bucket:
  assumes "gcs_service G objs" "checkpoint_notes N" "compact_range (RF (HashChildren h)) (HashChildren h) rep" "nonempty_hashes h"
    "leaf_hashes_long h" "bucket_log N h origin m (objs g B)" "(function_step G objs K N RF h origin B)\<^sup>*\<^sup>* g g'"
  shows "\<exists>m' \<ge> m. bucket_log N h origin m' (objs g' B) \<and> (\<forall>j < m. obj_entry [] (objs g' B) j = obj_entry [] (objs g B) j) \<and>
    (\<forall>raw. objs g B CheckpointPath = Some raw \<longrightarrow> obj_commits N h origin m' (objs g' B) raw)"
proof -
  have "\<exists>m'. bucket_log N h origin m' (objs g' B) \<and> obj_extends h m (objs g B) m' (objs g' B)"
    using assms(7)
  proof (induction rule: rtranclp_induct)
    case base
    show ?case using assms(6) obj_extends_refl by blast
  next
    case (step y z)
    then show ?case using function_step_log [where RF = RF, OF assms(1-5)] obj_extends_trans by metis
  qed
  then obtain m' where m': "bucket_log N h origin m' (objs g' B)" "obj_extends h m (objs g B) m' (objs g' B)" by blast
  have "obj_commits N h origin m' (objs g' B) raw" if "objs g B CheckpointPath = Some raw" for raw
    using obj_commits_keep [OF bucket_logD(5) [OF assms(6) that] m'(2)] .
  then show ?thesis using m' by (auto simp: obj_extends_def agree_def)
qed

text \<open>C15: The sequencing function always returns, and if it has reported no error then the log knows the leaf hash of
  every object that was uploaded to the directory of entries.\<close>

theorem gcf_Sequence_complete:
  assumes "gcs_service G objs" "leaf_hashes_long h" "dec body = Inr d" "bucket_log N h (sq_Origin d) m (objs g (sq_Bucket d))"
    "m + length (g_Objects G g (sq_Bucket d) (sq_EntriesDir d)) < 2 ^ 64 - 1"
  shows "\<exists>w' g'. gcf_Sequence G K N h env newc dec w body g = Some (None, w', g') \<and>
    (hw_status w' = None \<longrightarrow> (\<forall>name b. Inr name \<in> set (g_Objects G g (sq_Bucket d) (sq_EntriesDir d)) \<and> name \<noteq> sq_EntriesDir d \<and> uploaded name \<and>
       objs g (sq_Bucket d) name = Some b \<longrightarrow> known h (objs g' (sq_Bucket d)) b))"
  using gcs_service.Sequence_function [OF assms(1,4,2), of dec body K env newc w] assms(3,5) by (auto simp: loop_done_def)

lemma gcf_Integrate_calls_run:
  assumes "dec body = Inr d" "\<not> ir_Initialise d" "gcf_Integrate G K N RF iter h env newc got nilv dec w body g = (p, w', g')"
  shows "(hw_status w' \<noteq> None \<and> p = None \<and> g' = g) \<or>
    (\<exists>s c w2. key_NewSigner K (env ''SERVERLESS_LOG_PRIVATE_KEY'') = Inr s \<and> gc_bucket c = ir_Bucket d \<and>
       gcf_run G K N RF iter h got nilv d (env ''SERVERLESS_LOG_PUBLIC_KEY'') s c w2 g = (p, w', g'))"
proof (cases "fst (fst (validateCommonArgs env w (ir_Origin d)))")
  case False
  then obtain msg code where "validateCommonArgs env w (ir_Origin d) = ((False, []), w_Error w msg code)"
    by (auto simp: validateCommonArgs_def Let_def split: if_splits)
  then show ?thesis using assms by (auto simp: gcf_Integrate_def w_Error_def)
next
  case True
  then have v: "validateCommonArgs env w (ir_Origin d) = ((True, env ''SERVERLESS_LOG_PUBLIC_KEY''), w)"
    by (auto simp: validateCommonArgs_def Let_def split: if_splits)
  note run = assms(3) [unfolded gcf_Integrate_def assms(1) sum.case v prod.case bool.case Let_def]
  show ?thesis
  proof (cases "key_NewSigner K (env ''SERVERLESS_LOG_PRIVATE_KEY'')")
    case (Inl e)
    then show ?thesis using run by (auto simp: w_Error_def)
  next
    case s: (Inr s)
    show ?thesis
    proof (cases "gcp_NewClient newc (env ''GCP_PROJECT'') (ir_Bucket d)")
      case (Inl e)
      then show ?thesis using run s by (auto simp: w_Error_def)
    next
      case (Inr c)
      then have "gc_bucket c = ir_Bucket d" by (auto simp: gcp_NewClient_def split: option.splits)
      then show ?thesis using run s Inr assms(2) by (intro disjI2 exI conjI) auto
    qed
  qed
qed

text \<open>If a call of the integrating function neither panics nor reports an error, the bucket has the signed
  checkpoint of all sequenced entries, over tiles that hold their tree.\<close>

theorem gcf_Integrate_publishes:
  assumes "gcs_service G objs" "checkpoint_notes N" "compact_range (RF (HashChildren h)) (HashChildren h) rep" "permutes iter" "nonempty_hashes h"
    "dec body = Inr d" "\<not> ir_Initialise d" "bucket_log N h (ir_Origin d) m (objs g (ir_Bucket d))" "rest_ok N (ir_Origin d) got nilv (objs g (ir_Bucket d))"
    "gcf_Integrate G K N RF iter h env newc got nilv dec w body g = (None, w', g')" "hw_status w' = None"
  shows "\<exists>s raw. key_NewSigner K (env ''SERVERLESS_LOG_PRIVATE_KEY'') = Inr s \<and>
    note_Sign N (empty_note\<lparr>NoteText := MarshalCheckpoint N
      \<lparr>Origin = ir_Origin d, Size = of_nat m, Hash = mth (HashChildren h) (leaf_fn h (obj_entry [] (objs g (ir_Bucket d)))) 0 m\<rparr>\<rparr>) [s] = Inr raw \<and>
    objs g' (ir_Bucket d) CheckpointPath = Some raw \<and> obj_ready h m m (objs g' (ir_Bucket d))"
proof -
  obtain s c w2 where r: "key_NewSigner K (env ''SERVERLESS_LOG_PRIVATE_KEY'') = Inr s" "gc_bucket c = ir_Bucket d"
      "gcf_run G K N RF iter h got nilv d (env ''SERVERLESS_LOG_PUBLIC_KEY'') s c w2 g = (None, w', g')"
    using gcf_Integrate_calls_run [OF assms(6,7,10)] assms(11) by blast
  show ?thesis using gcs_service.run_log [where RF = RF, OF assms(1-5,8,9) r(2) refl r(3)] assms(11) r(1) by blast
qed

text \<open>C29: When every entry is already integrated, the integrating function reports that there is nothing to do and then
  panics, because it goes on to sign a checkpoint that is nil.\<close>

theorem gcf_Integrate_idle_panics:
  assumes "gcs_service G objs" "compact_range (RF (HashChildren h)) (HashChildren h) rep" "permutes iter" "nonempty_hashes h"
    "dec body = Inr d" "\<not> ir_Initialise d" "ir_Origin d \<noteq> []" "env ''SERVERLESS_LOG_PUBLIC_KEY'' \<noteq> []" "env ''SERVERLESS_LOG_PRIVATE_KEY'' \<noteq> []"
    "key_NewSigner K (env ''SERVERLESS_LOG_PRIVATE_KEY'') = Inr s" "key_NewVerifier K (env ''SERVERLESS_LOG_PUBLIC_KEY'') = Inr v"
    "gcp_NewClient newc (env ''GCP_PROJECT'') (ir_Bucket d) = Inr c" "gcp_ReadCheckpoint G c g = Inr raw"
    "ParseCheckpoint N raw (ir_Origin d) v [] = Inr (ck, n)" "bucket_log N h (ir_Origin d) (unat (Size ck)) (objs g (ir_Bucket d))"
    "is_ok (fst (Integrate RF iter (gcp_storage G) h ck (c, g)))"
  shows "\<exists>g'. gcf_Integrate G K N RF iter h env newc got nilv dec w body g = (Some nil_deref, w_Error w ''Nothing to integrate'' 500, g') \<and>
    objs g' (ir_Bucket d) = objs g (ir_Bucket d)"
proof -
  have cb: "gc_bucket c = ir_Bucket d" using assms(12) by (auto simp: gcp_NewClient_def split: option.splits)
  have "objs g (ir_Bucket d) CheckpointPath = Some raw"
    using assms(13) gcs_bucket.read_some [OF gcs_service.axioms(1) [OF assms(1)], of g "ir_Bucket d" CheckpointPath raw] cb
    by (auto simp: gcp_ReadCheckpoint_def split: sum.splits)
  then have rd: "obj_ready h (unat (Size ck)) (unat (Size ck)) (objs g (gc_bucket c))"
    using bucket_logD(5) [OF assms(15)] assms(14) cb by (auto simp: obj_commits_def)
  obtain r c1 g1 where i: "Integrate RF iter (gcp_storage G) h ck (c, g) = (r, c1, g1)" by (metis prod_cases3)
  note io = gcs_service.Integrate_objects(3) [where RF = RF, OF assms(1-4) rd i, unfolded cb]
  have "r = Inr None" "objs g1 (ir_Bucket d) = objs g (ir_Bucket d)"
    using io assms(16) i by (auto simp: integrated_def split: sum.splits option.splits)
  then show ?thesis using assms(5-14) i by (auto simp: gcf_Integrate_def validateCommonArgs_def gcf_run_def Let_def)
qed

end
