(* ===== verification/FunctionExamples.thy ===== *)
theory FunctionExamples
  imports GcpFunctionProofs ClientExamples
begin

section \<open>The cloud functions at concrete inputs\<close>

interpretation lsvc: gcs_service list_gcs list_objs
  by unfold_locales
    (auto simp: list_gcs_def service_error_def ErrDupeLeaf_def ErrObjectNotExist_def ErrPreconditionFailed_def split: option.splits if_splits)

text \<open>A bucket with one uploaded object and a checkpoint of the empty tree.\<close>

definition zero_cp :: Checkpoint where
  "zero_cp = \<lparr>Origin = ''o'', Size = 0, Hash = ''E''\<rparr>"

definition zero_raw :: bytes where
  "zero_raw = MarshalCheckpoint line_notes zero_cp"

definition demo_bucket :: "((string \<times> string) \<times> bytes) list" where
  "demo_bucket = [((''b'', CheckpointPath), zero_raw), ((''b'', ''xa''), ''x'')]"

lemma zero_parse: "ParseCheckpoint line_notes zero_raw ''o'' v [] = Inr (zero_cp, empty_note)"
  using line_parse [of zero_cp v] by (simp add: zero_raw_def zero_cp_def)

lemma object_slash:
  assumes "object_ok ob" "object_path [] ob = Inr p" "1 < length (object_comps ob)"
  shows "slash \<in> set p"
proof -
  obtain a b cs where c: "object_comps ob = a # b # cs" using assms(3) by (cases "object_comps ob"; cases "tl (object_comps ob)") auto
  have "p = path_of False (object_comps ob)"
    using object_path_comps [OF assms(1), of "[]"] assms(2) by (simp add: root_comps_def is_rooted_def has_prefix_def clean_comps_def clean_push_def)
  then show ?thesis by (simp add: c path_of_def join_with_Cons Let_def)
qed

lemma bucket_names:
  "''xa'' \<noteq> JoinPair (SeqPath [] q)" "''xa'' \<noteq> JoinPair (TilePath [] x y ps)" "\<not> leaf_name ''xa''" "''xa'' \<noteq> CheckpointPath"
proof -
  have s: "slash \<notin> set ''xa''" by simp
  have "slash \<in> set (JoinPair (SeqPath [] q))" "slash \<in> set (JoinPair (TilePath [] x y ps))"
    using object_slash [of "SeqObj q"] object_slash [of "TileObj x y ps"] by (simp_all add: seq_comps_def tile_comps_def)
  then show "''xa'' \<noteq> JoinPair (SeqPath [] q)" "''xa'' \<noteq> JoinPair (TilePath [] x y ps)" using s by metis+
  show "\<not> leaf_name ''xa''"
  proof
    assume "leaf_name ''xa''"
    then obtain lh p where "LeafPath [] lh = Inr p" "3 < length lh" "''xa'' = JoinPair p" by (auto simp: leaf_name_def)
    then show False using object_slash [of "LeafObj lh" "''xa''"] s by (simp add: leaf_comps_def)
  qed
qed (simp add: CheckpointPath_def)

lemma demo_objs: "list_objs demo_bucket ''b'' = [CheckpointPath \<mapsto> zero_raw, ''xa'' \<mapsto> ''x'']"
  using bucket_names(4) by (auto simp: list_objs_def demo_bucket_def fun_eq_iff)

lemma demo_bucket_log: "bucket_log line_notes long_hasher ''o'' 0 (list_objs demo_bucket ''b'')"
proof -
  let ?mp = "list_objs demo_bucket ''b''"
  have n: "?mp (JoinPair (SeqPath [] q)) = None" "?mp (JoinPair (TilePath [] x y ps)) = None" for q x y ps
    using bucket_names(1) [of q] bucket_names(2) [of x y ps] by (auto simp: demo_objs)
  have e: "obj_entry [] ?mp = (\<lambda>_. None)" "obj_tv [] ?mp = (\<lambda>x y ps. None)" "obj_room [] ?mp"
    by (simp_all add: fun_eq_iff obj_entry_def obj_tv_def obj_room_def n)
  have rd: "obj_ready long_hasher 0 0 ?mp"
    by (rule empty_log_ready [where sinv = "obj_room []" and view = "obj_tv []" and entry = "obj_entry []", OF e(3,2)])
      (simp add: e log_length_def)
  have "obj_commits line_notes long_hasher ''o'' 0 ?mp zero_raw"
    using rd by (auto simp: obj_commits_def zero_parse zero_cp_def tree_root_def long_hasher_def)
  then show ?thesis using rd e bucket_names(4) by (auto simp: bucket_log_def demo_objs)
qed

definition seq_dec :: "string \<Rightarrow> sequence_request res" where
  "seq_dec _ = Inr \<lparr>sq_Bucket = ''b'', sq_EntriesDir = ''x'', sq_Origin = ''o''\<rparr>"

lemma demo_items: "g_Objects list_gcs demo_bucket ''b'' ''x'' = [Inr ''xa'']"
  by (simp add: list_gcs_def demo_bucket_def CheckpointPath_def has_prefix_def)

definition int_dec :: "string \<Rightarrow> integrate_request res" where
  "int_dec _ = Inr \<lparr>ir_Origin = ''o'', ir_Initialise = False, ir_Bucket = ''b''\<rparr>"

definition fresh_writer :: responseWriter where
  "fresh_writer = \<lparr>hw_status = None, hw_body = []\<rparr>"

abbreviation no_verifier :: "bytes \<Rightarrow> string \<Rightarrow> (Checkpoint \<times> Note) res" where
  "no_verifier \<equiv> \<lambda>_ _. Inl nil_deref"

lemma demo_rest: "rest_ok line_notes ''o'' [] no_verifier mp"
  by (simp add: rest_ok_def line_notes_def parse_uint_def)

lemma long_leaf_hashes: "leaf_hashes_long long_hasher"
  by (simp add: leaf_hashes_long_def long_hasher_def)

text \<open>The uploaded object is sequenced and integrated.\<close>

theorem functions_keep_bucket_witness:
  "\<exists>w1 g1. gcf_Sequence list_gcs tool_keys line_notes long_hasher (\<lambda>_. ''k'') None seq_dec fresh_writer [] demo_bucket = Some (None, w1, g1) \<and>
    (let g2 = snd (snd (gcf_Integrate list_gcs tool_keys line_notes ref_compact id long_hasher (\<lambda>_. ''k'') None [] no_verifier int_dec fresh_writer [] g1))
     in \<exists>m. bucket_log line_notes long_hasher ''o'' m (list_objs g2 ''b''))"
proof -
  obtain w1 g1 where s: "gcf_Sequence list_gcs tool_keys line_notes long_hasher (\<lambda>_. ''k'') None seq_dec fresh_writer [] demo_bucket = Some (None, w1, g1)"
    using lsvc.Sequence_function [OF demo_bucket_log long_leaf_hashes, of seq_dec "[]" tool_keys "\<lambda>_. ''k''" None fresh_writer]
    by (auto simp: seq_dec_def demo_items)
  define g2 where "g2 = snd (snd (gcf_Integrate list_gcs tool_keys line_notes ref_compact id long_hasher (\<lambda>_. ''k'') None [] no_verifier int_dec fresh_writer [] g1))"
  let ?step = "function_step list_gcs list_objs tool_keys line_notes ref_compact long_hasher ''o'' ''b''"
  have "?step demo_bucket g1"
    using bucket_log_card [OF demo_bucket_log]
    by (intro call_sequence [OF _ s]) (simp add: seq_dec_def demo_items)
  moreover obtain p w2 where "gcf_Integrate list_gcs tool_keys line_notes ref_compact id long_hasher (\<lambda>_. ''k'') None [] no_verifier int_dec fresh_writer [] g1 = (p, w2, g2)"
    unfolding g2_def by (metis prod.collapse)
  then have "?step g1 g2"
    by (intro call_integrate [where dec = int_dec, OF _ permutes_id(1) demo_rest]) (simp_all add: int_dec_def)
  ultimately have "?step\<^sup>*\<^sup>* demo_bucket g2" by (meson rtranclp.rtrancl_refl rtranclp.rtrancl_into_rtrancl)
  from functions_keep_bucket [where RF = ref_compact, OF lsvc.gcs_service_axioms linen.checkpoint_notes_axioms ref.compact_range_axioms
      long_nonempty long_leaf_hashes demo_bucket_log this]
  show ?thesis using s unfolding g2_def Let_def by blast
qed

theorem gcf_Sequence_complete_witness:
  "\<exists>w' g'. gcf_Sequence list_gcs tool_keys line_notes long_hasher (\<lambda>_. ''k'') None seq_dec fresh_writer [] demo_bucket = Some (None, w', g') \<and>
    (hw_status w' = None \<longrightarrow> known long_hasher (list_objs g' ''b'') ''x'')"
proof -
  let ?d = "\<lparr>sq_Bucket = ''b'', sq_EntriesDir = ''x'', sq_Origin = ''o''\<rparr>"
  have "uploaded ''xa''" using bucket_names by (simp add: uploaded_def)
  then show ?thesis
    using gcf_Sequence_complete [where d = ?d and dec = seq_dec and body = "[]", OF lsvc.gcs_service_axioms long_leaf_hashes, of line_notes 0 demo_bucket tool_keys "\<lambda>_. ''k''" None fresh_writer]
      demo_bucket_log demo_items by (auto simp: seq_dec_def demo_objs)
qed

lemma no_nodes: "ref_nodes 0 0 = []"
  by (simp add: ref_nodes_def concat_eq_Nil_conv)

theorem gcf_Integrate_idle_panics_witness:
  "fst (gcf_Integrate list_gcs tool_keys line_notes ref_compact id long_hasher (\<lambda>_. ''k'') None [] no_verifier int_dec fresh_writer [] demo_bucket) =
    Some nil_deref"
proof -
  let ?d = "\<lparr>ir_Origin = ''o'', ir_Initialise = False, ir_Bucket = ''b''\<rparr>" and ?c = "\<lparr>gc_projectID = ''k'', gc_bucket = ''b'', gc_nextSeq = 0\<rparr>"
  have rd: "gcp_ReadCheckpoint list_gcs ?c demo_bucket = Inr zero_raw"
    by (simp add: gcp_ReadCheckpoint_def list_gcs_def demo_bucket_def)
  have seq: "g_NewReader list_gcs demo_bucket ''b'' (JoinPair (SeqPath [] 0)) = Inl ErrObjectNotExist"
    using bucket_names(1) [of 0] by (auto simp: list_gcs_def demo_bucket_def)
  have "is_ok (fst (Integrate ref_compact id (gcp_storage list_gcs) long_hasher zero_cp (?c, demo_bucket)))"
    using seq by (simp add: Integrate_def FetchRangeNodes_def ref_compact_def no_nodes zero_cp_def gcp_storage_def gcp_ScanSequenced_def gcp_scan_loop.simps Let_def)
  then show ?thesis
    using gcf_Integrate_idle_panics [where d = ?d and dec = int_dec and body = "[]" and RF = ref_compact and ck = zero_cp and c = ?c and raw = zero_raw
        and s = "()" and v = "()" and n = empty_note and newc = None and N = line_notes and K = tool_keys and env = "\<lambda>_. ''k''" and w = fresh_writer
        and got = "[]" and nilv = no_verifier and g = demo_bucket,
        OF lsvc.gcs_service_axioms ref.compact_range_axioms permutes_id(1) long_nonempty]
      demo_bucket_log rd zero_parse [of "()"]
    by (auto simp: int_dec_def tool_keys_def gcp_NewClient_def zero_cp_def)
qed

end
