(* ===== verification/SumDb.thy ===== *)
theory SumDb
  imports WitnessHttp LogTools
begin

section \<open>sumdbaudit/client/sumdb.go\<close>

text \<open>
  The client of the Go checksum database: its paths, the splitting of a tile of records and the tiles of
  hashes.  \<open>getData\<close> is \<^verbatim>\<open>Fetcher.GetData\<close>; Go's \<^verbatim>\<open>int\<close> values are offsets and counts here and never negative.
  \<^verbatim>\<open>tlog.ParseTree\<close> is a parameter.
\<close>

type_synonym SumDBFetcher = "string \<Rightarrow> bytes res"

definition HashLenBytes :: nat where
  "HashLenBytes = 32"

definition pathBase :: nat where
  "pathBase = 1000"

record tlogTree =
  tree_N :: nat
  tree_Hash :: bytes

record SumDBCheckpoint =
  sc_Tree :: tlogTree
  sc_Raw :: bytes

record SumDBClient =
  sdb_height :: nat
  sdb_vkey :: string
  sdb_fetcher :: SumDBFetcher

subsection \<open>Fetching over HTTP\<close>

definition sdb_GetData :: "'c http_client \<Rightarrow> 'c \<Rightarrow> string \<Rightarrow> SumDBFetcher" where
  "sdb_GetData c st baseURL path =
     (case NewRequest c ''GET'' (baseURL @ path) [] of
        Inl e \<Rightarrow> Inl e
      | Inr req \<Rightarrow>
        (case fst (client_Do c st req) of
           Inl e \<Rightarrow> Inl e
         | Inr resp \<Rightarrow>
             if StatusCode resp \<noteq> 200 then Inl (Errorf ''GET'')
             else (case rs_Body resp of Inl e \<Rightarrow> Inl e | Inr b \<Rightarrow> Inr (take (2 ^ 20) b))))"

definition NewSumDB :: "nat \<Rightarrow> string \<Rightarrow> string \<Rightarrow> 'c http_client \<Rightarrow> 'c \<Rightarrow> SumDBClient" where
  "NewSumDB height vkey url c st = \<lparr>sdb_height = height, sdb_vkey = vkey, sdb_fetcher = sdb_GetData c st url\<rparr>"

subsection \<open>Checkpoints\<close>

definition ParseCheckpointNote ::
    "('v, 's) key_lib \<Rightarrow> ('v, 's) note_lib \<Rightarrow> (string \<Rightarrow> tlogTree res) \<Rightarrow> SumDBClient \<Rightarrow> bytes \<Rightarrow> SumDBCheckpoint res" where
  "ParseCheckpointNote K N parseTree c checkpoint =
     (case key_NewVerifier K (sdb_vkey c) of
        Inl e \<Rightarrow> Inl (wrapf ''failed to create verifier'' e)
      | Inr v \<Rightarrow>
        (case note_Open N checkpoint [v] of
           Opened n \<Rightarrow>
             (case parseTree (NoteText n) of
                Inl e \<Rightarrow> Inl (wrapf ''failed to parse tree'' e)
              | Inr t \<Rightarrow> Inr \<lparr>sc_Tree = t, sc_Raw = checkpoint\<rparr>)
         | UnverifiedNote _ \<Rightarrow> Inl (Errorf ''failed to open note'')
         | OpenFailed e \<Rightarrow> Inl (wrapf ''failed to open note'' e)))"

definition LatestCheckpoint ::
    "('v, 's) key_lib \<Rightarrow> ('v, 's) note_lib \<Rightarrow> (string \<Rightarrow> tlogTree res) \<Rightarrow> SumDBClient \<Rightarrow> SumDBCheckpoint res" where
  "LatestCheckpoint K N parseTree c =
     (case sdb_fetcher c ''/latest'' of
        Inl e \<Rightarrow> Inl (wrapf ''failed to get /latest Checkpoint'' e)
      | Inr checkpoint \<Rightarrow> ParseCheckpointNote K N parseTree c checkpoint)"

subsection \<open>Paths and leaves\<close>

function tilePath_loop :: "nat \<Rightarrow> string \<Rightarrow> string" where
  "tilePath_loop offset nStr =
     (if pathBase \<le> offset
      then tilePath_loop (offset div pathBase) (''x'' @ pad0 3 (format_uint 10 (offset div pathBase mod pathBase)) @ ''/'' @ nStr)
      else nStr)"
  by pat_completeness auto
termination by (relation "measure fst") (simp_all add: pathBase_def)

definition tilePath :: "nat \<Rightarrow> string" where
  "tilePath offset = tilePath_loop offset (pad0 3 (format_uint 10 (offset mod pathBase)))"

text \<open>The loop over the bytes of a tile: a newline after a newline ends a leaf, except at the very start of one.\<close>

function leaves_loop :: "bytes \<Rightarrow> nat \<Rightarrow> nat \<Rightarrow> bytes list \<Rightarrow> bytes list" where
  "leaves_loop data i start result =
     (if length data \<le> i then result @ [drop start data]
      else if data ! i = newline \<and> start < i \<and> data ! (i - 1) = newline
      then leaves_loop data (i + 1) (i + 1) (result @ [drop start (take i data)])
      else leaves_loop data (i + 1) start result)"
  by pat_completeness auto
termination by (relation "measure (\<lambda>(data, i, start, result). length data - i)") auto

definition dataToLeaves :: "bytes \<Rightarrow> bytes list" where
  "dataToLeaves data = leaves_loop data 0 0 []"

definition FullLeavesAtOffset :: "SumDBClient \<Rightarrow> nat \<Rightarrow> bytes list res" where
  "FullLeavesAtOffset c offset =
     (case sdb_fetcher c (''/tile/'' @ format_uint 10 (sdb_height c) @ ''/data/'' @ tilePath offset) of
        Inl e \<Rightarrow> Inl e | Inr data \<Rightarrow> Inr (dataToLeaves data))"

definition PartialLeavesAtOffset :: "SumDBClient \<Rightarrow> nat \<Rightarrow> nat \<Rightarrow> bytes list res" where
  "PartialLeavesAtOffset c offset cnt =
     (case sdb_fetcher c (''/tile/'' @ format_uint 10 (sdb_height c) @ ''/data/'' @ tilePath offset @ ''.p/'' @ format_uint 10 cnt) of
        Inl e \<Rightarrow> Inl e | Inr data \<Rightarrow> Inr (dataToLeaves data))"

subsection \<open>Tiles of hashes\<close>

definition tile_url :: "SumDBClient \<Rightarrow> nat \<Rightarrow> nat \<Rightarrow> nat \<Rightarrow> string" where
  "tile_url c level offset partial =
     (let url = ''/tile/'' @ format_uint 10 (sdb_height c) @ ''/'' @ format_uint 10 level @ ''/'' @ tilePath offset
      in if 0 < partial then url @ ''.p/'' @ format_uint 10 partial else url)"

definition TileHashes :: "SumDBClient \<Rightarrow> nat \<Rightarrow> nat \<Rightarrow> nat \<Rightarrow> bytes list res" where
  "TileHashes c level offset partial =
     (case sdb_fetcher c (tile_url c level offset partial) of
        Inl e \<Rightarrow> Inl e
      | Inr data \<Rightarrow>
          (let expectedHashes = (if 0 < partial then partial else 2 ^ sdb_height c) in
           if length data \<noteq> HashLenBytes * expectedHashes then Inl (Errorf ''got bytes, expected other'')
           else Inr (map (\<lambda>i. drop (HashLenBytes * i) (take (HashLenBytes * (i + 1)) data)) [0..<expectedHashes])))"

declare tilePath_loop.simps [simp del] leaves_loop.simps [simp del]

subsection \<open>Different tiles have different paths\<close>

text \<open>The number that the digits of a path spell.\<close>

definition read_digit :: "char \<Rightarrow> nat \<Rightarrow> nat" where
  "read_digit c n = (case char_digit c of Some d \<Rightarrow> if d < 10 then n * 10 + d else n | None \<Rightarrow> n)"

lemma read_digit_char: "d < 10 \<Longrightarrow> read_digit (digit_char d) n = n * 10 + d"
  by (simp add: read_digit_def)

lemma read_three: "k < 1000 \<Longrightarrow> fold read_digit (pad0 3 (format_uint 10 k)) n = n * 1000 + k"
proof -
  assume k: "k < 1000"
  have two: "replicate 2 x = [x, x]" for x :: char by (simp add: numeral_2_eq_2)
  have z: "read_digit (CHR ''0'') n = n * 10" for n using read_digit_char [of 0 n] by simp
  consider "k < 10" | "10 \<le> k" "k < 100" | "100 \<le> k" by linarith
  then show ?thesis
  proof cases
    case 1
    then show ?thesis using z by (simp add: pad0_def format_uint.simps [of 10 k] read_digit_char two)
  next
    case 2
    then have "format_uint 10 k = [digit_char (k div 10), digit_char (k mod 10)]"
      by (simp add: format_uint.simps [of 10 k] format_uint.simps [of 10 "k div 10"])
    then show ?thesis using 2 z by (simp add: pad0_def read_digit_char)
  next
    case 3
    have "\<not> k < 10" "\<not> k div 10 < 10" "k div 10 div 10 < 10" using k 3 by linarith+
    then have "format_uint 10 k = [digit_char (k div 10 div 10), digit_char (k div 10 mod 10), digit_char (k mod 10)]"
      by (simp add: format_uint.simps [of 10 k] format_uint.simps [of 10 "k div 10"] format_uint.simps [of 10 "k div 10 div 10"])
    moreover have "((n * 10 + a) * 10 + b) * 10 + c = n * 1000 + k" if "(a * 10 + b) * 10 + c = k" for a b c using that by simp
    then have "((n * 10 + k div 10 div 10) * 10 + k div 10 mod 10) * 10 + k mod 10 = n * 1000 + k" by simp
    moreover have "k div 10 div 10 < 10" using k by linarith
    ultimately show ?thesis by (simp add: pad0_def read_digit_char)
  qed
qed

lemma read_tilePath: "fold read_digit (tilePath n) 0 = n"
proof -
  have x: "read_digit (CHR ''x'') n = n" "read_digit (CHR ''/'') n = n" for n by (simp_all add: read_digit_def char_digit_def)
  have "fold read_digit (tilePath_loop off s) 0 = fold read_digit s (off div 1000)" for off :: nat and s
  proof (induction off s rule: tilePath_loop.induct)
    case (1 off s)
    show ?case
    proof (cases "pathBase \<le> off")
      case True
      let ?o = "off div 1000"
      have "fold read_digit (pad0 3 (format_uint 10 (?o mod 1000))) (?o div 1000) = ?o"
        using read_three [of "?o mod 1000" "?o div 1000"] by simp
      then show ?thesis using 1 [OF True] True x by (subst tilePath_loop.simps) (simp add: pathBase_def)
    next
      case False
      then show ?thesis by (subst tilePath_loop.simps) (simp add: pathBase_def)
    qed
  qed
  then show ?thesis using read_three [of "n mod 1000" "n div 1000"] by (simp add: tilePath_def pathBase_def)
qed

lemma tilePath_inj: "tilePath m = tilePath n \<longleftrightarrow> m = n"
  using read_tilePath by metis

subsection \<open>Splitting a tile into its records\<close>

text \<open>The text of a record ends with a newline and has no empty line.\<close>

definition record_text :: "bytes \<Rightarrow> bool" where
  "record_text r \<longleftrightarrow> r \<noteq> [] \<and> last r = newline \<and> (\<forall>k. Suc k < length r \<longrightarrow> \<not> (r ! k = newline \<and> r ! Suc k = newline))"

lemma leaves_within:
  assumes "record_text r" "k \<le> length r"
  shows "leaves_loop (pre @ r @ rest) (length pre) (length pre) res = leaves_loop (pre @ r @ rest) (length pre + k) (length pre) res"
  using assms(2)
proof (induction k)
  case (Suc k)
  let ?d = "pre @ r @ rest" and ?i = "length pre + k"
  have sh: "?i - 1 = length pre + (k - 1)" if "k > 0" using that by simp
  have at: "?d ! ?i = r ! k" "k > 0 \<Longrightarrow> ?d ! (?i - 1) = r ! (k - 1)"
  proof -
    show "?d ! ?i = r ! k" using Suc.prems by (simp add: nth_append)
    show "?d ! (?i - 1) = r ! (k - 1)" if "k > 0"
    proof -
      have "k - 1 < length r" using Suc.prems by simp
      then show ?thesis unfolding sh [OF that] nth_append_length_plus by (simp only: nth_append if_True)
    qed
  qed
  have "\<not> (?d ! ?i = newline \<and> length pre < ?i \<and> ?d ! (?i - 1) = newline)"
  proof
    assume n: "?d ! ?i = newline \<and> length pre < ?i \<and> ?d ! (?i - 1) = newline"
    then obtain j where "k = Suc j" by (cases k) auto
    then show False using n at assms(1) Suc.prems unfolding record_text_def by auto
  qed
  moreover have "?i < length ?d" using Suc.prems by simp
  ultimately have "leaves_loop ?d ?i (length pre) res = leaves_loop ?d (?i + 1) (length pre) res" by (subst leaves_loop.simps) auto
  then show ?case using Suc by simp
qed simp

lemma leaves_records:
  "\<lbrakk>rs \<noteq> []; \<forall>r \<in> set rs. record_text r\<rbrakk> \<Longrightarrow>
     leaves_loop (pre @ join_with [newline] rs) (length pre) (length pre) res = res @ rs"
proof (induction rs arbitrary: pre res)
  case (Cons r rs)
  have r: "record_text r" using Cons.prems by simp
  show ?case
  proof (cases rs)
    case Nil
    then show ?thesis using leaves_within [OF r, of "length r" pre "[]" res] by (simp add: leaves_loop.simps [of _ "length pre + length r"])
  next
    case (Cons r2 rs2)
    have ne2: "rs \<noteq> []" and ps: "\<forall>r \<in> set rs. record_text r" using Cons Cons.prems by auto
    let ?rest = "join_with [newline] rs" and ?i = "length pre + length r"
    let ?d = "pre @ r @ newline # ?rest"
    have j: "pre @ join_with [newline] (r # rs) = ?d" using Cons by (simp add: join_with_Cons)
    have ne: "r \<noteq> []" "r ! (length r - 1) = newline" using r by (auto simp: record_text_def last_conv_nth)
    then have "?i - 1 = length pre + (length r - 1)" by (cases r) auto
    then have "?d ! (?i - 1) = (r @ newline # ?rest) ! (length r - 1)" by (simp only: nth_append_length_plus)
    then have "?d ! ?i = newline" "?d ! (?i - 1) = newline" using ne by (simp_all add: nth_append)
    moreover have "length pre < ?i" using r by (simp add: record_text_def)
    ultimately have "leaves_loop ?d ?i (length pre) res = leaves_loop ?d (?i + 1) (?i + 1) (res @ [r])"
      by (subst leaves_loop.simps) auto
    also have "\<dots> = leaves_loop ((pre @ r @ [newline]) @ ?rest) (length (pre @ r @ [newline])) (length (pre @ r @ [newline])) (res @ [r])" by simp
    also have "\<dots> = (res @ [r]) @ rs" using Cons.IH [OF ne2 ps, of "pre @ r @ [newline]" "res @ [r]"] .
    finally show ?thesis unfolding j using leaves_within [OF r, of "length r" pre "newline # ?rest" res] by simp
  qed
qed simp

text \<open>C25: A tile of records, each ending with a newline and without an empty line, joined by empty lines as the
  checksum database serves them, is split into exactly those records.\<close>

theorem dataToLeaves_roundtrip:
  assumes "rs \<noteq> []" "\<forall>r \<in> set rs. record_text r"
  shows "dataToLeaves (join_with [newline] rs) = rs"
  using leaves_records [OF assms, of "[]" "[]"] by (simp add: dataToLeaves_def)

theorem dataToLeaves_roundtrip_witness:
  "dataToLeaves (''a h1:x'' @ [newline] @ [newline] @ ''b h1:y'' @ [newline]) = [''a h1:x'' @ [newline], ''b h1:y'' @ [newline]]"
proof -
  let ?rs = "[''a h1:x'' @ [newline], ''b h1:y'' @ [newline]]"
  have "record_text (t @ [newline])" if "newline \<notin> set t" for t
  proof -
    have "(t @ [newline]) ! k \<noteq> newline" if "Suc k < length (t @ [newline])" for k
    proof -
      have "k < length t" "t ! k \<in> set t" using that by simp_all
      then show ?thesis using \<open>newline \<notin> set t\<close> by (metis nth_append)
    qed
    then show ?thesis by (simp add: record_text_def)
  qed
  from this [of "''a h1:x''"] this [of "''b h1:y''"] have "\<forall>r \<in> set ?rs. record_text r" by simp
  from dataToLeaves_roundtrip [OF _ this] show ?thesis by (simp add: join_with_Cons)
qed

subsection \<open>Hashes of a tile\<close>

lemma slice_concat:
  "\<lbrakk>\<forall>h \<in> set hs. length h = n; i < length hs\<rbrakk> \<Longrightarrow> drop (n * i) (take (n * (i + 1)) (concat hs)) = hs ! i"
proof (induction hs arbitrary: i)
  case (Cons h hs)
  then show ?case by (cases i) (auto simp: algebra_simps drop_append take_append)
qed simp

lemma length_concat_hashes: "\<forall>h \<in> set hs. length h = n \<Longrightarrow> length (concat hs) = n * length hs"
  by (induction hs) auto

lemma TileHashes_serves:
  assumes "sdb_fetcher c (tile_url c level offset partial) = Inr (concat hs)" "\<forall>h \<in> set hs. length h = HashLenBytes"
    "length hs = (if 0 < partial then partial else 2 ^ sdb_height c)"
  shows "TileHashes c level offset partial = Inr hs"
proof -
  have "map (\<lambda>i. drop (HashLenBytes * i) (take (HashLenBytes * (i + 1)) (concat hs))) [0..<length hs] = hs"
    using slice_concat [OF assms(2)] by (intro nth_equalityI) auto
  then show ?thesis using assms length_concat_hashes [OF assms(2)] by (simp add: TileHashes_def Let_def)
qed

end
