(* ===== verification/Feeders.thy ===== *)
theory Feeders
  imports SumDb ClientTool WitnessFeed
begin

section \<open>Feeding particular logs to a witness\<close>

text \<open>
  \<^verbatim>\<open>serverless/config\<close>, \<^verbatim>\<open>internal/feeder/serverless\<close>, \<^verbatim>\<open>internal/feeder/sumdb\<close> and the adapter of
  \<^verbatim>\<open>witness/golang/omniwitness\<close> between the feeders and a witness in the same process.  The constructor of
  verifiers \<open>nv\<close> is \<^verbatim>\<open>NewVerifier\<close> of \<^verbatim>\<open>internal/note\<close>; a world is what is read in one feed cycle.
\<close>

subsection \<open>serverless/config\<close>

record config_Log =
  cl_ID :: string
  cl_PublicKey :: string
  cl_PublicKeyType :: string
  cl_Origin :: string
  cl_URL :: string

definition Log_Validate :: "'u url_lib \<Rightarrow> config_Log \<Rightarrow> go_error option" where
  "Log_Validate U l =
     (if cl_ID l = [] then Some (Errorf ''missing field: ID'')
      else if cl_PublicKey l = [] then Some (Errorf ''missing field: PublicKey'')
      else if cl_Origin l = [] then Some (Errorf ''missing field: Origin'')
      else if cl_URL l \<noteq> []
      then (case u_Parse U (cl_URL l) of Inl e \<Rightarrow> Some (errorf ''unparseable URL'' e) | Inr _ \<Rightarrow> None)
      else None)"

text \<open>\<open>raw\<close> is what the YAML package gives for the fields; \<open>logid\<close> is \<^verbatim>\<open>log.ID\<close>.\<close>

definition Log_UnmarshalYAML :: "(string \<Rightarrow> bytes \<Rightarrow> string) \<Rightarrow> config_Log res \<Rightarrow> config_Log res" where
  "Log_UnmarshalYAML logid raw =
     (case raw of
        Inl e \<Rightarrow> Inl e
      | Inr l \<Rightarrow>
          if 0 < length (cl_ID l) then Inl (Errorf ''the ID field should not be manually configured'')
          else Inr (l\<lparr>cl_ID := logid (cl_Origin l) (cl_PublicKey l)\<rparr>))"

definition Witness_Validate :: "'u url_lib \<Rightarrow> string \<Rightarrow> go_error option" where
  "Witness_Validate U url =
     (if url \<noteq> [] then (case u_Parse U url of Inl e \<Rightarrow> Some (errorf ''unparseable URL'' e) | Inr _ \<Rightarrow> None) else None)"

subsection \<open>internal/feeder/serverless\<close>

text \<open>The status of an HTTP response is not looked at.\<close>

definition feeder_newFetcher :: "'u url_lib \<Rightarrow> 'c http_client \<Rightarrow> 'u \<Rightarrow> (os \<times> 'c \<Rightarrow> Fetcher) res" where
  "feeder_newFetcher U c root =
     (if u_Scheme U root = ''http'' \<or> u_Scheme U root = ''https''
      then Inr (\<lambda>(f, st) p.
        case u_Resolve U root p of
          Inl e \<Rightarrow> Inl e
        | Inr u \<Rightarrow>
          (case NewRequest c ''GET'' (u_String U u) [] of
             Inl e \<Rightarrow> Inl e
           | Inr req \<Rightarrow> (case fst (client_Do c st req) of Inl e \<Rightarrow> Inl e | Inr resp \<Rightarrow> rs_Body resp)))
      else if u_Scheme U root = ''file''
      then Inr (\<lambda>(f, st) p. case u_Resolve U root p of Inl e \<Rightarrow> Inl e | Inr u \<Rightarrow> os_ReadFile f (u_Path U u))
      else Inl (Panic ''unsupported URL scheme''))"

definition serverless_fetchProof ::
    "(hash_fn \<Rightarrow> 'r compact) \<Rightarrow> 'n proof_lib \<Rightarrow> hasher \<Rightarrow> Fetcher \<Rightarrow> Checkpoint \<Rightarrow> Checkpoint \<Rightarrow> bytes list res" where
  "serverless_fetchProof RF P h f frm tto =
     (if Size frm = 0 then Inr []
      else (case NewProofBuilder RF tto (HashChildren h) f of
        Inl e \<Rightarrow> Inl (errorf ''failed to create proof builder'' e)
      | Inr pb \<Rightarrow>
          (case fst (ConsistencyProof P pb (Size frm) (Size tto)) of
             Inl e \<Rightarrow> Inl (errorf ''failed to create proof'' e)
           | Inr conP \<Rightarrow> Inr conP)))"

definition serverless_opts ::
    "(hash_fn \<Rightarrow> 'r compact) \<Rightarrow> 'n proof_lib \<Rightarrow> hasher \<Rightarrow> config_Log \<Rightarrow> 'v \<Rightarrow> 'p FeedWitness \<Rightarrow> Fetcher \<Rightarrow> ('v, 'p) FeedOpts" where
  "serverless_opts RF P h l v w f =
     \<lparr>fo_LogID = cl_ID l, fo_FetchCheckpoint = f ''checkpoint'', fo_FetchProof = serverless_fetchProof RF P h f,
      fo_LogSigVerifier = v, fo_LogOrigin = cl_Origin l, fo_Witness = w\<rparr>"

text \<open>\<^verbatim>\<open>ctx.Err()\<close> when \<^verbatim>\<open>Run\<close> stops.\<close>

definition ErrCanceled :: go_error where
  "ErrCanceled = Sentinel ''context canceled''"

definition serverless_FeedLog ::
    "('v, 's) note_lib \<Rightarrow> 'u url_lib \<Rightarrow> 'c http_client \<Rightarrow> (hash_fn \<Rightarrow> 'r compact) \<Rightarrow> 'n proof_lib \<Rightarrow> (string \<Rightarrow> string \<Rightarrow> 'v res) \<Rightarrow> hasher \<Rightarrow>
     (bytes \<times> 'p) retry_fn \<Rightarrow> config_Log \<Rightarrow> 'p FeedWitness \<Rightarrow> int \<Rightarrow> (os \<times> 'c) list \<Rightarrow> 'p \<Rightarrow> go_error option \<times> 'p" where
  "serverless_FeedLog N U c RF P nv h retry l w interval worlds st =
     (case u_Parse U (cl_URL l) of
        Inl e \<Rightarrow> (Some (errorf ''invalid LogURL'' e), st)
      | Inr lURL \<Rightarrow>
        (case nv (cl_PublicKeyType l) (cl_PublicKey l) of
           Inl e \<Rightarrow> (Some e, st)
         | Inr logSigV \<Rightarrow>
           (case feeder_newFetcher U c lURL of
              Inl e \<Rightarrow> (Some e, st)
            | Inr f \<Rightarrow>
                (let opts = (\<lambda>world. serverless_opts RF P h l logSigV w (f world)) in
                 if 0 < interval then (Some ErrCanceled, feeder_Run N retry (map opts worlds) st)
                 else (case FeedOnce N retry (opts (hd worlds)) st of
                         (Inl e, st') \<Rightarrow> (Some e, st') | (Inr _, st') \<Rightarrow> (None, st'))))))"

subsection \<open>witness/golang/omniwitness: witnessAdapter\<close>

definition witnessAdapter ::
    "(hash_fn \<Rightarrow> 'r compact) \<Rightarrow> 'n proof_lib \<Rightarrow> ('v, 's) note_lib \<Rightarrow> ('v, 's, 'p, 'h) Witness \<Rightarrow> 'p FeedWitness" where
  "witnessAdapter RF P N w =
     \<lparr>fw_GetLatestCheckpoint = (\<lambda>p i.
        (case witness_GetCheckpoint w p i of
           Inl e \<Rightarrow> if status_Code e = NotFound then Inl ErrNotExist else Inl e
         | Inr raw \<Rightarrow> Inr raw, p)),
      fw_Update = witness_Update RF P N w\<rparr>"

subsection \<open>internal/feeder/sumdb\<close>

definition tileHeight :: nat where
  "tileHeight = 8"

definition leavesPerTile :: nat where
  "leavesPerTile = 2 ^ tileHeight"

type_synonym tileIndex = "nat \<times> nat"

text \<open>\<^verbatim>\<open>1 << ((1 + sdbLevel) * tileHeight)\<close> is zero from level 56 on, and the division by it panics.\<close>

definition convertToSumDBTiles :: "node_id \<Rightarrow> (tileIndex \<times> node_id) res" where
  "convertToSumDBTiles n =
     (let (level, index) = n;
          sdbLevel = level div of_nat tileHeight;
          rLevel = level mod of_nat tileHeight;
          lastLeaf = push_bit (unat level) 1 * (index + 1) - 1;
          tileLeaves = push_bit ((1 + unat sdbLevel) * tileHeight) (1 :: u64)
      in if tileLeaves = 0 then Inl (Panic ''runtime error: integer divide by zero'')
         else (let sdbOffset = lastLeaf div tileLeaves;
                   rLeaves = lastLeaf mod tileLeaves;
                   rIndex = rLeaves div push_bit (unat level) 1
               in Inr ((unat sdbLevel, unat sdbOffset), (rLevel, rIndex))))"

type_synonym sdb_tile = "bytes list"

definition sdb_hash :: "'r compact \<Rightarrow> sdb_tile \<Rightarrow> node_id \<Rightarrow> bytes res" where
  "sdb_hash C leaves n =
     (let (level, index) = n;
          left = push_bit (unat level) index;
          right = push_bit (unat level) (index + 1)
      in if int (length leaves) < sint right then Inl (Panic ''index out of range of leaves'')
         else if right < left \<or> length leaves < unat right then Inl (Panic ''slice bounds out of range'')
         else (case GetRootHash C (fst (append_all C (NewEmptyRange C 0) (drop (unat left) (take (unat right) leaves)))) of
                 Inl e \<Rightarrow> Inl (Panic ''GetRootHash'') | Inr (root, _) \<Rightarrow> Inr root))"

record tileBroker =
  tb_pts :: "tileIndex \<rightharpoonup> nat"
  tb_ts :: "tileIndex \<rightharpoonup> sdb_tile"
  tb_lookup :: "nat \<Rightarrow> nat \<Rightarrow> nat \<Rightarrow> bytes list res"

function broker_pts :: "nat \<Rightarrow> nat \<Rightarrow> nat \<Rightarrow> (tileIndex \<rightharpoonup> nat) \<Rightarrow> (tileIndex \<rightharpoonup> nat)" where
  "broker_pts l t r pts =
     (let pts = pts((l, t) \<mapsto> r) in
      if t = 0 then pts else broker_pts (l + 1) (t div leavesPerTile) (t mod leavesPerTile) pts)"
  by pat_completeness auto
termination by (relation "measure (\<lambda>(l, t, r, pts). t)") (simp_all add: leavesPerTile_def tileHeight_def)

declare broker_pts.simps [simp del]

definition newTileBroker :: "u64 \<Rightarrow> (nat \<Rightarrow> nat \<Rightarrow> nat \<Rightarrow> bytes list res) \<Rightarrow> tileBroker" where
  "newTileBroker sz lookup =
     \<lparr>tb_pts = broker_pts 0 (unat sz div leavesPerTile) (unat sz mod leavesPerTile) Map.empty, tb_ts = Map.empty, tb_lookup = lookup\<rparr>"

definition broker_tile :: "tileBroker \<Rightarrow> tileIndex \<Rightarrow> sdb_tile res \<times> tileBroker" where
  "broker_tile tb i =
     (case tb_ts tb i of
        Some t \<Rightarrow> (Inr t, tb)
      | None \<Rightarrow>
          (let partial = (case tb_pts tb i of None \<Rightarrow> 0 | Some p \<Rightarrow> p) in
           case tb_lookup tb (fst i) (snd i) partial of
             Inl e \<Rightarrow> (Inl (errorf ''lookup failed'' e), tb)
           | Inr hs \<Rightarrow> (Inr hs, tb\<lparr>tb_ts := (tb_ts tb)(i \<mapsto> hs)\<rparr>)))"

fun sdb_proof_loop :: "'r compact \<Rightarrow> tileBroker \<Rightarrow> node_id list \<Rightarrow> bytes list res" where
  "sdb_proof_loop C tb [] = Inr []"
| "sdb_proof_loop C tb (n # ns) =
     (case convertToSumDBTiles n of
        Inl e \<Rightarrow> Inl e
      | Inr (i, r) \<Rightarrow>
        (case broker_tile tb i of
           (Inl e, _) \<Rightarrow> Inl (errorf ''failed to lookup'' e)
         | (Inr t, tb') \<Rightarrow>
           (case sdb_hash C t r of
              Inl e \<Rightarrow> Inl e
            | Inr h \<Rightarrow> (case sdb_proof_loop C tb' ns of Inl e \<Rightarrow> Inl e | Inr hs \<Rightarrow> Inr (h # hs)))))"

definition sumdb_fetchProof ::
    "'r compact \<Rightarrow> (nat \<Rightarrow> nat \<Rightarrow> nat \<Rightarrow> bytes list res) \<Rightarrow> Checkpoint \<Rightarrow> Checkpoint \<Rightarrow> bytes list res" where
  "sumdb_fetchProof C lookup frm tto = sdb_proof_loop C (newTileBroker (Size tto) lookup) (RangeNodes C (Size frm) (Size tto))"

definition sumdb_opts ::
    "('v, 's) key_lib \<Rightarrow> ('v, 's) note_lib \<Rightarrow> (string \<Rightarrow> tlogTree res) \<Rightarrow> 'r compact \<Rightarrow> config_Log \<Rightarrow> 'v \<Rightarrow> 'p FeedWitness \<Rightarrow> SumDBClient \<Rightarrow>
     ('v, 'p) FeedOpts" where
  "sumdb_opts K N parseTree C l v w sdb =
     \<lparr>fo_LogID = cl_ID l,
      fo_FetchCheckpoint = (case LatestCheckpoint K N parseTree sdb of
         Inl e \<Rightarrow> Inl (errorf ''failed to get latest checkpoint'' e) | Inr sdbcp \<Rightarrow> Inr (sc_Raw sdbcp)),
      fo_FetchProof = sumdb_fetchProof C (TileHashes sdb),
      fo_LogSigVerifier = v, fo_LogOrigin = cl_Origin l, fo_Witness = w\<rparr>"

definition sumdb_FeedLog ::
    "('v, 's) key_lib \<Rightarrow> ('v, 's) note_lib \<Rightarrow> (string \<Rightarrow> tlogTree res) \<Rightarrow> 'c http_client \<Rightarrow> 'r compact \<Rightarrow> (string \<Rightarrow> string \<Rightarrow> 'v res) \<Rightarrow>
     (bytes \<times> 'p) retry_fn \<Rightarrow> config_Log \<Rightarrow> 'p FeedWitness \<Rightarrow> 'c list \<Rightarrow> 'p \<Rightarrow> go_error option \<times> 'p" where
  "sumdb_FeedLog K N parseTree c C nv retry l w worlds st =
     (case nv (cl_PublicKeyType l) (cl_PublicKey l) of
        Inl e \<Rightarrow> (Some e, st)
      | Inr logSigV \<Rightarrow>
          (Some ErrCanceled,
           feeder_Run N retry
             (map (\<lambda>world. sumdb_opts K N parseTree C l logSigV w (NewSumDB tileHeight (cl_PublicKey l) (cl_URL l) c world)) worlds) st))"

end
