(* ===== verification/FeedersProofs.thy ===== *)
theory FeedersProofs
  imports Feeders ClientToolProofs WitnessTheorems
begin

section \<open>Properties of the feeders\<close>

text \<open>
  The hashes that the feeder of the checksum database takes out of the tiles are those of the compact range between
  the two checkpoints; and a witness that is fed by either feeder follows the log.
\<close>

subsection \<open>Nodes inside tiles\<close>

lemma node_hash_levels: "node_hash hc (node_hash hc lf m) l i = node_hash hc lf (m + l) i"
  by (induction l arbitrary: i) simp_all

lemma node_hash_shift: "node_hash hc (\<lambda>k. g (c * 2 ^ l + k)) l i = node_hash hc g l (c + i)"
proof (induction l arbitrary: c i)
  case (Suc l)
  have "c * 2 ^ Suc l = 2 * c * 2 ^ l" by simp
  then show ?case using Suc.IH [of "2 * c"] by (simp add: algebra_simps)
qed simp

text \<open>A tile of level \<open>s\<close> holds the nodes of level \<open>8 * s\<close>; node \<open>(r, j)\<close> of its tree is a node of the log.\<close>

lemma node_in_tile:
  assumes "r \<le> 8"
  shows "node_hash hc (\<lambda>k. node_hash hc lf (8 * s) (256 * off + k)) r j = node_hash hc lf (8 * s + r) (off * 2 ^ (8 - r) + j)"
proof -
  have "(2 :: nat) ^ (8 - r) * 2 ^ r = 2 ^ (8 - r + r)" by (rule power_add [symmetric])
  then have eq: "256 * off = off * 2 ^ (8 - r) * 2 ^ r" using assms by simp
  show ?thesis unfolding eq using node_hash_shift [of hc "node_hash hc lf (8 * s)" "off * 2 ^ (8 - r)" r j] by (simp only: node_hash_levels)
qed

text \<open>The node of a tile by its tree of leaves.\<close>

context compact_range
begin

lemma sdb_hash_node:
  assumes "r < 8" "(j + 1) * 2 ^ r \<le> q" "q \<le> 256"
  shows "sdb_hash C (map g [0..<q]) (nid r j) = Inr (node_hash hc g r j)"
proof -
  have j: "j * 2 ^ r + 2 ^ r \<le> 256" using assms(2,3) by simp
  have r: "unat (of_nat r :: u64) = r" using assms(1) by (simp add: unat_of_nat_u64)
  have push: "push_bit r (of_nat a :: u64) = of_nat (a * 2 ^ r)" for a by (simp add: push_bit_eq_mult)
  let ?L = "of_nat (j * 2 ^ r) :: u64" and ?R = "of_nat ((j + 1) * 2 ^ r) :: u64"
  have u: "unat ?L = j * 2 ^ r" "unat ?R = (j + 1) * 2 ^ r"
    by (rule unat_of_nat_u64; use j in simp)+
  then have si: "sint ?R = int ((j + 1) * 2 ^ r)" using j sint_small [of ?R] by simp
  let ?g = "\<lambda>k. g (j * 2 ^ r + k)"
  have sl: "drop (j * 2 ^ r) (take ((j + 1) * 2 ^ r) (map g [0..<q])) = map ?g [0..<0 + 2 ^ r]"
    using assms(2) by (intro nth_equalityI) auto
  obtain r' vs where a: "append_all C (NewEmptyRange C 0) (map ?g [0..<0 + 2 ^ r]) = (r', vs)" by fastforce
  have e: "rep (NewEmptyRange C 0) ?g 0 0" using new_empty [of 0 ?g] by simp
  have lt: "(2 :: nat) ^ r < 2 ^ 64" using assms(1) by (intro power_strict_increasing) simp_all
  have "rep r' ?g 0 (2 ^ r)" using append_all_rep [OF e _ _ a] lt by simp
  then obtain vs' where "GetRootHash C r' = Inr (mth hc ?g 0 (2 ^ r), vs')" using root_rep lt by fastforce
  moreover have "mth hc ?g 0 (2 ^ r) = node_hash hc g r j"
    using mth_perfect [of hc ?g 0 r] node_hash_shift [of hc g j r 0] by simp
  moreover have "push_bit r (of_nat j + 1 :: u64) = ?R" using push [of "j + 1"] by (simp only: of_nat_add of_nat_1)
  moreover have "\<not> int (length (map g [0..<q])) < sint ?R" unfolding si of_nat_less_iff using assms(2) by simp
  moreover have "\<not> (?R < ?L \<or> length (map g [0..<q]) < (j + 1) * 2 ^ r)" using u assms(2) by (simp add: word_less_nat_alt)
  ultimately show ?thesis unfolding sdb_hash_def nid_def Let_def prod.case r push by (simp only: u sl a if_False fst_conv sum.case prod.case)
qed

end


subsection \<open>Where a node is\<close>

lemma last_leaf_div: "((i + 1) * 2 ^ l - 1) div 2 ^ l = (i :: nat)"
proof -
  have "(i + 1) * 2 ^ l - 1 = i * 2 ^ l + (2 ^ l - 1 :: nat)" by (simp add: algebra_simps)
  moreover have "(i * 2 ^ l + (2 ^ l - 1)) div 2 ^ l = i" by (subst div_mult_self3) simp_all
  ultimately show ?thesis by simp
qed

lemma of_nat_div_u64:
  assumes "a < 2 ^ 64" "b < 2 ^ 64"
  shows "of_nat a div of_nat b = (of_nat (a div b) :: u64)" "of_nat a mod of_nat b = (of_nat (a mod b) :: u64)"
proof -
  have "a div b < 2 ^ 64" "a mod b < 2 ^ 64" using assms(1) by (auto intro: le_less_trans [OF div_le_dividend] le_less_trans [OF mod_less_eq_dividend])
  then show "of_nat a div of_nat b = (of_nat (a div b) :: u64)" "of_nat a mod of_nat b = (of_nat (a mod b) :: u64)"
    using assms by (simp_all add: word_unat_eq_iff unat_div unat_mod unat_of_nat_u64)
qed

lemma convertToSumDBTiles_node:
  assumes "complete b n lv ix" "n < 2 ^ 56"
  shows "convertToSumDBTiles (nid lv ix) =
    Inr ((lv div 8, ix div 2 ^ (8 - lv mod 8)), nid (lv mod 8) (ix mod 2 ^ (8 - lv mod 8)))" "lv < 56"
proof -
  let ?x = "(ix + 1) * 2 ^ lv - 1 :: nat" and ?e = "(1 + lv div 8) * 8" and ?k = "8 - lv mod 8"
  have c: "(ix + 1) * 2 ^ lv \<le> n" using assms(1) by (simp add: complete_def)
  then have "2 ^ lv \<le> n" by simp
  then have "(2 :: nat) ^ lv < 2 ^ 56" using assms(2) by linarith
  then show lv: "lv < 56" using power_less_imp_less_exp [of "2 :: nat" lv 56] by simp
  have lt: "(ix + 1) * 2 ^ lv < 2 ^ 64" using c assms(2) by simp
  then have ix: "ix < 2 ^ 64" using mult_le_mono2 [of 1 "2 ^ lv" "ix + 1"] by simp
  have "lv mod 8 < 8" "lv div 8 * 8 + lv mod 8 = lv" "lv div 8 \<le> 6" using lv by simp_all
  then have e: "?e = lv + ?k \<and> ?e \<le> 56" by presburger
  have pos: "0 < (ix + 1) * 2 ^ lv" by simp
  have ul: "unat (of_nat lv :: u64) = lv" using lv by (simp add: unat_of_nat_u64)
  have d: "of_nat lv div of_nat 8 = (of_nat (lv div 8) :: u64)" "of_nat lv mod of_nat 8 = (of_nat (lv mod 8) :: u64)"
    using lv of_nat_div_u64 [of lv 8] by simp_all
  have us: "unat (of_nat (lv div 8) :: u64) = lv div 8" using lv by (simp add: unat_of_nat_u64)
  have p: "push_bit lv (1 :: u64) = of_nat (2 ^ lv)" "push_bit ?e (1 :: u64) = of_nat (2 ^ ?e)" by (simp_all add: push_bit_eq_mult)
  have "(of_nat ?x :: u64) = of_nat ((ix + 1) * 2 ^ lv) - of_nat 1" 
    by (rule of_nat_diff) (use pos in \<open>simp only: Suc_le_eq One_nat_def\<close>)
  then have last: "of_nat (2 ^ lv) * (of_nat ix + 1) - 1 = (of_nat ?x :: u64)" by (simp only: of_nat_mult of_nat_add of_nat_1 mult.commute)
  have "(2 :: nat) ^ ?e \<le> 2 ^ 56" using e by (intro power_increasing) simp_all
  then have te: "2 ^ ?e < (2 :: nat) ^ 64" "(2 :: nat) ^ lv < 2 ^ 64" using \<open>2 ^ lv < 2 ^ 56\<close> by simp_all
  let ?T = "(2 :: nat) ^ ?e"
  have xT: "?x div ?T = ix div 2 ^ ?k" "?x mod ?T div 2 ^ lv = ix mod 2 ^ ?k"
    unfolding conjunct1 [OF e] power_add div_mult2_eq mod_mult2_eq last_leaf_div by simp_all
  have x: "?x < 2 ^ 64" using lt by simp
  have "(of_nat ?T :: u64) \<noteq> 0" using te(1) of_nat_u64_eq_iff [of ?T 0] by (simp del: of_nat_power)
  moreover have "unat (of_nat (ix div 2 ^ ?k) :: u64) = ix div 2 ^ ?k"
    using ix by (intro unat_of_nat_u64) (rule le_less_trans [OF div_le_dividend])
  moreover have "of_nat ?x div of_nat ?T = (of_nat (ix div 2 ^ ?k) :: u64)" "of_nat ?x mod of_nat ?T = (of_nat (?x mod ?T) :: u64)"
    using of_nat_div_u64 [OF x te(1)] xT(1) by simp_all
  moreover have "of_nat (?x mod ?T) div of_nat (2 ^ lv) = (of_nat (ix mod 2 ^ ?k) :: u64)"
    using of_nat_div_u64(1) [OF le_less_trans [OF mod_less_eq_dividend x] te(2), of ?T] xT(2) by (simp only:)
  ultimately show "convertToSumDBTiles (nid lv ix) = Inr ((lv div 8, ix div 2 ^ ?k), nid (lv mod 8) (ix mod 2 ^ ?k))"
    unfolding convertToSumDBTiles_def nid_def Let_def prod.case tileHeight_def d us ul p last by (simp only: if_False)
qed


subsection \<open>Partial tiles\<close>

lemma broker_pts_below: "l' < l \<Longrightarrow> broker_pts l t r pts (l', t') = pts (l', t')"
  by (induction l t r pts rule: broker_pts.induct) (subst broker_pts.simps, simp add: Let_def)

lemma broker_pts_same: "broker_pts l t r pts (l, t') = (if t' = t then Some r else pts (l, t'))"
  by (subst broker_pts.simps) (simp add: Let_def broker_pts_below)

lemma broker_pts_above:
  "t div 256 ^ k \<noteq> 0 \<Longrightarrow> broker_pts l t r pts (l + Suc k, t') =
     (if t' = t div 256 ^ Suc k then Some (t div 256 ^ k mod 256) else pts (l + Suc k, t'))"
proof (induction k arbitrary: l t r pts)
  case 0
  then show ?case by (subst broker_pts.simps) (simp add: Let_def broker_pts_same leavesPerTile_def tileHeight_def)
next
  case (Suc k)
  then have "t \<noteq> 0" by (cases "t = 0") simp_all
  moreover have d: "t div 256 div 256 ^ j = t div 256 ^ Suc j" for j by (simp add: div_mult2_eq [symmetric])
  ultimately have b: "broker_pts l t r pts = broker_pts (l + 1) (t div 256) (t mod 256) (pts((l, t) \<mapsto> r))"
    by (subst broker_pts.simps) (simp add: Let_def leavesPerTile_def tileHeight_def)
  have i: "l + Suc (Suc k) = l + 1 + Suc k" "(pts((l, t) \<mapsto> r)) (l + 1 + Suc k, t') = pts (l + 1 + Suc k, t')" by simp_all
  show ?case using Suc.IH [of "t div 256" "l + 1" "t mod 256" "pts((l, t) \<mapsto> r)", unfolded d, OF Suc.prems] unfolding b i .
qed

text \<open>The number of hashes that the broker asks for, zero for a full tile.\<close>

definition partial_of :: "nat \<Rightarrow> tileIndex \<Rightarrow> nat" where
  "partial_of n i = (case broker_pts 0 (n div 256) (n mod 256) Map.empty i of None \<Rightarrow> 0 | Some p \<Rightarrow> p)"

lemma partial_of:
  assumes "256 ^ l \<le> n"
  shows "partial_of n (l, t) = (if t = n div 256 ^ Suc l then n div 256 ^ l mod 256 else 0)"
proof (cases l)
  case 0
  then show ?thesis by (simp add: partial_of_def broker_pts_same)
next
  case (Suc k)
  have d: "n div 256 div 256 ^ j = n div 256 ^ Suc j" for j by (simp add: div_mult2_eq [symmetric])
  have "n div 256 ^ l \<noteq> 0" using assms by (simp add: div_eq_0_iff not_less)
  then have "n div 256 div 256 ^ k \<noteq> 0" unfolding d Suc .
  from broker_pts_above [OF this, of 0] show ?thesis by (simp add: partial_of_def Suc d del: power_Suc)
qed

text \<open>The tile that the broker gets for a node of the log lies inside the log and has the node.\<close>

lemma tile_of_node:
  assumes "(ix + 1) * 2 ^ (8 * s + r) \<le> n" "r < 8"
  defines "off \<equiv> ix div 2 ^ (8 - r)"
  defines "p \<equiv> partial_of n (s, off)"
  defines "q \<equiv> if p = 0 then 256 else p"
  shows "p < 256" "(256 * off + q) * 2 ^ (8 * s) \<le> n" "(ix mod 2 ^ (8 - r) + 1) * 2 ^ r \<le> q"
proof -
  have two: "(2 :: nat) ^ (8 - r) * 2 ^ r = 2 ^ (8 - r + r)" by (rule power_add [symmetric])
  then have two: "(2 :: nat) ^ (8 - r) * 2 ^ r = 256" using assms(2) by simp
  have B: "(256 :: nat) ^ s = 2 ^ (8 * s)" by (simp add: power_mult)
  define N where "N = n div 256 ^ s"
  let ?j = "ix mod 2 ^ (8 - r)"
  have ix: "ix = off * 2 ^ (8 - r) + ?j" unfolding off_def by (rule div_mult_mod_eq [symmetric])
  have "(ix + 1) * 2 ^ r * 256 ^ s \<le> n" using assms(1) by (simp add: B power_add algebra_simps)
  then have N: "(ix + 1) * 2 ^ r \<le> N" unfolding N_def by (simp add: less_eq_div_iff_mult_less_eq)
  have "(ix + 1) * 2 ^ r = 256 * off + (?j + 1) * 2 ^ r" by (subst ix) (simp add: algebra_simps two [symmetric])
  with N have n1: "256 * off + (?j + 1) * 2 ^ r \<le> N" by simp
  have pos: "0 < (?j + 1) * 2 ^ r" by simp
  then have "0 < N" using n1 by linarith
  then have "256 ^ s \<le> n" unfolding N_def by (simp add: div_greater_zero_iff)
  from partial_of [OF this, of off] have p: "p = (if off = N div 256 then N mod 256 else 0)"
    by (simp add: p_def N_def div_mult2_eq [symmetric] mult.commute)
  have "?j < 2 ^ (8 - r)" by simp
  then have "(?j + 1) * 2 ^ r \<le> 2 ^ (8 - r) * 2 ^ r" by (intro mult_le_mono1) (simp add: Suc_le_eq)
  then have j: "(?j + 1) * 2 ^ r \<le> 256" unfolding two .
  show "p < 256" using p by simp
  have q: "256 * off + q \<le> N \<and> (?j + 1) * 2 ^ r \<le> q"
  proof (cases "off = N div 256")
    case True
    then have "256 * off + p = N" using p by simp
    then have "(?j + 1) * 2 ^ r \<le> p" "p \<noteq> 0" using n1 pos by linarith+
    then show ?thesis using \<open>256 * off + p = N\<close> by (simp add: q_def)
  next
    case False
    moreover have "off \<le> N div 256" using n1 by (simp add: less_eq_div_iff_mult_less_eq)
    ultimately have "off + 1 \<le> N div 256" by simp
    then have "256 * off + 256 \<le> N" by (simp add: less_eq_div_iff_mult_less_eq)
    then show ?thesis using p False j by (simp add: q_def)
  qed
  then show "(?j + 1) * 2 ^ r \<le> q" by blast
  have "(256 * off + q) * 256 ^ s \<le> N * 256 ^ s" using q by (intro mult_le_mono1) simp
  also have "\<dots> \<le> n" by (simp add: N_def)
  finally show "(256 * off + q) * 2 ^ (8 * s) \<le> n" by (simp add: B)
qed


subsection \<open>The proof from the tiles\<close>

text \<open>A server of tiles that holds a log of \<open>n\<close> leaves.\<close>

definition sdb_serves :: "(nat \<Rightarrow> nat \<Rightarrow> nat \<Rightarrow> bytes list res) \<Rightarrow> hash_fn \<Rightarrow> (nat \<Rightarrow> bytes) \<Rightarrow> nat \<Rightarrow> bool" where
  "sdb_serves lookup hc lf n \<longleftrightarrow> (\<forall>l off p. p < 256 \<longrightarrow> (256 * off + (if p = 0 then 256 else p)) * 2 ^ (8 * l) \<le> n \<longrightarrow>
     lookup l off p = Inr (map (\<lambda>k. node_hash hc lf (8 * l) (256 * off + k)) [0..<(if p = 0 then 256 else p)]))"

definition broker_ok :: "nat \<Rightarrow> (nat \<Rightarrow> nat \<Rightarrow> nat \<Rightarrow> bytes list res) \<Rightarrow> tileBroker \<Rightarrow> bool" where
  "broker_ok n lookup tb \<longleftrightarrow> tb_lookup tb = lookup \<and> tb_pts tb = broker_pts 0 (n div 256) (n mod 256) Map.empty \<and>
     (\<forall>i t. tb_ts tb i = Some t \<longrightarrow> lookup (fst i) (snd i) (partial_of n i) = Inr t)"

text \<open>The cache of the broker makes no difference.\<close>

lemma broker_tile_ok:
  assumes "broker_ok n lookup tb" "lookup (fst i) (snd i) (partial_of n i) = Inr t"
  shows "\<exists>tb'. broker_tile tb i = (Inr t, tb') \<and> broker_ok n lookup tb'"
proof (cases "tb_ts tb i")
  case None
  then show ?thesis using assms by (auto simp: broker_tile_def broker_ok_def partial_of_def split: option.splits)
next
  case (Some t0)
  then have "t0 = t" using assms unfolding broker_ok_def by (metis sum.inject(2))
  then show ?thesis using Some assms(1) by (auto simp: broker_tile_def)
qed

lemma newTileBroker_ok: "broker_ok (unat sz) lookup (newTileBroker sz lookup)"
  by (simp add: broker_ok_def newTileBroker_def leavesPerTile_def tileHeight_def)

context compact_range
begin

lemma node_from_tile:
  assumes "sdb_serves lookup hc lf n" "n < 2 ^ 56" "complete b n lv ix" "broker_ok n lookup tb"
  shows "\<exists>i j t tb'. convertToSumDBTiles (nid lv ix) = Inr (i, j) \<and> broker_tile tb i = (Inr t, tb') \<and> broker_ok n lookup tb' \<and>
    sdb_hash C t j = Inr (node_hash hc lf lv ix)"
proof -
  define s r where "s = lv div 8" and "r = lv mod 8"
  have lv: "8 * s + r = lv" and r: "r < 8" by (simp_all add: s_def r_def)
  define off where "off = ix div 2 ^ (8 - r)"
  let ?j = "ix mod 2 ^ (8 - r)" and ?p = "partial_of n (s, off)"
  let ?q = "if ?p = 0 then 256 else ?p" and ?g = "\<lambda>k. node_hash hc lf (8 * s) (256 * off + k)"
  have c: "(ix + 1) * 2 ^ (8 * s + r) \<le> n" using assms(3) unfolding lv by (simp add: complete_def)
  note tn = tile_of_node [OF c r, folded off_def]
  have "lookup s off ?p = Inr (map ?g [0..<?q])" using assms(1) tn(1,2) unfolding sdb_serves_def by blast
  then obtain tb' where tb': "broker_tile tb (s, off) = (Inr (map ?g [0..<?q]), tb')" "broker_ok n lookup tb'"
    using broker_tile_ok [OF assms(4), of "(s, off)"] by auto
  have "?q \<le> 256" using tn(1) by simp
  then have "sdb_hash C (map ?g [0..<?q]) (nid r ?j) = Inr (node_hash hc ?g r ?j)" by (rule sdb_hash_node [OF r tn(3)])
  moreover have "node_hash hc ?g r ?j = node_hash hc lf lv ix"
    using node_in_tile [of r hc lf s off ?j] r unfolding lv off_def div_mult_mod_eq by simp
  ultimately show ?thesis using convertToSumDBTiles_node(1) [OF assms(3,2)] tb' unfolding s_def [symmetric] r_def [symmetric] off_def by auto
qed

lemma sdb_proof_loop_ok:
  "\<lbrakk>sdb_serves lookup hc lf n; n < 2 ^ 56; broker_ok n lookup tb; \<forall>(x, y) \<in> set ns. complete b n (unat x) (unat y) \<and> nid (unat x) (unat y) = (x, y)\<rbrakk> \<Longrightarrow>
     sdb_proof_loop C tb ns = Inr (map (\<lambda>(l, i). node_hash hc lf (unat l) (unat i)) ns)"
proof (induction ns arbitrary: tb)
  case (Cons nd ns)
  obtain x y where nd: "nd = (x, y)" by fastforce
  have c: "complete b n (unat x) (unat y)" and e: "nid (unat x) (unat y) = (x, y)" using Cons.prems(4) nd by auto
  obtain i j t tb' where "convertToSumDBTiles (x, y) = Inr (i, j)" "broker_tile tb i = (Inr t, tb')" "broker_ok n lookup tb'"
      "sdb_hash C t j = Inr (node_hash hc lf (unat x) (unat y))"
    using node_from_tile [OF Cons.prems(1,2) c Cons.prems(3)] unfolding e by blast
  then show ?case using Cons.IH [OF Cons.prems(1,2), of tb'] Cons.prems(4) by (simp add: nd)
qed simp

lemma sumdb_fetchProof_compact:
  assumes "sdb_serves lookup hc lf (unat (Size tto))" "unat (Size tto) < 2 ^ 56"
  shows "sumdb_fetchProof C lookup frm tto = Inr (compact_hashes C hc lf (Size frm) (Size tto))"
  unfolding sumdb_fetchProof_def compact_hashes_def
  by (rule sdb_proof_loop_ok [OF assms newTileBroker_ok, where b = "unat (Size frm)"]) (auto dest: range_nodes_complete)

end

text \<open>The paths of such a server, and the client that reads them.\<close>

definition sumdb_server :: "SumDBClient \<Rightarrow> hash_fn \<Rightarrow> (nat \<Rightarrow> bytes) \<Rightarrow> nat \<Rightarrow> bool" where
  "sumdb_server c hc lf n \<longleftrightarrow> sdb_height c = 8 \<and> (\<forall>x y. length (hc x y) = HashLenBytes) \<and> (\<forall>i. length (lf i) = HashLenBytes) \<and>
     (\<forall>l off p. p < 256 \<longrightarrow> (256 * off + (if p = 0 then 256 else p)) * 2 ^ (8 * l) \<le> n \<longrightarrow>
       sdb_fetcher c (tile_url c l off p) = Inr (concat (map (\<lambda>k. node_hash hc lf (8 * l) (256 * off + k)) [0..<(if p = 0 then 256 else p)])))"

lemma node_hash_length: "\<lbrakk>\<forall>x y. length (hc x y) = n; \<forall>i. length (lf i) = n\<rbrakk> \<Longrightarrow> length (node_hash hc lf l i) = n"
  by (cases l) simp_all

lemma sumdb_server_serves: "sumdb_server c hc lf n \<Longrightarrow> sdb_serves (TileHashes c) hc lf n"
  unfolding sdb_serves_def sumdb_server_def by (intro allI impI TileHashes_serves) (auto simp: node_hash_length)


subsection \<open>Feeding a witness in the same process\<close>

context backoff_retry
begin

lemma retry_first:
  assumes "op s = (Succeeded, s')"
  shows "retry op s = (None, s')"
proof -
  obtain r s2 where r: "retry op s = (r, s2)" by fastforce
  show ?thesis using retry_attempts [OF r] assms unfolding r by cases simp_all
qed

end

text \<open>What the feeder and the witness must agree on, and the checkpoint that the log shows.\<close>

definition feeds ::
    "(hash_fn \<Rightarrow> 'r compact) \<Rightarrow> 'n proof_lib \<Rightarrow> ('v, 's) note_lib \<Rightarrow> ('v, 's, inMemoryPersistence, 'h) Witness \<Rightarrow> 'v LogInfo \<Rightarrow>
     ('v, inMemoryPersistence) FeedOpts \<Rightarrow> bytes \<Rightarrow> Checkpoint \<Rightarrow> Note \<Rightarrow> bytes \<Rightarrow> bool" where
  "feeds RF P N w info opts raw nx nn sg \<longleftrightarrow>
     w_Logs w (fo_LogID opts) = Some info \<and> li_Origin info = fo_LogOrigin opts \<and> li_SigV info = fo_LogSigVerifier opts \<and>
     fo_Witness opts = witnessAdapter RF P N w \<and> fo_FetchCheckpoint opts = Inr raw \<and>
     witness_parse N w raw (fo_LogID opts) = Inr (nx, nn) \<and> signChkpt N w nn = Inr sg"

lemma feedsD:
  assumes "feeds RF P N w info opts raw nx nn sg"
  shows "w_Logs w (fo_LogID opts) = Some info" "fo_Witness opts = witnessAdapter RF P N w" "fo_FetchCheckpoint opts = Inr raw"
    "witness_parse N w raw (fo_LogID opts) = Inr (nx, nn)" "signChkpt N w nn = Inr sg"
    "ParseCheckpoint N x (fo_LogOrigin opts) (fo_LogSigVerifier opts) [] = witness_parse N w x (fo_LogID opts)"
  using assms by (auto simp: feeds_def witness_parse_def)

text \<open>The witness holds a checkpoint of the first \<open>k\<close> leaves of a log, with the range \<open>rng\<close> for it, or nothing.\<close>

definition fed_at ::
    "(Checkpoint \<Rightarrow> bytes option) \<Rightarrow> hash_fn \<Rightarrow> (nat \<Rightarrow> bytes) \<Rightarrow> ('v, 's) note_lib \<Rightarrow> ('v, 's, inMemoryPersistence, 'h) Witness \<Rightarrow>
     string \<Rightarrow> inMemoryPersistence \<Rightarrow> nat \<Rightarrow> bool" where
  "fed_at rng hc lf N w i p k \<longleftrightarrow> (case map_of p i of
     None \<Rightarrow> k = 0
   | Some e \<Rightarrow> rawChkpt e \<noteq> [] \<and> (\<exists>prev pn. witness_parse N w (rawChkpt e) i = Inr (prev, pn) \<and> 0 < Size prev \<and> unat (Size prev) = k \<and>
       Hash prev = mth hc lf 0 k \<and> compactRange e = rng prev))"

lemma fed_at_update:
  assumes "sg \<noteq> []" "witness_parse N w sg i = Inr (nx, nn)" "0 < Size nx" "Hash nx = mth hc lf 0 (unat (Size nx))"
  shows "fed_at rng hc lf N w i (AList.update i \<lparr>rawChkpt = sg, compactRange = rng nx\<rparr> p) (unat (Size nx))"
  using assms by (auto simp: fed_at_def update_conv')

text \<open>One feed of a log whose proofs the witness accepts.\<close>

lemma FeedOnce_accepted:
  assumes "backoff_retry retry" "lsp w = inmemory iter" "feeds RF P N w info opts raw nx nn sg"
    "fed_at rng hc lf N w (fo_LogID opts) p k" "k \<le> unat (Size nx)" "0 < Size nx" "Hash nx = mth hc lf 0 (unat (Size nx))"
    "sg \<noteq> []" "witness_parse N w sg (fo_LogID opts) = Inr (nx, nn')"
    "\<exists>pf. fo_FetchProof opts zero_checkpoint nx = Inr pf \<and> init_range RF info nx pf = Inr (rng nx)"
    "\<And>e prev pn. \<lbrakk>map_of p (fo_LogID opts) = Some e; witness_parse N w (rawChkpt e) (fo_LogID opts) = Inr (prev, pn); compactRange e = rng prev;
       0 < Size prev; Size prev < Size nx; Hash prev = mth hc lf 0 (unat (Size prev))\<rbrakk> \<Longrightarrow>
       \<exists>pf. fo_FetchProof opts prev nx = Inr pf \<and> witness_Update RF P N w p (fo_LogID opts) raw pf =
         ((Some sg, None), AList.update (fo_LogID opts) \<lparr>rawChkpt = sg, compactRange = rng nx\<rparr> p)"
  shows "\<exists>held rg p'. FeedOnce N retry opts p = (Inr held, p') \<and> im_view p' = (im_view p)(fo_LogID opts \<mapsto> (held, rg)) \<and>
    fed_at rng hc lf N w (fo_LogID opts) p' (unat (Size nx))"
proof -
  let ?i = "fo_LogID opts" and ?p1 = "AList.update (fo_LogID opts) \<lparr>rawChkpt = sg, compactRange = rng nx\<rparr> p"
  note f = feedsD [OF assms(3)]
  have once: "FeedOnce N retry opts p = (Inr held, p')" if "submitOp N opts raw nx ([], p) = (Succeeded, held, p')" for held p'
    using backoff_retry.retry_first [OF assms(1), of "submitOp N opts raw nx", OF that] f by (simp add: FeedOnce_def submitToWitness_def)
  have stored: ?thesis if "submitOp N opts raw nx ([], p) = (Succeeded, sg, ?p1)"
    using once [OF that] fed_at_update [OF assms(8,9,6,7), of rng p]
    by (auto simp: im_view_def update_conv' fun_eq_iff)
  show ?thesis
  proof (cases "map_of p ?i")
    case None
    obtain pf where pf: "fo_FetchProof opts zero_checkpoint nx = Inr pf" "init_range RF info nx pf = Inr (rng nx)" using assms(10) by blast
    have get: "fw_GetLatestCheckpoint (fo_Witness opts) p ?i = (Inl ErrNotExist, p)"
      using None assms(2) by (simp add: f(2) witnessAdapter_def witness_GetCheckpoint_def inmemory_def im_ReadOps_def rw_GetLatest_def)
    have "witness_Update RF P N w p ?i raw pf = ((Some sg, None), ?p1)"
      using f None assms(2) pf(2)
      by (simp add: witness_Update_def update_decide_def update_finish_def setInitChkptData_def inmemory_def im_WriteOps_def rw_GetLatest_def
          rw_Set_def expectAndWrite_def rw_Close_def Let_def)
    then have "submitOp N opts raw nx ([], p) = (Succeeded, sg, ?p1)"
      using get pf(1) by (simp add: submitOp_def Let_def f(2) witnessAdapter_def)
    then show ?thesis by (rule stored)
  next
    case (Some e)
    obtain prev pn where pv: "rawChkpt e \<noteq> []" "witness_parse N w (rawChkpt e) ?i = Inr (prev, pn)" "0 < Size prev" "unat (Size prev) = k"
        "Hash prev = mth hc lf 0 k" "compactRange e = rng prev"
      using assms(4) Some by (auto simp: fed_at_def)
    have get: "fw_GetLatestCheckpoint (fo_Witness opts) p ?i = (Inr (rawChkpt e), p)"
      using Some assms(2) by (simp add: f(2) witnessAdapter_def witness_GetCheckpoint_def inmemory_def im_ReadOps_def rw_GetLatest_def)
    have le: "\<not> Size nx < Size prev" using assms(5) pv(4) by (simp add: word_less_nat_alt)
    show ?thesis
    proof (cases "Size prev = Size nx")
      case True
      then have "Hash prev = Hash nx" using pv(4,5) assms(7) by simp
      then have "submitOp N opts raw nx ([], p) = (Succeeded, rawChkpt e, p)"
        using get pv True by (simp add: submitOp_def Let_def f(6))
      from once [OF this] show ?thesis using Some assms(4) pv(4) True by (auto simp: im_view_def fun_eq_iff)
    next
      case False
      then have lt: "Size prev < Size nx" using le by simp
      obtain pf where pf: "fo_FetchProof opts prev nx = Inr pf" "witness_Update RF P N w p ?i raw pf = ((Some sg, None), ?p1)"
        using assms(11) [OF Some pv(2,6,3) lt] pv(4,5) by blast
      then have "submitOp N opts raw nx ([], p) = (Succeeded, sg, ?p1)"
        using get pv le False by (simp add: submitOp_def Let_def f(2,6) witnessAdapter_def)
      then show ?thesis by (rule stored)
    qed
  qed
qed


text \<open>A new checkpoint that the witness decides to store.\<close>

lemma Update_stores:
  assumes "lsp w = inmemory iter" "w_Logs w i = Some info" "witness_parse N w raw i = Inr (nx, nn)" "map_of p i = Some e"
    "update_decide RF P N w i info nx nn pf (Inr (rawChkpt e, compactRange e)) = StoreSet sg rg"
  shows "witness_Update RF P N w p i raw pf = ((Some sg, None), AList.update i \<lparr>rawChkpt = sg, compactRange = rg\<rparr> p)"
  using assms by (simp add: witness_Update_def update_finish_def inmemory_def im_WriteOps_def rw_GetLatest_def rw_Set_def expectAndWrite_def
      rw_Close_def Let_def)

subsection \<open>The checksum database\<close>

text \<open>The range that a witness keeps with a checkpoint.\<close>

definition range_at :: "'r compact \<Rightarrow> hash_fn \<Rightarrow> (nat \<Rightarrow> bytes) \<Rightarrow> Checkpoint \<Rightarrow> bytes option" where
  "range_at C hc lf ckpt = Some (Proof_Marshal (compact_hashes C hc lf 0 (Size ckpt)))"

context compact_range
begin

lemma init_range_honest:
  assumes "RF (HashChildren (li_Hasher info)) = C" "UseCompact info" "0 < Size nx" "Hash nx = mth hc lf 0 (unat (Size nx))"
  shows "init_range RF info nx (compact_hashes C hc lf 0 (Size nx)) = Inr (range_at C hc lf nx)"
proof -
  obtain r where r: "NewRange C 0 (Size nx) (compact_hashes C hc lf 0 (Size nx)) = Inr r" "rep r lf 0 (unat (Size nx))"
    using NewRange_hashes [of 0 "Size nx" lf] by auto
  then show ?thesis using verifyRangeHash_rep [OF r(2) assms(3)] assms by (simp add: init_range_def range_at_def)
qed

lemma update_decide_compact:
  assumes "RF (HashChildren (li_Hasher info)) = C" "UseCompact info" "witness_parse N w prevRaw i = Inr (prev, pn)"
    "0 < Size prev" "Size prev < Size nx" "Hash prev = mth hc lf 0 (unat (Size prev))" "Hash nx = mth hc lf 0 (unat (Size nx))"
    "signChkpt N w nn = Inr sg"
  shows "update_decide RF P N w i info nx nn (compact_hashes C hc lf (Size prev) (Size nx)) (Inr (prevRaw, range_at C hc lf prev)) =
    StoreSet sg (range_at C hc lf nx)"
proof -
  note v = verifyRange_honest [where RF = RF and h = "li_Hasher info", OF assms(1,4-6)]
  have "\<not> Size nx < Size prev" "Size nx \<noteq> Size prev" using assms(5) by auto
  then show ?thesis using assms v compact_hashes_not_Nil [OF assms(4), of lf]
    by (simp add: update_decide_def range_at_def Let_def Proof_Unmarshal_def Proof_Marshal_suffix split_on_proof mapE_decode_encode)
qed

end

text \<open>What the checksum database shows to a feeder: its latest checkpoint \<open>nx\<close> is of the log \<open>lf\<close>, whose tiles it serves, and
  can be cosigned and read again.\<close>

definition sumdb_shows ::
    "('v, 's) key_lib \<Rightarrow> ('v, 's) note_lib \<Rightarrow> (string \<Rightarrow> tlogTree res) \<Rightarrow> ('v, 's, inMemoryPersistence, 'h) Witness \<Rightarrow> string \<Rightarrow> hash_fn \<Rightarrow>
     (nat \<Rightarrow> bytes) \<Rightarrow> SumDBClient \<Rightarrow> Checkpoint \<Rightarrow> bool" where
  "sumdb_shows K N parseTree w i hc lf sdb nx \<longleftrightarrow>
     (\<exists>sc nn sg nn'. LatestCheckpoint K N parseTree sdb = Inr sc \<and> witness_parse N w (sc_Raw sc) i = Inr (nx, nn) \<and> signChkpt N w nn = Inr sg \<and>
        sg \<noteq> [] \<and> witness_parse N w sg i = Inr (nx, nn')) \<and>
     0 < Size nx \<and> unat (Size nx) < 2 ^ 56 \<and> Hash nx = mth hc lf 0 (unat (Size nx)) \<and> sumdb_server sdb hc lf (unat (Size nx))"

lemma sumdb_feeds:
  assumes "compact_range C hc rep" "hc = HashChildren (li_Hasher info)" "C = RF hc" "backoff_retry retry" "lsp w = inmemory iter"
    "w_Logs w (cl_ID l) = Some info" "UseCompact info" "li_Origin info = cl_Origin l"
    "sumdb_shows K N parseTree w (cl_ID l) hc lf sdb nx" "fed_at (range_at C hc lf) hc lf N w (cl_ID l) p k" "k \<le> unat (Size nx)"
  shows "\<exists>held p'. FeedOnce N retry (sumdb_opts K N parseTree C l (li_SigV info) (witnessAdapter RF P N w) sdb) p = (Inr held, p') \<and>
    fed_at (range_at C hc lf) hc lf N w (cl_ID l) p' (unat (Size nx))"
proof -
  let ?opts = "sumdb_opts K N parseTree C l (li_SigV info) (witnessAdapter RF P N w) sdb"
  obtain sc nn sg nn' where sc: "LatestCheckpoint K N parseTree sdb = Inr sc" "witness_parse N w (sc_Raw sc) (cl_ID l) = Inr (nx, nn)"
      "signChkpt N w nn = Inr sg" "sg \<noteq> []" "witness_parse N w sg (cl_ID l) = Inr (nx, nn')"
    and nx: "0 < Size nx" "unat (Size nx) < 2 ^ 56" "Hash nx = mth hc lf 0 (unat (Size nx))" "sumdb_server sdb hc lf (unat (Size nx))"
    using assms(9) unfolding sumdb_shows_def by blast
  have C: "RF (HashChildren (li_Hasher info)) = C" using assms(2,3) by simp
  have id: "fo_LogID ?opts = cl_ID l" by (simp add: sumdb_opts_def)
  have fp: "fo_FetchProof ?opts prev nx = Inr (compact_hashes C hc lf (Size prev) (Size nx))" for prev
    using compact_range.sumdb_fetchProof_compact [OF assms(1) sumdb_server_serves [OF nx(4)] nx(2)] by (simp add: sumdb_opts_def)
  have f: "feeds RF P N w info ?opts (sc_Raw sc) nx nn sg" using sc assms(6,8) by (simp add: feeds_def sumdb_opts_def)
  have tofu: "\<exists>pf. fo_FetchProof ?opts zero_checkpoint nx = Inr pf \<and> init_range RF info nx pf = Inr (range_at C hc lf nx)"
    using fp [of zero_checkpoint] compact_range.init_range_honest [where RF = RF, OF assms(1) C assms(7) nx(1,3)] by (simp add: zero_checkpoint_def)
  have grow: "\<exists>pf. fo_FetchProof ?opts prev nx = Inr pf \<and> witness_Update RF P N w p (fo_LogID ?opts) (sc_Raw sc) pf =
         ((Some sg, None), AList.update (fo_LogID ?opts) \<lparr>rawChkpt = sg, compactRange = range_at C hc lf nx\<rparr> p)"
    if e: "map_of p (fo_LogID ?opts) = Some e" "witness_parse N w (rawChkpt e) (fo_LogID ?opts) = Inr (prev, pn)" "compactRange e = range_at C hc lf prev"
       "0 < Size prev" "Size prev < Size nx" "Hash prev = mth hc lf 0 (unat (Size prev))" for e prev pn
  proof -
    have "update_decide RF P N w (cl_ID l) info nx nn (compact_hashes C hc lf (Size prev) (Size nx)) (Inr (rawChkpt e, compactRange e)) =
        StoreSet sg (range_at C hc lf nx)"
      unfolding e(3) using e(2) unfolding id
      by (rule compact_range.update_decide_compact [where RF = RF, OF assms(1) C assms(7) _ e(4-6) nx(3) sc(3)])
    then show ?thesis using Update_stores [OF assms(5,6) sc(2) e(1) [unfolded id]] fp [of prev] unfolding id by blast
  qed
  have "\<exists>held rg p'. FeedOnce N retry ?opts p = (Inr held, p') \<and> im_view p' = (im_view p)(fo_LogID ?opts \<mapsto> (held, rg)) \<and>
    fed_at (range_at C hc lf) hc lf N w (fo_LogID ?opts) p' (unat (Size nx))"
    by (rule FeedOnce_accepted [OF assms(4,5) f assms(10) [folded id] assms(11) nx(1,3) sc(4) sc(5) [folded id] tofu]) (rule grow)
  then show ?thesis unfolding id by blast
qed

text \<open>C8: The feeder of the checksum database and a witness that keeps compact ranges.  Whatever the tiles in which the database
  serves its log, full or partial, the feeder takes from them exactly the proofs that the witness needs: if the database
  shows checkpoints of one growing log in the cycles of the feeder, the witness ends up with the last of them and with
  the compact range of its leaves.\<close>

theorem sumdb_FeedLog_follows:
  assumes "compact_range C hc rep" "hc = HashChildren (li_Hasher info)" "C = RF hc" "backoff_retry retry" "lsp w = inmemory iter"
    "w_Logs w (cl_ID l) = Some info" "UseCompact info" "li_Origin info = cl_Origin l"
    "nv (cl_PublicKeyType l) (cl_PublicKey l) = Inr (li_SigV info)"
    "list_all2 (\<lambda>world. sumdb_shows K N parseTree w (cl_ID l) hc lf (NewSumDB tileHeight (cl_PublicKey l) (cl_URL l) c world)) worlds ckpts"
    "sorted (k # map (\<lambda>x. unat (Size x)) ckpts)" "fed_at (range_at C hc lf) hc lf N w (cl_ID l) p k"
  shows "\<exists>p'. sumdb_FeedLog K N parseTree c C nv retry l (witnessAdapter RF P N w) worlds p = (Some ErrCanceled, p') \<and>
    fed_at (range_at C hc lf) hc lf N w (cl_ID l) p' (last (k # map (\<lambda>x. unat (Size x)) ckpts))"
proof -
  let ?opts = "\<lambda>world. sumdb_opts K N parseTree C l (li_SigV info) (witnessAdapter RF P N w) (NewSumDB tileHeight (cl_PublicKey l) (cl_URL l) c world)"
  have "fed_at (range_at C hc lf) hc lf N w (cl_ID l) (feeder_Run N retry (map ?opts worlds) p) (last (k # map (\<lambda>x. unat (Size x)) ckpts))"
    using assms(10-12)
  proof (induction arbitrary: p k rule: list_all2_induct)
    case (Cons world worlds ckpt ckpts)
    obtain held p1 where "FeedOnce N retry (?opts world) p = (Inr held, p1)" "fed_at (range_at C hc lf) hc lf N w (cl_ID l) p1 (unat (Size ckpt))"
      using sumdb_feeds [where RF = RF and P = P, OF assms(1-8) Cons.hyps(1) Cons.prems(2)] Cons.prems(1) by auto
    then show ?case using Cons.IH [of "unat (Size ckpt)" p1] Cons.prems(1) by simp
  qed simp
  then show ?thesis using assms(9) by (auto simp: sumdb_FeedLog_def)
qed


subsection \<open>A serverless log\<close>

lemma feeder_fetch:
  assumes "file_url U root dir"
  obtains ft where "feeder_newFetcher U c root = Inr ft" "\<And>q. log_path q \<Longrightarrow> ft (f, st) q = dir_fetcher f dir q"
proof -
  let ?ft = "\<lambda>(f, st) p. case u_Resolve U root p of Inl e \<Rightarrow> Inl e | Inr u \<Rightarrow> os_ReadFile f (u_Path U u)"
  have "?ft (f, st) q = dir_fetcher f dir q" if lp: "log_path q" for q
  proof -
    obtain u where u: "u_Resolve U root q = Inr u" "u_Path U u = dir @ ''/'' @ q" using assms lp by (auto simp: file_url_def)
    have "Join [dir, q] = Clean (dir @ ''/'' @ q)" using assms by (simp add: Join_def file_url_def)
    then have "os_ReadFile f (Join [dir, q]) = os_ReadFile f (dir @ ''/'' @ q)" by (simp add: os_ReadFile_def key_of_Clean)
    then show ?thesis using u by (simp add: dir_fetcher_def)
  qed
  moreover have "feeder_newFetcher U c root = Inr ?ft" using assms by (simp add: feeder_newFetcher_def file_url_def)
  ultimately show thesis using that by blast
qed

lemma serverless_fetchProof_verifies:
  assumes "\<And>g. compact_range (RF g) g (rep g)" "merkle_proofs P h" "dir_ready h (unat (Size nx)) m dir f" "fs_healthy dir f"
    "Hash nx = tree_root h (leaf_fn h (dir_entries dir f)) (unat (Size nx))" "\<And>q. log_path q \<Longrightarrow> F q = dir_fetcher f dir q"
    "0 < Size prev" "Size prev < Size nx"
  shows "\<exists>pf. serverless_fetchProof RF P h F prev nx = Inr pf \<and> VerifyConsistency P h (Size prev) (Size nx) pf
    (mth (HashChildren h) (leaf_fn h (dir_entries dir f)) 0 (unat (Size prev))) (Hash nx) = None"
proof -
  let ?lf = "leaf_fn h (dir_entries dir f)"
  have pos: "0 < unat (Size nx)" using assms(8) by (simp add: word_less_nat_alt)
  have "newTileFetcher F (Size nx) = newTileFetcher (dir_fetcher f dir) (Size nx)"
  proof (intro ext)
    fix x y
    have "log_path (JoinPair (TilePath [] x y (PartialTileSize x y (Size nx))))" unfolding log_path_def by blast
    from assms(6) [OF this] show "newTileFetcher F (Size nx) x y = newTileFetcher (dir_fetcher f dir) (Size nx) x y"
      by (simp add: newTileFetcher_def Let_def)
  qed
  then obtain pb where pb: "NewProofBuilder RF nx (HashChildren h) F = Inr pb" "builder_ok (HashChildren h) ?lf pb" "cp pb = nx"
    using proof_builder_over_dir [OF assms(1,3,4) pos assms(5)] by blast
  have "Hash nx = mth (HashChildren h) ?lf 0 (unat (Size nx))" using assms(5) pos by (simp add: tree_root_def)
  then obtain pf pb' where "ConsistencyProof P pb (Size prev) (Size nx) = (Inr pf, pb')"
      "VerifyConsistency P h (Size prev) (Size nx) pf (mth (HashChildren h) ?lf 0 (unat (Size prev))) (Hash nx) = None"
    using merkle_proofs.ConsistencyProof_verifies [OF assms(2) pb(2) assms(7) less_imp_le [OF assms(8)]] pb(3) by auto
  then show ?thesis using pb(1) assms(7) by (auto simp: serverless_fetchProof_def word_gt_0)
qed

text \<open>C9: The feeder of a serverless log and a witness.  Pointed at the file URL of a good log directory, one feed succeeds, and the
  witness then holds the published checkpoint, cosigned, if it held none of this log or an earlier one: the feeder
  builds from the tiles a consistency proof that the witness accepts.\<close>

theorem serverless_FeedLog_follows:
  assumes "\<And>g. compact_range (RF g) g (rep g)" "merkle_proofs P h" "backoff_retry retry" "lsp w = inmemory iter"
    "w_Logs w (cl_ID l) = Some info" "\<not> UseCompact info" "li_Hasher info = h" "li_Origin info = cl_Origin l"
    "nv (cl_PublicKeyType l) (cl_PublicKey l) = Inr (li_SigV info)" "u_Parse U (cl_URL l) = Inr root" "file_url U root dir"
    "log_dir N h (cl_Origin l) dir m f" "fs_healthy dir f" "ReadCheckpoint f dir = Inr raw" "witness_parse N w raw (cl_ID l) = Inr (nx, nn)"
    "0 < Size nx" "signChkpt N w nn = Inr sg" "sg \<noteq> []" "witness_parse N w sg (cl_ID l) = Inr (nx, nn')"
    "fed_at (\<lambda>_. None) (HashChildren h) (leaf_fn h (dir_entries dir f)) N w (cl_ID l) p k" "k \<le> unat (Size nx)" "interval \<le> 0"
  shows "\<exists>held rg p'. serverless_FeedLog N U c RF P nv h retry l (witnessAdapter RF P N w) interval [(f, st)] p = (None, p') \<and>
    im_view p' = (im_view p)(cl_ID l \<mapsto> (held, rg)) \<and>
    fed_at (\<lambda>_. None) (HashChildren h) (leaf_fn h (dir_entries dir f)) N w (cl_ID l) p' (unat (Size nx))"
proof -
  let ?hc = "HashChildren h" and ?lf = "leaf_fn h (dir_entries dir f)"
  obtain ft where ft: "feeder_newFetcher U c root = Inr ft" "\<And>q. log_path q \<Longrightarrow> ft (f, st) q = dir_fetcher f dir q"
    using feeder_fetch [OF assms(11), of c f st] by blast
  let ?opts = "serverless_opts RF P h l (li_SigV info) (witnessAdapter RF P N w) (ft (f, st))"
  have id: "fo_LogID ?opts = cl_ID l" by (simp add: serverless_opts_def)
  have "ft (f, st) ''checkpoint'' = Inr raw"
    using ft(2) [of CheckpointPath] assms(14) by (simp add: log_path_def CheckpointPath_def dir_fetcher_def ReadCheckpoint_def)
  then have fd: "feeds RF P N w info ?opts raw nx nn sg" using assms(5,8,15,17) by (simp add: feeds_def serverless_opts_def)
  have "ParseCheckpoint N raw (cl_Origin l) (li_SigV info) [] = Inr (nx, nn)" using assms(5,8,15) by (simp add: witness_parse_def)
  note com = commitsD [OF ReadCheckpoint_ent(2) [OF assms(12,14)] this]
  have pos: "0 < unat (Size nx)" using assms(16) by (simp add: word_less_nat_alt)
  have root: "Hash nx = mth ?hc ?lf 0 (unat (Size nx))" using com(2) pos by (simp add: tree_root_def)
  have tofu: "\<exists>pf. fo_FetchProof ?opts zero_checkpoint nx = Inr pf \<and> init_range RF info nx pf = Inr None"
    using assms(6) by (simp add: serverless_opts_def serverless_fetchProof_def zero_checkpoint_def init_range_def)
  have grow: "\<exists>pf. fo_FetchProof ?opts prev nx = Inr pf \<and> witness_Update RF P N w p (fo_LogID ?opts) raw pf =
         ((Some sg, None), AList.update (fo_LogID ?opts) \<lparr>rawChkpt = sg, compactRange = None\<rparr> p)"
    if e: "map_of p (fo_LogID ?opts) = Some e" "witness_parse N w (rawChkpt e) (fo_LogID ?opts) = Inr (prev, pn)" "compactRange e = None"
       "0 < Size prev" "Size prev < Size nx" "Hash prev = mth ?hc ?lf 0 (unat (Size prev))" for e prev pn
  proof -
    obtain pf where pf: "serverless_fetchProof RF P h (ft (f, st)) prev nx = Inr pf"
        "VerifyConsistency P h (Size prev) (Size nx) pf (Hash prev) (Hash nx) = None"
      using serverless_fetchProof_verifies [OF assms(1,2) com(1) assms(13) com(2) ft(2) e(4,5)] unfolding e(6) by blast
    have "fo_FetchProof ?opts prev nx = Inr pf" using pf(1) by (simp add: serverless_opts_def)
    moreover have "\<not> Size nx < Size prev" "Size nx \<noteq> Size prev" using e(5) by auto
    then have "update_decide RF P N w (cl_ID l) info nx nn pf (Inr (rawChkpt e, compactRange e)) = StoreSet sg None"
      using e(2) pf(2) assms(6,7,17) unfolding id by (simp add: update_decide_def Let_def)
    ultimately show ?thesis using Update_stores [OF assms(4,5,15) e(1) [unfolded id]] unfolding id by blast
  qed
  have "\<exists>held rg p'. FeedOnce N retry ?opts p = (Inr held, p') \<and> im_view p' = (im_view p)(fo_LogID ?opts \<mapsto> (held, rg)) \<and>
    fed_at (\<lambda>_. None) ?hc ?lf N w (fo_LogID ?opts) p' (unat (Size nx))"
    by (rule FeedOnce_accepted [OF assms(3,4) fd assms(20) [folded id] assms(21,16) root assms(18) assms(19) [folded id] tofu]) (rule grow)
  then show ?thesis using assms(9,10,22) ft(1) unfolding id by (fastforce simp: serverless_FeedLog_def Let_def)
qed

end
