(* ===== verification/FeederExamples.thy ===== *)
theory FeederExamples
  imports FeedersProofs ClientExamples
begin

section \<open>The feeders at concrete inputs\<close>

text \<open>Notes whose text is the checkpoint itself, so that a cosigned checkpoint reads as the checkpoint.\<close>

definition feed_notes :: "(unit, unit) note_lib" where
  "feed_notes = line_notes\<lparr>note_Open := (\<lambda>raw vs. Opened \<lparr>NoteText = raw, Sigs = [], UnverifiedSigs = []\<rparr>),
     ParseCheckpoint := (\<lambda>raw origin v vs. case ParseCheckpoint line_notes raw origin v vs of
        Inl e \<Rightarrow> Inl e | Inr (c, n) \<Rightarrow> Inr (c, n\<lparr>NoteText := raw\<rparr>))\<rparr>"

lemma feed_parse:
  "ParseCheckpoint feed_notes (MarshalCheckpoint line_notes c) (Origin c) v [] = Inr (c, empty_note\<lparr>NoteText := MarshalCheckpoint line_notes c\<rparr>)"
  by (simp add: feed_notes_def line_parse)

lemma feed_log_dir: "log_dir line_notes h og root m f \<Longrightarrow> log_dir feed_notes h og root m f"
proof -
  have "commits feed_notes h og root m f raw" if "commits line_notes h og root m f raw" for raw
    using that by (auto simp: commits_def feed_notes_def split: sum.splits)
  then show "log_dir line_notes h og root m f \<Longrightarrow> log_dir feed_notes h og root m f"
    by (auto simp: log_dir_def split: option.splits fnode.splits)
qed

definition feed_log :: config_Log where
  "feed_log = \<lparr>cl_ID = ''i'', cl_PublicKey = ''k'', cl_PublicKeyType = [], cl_Origin = ''o'', cl_URL = ''file:///l/''\<rparr>"

definition feed_info :: "hasher \<Rightarrow> bool \<Rightarrow> unit LogInfo" where
  "feed_info h cmp = \<lparr>li_SigV = (), li_Origin = ''o'', li_Hasher = h, UseCompact = cmp\<rparr>"

definition feed_witness :: "hasher \<Rightarrow> bool \<Rightarrow> (unit, unit, inMemoryPersistence, readWriter) Witness" where
  "feed_witness h cmp = \<lparr>lsp = inmemory id, w_Signer = (), w_Logs = (\<lambda>i. if i = ''i'' then Some (feed_info h cmp) else None)\<rparr>"

lemma feed_witness_simps:
  "lsp (feed_witness h cmp) = inmemory id" "w_Logs (feed_witness h cmp) ''i'' = Some (feed_info h cmp)"
  "signChkpt feed_notes (feed_witness h cmp) n = Inr (NoteText n)"
  "witness_parse feed_notes (feed_witness h cmp) raw ''i'' = ParseCheckpoint feed_notes raw ''o'' () []"
  by (simp_all add: feed_witness_def signChkpt_def witness_parse_def feed_info_def) (simp add: feed_notes_def line_notes_def)

theorem serverless_FeedLog_follows_witness:
  "\<exists>f p'. log_dir feed_notes long_hasher ''o'' ''/l'' 1 f \<and>
    serverless_FeedLog feed_notes plain_urls page_client ref_compact rfc6962_proofs (\<lambda>_ _. Inr ()) long_hasher (retry_n 0) feed_log
      (witnessAdapter ref_compact rfc6962_proofs feed_notes (feed_witness long_hasher False)) 0 [(f, [])] [] = (None, p')"
proof -
  let ?w = "feed_witness long_hasher False"
  obtain f where f: "log_dir line_notes long_hasher ''o'' ''/l'' 1 f" "fs_healthy ''/l'' f" "ent f (cp_key ''/l'') = Some (File x_raw)"
    "ent f (leaf_key ''/l'' x_leaf) = Some (File (format_uint 16 0))" "dir_entries ''/l'' f 0 = Some ''x''" by (rule one_entry_log)
  note d = feed_log_dir [OF f(1)]
  have nf: "\<not> fault f p k" for p k using healthyD(1) [OF f(2)] .
  have rd: "ReadCheckpoint f ''/l'' = Inr x_raw" using ReadCheckpoint_written [OF fs_okD(2) [OF log_dirD(4) [OF d]] f(3) nf] .
  have ps: "ParseCheckpoint feed_notes x_raw ''o'' () [] = Inr (x_cp, empty_note\<lparr>NoteText := x_raw\<rparr>)"
    using feed_parse [of x_cp "()"] by (simp add: x_raw_def x_cp_def)
  have ne: "x_raw \<noteq> []" by (simp add: x_raw_def line_notes_def)
  have "\<exists>held rg p'. serverless_FeedLog feed_notes plain_urls page_client ref_compact rfc6962_proofs (\<lambda>_ _. Inr ()) long_hasher (retry_n 0) feed_log
      (witnessAdapter ref_compact rfc6962_proofs feed_notes ?w) 0 [(f, [])] [] = (None, p') \<and> im_view p' = (im_view [])(cl_ID feed_log \<mapsto> (held, rg)) \<and>
      fed_at (\<lambda>_. None) (HashChildren long_hasher) (leaf_fn long_hasher (dir_entries ''/l'' f)) feed_notes ?w (cl_ID feed_log) p' (unat (Size x_cp))"
    using d rd ps ne
    by (intro serverless_FeedLog_follows [where rep = ref_rep and m = 1 and dir = "''/l''" and raw = x_raw and nx = x_cp and root = "''file:///l/''" and
          info = "feed_info long_hasher False" and k = 0 and sg = x_raw and nn = "empty_note\<lparr>NoteText := x_raw\<rparr>" and nn' = "empty_note\<lparr>NoteText := x_raw\<rparr>", OF ref.compact_range_axioms rfc.merkle_proofs_axioms retry_n.backoff_retry_axioms _ _ _ _ _ _ _ _ _ f(2)])
      (simp_all add: feed_witness_simps feed_log_def feed_info_def plain_urls_def file_url_def x_cp_def fed_at_def empty_note_def)
  then show ?thesis using d by blast
qed


subsection \<open>A small checksum database\<close>

text \<open>All leaves have the same hash and so have all inner nodes; the server knows its checkpoint and one partial tile of each
  size, and shows a log of one leaf and then one of three.\<close>

definition sdb_hasher :: hasher where
  "sdb_hasher = \<lparr>HashLeaf = id, HashChildren = (\<lambda>_ _. replicate 32 (CHR ''n'')), EmptyRoot = []\<rparr>"

definition sdb_leaf :: "nat \<Rightarrow> bytes" where
  "sdb_leaf k = replicate 32 (CHR ''l'')"

definition sdb_cp :: "nat \<Rightarrow> Checkpoint" where
  "sdb_cp n = \<lparr>Origin = ''o'', Size = of_nat n, Hash = mth (HashChildren sdb_hasher) sdb_leaf 0 n\<rparr>"

definition sdb_server :: "nat http_client" where
  "sdb_server = \<lparr>url_Parse = Inr, NewRequest = (\<lambda>m u b. Inr \<lparr>rq_Method = m, rq_URL = u, rq_Body = Inr b\<rparr>),
     client_Do = (\<lambda>n req. (Inr \<lparr>StatusCode = 200, rs_Body = Inr (
       if rq_URL req = ''/latest'' then MarshalCheckpoint line_notes (sdb_cp n)
       else concat (map sdb_leaf [0..<the (char_digit (last (rq_URL req)))]))\<rparr>, n))\<rparr>"

definition sdb_log :: config_Log where
  "sdb_log = feed_log\<lparr>cl_URL := []\<rparr>"

abbreviation sdb_client :: "nat \<Rightarrow> SumDBClient" where
  "sdb_client n \<equiv> NewSumDB tileHeight (cl_PublicKey sdb_log) (cl_URL sdb_log) sdb_server n"

lemma sdb_serves_small:
  assumes "n < 4"
  shows "sumdb_server (sdb_client n) (HashChildren sdb_hasher) sdb_leaf n"
proof -
  have "sdb_fetcher (sdb_client n) (tile_url (sdb_client n) l off p) =
      Inr (concat (map (\<lambda>k. node_hash (HashChildren sdb_hasher) sdb_leaf (8 * l) (256 * off + k)) [0..<(if p = 0 then 256 else p)]))"
    if b: "(256 * off + (if p = 0 then 256 else p)) * 2 ^ (8 * l) \<le> n" for l off p
  proof -
    have l: "l = 0"
    proof (rule ccontr)
      assume "l \<noteq> 0"
      then have "(2 :: nat) ^ 8 \<le> 2 ^ (8 * l)" by (intro power_increasing) simp_all
      moreover have "1 \<le> 256 * off + (if p = 0 then 256 else p)" by simp
      ultimately have "1 * 2 ^ 8 \<le> (256 * off + (if p = 0 then 256 else p)) * 2 ^ (8 * l)" by (rule mult_le_mono [rotated])
      then show False using b assms by simp
    qed
    have p: "off = 0" "0 < p" "p < 4" using b assms unfolding l by (auto split: if_splits)
    then have d: "format_uint 10 p = [digit_char p]" "char_digit (digit_char p) = Some p" by (simp_all add: format_uint.simps)
    have digits: "digit_char 8 = CHR ''8''" by code_simp
    have u: "tile_url (sdb_client n) l off p = ''/tile/8/0/000.p/'' @ [digit_char p]"
      using p(2) d(1) by (simp add: tile_url_def l p(1) NewSumDB_def tileHeight_def format_uint.simps [of 10 8] format_uint.simps [of 10 0] tilePath_def
          tilePath_loop.simps pathBase_def pad0_def numeral_2_eq_2 digits)
    have "length (concat (map sdb_leaf [0..<p])) < 2 ^ 20" using p(3) by (simp add: length_concat sdb_leaf_def comp_def sum_list_triv)
    then show ?thesis using p(2) d(2) unfolding u
      by (simp add: NewSumDB_def sdb_GetData_def sdb_log_def sdb_server_def l p(1))
  qed
  then show ?thesis by (simp add: sumdb_server_def NewSumDB_def tileHeight_def sdb_hasher_def sdb_leaf_def HashLenBytes_def)
qed

lemma sdb_shows:
  assumes "0 < n" "n < 4"
  shows "sumdb_shows tool_keys feed_notes (\<lambda>_. Inr \<lparr>tree_N = 0, tree_Hash = []\<rparr>) (feed_witness sdb_hasher True) ''i'' (HashChildren sdb_hasher)
    sdb_leaf (sdb_client n) (sdb_cp n)"
proof -
  let ?raw = "MarshalCheckpoint line_notes (sdb_cp n)"
  have ps: "ParseCheckpoint feed_notes ?raw ''o'' () [] = Inr (sdb_cp n, empty_note\<lparr>NoteText := ?raw\<rparr>)"
    using feed_parse [of "sdb_cp n" "()"] by (simp add: sdb_cp_def)
  have ne: "?raw \<noteq> []" by (simp add: line_notes_def)
  have u: "unat (of_nat n :: u64) = n" using assms by (intro unat_of_nat_u64) simp
  have z: "(0 :: u64) < of_nat n" using u assms(1) by (simp add: word_less_nat_alt)
  have "length (mth (HashChildren sdb_hasher) sdb_leaf 0 n) = 32"
    using assms(1) by (subst mth.simps) (simp add: sdb_hasher_def sdb_leaf_def)
  moreover have "format_uint 10 n = [digit_char n]" using assms by (simp add: format_uint.simps)
  ultimately have "length ?raw < 2 ^ 20" by (simp add: line_notes_def sdb_cp_def u)
  then have "LatestCheckpoint tool_keys feed_notes (\<lambda>_. Inr \<lparr>tree_N = 0, tree_Hash = []\<rparr>) (sdb_client n) = Inr \<lparr>sc_Tree = \<lparr>tree_N = 0, tree_Hash = []\<rparr>, sc_Raw = ?raw\<rparr>"
    by (simp add: LatestCheckpoint_def ParseCheckpointNote_def NewSumDB_def sdb_GetData_def sdb_log_def sdb_server_def tool_keys_def feed_notes_def)
  then show ?thesis
    using ps ne z sdb_serves_small [OF assms(2)] assms(2)
    by (simp add: sumdb_shows_def feed_witness_simps empty_note_def) (simp add: sdb_cp_def u)
qed

theorem sumdb_FeedLog_follows_witness:
  "\<exists>p'. sumdb_FeedLog tool_keys feed_notes (\<lambda>_. Inr \<lparr>tree_N = 0, tree_Hash = []\<rparr>) sdb_server (ref_compact (HashChildren sdb_hasher)) (\<lambda>_ _. Inr ())
     (retry_n 0) sdb_log (witnessAdapter ref_compact rfc6962_proofs feed_notes (feed_witness sdb_hasher True)) [1, 3] [] = (Some ErrCanceled, p') \<and>
   fed_at (range_at (ref_compact (HashChildren sdb_hasher)) (HashChildren sdb_hasher) sdb_leaf) (HashChildren sdb_hasher) sdb_leaf feed_notes
     (feed_witness sdb_hasher True) ''i'' p' 3"
proof -
  have id: "cl_ID sdb_log = ''i''" by (simp add: sdb_log_def feed_log_def)
  have u: "unat (Size (sdb_cp 1)) = 1" "unat (Size (sdb_cp 3)) = 3" by (simp_all add: sdb_cp_def)
  let ?hc = "HashChildren sdb_hasher" and ?pt = "\<lambda>_. Inr \<lparr>tree_N = 0, tree_Hash = []\<rparr>"
  have "\<exists>p'. sumdb_FeedLog tool_keys feed_notes ?pt sdb_server (ref_compact ?hc) (\<lambda>_ _. Inr ())
      (retry_n 0) sdb_log (witnessAdapter ref_compact rfc6962_proofs feed_notes (feed_witness sdb_hasher True)) [1, 3] [] = (Some ErrCanceled, p') \<and>
    fed_at (range_at (ref_compact ?hc) ?hc sdb_leaf) ?hc sdb_leaf feed_notes (feed_witness sdb_hasher True) (cl_ID sdb_log) p'
      (last (0 # map (\<lambda>x. unat (Size x)) [sdb_cp 1, sdb_cp 3]))"
    using sdb_shows [of 1] sdb_shows [of 3]
    by (intro sumdb_FeedLog_follows [where info = "feed_info sdb_hasher True" and RF = ref_compact, OF ref.compact_range_axioms _ _ retry_n.backoff_retry_axioms])
      (simp_all add: feed_witness_simps id u u(1) [unfolded One_nat_def] fed_at_def feed_info_def sdb_log_def feed_log_def)
  then show ?thesis by (simp add: id u)
qed

end
