(* ===== verification/Spec2Isabelle.thy ===== *)
theory Spec2Isabelle
  imports Examples LayoutTheorems WitnessFeed DistributorProofs CloneExamples StorageExamples ClientExamples
    FunctionExamples FeederExamples
begin

text \<open>
  A verification development for the transparency-log code of this repository: the serverless log, the
  witness with its feeder and distributor, and the log cloner.

  \<^bold>\<open>The program.\<close>  A serverless log is a directory (or browser store, or cloud bucket) of files at fixed
  paths: the sequenced entries, one file per leaf hash, tiles of Merkle tree nodes and a signed checkpoint.
  \<^verbatim>\<open>Sequence\<close> gives an entry its number, \<^verbatim>\<open>Integrate\<close> adds the sequenced entries to the tree and the command
  line tools publish the new checkpoint.  Clients read the files, check the checkpoint, and build and verify
  proofs.  A feeder brings new checkpoints to a witness, which cosigns those that are consistent with the
  last one it saw; a distributor collects cosigned checkpoints per log and witness and combines their
  signatures.  A cloner copies all leaves of a log to a database and checks their Merkle root.

  \<^bold>\<open>Conventions.\<close>  Go's integers are words of their width; strings and byte slices are \<open>string\<close>; a
  function that can fail returns \<open>go_error + 'a\<close> (\<open>'a res\<close>), with \<open>Panic\<close> for a run-time panic; a
  function that changes state takes and returns it, also when it fails; a loop that need not end is a
  \<open>partial_function (option)\<close> with \<open>None\<close> for not returning; goroutines that share channels or a context are \<open>inductive\<close>
  step relations, and a call of such code is a relation between its inputs and a possible result.  Code that is not in the
  repository is a parameter: a record of functions (\<open>note_lib\<close>, \<open>proof_lib\<close>, \<open>compact\<close>, \<open>gcs\<close>, the databases)
  with a locale for its documented laws.  Every locale is interpreted, the storage contract on all three
  storages of the repository.

  \<^bold>\<open>Theories and sources.\<close>
  \<^item> \<open>Prelude\<close>, \<open>GoStrings\<close>, \<open>GoBase64\<close>, \<open>Filepath\<close>: words, and the parts of Go's standard library that the
    code uses (\<^verbatim>\<open>strconv\<close>, \<^verbatim>\<open>fmt\<close>, \<^verbatim>\<open>strings\<close>, \<^verbatim>\<open>encoding/base64\<close>, \<^verbatim>\<open>path/filepath\<close>).
  \<^item> \<open>Layout\<close>, \<open>LayoutTheorems\<close>: \<^verbatim>\<open>serverless/api/layout\<close>.  \<open>TileState\<close>: \<^verbatim>\<open>serverless/api/state.go\<close>.
  \<^item> \<open>Merkle\<close>, \<open>MerkleRef\<close>, \<open>NoteLib\<close>, \<open>ProofLib\<close>: RFC 6962 trees as mathematics, the interfaces of the compact
    range, note and proof packages with their laws, and instances that satisfy them.
  \<^item> \<open>LogClient\<close>, \<open>LogClientProofs\<close>: \<^verbatim>\<open>serverless/client/client.go\<close>.
  \<^item> \<open>Integrate\<close>, \<open>TileGood\<close>, \<open>IntegrateProofs\<close>: \<^verbatim>\<open>serverless/pkg/log/integrate.go\<close> over the contract
    \<open>log_storage\<close> of a storage.
  \<^item> \<open>Os\<close>, \<open>FsStorage\<close>, \<open>FsKeys\<close>, \<open>FsTree\<close>, \<open>FsProofs\<close>, \<open>FsStore\<close>, \<open>FsLive\<close>, \<open>FsTheorems\<close>, \<open>FsSequence\<close>:
    \<^verbatim>\<open>serverless/internal/storage/fs/fs.go\<close> over file-system calls any of which may fail; \<open>Examples\<close> has its
    concrete inputs.
  \<^item> \<open>ObjLog\<close>, \<open>WebStorage\<close>, \<open>WebProofs\<close>: \<^verbatim>\<open>serverless/internal/storage/webstorage/fs.go\<close>.  \<open>GcpStorage\<close>, \<open>GcpProofs\<close>:
    \<^verbatim>\<open>serverless/experimental/gcp-log/internal/storage/storage.go\<close>.  \<open>StorageExamples\<close>: their concrete inputs.
  \<^item> \<open>LogTools\<close>, \<open>LogToolsProofs\<close>, \<open>ToolExamples\<close>: \<^verbatim>\<open>serverless/cmd/integrate\<close> and \<^verbatim>\<open>serverless/cmd/sequence\<close>;
    \<open>LogDir\<close>: the log directory as the state the tools share, over any number of their runs.
  \<^item> \<open>ClientTool\<close>, \<open>ClientToolProofs\<close>, \<open>ClientExamples\<close>: \<^verbatim>\<open>serverless/cmd/client\<close>.
  \<^item> \<open>GcpFunction\<close>, \<open>GcpFunctionProofs\<close>, \<open>FunctionExamples\<close>: \<^verbatim>\<open>serverless/experimental/gcp-log/function.go\<close>.
  \<^item> \<open>WitnessStore\<close>, \<open>Witness\<close>, \<open>WitnessProofs\<close>, \<open>WitnessTheorems\<close>: \<^verbatim>\<open>witness/golang/internal/witness\<close> and
    \<^verbatim>\<open>persistence\<close>.  \<open>WitnessHttp\<close>, \<open>WitnessFeed\<close>: its HTTP server and client and \<^verbatim>\<open>internal/feeder/feeder.go\<close>.
  \<^item> \<open>SumDb\<close>: \<^verbatim>\<open>sumdbaudit/client/sumdb.go\<close>.  \<open>Feeders\<close>, \<open>FeedersProofs\<close>, \<open>FeederExamples\<close>: \<^verbatim>\<open>serverless/config\<close>,
    \<^verbatim>\<open>internal/feeder/serverless\<close>, \<^verbatim>\<open>internal/feeder/sumdb\<close> and the adapter of \<^verbatim>\<open>witness/golang/omniwitness\<close>.
  \<^item> \<open>Notes\<close>, \<open>NotesExamples\<close>: \<^verbatim>\<open>internal/note\<close>, \<^verbatim>\<open>formats/checkpoints\<close>, \<^verbatim>\<open>serverless/client/witness\<close>.
  \<^item> \<open>Distributor\<close>, \<open>DistributorProofs\<close>: \<^verbatim>\<open>distributor/cmd/internal/distributor\<close> and the \<^verbatim>\<open>UpdateState\<close> of the
    serverless distributor.
  \<^item> \<open>Clone\<close>, \<open>BulkProofs\<close>, \<open>CloneProofs\<close>, \<open>CloneExamples\<close>: \<^verbatim>\<open>clone/logdb\<close>, \<^verbatim>\<open>clone/internal\<close> and the main functions of
    \<^verbatim>\<open>serverlessclone\<close>, \<^verbatim>\<open>ctclone\<close> and \<^verbatim>\<open>ctverify\<close>.

  \<^bold>\<open>What is shown.\<close>
  \<^item> Integration: for every storage that meets \<open>log_storage\<close>, the tiles refine the list of sequenced entries
    (\<open>log_ready\<close>, \<open>integrated\<close>), errors at any point included; the three storages meet it; on a healthy
    directory integration succeeds and a client of the directory gets proofs that verify.
  \<^item> Sequencing: it always returns, never changes an entry or a tile, gives out the first free number, and on a
    bucket no interleaving of any number of sequencers gives out a number twice.
  \<^item> The tools: the integrate tool publishes only checkpoints whose tree the tiles hold; whatever the tools do
    and whatever fails, a log directory stays one that a client can read (\<open>log_dir\<close>, \<open>tool_step\<close>).
  \<^item> The client tool verifies the inclusion of a published entry in such a directory from its file alone; its exit status 0
    means, for all flags and files, that a proof under a checkpoint of the log was verified; and its cached checkpoint only moves to checkpoints whose growth has been proved consistent.
  \<^item> The cloud functions keep the same invariant of a log in a bucket (\<open>bucket_log\<close>, \<open>function_step\<close>) whatever fails; the
    integrating one panics when there is nothing to integrate.
  \<^item> Client: proofs over good tiles verify, the cache is transparent, the tracker follows a growing log; the
    consistency check of a list of checkpoints skips its last pair.
  \<^item> Witness: under every interleaving of concurrent updates the stored checkpoints form a chain of proved
    consistency, on both persistence layers; what a feeder is told over HTTP is what the witness holds.
  \<^item> Feeders: a witness that is fed from a good log directory, or with compact ranges from the tiles of the Go checksum
    database, follows the log to its last checkpoint (\<open>fed_at\<close>).
  \<^item> Distributor and notes: combined checkpoints have the signatures of exactly the contributing witnesses, and
    every slot of the serverless distributor holds the largest checkpoint with enough of them.
  \<^item> Cloner: under every interleaving of the main loop, the download and its workers, and with a context that may be cancelled at
    any time, all rows of the database are leaves of the log at their index, without gaps if no insert fails; without a
    cancellation the leaves arrive in order and the call returns.  A cancellation can make the download skip leaves without
    an error.  The computed Merkle root is the log's.

  \<^bold>\<open>Bounds and fuel.\<close>  Symbolic links are followed 40 times at most, as the kernel does.  Nothing else
  has fuel: the download and the cloner are step relations with decreasing measures (\<open>Bulk_terminates\<close>, \<open>Clone_terminates\<close>), for
  parameters whose counters do not overflow (\<open>bulk_params\<close>).  Loops that search for a free number are
  shown to return as long as some number is free.  Sizes and indices are 64-bit words throughout.

  \<^bold>\<open>Not modelled.\<close>  Main functions that only parse flags and start servers, the browser page, the feeders of the
  Pixel and Rekor logs, GitHub access, the audit service of the Go checksum database, the firmware transparency demonstration, the batch map pipelines, and third-party code.  A crash in the middle of
  a file-system operation is not modelled either; a failure of each operation is, and a failed write leaves an empty file.
  During one run the servers that a client, feeder or cloner fetches from do not change, and a conditional write to a bucket that reports
  a failed condition has stored nothing.
\<close>

end
